(* ===== verification/Prelude.thy ===== *)
theory Prelude
  imports Complex_Main "HOL-Library.Word" "HOL-Library.AList" "HOL-Library.Char_ord"
    "HOL-Library.List_Lexorder" "HOL-Library.Multiset"
begin

text \<open>
  Shared vocabulary of the Klyro model: byte strings, hash maps as association lists, the
  vector primitives of the Rust standard library the code relies on (\<open>swap_remove\<close>,
  \<open>position\<close>, \<open>insert\<close>, \<open>remove\<close>), bounded integer arithmetic, and the outcome of a
  handler that may panic. The lemma collections \<open>model_simps\<close> (unfolding of small glue
  definitions) and \<open>frame_simps\<close> (what an operation leaves alone) are filled by the
  component theories.
\<close>

named_theorems model_simps \<open>small glue definitions every component proof unfolds\<close>
named_theorems frame_simps \<open>what an operation leaves unchanged\<close>

subsection \<open>Bytes, byte order, time\<close>

text \<open>A Rust \<open>u8\<close> is a \<open>char\<close>, a \<open>Vec<u8>\<close> a char list, ordered lexicographically by
  unsigned byte as \<open>Ord for Vec<u8>\<close> does (\<open>List_Lexorder\<close> over \<open>Char_ord\<close>).\<close>

type_synonym bytes = string

text \<open>Wall-clock instants (\<open>SystemTime\<close>) and monotonic instants (\<open>Instant\<close>) are
  nanoseconds since their epoch.\<close>

type_synonym time = int

abbreviation ord_of :: "char \<Rightarrow> nat" where
  "ord_of \<equiv> of_char"

lemma ord_of_less_256 [simp]: "ord_of c < 256"
  by (metis nat_of_char_less_256)

subsection \<open>The outcome of code that may panic\<close>

datatype 'a outcome = Done 'a | Panicked

subsection \<open>Integers of fixed width, held as \<open>int\<close> with the range checks written out\<close>

definition i64_min :: int where "i64_min = - 9223372036854775808"
definition i64_max :: int where "i64_max = 9223372036854775807"
definition u64_max :: int where "u64_max = 18446744073709551615"

definition in_i64 :: "int \<Rightarrow> bool" where
  "in_i64 n \<longleftrightarrow> i64_min \<le> n \<and> n \<le> i64_max"

text \<open>\<open>n as i64\<close>: the low 64 bits, read in two's complement.\<close>

definition as_i64 :: "int \<Rightarrow> int" where
  "as_i64 n = (n + 9223372036854775808) mod 18446744073709551616 - 9223372036854775808"

definition checked_add :: "int \<Rightarrow> int \<Rightarrow> int option" where
  "checked_add a b = (if in_i64 (a + b) then Some (a + b) else None)"

definition checked_neg :: "int \<Rightarrow> int option" where
  "checked_neg a = (if in_i64 (- a) then Some (- a) else None)"

definition saturating_mul :: "int \<Rightarrow> int \<Rightarrow> int" where
  "saturating_mul a b = max i64_min (min i64_max (a * b))"

lemma saturating_mul_in_i64: "in_i64 (saturating_mul a b)"
  by (simp add: saturating_mul_def in_i64_def i64_min_def i64_max_def)

lemma saturating_mul_exact: "in_i64 (a * b) \<Longrightarrow> saturating_mul a b = a * b"
  by (auto simp: saturating_mul_def in_i64_def)

lemma checked_add_Some [simp]: "checked_add a b = Some c \<longleftrightarrow> c = a + b \<and> in_i64 c"
  by (auto simp: checked_add_def)

subsection \<open>Vectors\<close>

text \<open>\<open>iter().position(p)\<close>: the least index satisfying \<open>p\<close>.\<close>

fun position :: "('a \<Rightarrow> bool) \<Rightarrow> 'a list \<Rightarrow> nat option" where
  "position p [] = None"
| "position p (x # xs) = (if p x then Some 0 else map_option Suc (position p xs))"

lemma position_Some:
  "position p xs = Some i \<longleftrightarrow> i < length xs \<and> p (xs ! i) \<and> (\<forall>j < i. \<not> p (xs ! j))"
proof (induction xs arbitrary: i)
  case Nil
  then show ?case by simp
next
  case (Cons x xs)
  show ?case
    by (cases i) (auto simp: Cons.IH less_Suc_eq_0_disj)
qed

lemma position_None: "position p xs = None \<longleftrightarrow> (\<forall>x \<in> set xs. \<not> p x)"
  by (induction xs) auto

lemma position_less: "position p xs = Some i \<Longrightarrow> i < length xs"
  by (simp add: position_Some)

text \<open>\<open>Vec::remove(i)\<close> and \<open>Vec::insert(i, x)\<close>, which shift the tail.\<close>

definition remove_at :: "nat \<Rightarrow> 'a list \<Rightarrow> 'a list" where
  "remove_at i xs = take i xs @ drop (Suc i) xs"

definition insert_at :: "nat \<Rightarrow> 'a \<Rightarrow> 'a list \<Rightarrow> 'a list" where
  "insert_at i x xs = take i xs @ x # drop i xs"

lemma length_remove_at: "i < length xs \<Longrightarrow> length (remove_at i xs) = length xs - 1"
  by (simp add: remove_at_def)

lemma length_insert_at [simp]: "length (insert_at i x xs) = Suc (length xs)"
  by (simp add: insert_at_def)

lemma set_insert_at [simp]: "set (insert_at i x xs) = insert x (set xs)"
  by (metis Un_insert_right append_take_drop_id insert_at_def list.simps(15) set_append)

lemma mset_insert_at: "mset (insert_at i x xs) = add_mset x (mset xs)"
  by (metis append_take_drop_id insert_at_def mset.simps(2) mset_append union_mset_add_mset_right)

lemma remove_at_split: "i < length xs \<Longrightarrow> xs = take i xs @ xs ! i # drop (Suc i) xs"
  by (simp add: id_take_nth_drop)

lemma mset_remove_at: "i < length xs \<Longrightarrow> mset (remove_at i xs) = mset xs - {#xs ! i#}"
proof -
  assume i: "i < length xs"
  have "mset xs = mset (take i xs @ xs ! i # drop (Suc i) xs)"
    using remove_at_split [OF i] by simp
  then show ?thesis by (simp add: remove_at_def)
qed

text \<open>\<open>Vec::swap_remove(i)\<close>: the last element moves into the hole. Rust panics when \<open>i\<close> is
  out of range; every use in the model is guarded by an invariant that says it is not.\<close>

definition swap_remove :: "nat \<Rightarrow> 'a list \<Rightarrow> 'a list" where
  "swap_remove i xs =
     (if i < length xs then butlast (xs[i := last xs]) else xs)"

lemma length_swap_remove: "i < length xs \<Longrightarrow> length (swap_remove i xs) = length xs - 1"
  by (simp add: swap_remove_def)

lemma nth_swap_remove:
  assumes "i < length xs" and "j < length xs - 1"
  shows "swap_remove i xs ! j = (if j = i then last xs else xs ! j)"
  using assms by (simp add: swap_remove_def nth_butlast)

lemma mset_swap_remove:
  assumes i: "i < length xs"
  shows "mset (swap_remove i xs) = mset xs - {#xs ! i#}"
proof -
  have ne: "xs \<noteq> []" using i by auto
  let ?ys = "xs[i := last xs]"
  have l: "last ?ys = last xs"
    using i ne by (simp add: last_conv_nth nth_list_update)
  have "mset ?ys = add_mset (last xs) (mset xs - {#xs ! i#})"
    using i by (simp add: mset_update)
  moreover have "mset ?ys = add_mset (last ?ys) (mset (butlast ?ys))"
    using ne by (metis append_butlast_last_id list_update_nonempty mset.simps(1,2)
        mset_append union_mset_add_mset_right add.right_neutral)
  ultimately show ?thesis using i l by (simp add: swap_remove_def)
qed

lemma distinct_swap_remove: "distinct xs \<Longrightarrow> distinct (swap_remove i xs)"
  by (cases "i < length xs")
    (metis distinct_count_atmost_1 mset_swap_remove mset_eq_imp_distinct_iff
      distinct_remove1 mset_remove1, simp add: swap_remove_def)

lemma set_swap_remove:
  "distinct xs \<Longrightarrow> i < length xs \<Longrightarrow> set (swap_remove i xs) = set xs - {xs ! i}"
  by (metis mset_eq_setD mset_remove1 mset_swap_remove set_remove1_eq)

subsection \<open>Hash maps\<close>

text \<open>A \<open>HashMap\<close> is an association list with distinct keys. Its order stands for the
  table's unspecified iteration order: every theorem quantifies over the list, so it holds
  for every order in which the table may be walked.\<close>

type_synonym ('k, 'v) hmap = "('k \<times> 'v) list"

abbreviation hm_get :: "('k, 'v) hmap \<Rightarrow> 'k \<Rightarrow> 'v option" where
  "hm_get \<equiv> map_of"

abbreviation hm_insert :: "'k \<Rightarrow> 'v \<Rightarrow> ('k, 'v) hmap \<Rightarrow> ('k, 'v) hmap" where
  "hm_insert \<equiv> AList.update"

abbreviation hm_remove :: "'k \<Rightarrow> ('k, 'v) hmap \<Rightarrow> ('k, 'v) hmap" where
  "hm_remove \<equiv> AList.delete"

abbreviation hm_keys :: "('k, 'v) hmap \<Rightarrow> 'k list" where
  "hm_keys m \<equiv> map fst m"

definition hm_wf :: "('k, 'v) hmap \<Rightarrow> bool" where
  "hm_wf m \<longleftrightarrow> distinct (hm_keys m)"

lemma hm_wf_Nil [simp]: "hm_wf []"
  by (simp add: hm_wf_def)

lemma hm_wf_insert [simp]: "hm_wf m \<Longrightarrow> hm_wf (hm_insert k v m)"
  by (simp add: hm_wf_def distinct_update)

lemma hm_wf_remove [simp]: "hm_wf m \<Longrightarrow> hm_wf (hm_remove k m)"
  by (simp add: hm_wf_def distinct_delete)

lemma hm_wf_filter [simp]: "hm_wf m \<Longrightarrow> hm_wf (filter P m)"
  by (simp add: hm_wf_def distinct_map_filter)

lemma hm_get_insert: "hm_get (hm_insert k v m) k' = (if k' = k then Some v else hm_get m k')"
  by (simp add: update_conv')

lemma hm_get_remove: "hm_get (hm_remove k m) k' = (if k' = k then None else hm_get m k')"
  by (simp add: delete_conv')

lemma hm_get_mem: "hm_wf m \<Longrightarrow> (k, v) \<in> set m \<longleftrightarrow> hm_get m k = Some v"
  by (simp add: hm_wf_def)

lemma length_hm_insert:
  "length (hm_insert k v m) = (if hm_get m k = None then Suc (length m) else length m)"
  by (induction m) auto

lemma set_hm_keys: "set (hm_keys m) = dom (hm_get m)"
  by (simp add: dom_map_of_conv_image_fst)

lemma length_hm: "hm_wf m \<Longrightarrow> length m = card (dom (hm_get m))"
  by (metis distinct_card hm_wf_def length_map set_hm_keys)

lemma hm_get_filter:
  "hm_wf m \<Longrightarrow> hm_get (filter (\<lambda>(k, v). P k v) m) k =
     (case hm_get m k of None \<Rightarrow> None | Some v \<Rightarrow> if P k v then Some v else None)"
proof (induction m)
  case Nil
  then show ?case by simp
next
  case (Cons a m)
  then have "k = fst a \<Longrightarrow> hm_get m k = None"
    by (auto simp: hm_wf_def map_of_eq_None_iff)
  with Cons show ?case
    by (cases a) (auto simp: hm_wf_def split: option.splits)
qed

end
