(* ===== verification/Floats.thy ===== *)
theory Floats
  imports Prelude
begin

text \<open>
  IEEE-754 binary floating point, as Rust's \<open>f64\<close> and \<open>f32\<close> define it. A finite value is
  the rational number it denotes; the two zeros, the infinities and NaN are separate. A format
  is the precision, the exponent of the least unit in the last place and the exponent of the
  greatest. Every operation computes the exact rational result and rounds it once, to nearest
  with ties to even.
\<close>

datatype flt = NaN | PInf | NInf | NZero | Fin rat

type_synonym f64 = flt
type_synonym f32 = flt

record fmt =
  prec :: nat
  emin :: int
  emax :: int

definition F64 :: fmt where "F64 = \<lparr>prec = 53, emin = -1074, emax = 971\<rparr>"
definition F32 :: fmt where "F32 = \<lparr>prec = 24, emin = -149, emax = 104\<rparr>"

subsection \<open>Classification and comparison\<close>

fun is_nan :: "flt \<Rightarrow> bool" where
  "is_nan NaN = True"
| "is_nan _ = False"

fun is_finite :: "flt \<Rightarrow> bool" where
  "is_finite NZero = True"
| "is_finite (Fin _) = True"
| "is_finite _ = False"

fun is_infinite :: "flt \<Rightarrow> bool" where
  "is_infinite PInf = True"
| "is_infinite NInf = True"
| "is_infinite _ = False"

text \<open>The value of a finite float.\<close>

fun fval :: "flt \<Rightarrow> rat" where
  "fval (Fin q) = q"
| "fval _ = 0"

text \<open>\<open>partial_cmp\<close>: \<open>None\<close> when either side is NaN.\<close>

datatype ordering = Less | Equal | Greater

definition cmp_of :: "'a::linorder \<Rightarrow> 'a \<Rightarrow> ordering" where
  "cmp_of a b = (if a < b then Less else if a = b then Equal else Greater)"

fun rank :: "flt \<Rightarrow> int" where
  "rank NInf = -1"
| "rank PInf = 1"
| "rank _ = 0"

definition fless :: "flt \<Rightarrow> flt \<Rightarrow> bool" where
  "fless x y \<longleftrightarrow> \<not> is_nan x \<and> \<not> is_nan y \<and>
     (rank x < rank y \<or> rank x = rank y \<and> fval x < fval y)"

definition feq :: "flt \<Rightarrow> flt \<Rightarrow> bool" where
  "feq x y \<longleftrightarrow> \<not> is_nan x \<and> \<not> is_nan y \<and> rank x = rank y \<and> fval x = fval y"

definition fle :: "flt \<Rightarrow> flt \<Rightarrow> bool" where
  "fle x y \<longleftrightarrow> fless x y \<or> feq x y"

definition partial_cmp :: "flt \<Rightarrow> flt \<Rightarrow> ordering option" where
  "partial_cmp x y =
     (if is_nan x \<or> is_nan y then None
      else Some (if fless x y then Less else if feq x y then Equal else Greater))"

lemma fless_irrefl [simp]: "\<not> fless x x"
  by (simp add: fless_def)

lemma fless_trans: "fless x y \<Longrightarrow> fless y z \<Longrightarrow> fless x z"
  by (auto simp: fless_def)

lemma feq_refl [simp]: "\<not> is_nan x \<Longrightarrow> feq x x"
  by (simp add: feq_def)

lemma feq_sym: "feq x y \<longleftrightarrow> feq y x"
  by (auto simp: feq_def)

lemma fle_refl [simp]: "\<not> is_nan x \<Longrightarrow> fle x x"
  by (simp add: fle_def)

lemma fle_trans: "fle x y \<Longrightarrow> fle y z \<Longrightarrow> fle x z"
  by (auto simp: fle_def fless_def feq_def)

lemma fless_linear: "\<not> is_nan x \<Longrightarrow> \<not> is_nan y \<Longrightarrow> fless x y \<or> feq x y \<or> fless y x"
  by (auto simp: fless_def feq_def)

lemma not_fless: "\<not> is_nan x \<Longrightarrow> \<not> is_nan y \<Longrightarrow> \<not> fless x y \<longleftrightarrow> fle y x"
  by (auto simp: fle_def fless_def feq_def)

lemma fless_not_feq: "fless x y \<Longrightarrow> \<not> feq x y"
  by (auto simp: fless_def feq_def)

subsection \<open>Rounding\<close>

fun bitlen :: "nat \<Rightarrow> nat" where
  "bitlen n = (if n = 0 then 0 else Suc (bitlen (n div 2)))"

declare bitlen.simps [simp del]

definition pow2 :: "int \<Rightarrow> rat" where
  "pow2 k = (if 0 \<le> k then 2 ^ nat k else 1 / 2 ^ nat (- k))"

text \<open>The \<open>k\<close> with \<open>2^k \<le> q < 2^(k+1)\<close>, for a positive rational.\<close>

definition ilog2 :: "rat \<Rightarrow> int" where
  "ilog2 q =
     (let (n, d) = quotient_of q;
          k = int (bitlen (nat n)) - int (bitlen (nat d))
      in if pow2 k \<le> q then k else k - 1)"

definition round_half_even :: "rat \<Rightarrow> int" where
  "round_half_even q =
     (let m = \<lfloor>q\<rfloor>; r = q - of_int m
      in if r < 1/2 then m else if 1/2 < r then m + 1 else if even m then m else m + 1)"

text \<open>Rounds an exact positive value: the unit in the last place is \<open>2^u\<close>.\<close>

definition round_pos :: "fmt \<Rightarrow> rat \<Rightarrow> rat option" where
  "round_pos F q =
     (let u = max (emin F) (ilog2 q - int (prec F) + 1);
          m = round_half_even (q / pow2 u);
          v = of_int m * pow2 u
      in if v < pow2 (emax F + int (prec F)) then Some v else None)"

text \<open>\<open>round_to F neg q\<close>: the float nearest to \<open>q\<close>; \<open>neg\<close> is the sign given to a zero.\<close>

definition round_to :: "fmt \<Rightarrow> bool \<Rightarrow> rat \<Rightarrow> flt" where
  "round_to F neg q =
     (if q = 0 then (if neg then NZero else Fin 0)
      else case round_pos F \<bar>q\<bar> of
             None \<Rightarrow> (if q < 0 then NInf else PInf)
           | Some v \<Rightarrow> (if v = 0 then (if q < 0 then NZero else Fin 0)
                       else Fin (if q < 0 then - v else v)))"

text \<open>A rational is a value of the format when it is an integer multiple, of at most
  \<open>prec\<close> bits, of a power of two in range.\<close>

definition representable :: "fmt \<Rightarrow> rat \<Rightarrow> bool" where
  "representable F q \<longleftrightarrow>
     (\<exists>m u. q = of_int m * pow2 u \<and> \<bar>m\<bar> < 2 ^ prec F \<and> emin F \<le> u \<and> u \<le> emax F)"

fun flt_wf :: "fmt \<Rightarrow> flt \<Rightarrow> bool" where
  "flt_wf F (Fin q) \<longleftrightarrow> representable F q"
| "flt_wf F _ \<longleftrightarrow> True"

lemma pow2_pos [simp]: "0 < pow2 k"
  by (simp add: pow2_def)

lemma pow2_nonzero [simp]: "pow2 k \<noteq> 0"
  by (simp add: pow2_def)

lemma not_pow2_neg [simp]: "\<not> pow2 k < 0"
  by (simp add: pow2_def)

lemma pow2_powi: "pow2 k = 2 powi k"
  by (simp add: pow2_def power_int_def field_simps)

lemma pow2_add: "pow2 (a + b) = pow2 a * pow2 b"
  by (simp add: pow2_powi power_int_add)

lemma pow2_mono: "a \<le> b \<Longrightarrow> pow2 a \<le> pow2 b"
  by (simp add: pow2_powi power_int_increasing)

lemma pow2_less: "pow2 a < pow2 b \<Longrightarrow> a < b"
  using pow2_mono [of b a] by (meson leD leI)

lemma pow2_of_nat: "pow2 (int n) = 2 ^ n"
  by (simp add: pow2_def)

lemma bitlen_bounds: "0 < n \<Longrightarrow> 2 ^ (bitlen n - 1) \<le> n \<and> n < 2 ^ bitlen n"
proof (induction n rule: bitlen.induct)
  case (1 n)
  show ?case
  proof (cases "n < 2")
    case True
    with "1.prems" have "n = 1" by simp
    then show ?thesis by (simp add: bitlen.simps)
  next
    case False
    then have h: "0 < n div 2" by simp
    with "1.IH" "1.prems" have IH: "2 ^ (bitlen (n div 2) - 1) \<le> n div 2"
        "n div 2 < 2 ^ bitlen (n div 2)"
      by auto
    from h have "0 < bitlen (n div 2)" by (simp add: bitlen.simps [of "n div 2"])
    then have "2 ^ bitlen (n div 2) = 2 * (2::nat) ^ (bitlen (n div 2) - 1)"
      by (simp flip: power_Suc)
    with IH False have "2 ^ bitlen (n div 2) \<le> n" "n < 2 * 2 ^ bitlen (n div 2)"
      by linarith+
    with False show ?thesis
      by (subst (1 2) bitlen.simps) auto
  qed
qed

lemma ilog2_le:
  assumes "0 < q"
  shows "pow2 (ilog2 q) \<le> q"
proof -
  obtain n d where nd: "quotient_of q = (n, d)" by fastforce
  then have q: "q = of_int n / of_int d" and d: "0 < d"
    by (simp_all add: quotient_of_div quotient_of_denom_pos)
  with assms have n: "0 < n" by (simp add: zero_less_divide_iff)
  define k where "k = int (bitlen (nat n)) - int (bitlen (nat d))"
  show ?thesis
  proof (cases "pow2 k \<le> q")
    case True
    then show ?thesis by (simp add: ilog2_def nd k_def [symmetric])
  next
    case False
    have "0 < bitlen (nat n)" using n by (simp add: bitlen.simps)
    then have "pow2 (k - 1) = 2 ^ (bitlen (nat n) - 1) / 2 ^ bitlen (nat d)"
      by (simp add: k_def pow2_powi power_int_diff of_nat_diff flip: power_int_of_nat)
    also have "\<dots> \<le> of_nat (nat n) / of_nat (nat d)"
    proof (rule frac_le)
      show "(2::rat) ^ (bitlen (nat n) - 1) \<le> of_nat (nat n)"
        using bitlen_bounds [of "nat n"] n by (metis of_nat_le_iff of_nat_numeral of_nat_power zero_less_nat_eq)
      show "of_nat (nat d) \<le> (2::rat) ^ bitlen (nat d)"
        using bitlen_bounds [of "nat d"] d
        by (metis less_imp_le of_nat_le_iff of_nat_numeral of_nat_power zero_less_nat_eq)
    qed (use n d in auto)
    also have "\<dots> = q" using q n d by simp
    finally show ?thesis using False by (simp add: ilog2_def nd k_def [symmetric])
  qed
qed

lemma round_half_even_int [simp]: "round_half_even (of_int m) = m"
  by (simp add: round_half_even_def)

text \<open>Rounding leaves a value of the format alone.\<close>

lemma round_pos_exact:
  assumes "representable F q" and "0 < q"
  shows "round_pos F q = Some q"
proof -
  from assms(1) obtain m u where q: "q = of_int m * pow2 u" and m: "\<bar>m\<bar> < 2 ^ prec F"
    and u: "emin F \<le> u" "u \<le> emax F"
    by (auto simp: representable_def)
  have mpos: "0 < m" using assms(2) q by (simp add: zero_less_mult_iff)
  have "(of_int m :: rat) < 2 ^ prec F"
    using m mpos by (metis abs_of_pos of_int_less_iff of_int_numeral of_int_power)
  then have lt: "q < pow2 (u + int (prec F))"
    by (simp add: q pow2_add pow2_of_nat)
  define w where "w = max (emin F) (ilog2 q - int (prec F) + 1)"
  have "pow2 (ilog2 q) < pow2 (u + int (prec F))"
    using ilog2_le [OF assms(2)] lt by simp
  then have "w \<le> u" using u(1) by (auto simp: w_def dest: pow2_less)
  then have "pow2 u = pow2 w * 2 ^ nat (u - w)"
    using pow2_add [of w "u - w"] by (simp add: pow2_def [of "u - w"])
  then have "q / pow2 w = of_int (m * 2 ^ nat (u - w))"
    by (simp add: q)
  then have r: "of_int (round_half_even (q / pow2 w)) * pow2 w = q"
    by (metis nonzero_divide_eq_eq pow2_nonzero round_half_even_int)
  have "q < pow2 (emax F + int (prec F))"
    using lt u(2) pow2_mono [of "u + int (prec F)" "emax F + int (prec F)"] by simp
  then show ?thesis
    using r by (simp add: round_pos_def w_def [symmetric] Let_def)
qed

lemma representable_uminus [simp]: "representable F (- q) \<longleftrightarrow> representable F q"
proof -
  have "representable F q \<Longrightarrow> representable F (- q)" for q
    unfolding representable_def by (metis abs_minus_cancel minus_mult_left of_int_minus)
  then show ?thesis by (metis minus_minus)
qed

lemma round_to_exact: "representable F q \<Longrightarrow> q \<noteq> 0 \<Longrightarrow> round_to F neg q = Fin q"
  by (cases "q < 0") (auto simp: round_to_def round_pos_exact not_less)

lemma round_to_not_nan [simp]: "round_to F neg q \<noteq> NaN"
  by (simp add: round_to_def split: option.splits)

subsection \<open>Arithmetic\<close>

fun fneg_sign :: "flt \<Rightarrow> bool" where
  "fneg_sign NInf = True"
| "fneg_sign NZero = True"
| "fneg_sign (Fin q) = (q < 0)"
| "fneg_sign _ = False"

fun fadd :: "fmt \<Rightarrow> flt \<Rightarrow> flt \<Rightarrow> flt" where
  "fadd F NaN y = NaN"
| "fadd F x NaN = NaN"
| "fadd F PInf NInf = NaN"
| "fadd F NInf PInf = NaN"
| "fadd F PInf y = PInf"
| "fadd F NInf y = NInf"
| "fadd F x PInf = PInf"
| "fadd F x NInf = NInf"
| "fadd F NZero NZero = NZero"
| "fadd F x y = round_to F False (fval x + fval y)"

fun fneg :: "flt \<Rightarrow> flt" where
  "fneg NaN = NaN"
| "fneg PInf = NInf"
| "fneg NInf = PInf"
| "fneg NZero = Fin 0"
| "fneg (Fin q) = (if q = 0 then NZero else Fin (- q))"

definition fmul :: "fmt \<Rightarrow> flt \<Rightarrow> flt \<Rightarrow> flt" where
  "fmul F x y =
     (let neg = (fneg_sign x \<noteq> fneg_sign y)
      in if is_nan x \<or> is_nan y then NaN
         else if is_infinite x \<or> is_infinite y then
           (if is_finite x \<and> fval x = 0 \<or> is_finite y \<and> fval y = 0 then NaN
            else if neg then NInf else PInf)
         else round_to F neg (fval x * fval y))"

definition fdiv :: "fmt \<Rightarrow> flt \<Rightarrow> flt \<Rightarrow> flt" where
  "fdiv F x y =
     (let neg = (fneg_sign x \<noteq> fneg_sign y)
      in if is_nan x \<or> is_nan y then NaN
         else if is_infinite x then
           (if is_infinite y then NaN else if neg then NInf else PInf)
         else if is_infinite y then (if neg then NZero else Fin 0)
         else if fval y = 0 then
           (if fval x = 0 then NaN else if neg then NInf else PInf)
         else round_to F neg (fval x / fval y))"

text \<open>\<open>f64::max\<close>: the other operand when one is NaN.\<close>

definition fmax :: "flt \<Rightarrow> flt \<Rightarrow> flt" where
  "fmax x y = (if is_nan x then y else if is_nan y then x else if fless x y then y else x)"

text \<open>\<open>n as f64\<close>.\<close>

definition of_nat_flt :: "fmt \<Rightarrow> nat \<Rightarrow> flt" where
  "of_nat_flt F n = round_to F False (of_nat n)"

text \<open>Square root, correctly rounded: the root is taken to one unit in the last place of the
  result and the remainder decides the rounding. An exact tie cannot be a root of a value of
  the format, so the comparison with the midpoint settles it.\<close>

fun isqrt :: "nat \<Rightarrow> nat" where
  "isqrt n =
     (if n = 0 then 0
      else (let r = 2 * isqrt (n div 4) in if (r + 1) * (r + 1) \<le> n then r + 1 else r))"

declare isqrt.simps [simp del]

definition sqrt_pos :: "fmt \<Rightarrow> rat \<Rightarrow> rat" where
  "sqrt_pos F q =
     (let u = max (emin F) (ilog2 q div 2 - int (prec F) + 1);
          x = q / (pow2 u * pow2 u);
          m = isqrt (nat \<lfloor>x\<rfloor>);
          half = (of_nat m + 1/2) * (of_nat m + 1/2)
      in if half < x then of_nat (m + 1) * pow2 u else of_nat m * pow2 u)"

fun fsqrt :: "fmt \<Rightarrow> flt \<Rightarrow> flt" where
  "fsqrt F NaN = NaN"
| "fsqrt F PInf = PInf"
| "fsqrt F NInf = NaN"
| "fsqrt F NZero = NZero"
| "fsqrt F (Fin q) = (if q = 0 then Fin 0 else if q < 0 then NaN else Fin (sqrt_pos F q))"

lemma isqrt_bounds: "isqrt n * isqrt n \<le> n \<and> n < (isqrt n + 1) * (isqrt n + 1)"
proof (induction n rule: isqrt.induct)
  case (1 n)
  show ?case
  proof (cases "n = 0")
    case True
    then show ?thesis by (simp add: isqrt.simps)
  next
    case False
    let ?r = "isqrt (n div 4)"
    have IH: "?r * ?r \<le> n div 4" "n div 4 < (?r + 1) * (?r + 1)"
      using "1.IH" [OF False] by auto
    have "4 * (?r * ?r) \<le> n" using IH(1) by linarith
    moreover have "n < 4 * ((?r + 1) * (?r + 1))" using IH(2) by linarith
    moreover have "isqrt n = (if (2 * ?r + 1) * (2 * ?r + 1) \<le> n then 2 * ?r + 1 else 2 * ?r)"
      using False by (subst isqrt.simps) (simp add: Let_def)
    ultimately show ?thesis by (auto simp: algebra_simps)
  qed
qed

text \<open>\<open>iter().sum::<f32>()\<close> starts from \<open>-0.0\<close> and adds in order.\<close>

definition fsum :: "fmt \<Rightarrow> flt list \<Rightarrow> flt" where
  "fsum F xs = foldl (fadd F) NZero xs"

definition fsub :: "fmt \<Rightarrow> flt \<Rightarrow> flt \<Rightarrow> flt" where
  "fsub F x y = fadd F x (fneg y)"

subsection \<open>Faster evaluation\<close>

text \<open>Bit lengths and powers of two over binary integers, for the code generator.\<close>

fun ibitlen :: "int \<Rightarrow> int" where
  "ibitlen n = (if n \<le> 0 then 0 else 1 + ibitlen (n div 2))"

declare ibitlen.simps [simp del]

lemma ibitlen_nat: "int (bitlen (nat n)) = ibitlen n"
proof (induction n rule: ibitlen.induct)
  case (1 n)
  show ?case
  proof (cases "n \<le> 0")
    case False
    then have "nat n div 2 = nat (n div 2)" by (simp add: nat_div_distrib)
    with 1 False show ?thesis
      by (subst bitlen.simps, subst ibitlen.simps) simp
  qed (simp add: bitlen.simps ibitlen.simps)
qed

lemma ilog2_code [code]:
  "ilog2 q =
     (let (n, d) = quotient_of q; k = ibitlen n - ibitlen d in if pow2 k \<le> q then k else k - 1)"
  by (simp add: ilog2_def ibitlen_nat)

lemma pow2_code [code]:
  "pow2 k = (if 0 \<le> k then of_int (push_bit (nat k) 1) else 1 / of_int (push_bit (nat (- k)) 1))"
  by (simp add: pow2_def push_bit_eq_mult)

end
