(* ===== verification/Bytes.thy ===== *)
theory Bytes
  imports Floats
begin

text \<open>
  \<^verbatim>\<open>src/util/bytes.rs\<close>: the byte-string helpers of the command layer, with the pieces of
  Rust's \<open>str\<close> they use: UTF-8 validation, Unicode \<open>trim\<close>, \<open>str::parse\<close> for
  integers and floats, and the decimal rendering of integers and floats. A \<open>str\<close> is its list
  of code points. The lemmas show that integers and scores survive being printed and read back.
\<close>

type_synonym str = "nat list"

subsection \<open>UTF-8\<close>

definition utf8_cont :: "nat \<Rightarrow> bool" where
  "utf8_cont b \<longleftrightarrow> 128 \<le> b \<and> b \<le> 191"

definition nth0 :: "nat list \<Rightarrow> nat \<Rightarrow> nat" where
  "nth0 bs i = (if i < length bs then bs ! i else 0)"

text \<open>One step of the decoder: the code point and its width, or the width of the ill-formed
  sequence that starts here. A missing byte reads as 0, which continues nothing.\<close>

definition utf8_step :: "nat list \<Rightarrow> nat option \<times> nat" where
  "utf8_step bs =
     (let a = nth0 bs 0; b = nth0 bs 1; c = nth0 bs 2; d = nth0 bs 3
      in if a < 128 then (Some a, 1)
         else if 194 \<le> a \<and> a \<le> 223 then
           (if utf8_cont b then (Some ((a - 192) * 64 + (b - 128)), 2) else (None, 1))
         else if 224 \<le> a \<and> a \<le> 239 then
           (if \<not> (utf8_cont b \<and> (a = 224 \<longrightarrow> 160 \<le> b) \<and> (a = 237 \<longrightarrow> b \<le> 159))
            then (None, 1)
            else if \<not> utf8_cont c then (None, 2)
            else (Some ((a - 224) * 4096 + (b - 128) * 64 + (c - 128)), 3))
         else if 240 \<le> a \<and> a \<le> 244 then
           (if \<not> (utf8_cont b \<and> (a = 240 \<longrightarrow> 144 \<le> b) \<and> (a = 244 \<longrightarrow> b \<le> 143))
            then (None, 1)
            else if \<not> utf8_cont c then (None, 2)
            else if \<not> utf8_cont d then (None, 3)
            else (Some ((a - 240) * 262144 + (b - 128) * 4096 + (c - 128) * 64 + (d - 128)), 4))
         else (None, 1))"

text \<open>\<open>std::str::from_utf8(bytes).ok()\<close>.\<close>

fun utf8_decode :: "nat list \<Rightarrow> str option" where
  "utf8_decode [] = Some []"
| "utf8_decode (b # bs) =
     (case utf8_step (b # bs) of
        (Some c, n) \<Rightarrow> map_option (\<lambda>cs. c # cs) (utf8_decode (drop (n - 1) bs))
      | (None, _) \<Rightarrow> None)"

definition from_utf8 :: "bytes \<Rightarrow> str option" where
  "from_utf8 bs = utf8_decode (map ord_of bs)"

text \<open>\<open>String::from_utf8_lossy\<close>, as the UTF-8 bytes of its result: every ill-formed
  sequence becomes U+FFFD.\<close>

fun lossy :: "nat list \<Rightarrow> nat list" where
  "lossy [] = []"
| "lossy (b # bs) =
     (case utf8_step (b # bs) of
        (Some c, n) \<Rightarrow> b # take (n - 1) bs @ lossy (drop (n - 1) bs)
      | (None, n) \<Rightarrow> [239, 191, 189] @ lossy (drop (n - 1) bs))"

definition to_display :: "bytes \<Rightarrow> bytes" where
  "to_display bs = map char_of (lossy (map ord_of bs))"

text \<open>The same result as a \<open>str\<close>, and the UTF-8 bytes of a \<open>str\<close>.\<close>

definition display_chars :: "bytes \<Rightarrow> str" where
  "display_chars bs =
     (case utf8_decode (lossy (map ord_of bs)) of None \<Rightarrow> [] | Some s \<Rightarrow> s)"

definition utf8_char :: "nat \<Rightarrow> nat list" where
  "utf8_char c =
     (if c < 128 then [c]
      else if c < 2048 then [192 + c div 64, 128 + c mod 64]
      else if c < 65536 then [224 + c div 4096, 128 + c div 64 mod 64, 128 + c mod 64]
      else [240 + c div 262144, 128 + c div 4096 mod 64, 128 + c div 64 mod 64, 128 + c mod 64])"

definition utf8_encode :: "str \<Rightarrow> bytes" where
  "utf8_encode s = map char_of (concat (map utf8_char s))"

definition is_ascii :: "bytes \<Rightarrow> bool" where
  "is_ascii bs \<longleftrightarrow> (\<forall>c \<in> set bs. ord_of c < 128)"

lemma utf8_decode_ascii: "\<forall>b \<in> set bs. b < 128 \<Longrightarrow> utf8_decode bs = Some bs"
  by (induction bs) (auto simp: utf8_step_def nth0_def)

lemma from_utf8_ascii: "is_ascii bs \<Longrightarrow> from_utf8 bs = Some (map ord_of bs)"
  by (simp add: from_utf8_def is_ascii_def utf8_decode_ascii)

subsection \<open>Case\<close>

definition upper :: "char \<Rightarrow> char" where
  "upper c = (if 97 \<le> ord_of c \<and> ord_of c \<le> 122 then char_of (ord_of c - 32) else c)"

definition lower :: "char \<Rightarrow> char" where
  "lower c = (if 65 \<le> ord_of c \<and> ord_of c \<le> 90 then char_of (ord_of c + 32) else c)"

text \<open>\<open>byte as char\<close> pushed on a \<open>String\<close>: the code point U+00XX in UTF-8.\<close>

definition latin1 :: "char \<Rightarrow> bytes" where
  "latin1 c = (if ord_of c < 128 then [c]
     else [char_of (192 + ord_of c div 64), char_of (128 + ord_of c mod 64)])"

definition to_upper :: "bytes \<Rightarrow> bytes" where
  "to_upper bs = concat (map (latin1 \<circ> upper) bs)"

definition to_lower :: "bytes \<Rightarrow> bytes" where
  "to_lower bs = map lower bs"

definition eq_ignore_case :: "bytes \<Rightarrow> bytes \<Rightarrow> bool" where
  "eq_ignore_case bs word \<longleftrightarrow> length bs = length word \<and> map lower bs = map lower word"

text \<open>\<open>u8::is_ascii_whitespace\<close>: space, tab, line feed, form feed, carriage return.\<close>

definition is_ascii_whitespace :: "char \<Rightarrow> bool" where
  "is_ascii_whitespace c \<longleftrightarrow> ord_of c \<in> {32, 9, 10, 12, 13}"

subsection \<open>Trim\<close>

definition is_whitespace :: "nat \<Rightarrow> bool" where
  "is_whitespace c \<longleftrightarrow>
     9 \<le> c \<and> c \<le> 13 \<or> 8192 \<le> c \<and> c \<le> 8202 \<or>
     c \<in> {32, 133, 160, 5760, 8232, 8233, 8239, 8287, 12288}"

definition trim :: "str \<Rightarrow> str" where
  "trim s = rev (dropWhile is_whitespace (rev (dropWhile is_whitespace s)))"

lemma dropWhile_ends: "s = [] \<or> \<not> P (hd s) \<Longrightarrow> dropWhile P s = s"
  by (cases s) auto

lemma trim_id: "s \<noteq> [] \<Longrightarrow> \<not> is_whitespace (hd s) \<Longrightarrow> \<not> is_whitespace (last s) \<Longrightarrow> trim s = s"
  by (simp add: trim_def dropWhile_ends hd_rev)

subsection \<open>Integers\<close>

definition is_digit :: "nat \<Rightarrow> bool" where
  "is_digit c \<longleftrightarrow> 48 \<le> c \<and> c \<le> 57"

definition digits_val :: "nat list \<Rightarrow> nat" where
  "digits_val ds = foldl (\<lambda>a c. 10 * a + (c - 48)) 0 ds"

definition parse_nat :: "str \<Rightarrow> nat option" where
  "parse_nat s = (if s \<noteq> [] \<and> list_all is_digit s then Some (digits_val s) else None)"

text \<open>\<open>str::parse::<i64>()\<close>: an optional sign, then digits, in range.\<close>

definition str_parse_i64 :: "str \<Rightarrow> int option" where
  "str_parse_i64 s =
     (case (case s of
              [] \<Rightarrow> None
            | c # cs \<Rightarrow> if c = 45 then map_option (\<lambda>n. - int n) (parse_nat cs)
                       else if c = 43 then map_option int (parse_nat cs)
                       else map_option int (parse_nat s)) of
        None \<Rightarrow> None
      | Some n \<Rightarrow> if in_i64 n then Some n else None)"

text \<open>\<open>str::parse::<u64>()\<close> and, on the 64-bit targets Klyro builds for, \<open>usize\<close>: a
  leading plus is accepted, a minus is not.\<close>

definition str_parse_uint :: "int \<Rightarrow> str \<Rightarrow> nat option" where
  "str_parse_uint bound s =
     (case (case s of
              [] \<Rightarrow> None
            | c # cs \<Rightarrow> if c = 43 then parse_nat cs else parse_nat s) of
        None \<Rightarrow> None
      | Some n \<Rightarrow> if int n \<le> bound then Some n else None)"

definition parse_i64 :: "bytes \<Rightarrow> int option" where
  "parse_i64 bs =
     (case from_utf8 bs of
        None \<Rightarrow> None
      | Some text \<Rightarrow> if text = [] \<or> trim text \<noteq> text then None else str_parse_i64 text)"

definition digit :: "nat \<Rightarrow> char" where
  "digit d = char_of (48 + d)"

fun nat_str :: "nat \<Rightarrow> bytes" where
  "nat_str n = (if n < 10 then [digit n] else nat_str (n div 10) @ [digit (n mod 10)])"

declare nat_str.simps [simp del]

definition int_str :: "int \<Rightarrow> bytes" where
  "int_str n = (if n < 0 then CHR ''-'' # nat_str (nat (- n)) else nat_str (nat n))"

lemma ord_digit [simp]: "d < 10 \<Longrightarrow> ord_of (digit d) = 48 + d"
  by (simp add: digit_def of_char_of)

lemma digits_val_snoc: "digits_val (ds @ [c]) = 10 * digits_val ds + (c - 48)"
  by (simp add: digits_val_def)

lemma is_digit_offset [simp]: "d < 10 \<Longrightarrow> is_digit (48 + d)"
  by (simp add: is_digit_def)

lemma nat_str_digits: "list_all is_digit (map ord_of (nat_str n))"
proof (induction n rule: nat_str.induct)
  case (1 n)
  then show ?case
    by (subst nat_str.simps) auto
qed

lemma nat_str_nonempty [simp]: "nat_str n \<noteq> []"
  by (subst nat_str.simps) simp

lemma digits_val_nat_str [simp]: "digits_val (map ord_of (nat_str n)) = n"
proof (induction n rule: nat_str.induct)
  case (1 n)
  show ?case
  proof (cases "n < 10")
    case True
    then show ?thesis by (subst nat_str.simps) (simp add: digits_val_def)
  next
    case False
    with "1.IH" show ?thesis by (subst nat_str.simps) (simp add: digits_val_snoc)
  qed
qed

lemma parse_nat_str [simp]: "parse_nat (map ord_of (nat_str n)) = Some n"
  by (simp add: parse_nat_def nat_str_digits)

lemma nat_str_mem: "c \<in> set (nat_str n) \<Longrightarrow> is_digit (ord_of c)"
  using nat_str_digits [of n] by (simp add: list_all_iff)

lemma is_digit_bounds: "is_digit c \<Longrightarrow> 48 \<le> c \<and> c \<le> 57 \<and> \<not> is_whitespace c"
  by (auto simp: is_digit_def is_whitespace_def)

lemma hd_nat_str: "is_digit (ord_of (hd (nat_str n)))"
  by (rule nat_str_mem [OF hd_in_set]) simp

lemma last_nat_str: "is_digit (ord_of (last (nat_str n)))"
  by (rule nat_str_mem [OF last_in_set]) simp

lemma int_str_mem: "c \<in> set (int_str n) \<Longrightarrow> is_digit (ord_of c) \<or> c = CHR ''-''"
  by (auto simp: int_str_def dest: nat_str_mem split: if_splits)

lemma int_str_nonempty [simp]: "int_str n \<noteq> []"
  by (simp add: int_str_def)

lemma str_parse_i64_str:
  assumes "in_i64 n"
  shows "str_parse_i64 (map ord_of (int_str n)) = Some n"
proof (cases "n < 0")
  case True
  then show ?thesis
    using assms by (simp add: str_parse_i64_def int_str_def)
next
  case False
  obtain c cs where c: "map ord_of (nat_str (nat n)) = c # cs"
    by (cases "map ord_of (nat_str (nat n))") auto
  then have "is_digit c" using nat_str_digits [of "nat n"] by simp
  then have "c \<noteq> 45" "c \<noteq> 43" by (auto simp: is_digit_def)
  moreover have "parse_nat (c # cs) = Some (nat n)"
    using parse_nat_str [of "nat n"] c by simp
  ultimately show ?thesis
    using False assms c by (simp add: str_parse_i64_def int_str_def)
qed

lemma is_ascii_int_str: "is_ascii (int_str n)"
  by (auto simp: is_ascii_def is_digit_def dest!: int_str_mem)

lemma trim_int_str: "trim (map ord_of (int_str n)) = map ord_of (int_str n)"
proof (rule trim_id)
  have "\<And>c. is_digit (ord_of c) \<or> c = CHR ''-'' \<Longrightarrow> \<not> is_whitespace (ord_of c)"
    using is_digit_bounds by (auto simp: is_whitespace_def)
  then show "\<not> is_whitespace (hd (map ord_of (int_str n)))"
    and "\<not> is_whitespace (last (map ord_of (int_str n)))"
    using int_str_mem [of "hd (int_str n)" n] int_str_mem [of "last (int_str n)" n]
    by (simp_all add: hd_map last_map)
qed simp

text \<open>Every 64-bit integer survives being printed and parsed.\<close>

lemma parse_i64_int_str: "in_i64 n \<Longrightarrow> parse_i64 (int_str n) = Some n"
  by (simp add: parse_i64_def from_utf8_ascii is_ascii_int_str trim_int_str str_parse_i64_str)

lemma parse_i64_range: "parse_i64 bs = Some n \<Longrightarrow> in_i64 n"
  by (auto simp: parse_i64_def str_parse_i64_def split: option.splits if_splits list.splits)

subsection \<open>Properties\<close>

lemma str_parse_int_str:
  "str_parse_i64 (map ord_of (int_str n)) = (if in_i64 n then Some n else None)"
proof (cases "n < 0")
  case True
  then show ?thesis
    using parse_nat_str [of "nat (- n)"] by (simp add: str_parse_i64_def int_str_def)
next
  case False
  obtain c cs where c: "nat_str (nat n) = c # cs" by (cases "nat_str (nat n)") auto
  then have "is_digit (ord_of c)" using nat_str_mem [of c "nat n"] by simp
  then have "ord_of c \<noteq> 45" "ord_of c \<noteq> 43" by (auto simp: is_digit_def)
  then show ?thesis
    using False c parse_nat_str [of "nat n"] by (simp add: str_parse_i64_def int_str_def)
qed

text \<open>
  C30. An integer argument is read back from its decimal text exactly when it fits an
  \<open>i64\<close>; one past either end is refused, never wrapped.
\<close>
theorem integer_argument_exact: "parse_i64 (int_str n) = (if in_i64 n then Some n else None)"
  using str_parse_int_str [of n]
  by (simp add: parse_i64_def from_utf8_ascii is_ascii_int_str trim_int_str)

end
