(* ===== verification/FloatText.thy ===== *)
theory FloatText
  imports Bytes
begin

text \<open>
  Floats as text: \<open>str::parse::<f64>()\<close> with the checks of \<open>parse_f64\<close>, and the
  shortest decimal form that \<open>Display\<close> prints, which \<open>format_f64\<close> uses
  (\<^verbatim>\<open>src/util/bytes.rs\<close>). The main lemma is that a value of the format survives
  being printed and parsed.
\<close>

definition pow10 :: "int \<Rightarrow> rat" where
  "pow10 k = (if 0 \<le> k then 10 ^ nat k else 1 / 10 ^ nat (- k))"

subsection \<open>Parsing\<close>

definition lower_cp :: "nat \<Rightarrow> nat" where
  "lower_cp c = (if 65 \<le> c \<and> c \<le> 90 then c + 32 else c)"

definition parse_exponent :: "str \<Rightarrow> int option" where
  "parse_exponent s =
     (case s of
        [] \<Rightarrow> Some 0
      | c # cs \<Rightarrow>
          if c = 101 \<or> c = 69 then
            (case cs of
               [] \<Rightarrow> None
             | d # ds \<Rightarrow> if d = 45 then map_option (\<lambda>n. - int n) (parse_nat ds)
                        else if d = 43 then map_option int (parse_nat ds)
                        else map_option int (parse_nat cs))
          else None)"

text \<open>\<open>Digit+ | Digit+ . Digit* | Digit* . Digit+\<close>, then an optional exponent.\<close>

definition parse_number :: "str \<Rightarrow> rat option" where
  "parse_number s =
     (let ip = takeWhile is_digit s; r = dropWhile is_digit s;
          (fp, r') = (case r of
                        [] \<Rightarrow> ([], [])
                      | c # cs \<Rightarrow> if c = 46 then (takeWhile is_digit cs, dropWhile is_digit cs)
                                 else ([], r))
      in if ip = [] \<and> fp = [] then None
         else map_option (\<lambda>e. of_nat (digits_val (ip @ fp)) * pow10 (e - int (length fp)))
                (parse_exponent r'))"

definition str_parse_float :: "fmt \<Rightarrow> str \<Rightarrow> flt option" where
  "str_parse_float F s =
     (case (case s of
              [] \<Rightarrow> (False, [])
            | c # cs \<Rightarrow> if c = 45 then (True, cs) else if c = 43 then (False, cs) else (False, s)) of
        (neg, t) \<Rightarrow>
          (let w = map lower_cp t
           in if w = map ord_of ''inf'' \<or> w = map ord_of ''infinity'' then
                Some (if neg then NInf else PInf)
              else if w = map ord_of ''nan'' then Some NaN
              else map_option (\<lambda>q. round_to F neg (if neg then - q else q)) (parse_number t)))"

definition parse_f64 :: "bytes \<Rightarrow> f64 option" where
  "parse_f64 bs =
     (case from_utf8 bs of
        None \<Rightarrow> None
      | Some text \<Rightarrow>
          if text = [] \<or> trim text \<noteq> text then None
          else (case str_parse_float F64 text of
                  None \<Rightarrow> None
                | Some v \<Rightarrow> if is_nan v then None else Some v))"

lemma parse_f64_not_nan: "parse_f64 bs = Some v \<Longrightarrow> \<not> is_nan v"
  by (auto simp: parse_f64_def split: option.splits if_splits)

subsection \<open>Printing\<close>

text \<open>The decimal exponent of the leading digit of a positive rational.\<close>

definition ilog10 :: "rat \<Rightarrow> int" where
  "ilog10 q =
     (if 1 \<le> q then int (length (nat_str (nat \<lfloor>q\<rfloor>))) - 1
      else - int (length (nat_str (nat (\<lceil>1 / q\<rceil> - 1)))))"

text \<open>With \<open>n\<close> significant digits the candidates are the decimals around \<open>q\<close>. The
  shortest text uses the least \<open>n\<close> for which one of them reads back as \<open>q\<close>, and the
  nearer of the two when both do.\<close>

definition reads_back :: "fmt \<Rightarrow> rat \<Rightarrow> nat \<times> int \<Rightarrow> bool" where
  "reads_back F q c \<longleftrightarrow> round_pos F (of_nat (fst c) * pow10 (snd c)) = Some q"

definition decimal_at :: "fmt \<Rightarrow> rat \<Rightarrow> nat \<Rightarrow> (nat \<times> int) option" where
  "decimal_at F q n =
     (let x = ilog10 q - int n + 1; t = q / pow10 x; d = nat \<lfloor>t\<rfloor>;
          lo = (d, x); hi = (Suc d, x)
      in if reads_back F q lo \<and> reads_back F q hi then
           Some (if of_nat (Suc d) - t \<le> t - of_nat d then hi else lo)
         else if reads_back F q lo then Some lo
         else if reads_back F q hi then Some hi
         else None)"

text \<open>All the digits: a value \<open>m / 2^k\<close> is \<open>m * 5^k / 10^k\<close>.\<close>

definition exact_decimal :: "rat \<Rightarrow> nat \<times> int" where
  "exact_decimal q =
     (let (n, d) = quotient_of q; k = bitlen (nat d) - 1
      in (nat n * 5 ^ k, - int k))"

fun shortest :: "fmt \<Rightarrow> rat \<Rightarrow> nat \<Rightarrow> nat \<Rightarrow> nat \<times> int" where
  "shortest F q n 0 = exact_decimal q"
| "shortest F q n (Suc fuel) =
     (case decimal_at F q n of Some c \<Rightarrow> c | None \<Rightarrow> shortest F q (Suc n) fuel)"

fun strip_zeros :: "nat \<Rightarrow> int \<Rightarrow> nat \<times> int" where
  "strip_zeros d x =
     (if x < 0 \<and> 0 < d \<and> d mod 10 = 0 then strip_zeros (d div 10) (x + 1) else (d, x))"

declare strip_zeros.simps [simp del]

definition decimal_str :: "nat \<times> int \<Rightarrow> bytes" where
  "decimal_str c =
     (case c of (d, x) \<Rightarrow>
        if 0 \<le> x then nat_str d @ replicate (nat x) CHR ''0''
        else (let ds = nat_str d; k = nat (- x)
              in if k < length ds then take (length ds - k) ds @ ''.'' @ drop (length ds - k) ds
                 else ''0.'' @ replicate (k - length ds) CHR ''0'' @ ds))"

text \<open>17 significant digits always tell two \<open>f64\<close> apart, so the search never reaches the
  exact form in practice; the exact form keeps the function total.\<close>

definition float_str :: "fmt \<Rightarrow> rat \<Rightarrow> bytes" where
  "float_str F q = decimal_str (case_prod strip_zeros (shortest F q 1 17))"

fun display_float :: "fmt \<Rightarrow> flt \<Rightarrow> bytes" where
  "display_float F NaN = ''NaN''"
| "display_float F PInf = ''inf''"
| "display_float F NInf = ''-inf''"
| "display_float F NZero = ''-0''"
| "display_float F (Fin q) =
     (if q = 0 then ''0'' else if q < 0 then CHR ''-'' # float_str F (- q) else float_str F q)"

definition format_f64 :: "f64 \<Rightarrow> bytes" where
  "format_f64 v =
     (if is_infinite v then (if fless (Fin 0) v then ''inf'' else ''-inf'')
      else display_float F64 v)"

subsection \<open>Round trip\<close>

lemma pow10_pos [simp]: "0 < pow10 k"
  by (simp add: pow10_def)

lemma pow10_0 [simp]: "pow10 0 = 1"
  by (simp add: pow10_def)

lemma pow10_powi: "pow10 k = 10 powi k"
  by (simp add: pow10_def power_int_def field_simps)

lemma pow10_Suc: "pow10 (k + 1) = 10 * pow10 k"
  by (simp add: pow10_powi power_int_add)

lemma pow10_nat: "pow10 (int n) = 10 ^ n"
  by (simp add: pow10_def)

lemma digits_val_append: "digits_val (ds @ es) = digits_val ds * 10 ^ length es + digits_val es"
  by (induction es rule: rev_induct)
    (simp_all add: digits_val_snoc digits_val_def [of "[]"] algebra_simps flip: append_assoc)

lemma digits_val_zeros [simp]: "digits_val (replicate n 48) = 0"
  by (induction n) (simp_all add: digits_val_def)

lemma strip_zeros_value:
  "strip_zeros d x = (d', x') \<Longrightarrow> of_nat d' * pow10 x' = of_nat d * pow10 x"
proof (induction d x arbitrary: d' x' rule: strip_zeros.induct)
  case (1 d x)
  show ?case
  proof (cases "x < 0 \<and> 0 < d \<and> d mod 10 = 0")
    case True
    with "1.prems" have "strip_zeros (d div 10) (x + 1) = (d', x')"
      by (simp add: strip_zeros.simps [of d x])
    with "1.IH" [OF True] have "of_nat d' * pow10 x' = of_nat (d div 10) * pow10 (x + 1)" .
    also have "\<dots> = of_nat (10 * (d div 10)) * pow10 x" by (simp add: pow10_Suc)
    also have "10 * (d div 10) = d" using True by presburger
    finally show ?thesis .
  next
    case False
    with "1.prems" show ?thesis by (auto simp: strip_zeros.simps [of d x])
  qed
qed

definition digit_chars :: "bytes \<Rightarrow> bool" where
  "digit_chars cs \<longleftrightarrow> (\<forall>c \<in> set cs. is_digit (ord_of c))"

lemma digit_chars_simps [simp]:
  "digit_chars (nat_str n)"
  "digit_chars (replicate n CHR ''0'')"
  "digit_chars (xs @ ys) \<longleftrightarrow> digit_chars xs \<and> digit_chars ys"
  "digit_chars (nat_str n) \<Longrightarrow> digit_chars (take k (nat_str n))"
  "digit_chars (nat_str n) \<Longrightarrow> digit_chars (drop k (nat_str n))"
  by (auto simp: digit_chars_def is_digit_def [of 48] nat_str_mem
      dest: in_set_takeD in_set_dropD nat_str_mem)

lemma parse_number_point:
  assumes "digit_chars ip" and "digit_chars fp" and "ip \<noteq> []"
  shows "parse_number (map ord_of (ip @ ''.'' @ fp)) =
           Some (of_nat (digits_val (map ord_of (ip @ fp))) * pow10 (- int (length fp)))"
proof -
  have tw: "takeWhile is_digit (map ord_of ip @ 46 # map ord_of fp) = map ord_of ip"
    and dw: "dropWhile is_digit (map ord_of ip @ 46 # map ord_of fp) = 46 # map ord_of fp"
    using assms(1) by (simp_all add: digit_chars_def takeWhile_append dropWhile_append is_digit_def)
  have tw': "takeWhile is_digit (map ord_of fp) = map ord_of fp"
    and dw': "dropWhile is_digit (map ord_of fp) = []"
    using assms(2) by (simp_all add: digit_chars_def)
  show ?thesis
    using assms(3) by (simp add: parse_number_def parse_exponent_def Let_def tw dw tw' dw')
qed

lemma parse_number_digits:
  assumes "digit_chars ip" and "ip \<noteq> []"
  shows "parse_number (map ord_of ip) = Some (of_nat (digits_val (map ord_of ip)))"
proof -
  have tw: "takeWhile is_digit (map ord_of ip) = map ord_of ip"
    and dw: "dropWhile is_digit (map ord_of ip) = []"
    using assms(1) by (simp_all add: digit_chars_def)
  then show ?thesis
    using assms(2) by (simp add: parse_number_def parse_exponent_def Let_def tw dw)
qed

lemma parse_decimal_str: "parse_number (map ord_of (decimal_str (d, x))) = Some (of_nat d * pow10 x)"
proof (cases "0 \<le> x")
  case True
  then have "decimal_str (d, x) = nat_str d @ replicate (nat x) CHR ''0''"
    by (simp add: decimal_str_def)
  then show ?thesis
    using True by (simp add: parse_number_digits digits_val_append map_replicate pow10_def
        del: map_append add: map_append [symmetric])
      (simp add: digits_val_append map_replicate)
next
  case neg: False
  define k where "k = nat (- x)"
  have k: "x = - int k" using neg by (simp add: k_def)
  let ?ds = "nat_str d"
  show ?thesis
  proof (cases "k < length ?ds")
    case True
    then have "decimal_str (d, x) = take (length ?ds - k) ?ds @ ''.'' @ drop (length ?ds - k) ?ds"
      using neg by (simp add: decimal_str_def k_def [symmetric] Let_def)
    then show ?thesis
      using True parse_number_point [of "take (length ?ds - k) ?ds" "drop (length ?ds - k) ?ds"]
      by (simp add: k flip: map_append)
  next
    case False
    then have "decimal_str (d, x) = ''0'' @ ''.'' @ (replicate (k - length ?ds) CHR ''0'' @ ?ds)"
      using neg by (simp add: decimal_str_def k_def [symmetric] Let_def)
    moreover have "digits_val (48 # map ord_of (replicate (k - length ?ds) CHR ''0'' @ ?ds)) = d"
      using digits_val_append [of "48 # replicate (k - length ?ds) 48" "map ord_of ?ds"]
        digits_val_zeros [of "Suc (k - length ?ds)"]
      by (simp add: map_replicate)
    ultimately show ?thesis
      using False
        parse_number_point [of "''0''" "replicate (k - length ?ds) CHR ''0'' @ ?ds"]
      by (simp add: k digit_chars_def [of "''0''"] is_digit_def)
  qed
qed

lemma dvd_power_two: "(d::nat) dvd 2 ^ j \<Longrightarrow> \<exists>i. d = 2 ^ i"
proof (induction j arbitrary: d)
  case 0
  then show ?case by (intro exI [of _ 0]) simp
next
  case (Suc j)
  show ?case
  proof (cases "even d")
    case True
    then obtain e where e: "d = 2 * e" ..
    with Suc.prems have "e dvd 2 ^ j" by simp
    with Suc.IH obtain i where "e = 2 ^ i" by blast
    then show ?thesis by (intro exI [of _ "Suc i"]) (simp add: e)
  next
    case False
    then have "coprime d (2 ^ Suc j)" by simp
    with Suc.prems have "d = 1" by (metis coprime_common_divisor_nat dvd_refl)
    then show ?thesis by (intro exI [of _ 0]) simp
  qed
qed

lemma bitlen_power: "bitlen (2 ^ i) = Suc i"
  by (induction i) (simp_all add: bitlen.simps)

lemma representable_denominator:
  assumes "representable F q" and nd: "quotient_of q = (n, d)"
  shows "\<exists>i. d = 2 ^ i"
proof -
  from assms(1) obtain m u where "q = of_int m * pow2 u" by (auto simp: representable_def)
  then have q: "q = of_int (m * 2 ^ nat u) / 2 ^ nat (- u)"
    by (cases "0 \<le> u") (simp_all add: pow2_def)
  have d: "0 < d" and qnd: "q = of_int n / of_int d" and cop: "coprime n d"
    using nd by (simp_all add: quotient_of_denom_pos quotient_of_div quotient_of_coprime)
  from q qnd d have "of_int (n * 2 ^ nat (- u)) = (of_int (m * 2 ^ nat u * d) :: rat)"
    by (simp add: field_simps)
  then have "n * 2 ^ nat (- u) = m * 2 ^ nat u * d" by (simp only: of_int_eq_iff)
  then have "d dvd n * 2 ^ nat (- u)" by simp
  then have "d dvd 2 ^ nat (- u)"
    using cop by (simp add: coprime_commute coprime_dvd_mult_right_iff)
  then have "nat d dvd 2 ^ nat (- u)"
    using d by (simp add: nat_dvd_iff)
  then obtain i where "nat d = 2 ^ i" using dvd_power_two by blast
  then have "d = 2 ^ i" using d by (metis int_nat_eq less_le_not_le of_nat_numeral of_nat_power)
  then show ?thesis ..
qed

lemma exact_decimal_value:
  assumes "representable F q" and "0 < q" and "exact_decimal q = (d, x)"
  shows "of_nat d * pow10 x = q"
proof -
  obtain n b where nb: "quotient_of q = (n, b)" by fastforce
  with assms(1) obtain i where b: "b = 2 ^ i" using representable_denominator by blast
  have q: "q = of_int n / 2 ^ i" using quotient_of_div [OF nb] b by simp
  with assms(2) have "0 < n" by (simp add: zero_less_divide_iff)
  moreover have "nat b = 2 ^ i" using b by (simp add: nat_power_eq)
  then have "d = nat n * 5 ^ i" "x = - int i"
    using assms(3) nb b by (simp_all add: exact_decimal_def bitlen_power nat_power_eq)
  moreover have "(10::rat) ^ i = 2 ^ i * 5 ^ i" by (simp flip: power_mult_distrib)
  ultimately show ?thesis
    by (cases "i = 0") (simp_all add: q pow10_def)
qed

lemma decimal_at_reads_back: "decimal_at F q n = Some c \<Longrightarrow> reads_back F q c"
  by (auto simp: decimal_at_def Let_def split: if_splits)

lemma shortest_reads_back:
  "representable F q \<Longrightarrow> 0 < q \<Longrightarrow> reads_back F q (shortest F q n fuel)"
proof (induction fuel arbitrary: n)
  case 0
  then show ?case
    using exact_decimal_value [of F q]
    by (cases "exact_decimal q") (simp add: reads_back_def round_pos_exact)
next
  case (Suc fuel)
  then show ?case by (auto dest: decimal_at_reads_back split: option.splits)
qed

lemma parse_float_str:
  assumes "representable F q" and "0 < q"
  shows "\<exists>r. parse_number (map ord_of (float_str F q)) = Some r \<and> 0 < r \<and> round_pos F r = Some q"
proof -
  obtain d x where c: "shortest F q (Suc 0) 17 = (d, x)" by fastforce
  obtain d' x' where s: "strip_zeros d x = (d', x')" by fastforce
  have rb: "round_pos F (of_nat d * pow10 x) = Some q"
    using shortest_reads_back [OF assms, of "Suc 0" 17] c by (simp add: reads_back_def)
  have "d \<noteq> 0"
  proof
    assume "d = 0"
    with rb assms(2) have "of_int (round_half_even (0 / pow2 (max (emin F) (ilog2 0 - int (prec F) + 1)))) *
        pow2 (max (emin F) (ilog2 0 - int (prec F) + 1)) = q"
      by (simp add: round_pos_def Let_def split: if_splits)
    with assms(2) show False using round_half_even_int [of 0] by simp
  qed
  then show ?thesis
    using rb strip_zeros_value [OF s]
    by (intro exI [of _ "of_nat d * pow10 x"])
      (simp add: float_str_def c s parse_decimal_str)
qed

text \<open>The first character of a printed magnitude is a digit: never a sign, nor a letter.\<close>

lemma hd_decimal_str: "decimal_str c \<noteq> [] \<and> is_digit (ord_of (hd (decimal_str c)))"
  by (cases c) (auto simp: decimal_str_def Let_def hd_append hd_nat_str is_digit_def [of 48])

lemma decimal_str_mem:
  "c \<in> set (decimal_str p) \<Longrightarrow> is_digit (ord_of c) \<or> c = CHR ''.''"
  by (cases p)
    (auto simp: decimal_str_def Let_def is_digit_def [of 48] split: if_splits
      dest: nat_str_mem in_set_takeD in_set_dropD)

lemma last_decimal_str: "is_digit (ord_of (last (decimal_str c)))"
  by (cases c)
    (auto simp: decimal_str_def Let_def last_append last_nat_str is_digit_def [of 48] last_drop)

lemma float_str_first:
  obtains c cs where "float_str F q = c # cs" and "is_digit (ord_of c)"
proof (cases "float_str F q")
  case Nil
  then show ?thesis using hd_decimal_str by (simp add: float_str_def)
next
  case (Cons c cs)
  then show ?thesis using hd_decimal_str that by (metis float_str_def list.sel(1))
qed

lemma float_str_mem: "c \<in> set (float_str F q) \<Longrightarrow> is_digit (ord_of c) \<or> c = CHR ''.''"
  by (simp add: float_str_def decimal_str_mem)

lemma digit_not_word:
  "is_digit c \<Longrightarrow> lower_cp c \<noteq> 105 \<and> lower_cp c \<noteq> 110 \<and> c \<noteq> 45 \<and> c \<noteq> 43"
  by (auto simp: is_digit_def lower_cp_def)

lemma str_parse_float_pos:
  assumes "representable F q" and "0 < q"
  shows "str_parse_float F (map ord_of (float_str F q)) = Some (Fin q)"
    and "str_parse_float F (45 # map ord_of (float_str F q)) = Some (Fin (- q))"
proof -
  obtain c cs where fs: "float_str F q = c # cs" and dig: "is_digit (ord_of c)"
    by (rule float_str_first)
  obtain r where r: "parse_number (map ord_of (float_str F q)) = Some r" "0 < r"
      "round_pos F r = Some q"
    using parse_float_str [OF assms] by blast
  have "round_to F False r = Fin q" and "round_to F True (- r) = Fin (- q)"
    using r assms(2) by (simp_all add: round_to_def)
  then show "str_parse_float F (map ord_of (float_str F q)) = Some (Fin q)"
    and "str_parse_float F (45 # map ord_of (float_str F q)) = Some (Fin (- q))"
    using r(1) digit_not_word [OF dig] by (simp_all add: str_parse_float_def fs)
qed

lemma str_parse_float_display:
  assumes "flt_wf F v" and "\<not> is_nan v"
  shows "str_parse_float F (map ord_of (display_float F v)) = Some v"
proof (cases v)
  case (Fin q)
  consider "q = 0" | "0 < q" | "q < 0" by linarith
  then show ?thesis
  proof cases
    case 1
    then show ?thesis
      by (simp add: Fin str_parse_float_def parse_number_def parse_exponent_def is_digit_def
          lower_cp_def digits_val_def round_to_def)
  next
    case 2
    then show ?thesis using assms(1) str_parse_float_pos(1) by (simp add: Fin)
  next
    case 3
    then show ?thesis using assms(1) str_parse_float_pos(2) [of F "- q"] by (simp add: Fin)
  qed
qed (use assms in \<open>simp_all add: str_parse_float_def parse_number_def parse_exponent_def is_digit_def
      lower_cp_def digits_val_def round_to_def\<close>)

lemma format_f64_display: "\<not> is_nan v \<Longrightarrow> format_f64 v = display_float F64 v"
  by (cases v) (auto simp: format_f64_def fless_def)

text \<open>No byte of a printed float is white space or outside ASCII, so \<open>parse_f64\<close>'s checks
  on the text pass.\<close>

definition float_char :: "char \<Rightarrow> bool" where
  "float_char c \<longleftrightarrow> is_digit (ord_of c) \<or> c \<in> {CHR ''.'', CHR ''-'', CHR ''i'', CHR ''n'', CHR ''f''}"

lemma list_all_float_str: "list_all float_char (float_str F q)"
  using float_str_mem [of _ F q] by (auto simp: list_all_iff float_char_def)

lemma display_float_mem:
  assumes "\<not> is_nan v"
  shows "list_all float_char (display_float F v)"
proof (cases v)
  case (Fin q)
  then show ?thesis
    by (simp add: list_all_float_str) (simp add: float_char_def is_digit_def)
qed (use assms in \<open>simp_all add: float_char_def is_digit_def\<close>)

lemma float_str_nonempty [simp]: "float_str F q \<noteq> []"
  using hd_decimal_str by (simp add: float_str_def)

lemma display_float_nonempty [simp]: "display_float F v \<noteq> []"
  by (cases v) simp_all

lemma display_float_plain:
  assumes "\<not> is_nan v" and "c \<in> set (display_float F v)"
  shows "ord_of c < 128 \<and> \<not> is_whitespace (ord_of c)"
proof -
  have "float_char c"
    using display_float_mem [OF assms(1)] assms(2) by (simp add: list_all_iff)
  then show ?thesis
    using is_digit_bounds [of "ord_of c"] by (auto simp: float_char_def is_whitespace_def)
qed

text \<open>The round trip of \<^verbatim>\<open>score_formatting_round_trips\<close> in the source's own tests, for every
  score.\<close>

lemma parse_format_f64:
  assumes "flt_wf F64 v" and "\<not> is_nan v"
  shows "parse_f64 (format_f64 v) = Some v"
proof -
  let ?t = "display_float F64 v"
  have plain: "\<And>c. c \<in> set ?t \<Longrightarrow> ord_of c < 128 \<and> \<not> is_whitespace (ord_of c)"
    using display_float_plain [OF assms(2)] by blast
  then have "is_ascii ?t" by (auto simp: is_ascii_def)
  moreover have "trim (map ord_of ?t) = map ord_of ?t"
    using plain [OF hd_in_set] plain [OF last_in_set]
    by (intro trim_id) (simp_all add: hd_map last_map)
  ultimately show ?thesis
    using str_parse_float_display [OF assms] assms(2)
    by (simp add: format_f64_display parse_f64_def from_utf8_ascii)
qed

subsection \<open>Properties\<close>

text \<open>
  C26. A score survives being printed and read: for every binary64 value that is not a NaN,
  the shortest decimal text \<open>format_f64\<close> chooses parses to the same value, the infinities
  and the negative zero included.
\<close>
theorem score_text_round_trip:
  assumes "flt_wf F64 v" and "\<not> is_nan v"
  shows "parse_f64 (format_f64 v) = Some v"
  by (rule parse_format_f64 [OF assms])

lemma score_text_round_trip_witness:
  "parse_f64 (format_f64 (Fin (5/2))) = Some (Fin (5/2)) \<and> parse_f64 (format_f64 NZero) = Some NZero"
proof
  have "representable F64 (5/2)"
    unfolding representable_def by (rule exI [of _ 5], rule exI [of _ "-1"]) (simp add: F64_def pow2_def)
  then show "parse_f64 (format_f64 (Fin (5/2))) = Some (Fin (5/2))"
    by (intro score_text_round_trip) simp_all
qed (rule score_text_round_trip, simp_all)

end
