(* ===== verification/Resp.thy ===== *)
theory Resp
  imports FloatText
begin

text \<open>
  \<^verbatim>\<open>src/resp.rs\<close>: the wire protocol. \<open>reply\<close> is what a command hands back, \<open>encode\<close> its
  bytes in either protocol version, \<open>parse_request\<close> the reader that pulls one command off the
  front of a connection's buffer. The lemmas show that a command sent as an array of bulk
  strings is read back exactly, that a prefix of it is never mistaken for a command, that
  what is read does not depend on what follows it, and that every read makes progress within
  the buffer.
\<close>

subsection \<open>Replies\<close>

datatype protocol = Resp2 | Resp3

definition protocol_from_version :: "int \<Rightarrow> protocol option" where
  "protocol_from_version v = (if v = 2 then Some Resp2 else if v = 3 then Some Resp3 else None)"

definition protocol_version :: "protocol \<Rightarrow> int" where
  "protocol_version p = (case p of Resp2 \<Rightarrow> 2 | Resp3 \<Rightarrow> 3)"

datatype reply =
    Simple bytes
  | Error bytes
  | Integer int
  | Bulk bytes
  | RNil
  | NilArray
  | Array "reply list"
  | Map "(reply \<times> reply) list"
  | RSet "reply list"
  | Push "reply list"
  | Double f64
  | ScoredMembers "(bytes \<times> f64) list"

definition reply_ok :: reply where
  "reply_ok = Simple ''OK''"

definition reply_bool :: "bool \<Rightarrow> reply" where
  "reply_bool b = Integer (if b then 1 else 0)"

definition wrong_arity :: "bytes \<Rightarrow> reply" where
  "wrong_arity command =
     Error (''ERR wrong number of arguments for '' @ [CHR 0x27] @ to_lower command
            @ [CHR 0x27] @ '' command'')"

definition reply_push :: "bytes \<Rightarrow> reply list \<Rightarrow> reply" where
  "reply_push kind rest = Push (Bulk kind # rest)"

definition bulk_array :: "bytes list \<Rightarrow> reply" where
  "bulk_array items = Array (map Bulk items)"

subsection \<open>Encoding\<close>

definition crlf :: bytes where
  "crlf = [CHR 0x0D, CHR 0x0A]"

definition flatten_newline :: "char \<Rightarrow> char" where
  "flatten_newline c = (if c = CHR 0x0D \<or> c = CHR 0x0A then CHR '' '' else c)"

definition bulk_bytes :: "bytes \<Rightarrow> bytes" where
  "bulk_bytes payload = CHR ''$'' # nat_str (length payload) @ crlf @ payload @ crlf"

definition header :: "char \<Rightarrow> nat \<Rightarrow> bytes" where
  "header marker n = marker # nat_str n @ crlf"

text \<open>\<open>encode\<close> appends to its output buffer; the model returns what is appended.\<close>

fun encode :: "protocol \<Rightarrow> reply \<Rightarrow> bytes" where
  "encode p (Simple text) = CHR ''+'' # text @ crlf"
| "encode p (Error message) = CHR ''-'' # map flatten_newline message @ crlf"
| "encode p (Integer n) = CHR '':'' # int_str n @ crlf"
| "encode p (Bulk payload) = bulk_bytes payload"
| "encode p RNil = (if p = Resp3 then CHR ''_'' # crlf else ''$-1'' @ crlf)"
| "encode p NilArray = (if p = Resp3 then CHR ''_'' # crlf else ''*-1'' @ crlf)"
| "encode p (Array items) = header CHR ''*'' (length items) @ concat (map (encode p) items)"
| "encode p (RSet items) =
     header (if p = Resp3 then CHR ''~'' else CHR ''*'') (length items)
     @ concat (map (encode p) items)"
| "encode p (Push items) =
     header (if p = Resp3 then CHR ''>'' else CHR ''*'') (length items)
     @ concat (map (encode p) items)"
| "encode p (Map pairs) =
     (if p = Resp3 then header CHR ''%'' (length pairs) else header CHR ''*'' (length pairs * 2))
     @ concat (map (\<lambda>(k, v). encode p k @ encode p v) pairs)"
| "encode p (Double v) =
     (if p = Resp3 then CHR '','' # format_f64 v @ crlf else bulk_bytes (format_f64 v))"
| "encode p (ScoredMembers pairs) =
     (if p = Resp3 then
        header CHR ''*'' (length pairs)
        @ concat (map (\<lambda>(m, s). ''*2'' @ crlf @ bulk_bytes m @ CHR '','' # format_f64 s @ crlf)
                  pairs)
      else
        header CHR ''*'' (length pairs * 2)
        @ concat (map (\<lambda>(m, s). bulk_bytes m @ bulk_bytes (format_f64 s)) pairs))"

subsection \<open>Requests\<close>

record request =
  argv :: "bytes list"
  consumed :: nat

text \<open>\<open>read_line\<close>: the line that starts at \<open>from\<close>, and the offset past its terminator.\<close>

definition read_line :: "bytes \<Rightarrow> nat \<Rightarrow> (bytes \<times> nat) option" where
  "read_line buf from =
     (case position (\<lambda>b. b = CHR 0x0A) (drop from buf) of
        None \<Rightarrow> None
      | Some k \<Rightarrow>
          (let newline = k + from;
               stop = (if newline > from \<and> buf ! (newline - 1) = CHR 0x0D
                       then newline - 1 else newline)
           in Some (take (stop - from) (drop from buf), newline + 1)))"

definition terminator_len :: "bytes \<Rightarrow> nat \<Rightarrow> nat option" where
  "terminator_len buf pos =
     (if length buf \<le> pos then None
      else if buf ! pos = CHR 0x0D then
        (if length buf \<le> pos + 1 then None
         else if buf ! (pos + 1) = CHR 0x0A then Some 2 else Some 1)
      else Some 1)"

definition parse_integer :: "bytes \<Rightarrow> int option" where
  "parse_integer line =
     (case from_utf8 line of None \<Rightarrow> None | Some text \<Rightarrow> str_parse_i64 (trim text))"

definition invalid_multibulk :: bytes where
  "invalid_multibulk = ''ERR Protocol error: invalid multibulk length''"

definition invalid_bulk :: bytes where
  "invalid_bulk = ''ERR Protocol error: invalid bulk length''"

definition expected_dollar :: "char \<Rightarrow> bytes" where
  "expected_dollar b =
     ''ERR Protocol error: expected '' @ [CHR 0x27] @ ''$'' @ [CHR 0x27] @ '', got ''
     @ [CHR 0x27] @ latin1 b @ [CHR 0x27]"

text \<open>One turn of \<open>parse_array_request\<close>'s loop: the bulk string at \<open>pos\<close> and the offset
  past its terminator.\<close>

definition parse_bulk :: "bytes \<Rightarrow> nat \<Rightarrow> nat \<Rightarrow> bytes + (bytes \<times> nat) option" where
  "parse_bulk buf max_bulk_len pos =
     (if length buf \<le> pos then Inr None
      else if buf ! pos \<noteq> CHR ''$'' then Inl (expected_dollar (buf ! pos))
      else case read_line buf (pos + 1) of
             None \<Rightarrow> Inr None
           | Some (head, after_header) \<Rightarrow>
               (case parse_integer head of
                  None \<Rightarrow> Inl invalid_bulk
                | Some len \<Rightarrow>
                    if len < 0 \<or> nat len > max_bulk_len then Inl invalid_bulk
                    else if length buf \<le> after_header + nat len then Inr None
                    else case terminator_len buf (after_header + nat len) of
                           None \<Rightarrow> Inr None
                         | Some terminator \<Rightarrow>
                             if length buf < after_header + nat len + terminator then Inr None
                             else Inr (Some (take (nat len) (drop after_header buf),
                                             after_header + nat len + terminator))))"

text \<open>The loop, run \<open>n\<close> more times.\<close>

fun parse_bulks ::
    "bytes \<Rightarrow> nat \<Rightarrow> nat \<Rightarrow> nat \<Rightarrow> bytes list \<Rightarrow> bytes + request option" where
  "parse_bulks buf max_bulk_len 0 pos args = Inr (Some \<lparr>argv = args, consumed = pos\<rparr>)"
| "parse_bulks buf max_bulk_len (Suc n) pos args =
     (case parse_bulk buf max_bulk_len pos of
        Inl e \<Rightarrow> Inl e
      | Inr None \<Rightarrow> Inr None
      | Inr (Some (arg, next)) \<Rightarrow> parse_bulks buf max_bulk_len n next (args @ [arg]))"

definition parse_array_request :: "bytes \<Rightarrow> nat \<Rightarrow> bytes + request option" where
  "parse_array_request buf max_bulk_len =
     (case read_line buf 1 of
        None \<Rightarrow> Inr None
      | Some (head, pos) \<Rightarrow>
          (case parse_integer head of
             None \<Rightarrow> Inl invalid_multibulk
           | Some cnt \<Rightarrow>
               if cnt \<le> 0 then Inr (Some \<lparr>argv = [], consumed = pos\<rparr>)
               else if cnt > 1024 * 1024 then Inl invalid_multibulk
               else parse_bulks buf max_bulk_len (nat cnt) pos []))"

text \<open>The tokenizer of \<open>parse_inline_request\<close>: the arguments so far, the one being read,
  whether one is being read, and the open quote.\<close>

record inline_state =
  in_argv :: "bytes list"
  current :: bytes
  in_token :: bool
  quote :: "char option"

definition unescape :: "char \<Rightarrow> char" where
  "unescape c = (if c = CHR ''n'' then CHR 0x0A else if c = CHR ''r'' then CHR 0x0D
                 else if c = CHR ''t'' then CHR 0x09 else c)"

fun inline_loop :: "bytes \<Rightarrow> inline_state \<Rightarrow> inline_state" where
  "inline_loop [] st = st"
| "inline_loop (b # line) st =
     (case quote st of
        Some q \<Rightarrow>
          if b = CHR 0x5C \<and> q = CHR 0x22 \<and> line \<noteq> [] then
            inline_loop (tl line) (st\<lparr>current := current st @ [unescape (hd line)]\<rparr>)
          else if b = q then inline_loop line (st\<lparr>quote := None\<rparr>)
          else inline_loop line (st\<lparr>current := current st @ [b]\<rparr>)
      | None \<Rightarrow>
          if b = CHR 0x22 \<or> b = CHR 0x27 then
            inline_loop line (st\<lparr>quote := Some b, in_token := True\<rparr>)
          else if is_ascii_whitespace b then
            (if in_token st then
               inline_loop line
                 (st\<lparr>in_argv := in_argv st @ [current st], current := [], in_token := False\<rparr>)
             else inline_loop line st)
          else inline_loop line (st\<lparr>current := current st @ [b], in_token := True\<rparr>))"

definition parse_inline_request :: "bytes \<Rightarrow> bytes + request option" where
  "parse_inline_request buf =
     (case read_line buf 0 of
        None \<Rightarrow>
          if length buf > 64 * 1024 then Inl ''ERR Protocol error: too big inline request''
          else Inr None
      | Some (line, used) \<Rightarrow>
          (let st = inline_loop line
                      \<lparr>in_argv = [], current = [], in_token = False, quote = None\<rparr>
           in if quote st \<noteq> None
              then Inl ''ERR Protocol error: unbalanced quotes in request''
              else Inr (Some \<lparr>argv = (if in_token st then in_argv st @ [current st]
                                       else in_argv st),
                              consumed = used\<rparr>)))"

definition parse_request :: "bytes \<Rightarrow> nat \<Rightarrow> bytes + request option" where
  "parse_request buf max_bulk_len =
     (if buf = [] then Inr None
      else if buf ! 0 = CHR ''*'' then parse_array_request buf max_bulk_len
      else parse_inline_request buf)"

subsection \<open>Lines\<close>

lemma position_append:
  "position p (xs @ ys) =
     (case position p xs of Some i \<Rightarrow> Some i | None \<Rightarrow> map_option ((+) (length xs)) (position p ys))"
  by (induction xs) (auto split: option.splits simp: map_option_case)

lemma read_line_bound:
  assumes "read_line buf from = Some (l, e)"
  shows "from < e" and "e \<le> length buf"
  using assms by (auto simp: read_line_def Let_def dest!: position_less split: option.splits)

lemma read_line_append:
  assumes "read_line buf from = Some r"
  shows "read_line (buf @ suf) from = Some r"
proof -
  obtain k where k: "position (\<lambda>b. b = CHR 0x0A) (drop from buf) = Some k"
    using assms by (auto simp: read_line_def split: option.splits)
  then have l: "k + from < length buf" by (auto dest: position_less)
  then have "position (\<lambda>b. b = CHR 0x0A) (drop from (buf @ suf)) = Some k"
    using k by (simp add: position_append)
  moreover have "(buf @ suf) ! (k + from - 1) = buf ! (k + from - 1)"
    using less_imp_diff_less [OF l] by (simp add: nth_append)
  ultimately show ?thesis
    using k l assms by (auto simp: read_line_def Let_def)
qed

lemma position_newline:
  "CHR 0x0A \<notin> set w \<Longrightarrow>
   position (\<lambda>b. b = CHR 0x0A) (w @ crlf @ rest) = Some (Suc (length w))"
  by (induction w) (auto simp: crlf_def)

lemma read_line_crlf:
  assumes "CHR 0x0A \<notin> set w" and "from = length pre"
  shows "read_line (pre @ w @ crlf @ rest) from = Some (w, length pre + length w + 2)"
  using assms by (simp add: read_line_def position_newline) (simp add: crlf_def nth_append)

lemma terminator_len_bound: "terminator_len buf pos = Some t \<Longrightarrow> 0 < t \<and> pos + t \<le> length buf"
  by (auto simp: terminator_len_def split: if_splits)

lemma terminator_len_append:
  "terminator_len buf pos = Some t \<Longrightarrow> terminator_len (buf @ suf) pos = Some t"
  by (auto simp: terminator_len_def nth_append split: if_splits)

lemma nat_str_no_newline: "CHR 0x0A \<notin> set (nat_str n)" "CHR 0x0D \<notin> set (nat_str n)"
  by (auto simp: is_digit_def dest: nat_str_mem)

lemma nat_str_int_str: "nat_str n = int_str (int n)"
  by (simp add: int_str_def)

lemma parse_integer_nat_str:
  "int n \<le> i64_max \<Longrightarrow> parse_integer (nat_str n) = Some (int n)"
  by (simp add: parse_integer_def nat_str_int_str from_utf8_ascii is_ascii_int_str trim_int_str
      str_parse_i64_str in_i64_def i64_min_def)

subsection \<open>Progress, bounds and stability\<close>

lemma parse_bulk_append:
  assumes "parse_bulk buf m pos \<noteq> Inr None"
  shows "parse_bulk (buf @ suf) m pos = parse_bulk buf m pos"
proof -
  have l: "pos < length buf" using assms by (auto simp: parse_bulk_def split: if_splits)
  then have e: "(buf @ suf) ! pos = buf ! pos" by (simp add: nth_append)
  show ?thesis
  proof (cases "buf ! pos = CHR ''$''")
    case False
    with l show ?thesis by (simp add: e parse_bulk_def)
  next
    case True
    with l assms obtain head after where r: "read_line buf (pos + 1) = Some (head, after)"
      by (auto simp: parse_bulk_def split: if_splits option.splits)
    note r' = read_line_append [OF r, of suf]
    show ?thesis
    proof (cases "parse_integer head")
      case None
      with True l r r' show ?thesis by (simp add: parse_bulk_def e)
    next
      case (Some len)
      show ?thesis
      proof (cases "len < 0 \<or> nat len > m")
        case True
        with \<open>buf ! pos = _\<close> Some l r r' show ?thesis by (simp add: parse_bulk_def e)
      next
        case False
        with \<open>buf ! pos = _\<close> Some l r assms obtain t where
          t: "terminator_len buf (after + nat len) = Some t" "after + nat len + t \<le> length buf"
          by (auto simp: parse_bulk_def split: if_splits option.splits)
        have "after + nat len < length buf"
          using terminator_len_bound [OF t(1)] by simp
        with False \<open>buf ! pos = _\<close> Some l r r' t terminator_len_append [OF t(1), of suf]
        show ?thesis by (simp add: parse_bulk_def e)
      qed
    qed
  qed
qed

lemma parse_bulk_bound:
  assumes "parse_bulk buf m pos = Inr (Some (arg, next))"
  shows "pos < next" and "next \<le> length buf" and "length arg \<le> m"
proof -
  from assms obtain head after len t where
    r: "read_line buf (pos + 1) = Some (head, after)"
    and len: "parse_integer head = Some len" "nat len \<le> m"
    and t: "terminator_len buf (after + nat len) = Some t"
    and n: "next = after + nat len + t" "arg = take (nat len) (drop after buf)"
    by (auto simp: parse_bulk_def split: if_splits option.splits)
  show "pos < next" "next \<le> length buf" "length arg \<le> m"
    using len n read_line_bound [OF r] terminator_len_bound [OF t] by auto
qed

lemma parse_bulk_encode:
  assumes "length x \<le> m" and "int (length x) \<le> i64_max"
  shows "parse_bulk (pre @ bulk_bytes x @ rest) m (length pre) =
    Inr (Some (x, length pre + length (bulk_bytes x)))"
proof -
  let ?buf = "pre @ bulk_bytes x @ rest"
  let ?head = "pre @ CHR ''$'' # nat_str (length x) @ crlf"
  have "?buf = (pre @ [CHR ''$'']) @ nat_str (length x) @ crlf @ (x @ crlf @ rest)"
    by (simp add: bulk_bytes_def)
  then have rl: "read_line ?buf (length pre + 1) = Some (nat_str (length x), length ?head)"
    by (simp only: read_line_crlf nat_str_no_newline not_False_eq_True length_append_singleton
        Suc_eq_plus1) (simp add: crlf_def)
  have b: "?buf = ?head @ x @ crlf @ rest" by (simp add: bulk_bytes_def)
  have len: "length ?buf = length ?head + length x + 2 + length rest"
    by (simp add: bulk_bytes_def crlf_def)
  have tl: "terminator_len ?buf (length ?head + length x) = Some 2"
    unfolding b by (simp add: terminator_len_def crlf_def nth_append)
  have td: "take (length x) (drop (length ?head) ?buf) = x"
    unfolding b by simp
  have at: "?buf ! length pre = CHR ''$''" by (simp add: bulk_bytes_def nth_append)
  have adv: "length ?head + length x + 2 = length pre + length (bulk_bytes x)"
    by (simp add: bulk_bytes_def crlf_def)
  have l: "\<not> length ?buf \<le> length pre" using len by simp
  have l2: "\<not> length ?buf \<le> length ?head + length x" using len by simp
  have l3: "\<not> length ?buf < length ?head + length x + 2" using len by simp
  have sz: "\<not> (int (length x) < 0 \<or> nat (int (length x)) > m)" using assms(1) by simp
  show ?thesis
    using sz l3
    by (simp only: parse_bulk_def rl parse_integer_nat_str [OF assms(2)] l at l2 tl td adv
        option.case prod.case if_False nat_int simp_thms)
qed

lemma parse_bulks_append:
  "parse_bulks buf m n pos args \<noteq> Inr None \<Longrightarrow>
   parse_bulks (buf @ suf) m n pos args = parse_bulks buf m n pos args"
proof (induction n arbitrary: pos args)
  case 0
  then show ?case by simp
next
  case (Suc n)
  then have "parse_bulk buf m pos \<noteq> Inr None" by auto
  from parse_bulk_append [OF this] Suc show ?case
    by (auto split: sum.splits option.splits)
qed

lemma parse_bulks_bound:
  assumes "parse_bulks buf m n pos args = Inr (Some r)" and "pos \<le> length buf"
  shows "pos \<le> consumed r \<and> consumed r \<le> length buf \<and> length (argv r) = length args + n
    \<and> (\<exists>new. argv r = args @ new \<and> (\<forall>a \<in> set new. length a \<le> m))"
  using assms
proof (induction n arbitrary: pos args)
  case 0
  then show ?case by auto
next
  case (Suc n)
  from Suc.prems obtain arg nxt where
    p: "parse_bulk buf m pos = Inr (Some (arg, nxt))"
    and rest: "parse_bulks buf m n nxt (args @ [arg]) = Inr (Some r)"
    by (auto split: sum.splits option.splits)
  from Suc.IH [OF rest] parse_bulk_bound [OF p] show ?case
    by auto
qed

lemma parse_bulks_encode:
  assumes "\<forall>x \<in> set xs. length x \<le> m \<and> int (length x) \<le> i64_max"
  shows "parse_bulks (pre @ concat (map bulk_bytes xs) @ rest) m (length xs) (length pre) args =
    Inr (Some \<lparr>argv = args @ xs, consumed = length pre + length (concat (map bulk_bytes xs))\<rparr>)"
  using assms
proof (induction xs arbitrary: pre args)
  case Nil
  then show ?case by simp
next
  case (Cons x xs)
  then have "parse_bulk (pre @ bulk_bytes x @ concat (map bulk_bytes xs) @ rest) m (length pre) =
      Inr (Some (x, length pre + length (bulk_bytes x)))"
    by (intro parse_bulk_encode) auto
  with Cons.IH [of "pre @ bulk_bytes x" "args @ [x]"] Cons.prems show ?case
    by (simp add: add.assoc)
qed

lemma crlf_length [simp]: "length crlf = 2"
  by (simp add: crlf_def)

lemma encode_command:
  "encode p (bulk_array args) = header CHR ''*'' (length args) @ concat (map bulk_bytes args)"
  by (simp add: bulk_array_def comp_def)

lemma parse_request_command:
  assumes "args \<noteq> []" and "length args \<le> 1024 * 1024"
    and "\<forall>x \<in> set args. length x \<le> m \<and> int (length x) \<le> i64_max"
  shows "parse_request (encode p (bulk_array args) @ rest) m =
    Inr (Some \<lparr>argv = args, consumed = length (encode p (bulk_array args))\<rparr>)"
proof -
  let ?head = "CHR ''*'' # nat_str (length args) @ crlf"
  let ?buf = "?head @ concat (map bulk_bytes args) @ rest"
  have buf: "encode p (bulk_array args) @ rest = ?buf"
    by (simp add: encode_command header_def)
  have rl: "read_line ?buf 1 = Some (nat_str (length args), length ?head)"
    using read_line_crlf [of "nat_str (length args)" 1 "[CHR ''*'']"
        "concat (map bulk_bytes args) @ rest"]
    by (simp add: nat_str_no_newline)
  have "int (length args) \<le> i64_max" using assms(2) by (simp add: i64_max_def)
  note pi = parse_integer_nat_str [OF this]
  have "parse_array_request ?buf m = parse_bulks ?buf m (length args) (length ?head) []"
    using assms(1,2) by (simp only: parse_array_request_def rl option.case prod.case pi) simp
  then show ?thesis
    unfolding buf using parse_bulks_encode [OF assms(3), of ?head rest "[]"]
    by (simp add: parse_request_def encode_command header_def)
qed

lemma parse_array_append:
  assumes "parse_array_request buf m \<noteq> Inr None"
  shows "parse_array_request (buf @ suf) m = parse_array_request buf m"
proof -
  obtain head pos where r: "read_line buf 1 = Some (head, pos)"
    using assms by (auto simp: parse_array_request_def split: option.splits)
  note r' = read_line_append [OF r, of suf]
  show ?thesis
    using assms r r' by (auto simp: parse_array_request_def parse_bulks_append
        split: option.splits if_splits)
qed

lemma parse_inline_append:
  assumes "parse_inline_request buf = Inr (Some r)"
  shows "parse_inline_request (buf @ suf) = Inr (Some r)"
proof -
  obtain x where r: "read_line buf 0 = Some x"
    using assms by (auto simp: parse_inline_request_def split: option.splits if_splits)
  then show ?thesis
    using assms by (simp add: parse_inline_request_def read_line_append [OF r])
qed

lemma parse_request_append:
  assumes "parse_request buf m = Inr (Some r)"
  shows "parse_request (buf @ suf) m = Inr (Some r)"
proof -
  have "buf \<noteq> []" using assms by (auto simp: parse_request_def)
  then have "(buf @ suf) ! 0 = buf ! 0" by (simp add: nth_append)
  then show ?thesis
    using assms parse_array_append [of buf m suf] parse_inline_append [of buf r suf]
    by (auto simp: parse_request_def split: if_splits)
qed

lemma parse_array_progress:
  assumes "parse_array_request buf m = Inr (Some r)"
  shows "0 < consumed r \<and> consumed r \<le> length buf \<and> length (argv r) \<le> 1024 * 1024
    \<and> (\<forall>a \<in> set (argv r). length a \<le> m)"
proof -
  obtain head pos n where r: "read_line buf 1 = Some (head, pos)" and n: "parse_integer head = Some n"
    using assms by (auto simp: parse_array_request_def split: option.splits)
  note b = read_line_bound [OF r]
  show ?thesis
  proof (cases "n \<le> 0")
    case True
    with assms r n b show ?thesis by (auto simp: parse_array_request_def)
  next
    case False
    with assms r n have "n \<le> 1024 * 1024" and "parse_bulks buf m (nat n) pos [] = Inr (Some r)"
      by (auto simp: parse_array_request_def split: if_splits)
    with parse_bulks_bound [of buf m "nat n" pos "[]" r] b show ?thesis by auto
  qed
qed

lemma parse_inline_progress:
  assumes "parse_inline_request buf = Inr (Some r)"
  shows "0 < consumed r \<and> consumed r \<le> length buf"
proof -
  obtain l e where r: "read_line buf 0 = Some (l, e)"
    using assms by (auto simp: parse_inline_request_def split: option.splits if_splits)
  with assms read_line_bound [OF r] show ?thesis
    by (auto simp: parse_inline_request_def Let_def split: if_splits)
qed

lemma parse_request_progress:
  assumes "parse_request buf m = Inr (Some r)"
  shows "0 < consumed r \<and> consumed r \<le> length buf"
  using assms parse_array_progress [of buf m r] parse_inline_progress [of buf r]
  by (auto simp: parse_request_def split: if_splits)

subsection \<open>Frames\<close>

text \<open>What a client reads: a frame is a line, possibly followed by a payload of a length the
  line announces or by a number of frames the line announces. This is the specification of
  \<open>encode\<close>; it knows nothing of replies.\<close>

datatype frame = Line char bytes | Payload bytes | Group char nat "frame list"

fun group_size :: "char \<Rightarrow> nat \<Rightarrow> nat" where
  "group_size c n = (if c = CHR ''%'' then 2 * n else n)"

fun frame_bytes :: "frame \<Rightarrow> bytes" where
  "frame_bytes (Line c w) = c # w @ crlf"
| "frame_bytes (Payload w) = bulk_bytes w"
| "frame_bytes (Group c n fs) = header c n @ concat (map frame_bytes fs)"

definition group_markers :: "char set" where
  "group_markers = {CHR ''*'', CHR ''~'', CHR ''>'', CHR ''%''}"

fun frame_wf :: "frame \<Rightarrow> bool" where
  "frame_wf (Line c w) \<longleftrightarrow> CHR 0x0D \<notin> set w \<and>
     (c = CHR ''$'' \<or> c \<in> group_markers \<longrightarrow> w = ''-1'')"
| "frame_wf (Payload w) \<longleftrightarrow> True"
| "frame_wf (Group c n fs) \<longleftrightarrow>
     c \<in> group_markers \<and> length fs = group_size c n \<and> (\<forall>f \<in> set fs. frame_wf f)"

text \<open>The frame a reply is sent as.\<close>

fun frame_of :: "protocol \<Rightarrow> reply \<Rightarrow> frame" where
  "frame_of p (Simple w) = Line CHR ''+'' w"
| "frame_of p (Error w) = Line CHR ''-'' (map flatten_newline w)"
| "frame_of p (Integer n) = Line CHR '':'' (int_str n)"
| "frame_of p (Bulk w) = Payload w"
| "frame_of p RNil = (if p = Resp3 then Line CHR ''_'' [] else Line CHR ''$'' ''-1'')"
| "frame_of p NilArray = (if p = Resp3 then Line CHR ''_'' [] else Line CHR ''*'' ''-1'')"
| "frame_of p (Array rs) = Group CHR ''*'' (length rs) (map (frame_of p) rs)"
| "frame_of p (RSet rs) =
     Group (if p = Resp3 then CHR ''~'' else CHR ''*'') (length rs) (map (frame_of p) rs)"
| "frame_of p (Push rs) =
     Group (if p = Resp3 then CHR ''>'' else CHR ''*'') (length rs) (map (frame_of p) rs)"
| "frame_of p (Map ps) =
     (if p = Resp3 then Group CHR ''%'' (length ps) else Group CHR ''*'' (2 * length ps))
       (concat (map (\<lambda>(k, v). [frame_of p k, frame_of p v]) ps))"
| "frame_of p (Double v) =
     (if p = Resp3 then Line CHR '','' (format_f64 v) else Payload (format_f64 v))"
| "frame_of p (ScoredMembers ps) =
     (if p = Resp3
      then Group CHR ''*'' (length ps)
             (map (\<lambda>(m, s). Group CHR ''*'' 2 [Payload m, Line CHR '','' (format_f64 s)]) ps)
      else Group CHR ''*'' (2 * length ps)
             (concat (map (\<lambda>(m, s). [Payload m, Payload (format_f64 s)]) ps)))"

text \<open>A \<open>Simple\<close> reply is a \<open>&'static str\<close> of the source; none holds a line break.\<close>

fun simple_ok :: "reply \<Rightarrow> bool" where
  "simple_ok (Simple w) \<longleftrightarrow> CHR 0x0D \<notin> set w"
| "simple_ok (Array rs) \<longleftrightarrow> (\<forall>r \<in> set rs. simple_ok r)"
| "simple_ok (RSet rs) \<longleftrightarrow> (\<forall>r \<in> set rs. simple_ok r)"
| "simple_ok (Push rs) \<longleftrightarrow> (\<forall>r \<in> set rs. simple_ok r)"
| "simple_ok (Map ps) \<longleftrightarrow> (\<forall>(k, v) \<in> set ps. simple_ok k \<and> simple_ok v)"
| "simple_ok _ \<longleftrightarrow> True"

lemma nat_str_two: "nat_str 2 = ''2''"
  by code_simp

lemma concat_map_pairs:
  "concat (map f (concat (map (\<lambda>(a, b). [g a, h b]) xs))) = concat (map (\<lambda>(a, b). f (g a) @ f (h b)) xs)"
  by (induction xs) auto

lemma encode_frame: "encode p r = frame_bytes (frame_of p r)"
proof (induction p r rule: encode.induct)
  case (7 p items)
  then have "map (encode p) items = map (\<lambda>r. frame_bytes (frame_of p r)) items" by simp
  then show ?case by (simp add: comp_def del: map_eq_conv)
next
  case (8 p items)
  then have "map (encode p) items = map (\<lambda>r. frame_bytes (frame_of p r)) items" by simp
  then show ?case by (simp add: comp_def del: map_eq_conv)
next
  case (9 p items)
  then have "map (encode p) items = map (\<lambda>r. frame_bytes (frame_of p r)) items" by simp
  then show ?case by (simp add: comp_def del: map_eq_conv)
next
  case (10 p pairs)
  then have *: "map (\<lambda>(k, v). encode p k @ encode p v) pairs =
      map (\<lambda>(k, v). frame_bytes (frame_of p k) @ frame_bytes (frame_of p v)) pairs"
    by (fastforce intro!: map_cong)
  have "concat (map (\<lambda>(k, v). encode p k @ encode p v) pairs) =
      concat (map (\<lambda>(k, v). frame_bytes (frame_of p k) @ frame_bytes (frame_of p v)) pairs)"
    unfolding * ..
  then show ?case by (simp add: concat_map_pairs mult.commute)
next
  case (12 p pairs)
  show ?case
  proof (cases p)
    case Resp2
    then show ?thesis by (simp add: concat_map_pairs mult.commute)
  next
    case Resp3
    then show ?thesis by (simp add: header_def nat_str_two comp_def split_def)
  qed
qed auto

lemma format_f64_no_newline: "CHR 0x0D \<notin> set (format_f64 v)"
proof (cases "is_nan v")
  case True
  then show ?thesis by (cases v) (simp_all add: format_f64_def)
next
  case False
  then show ?thesis
    using display_float_plain [OF False, of "CHR 0x0D" F64]
    by (auto simp: format_f64_def is_whitespace_def)
qed

lemma length_concat_pairs: "length (concat (map (\<lambda>(a, b). [g a, h b]) xs)) = 2 * length xs"
  by (induction xs) auto

lemma frame_of_wf: "simple_ok r \<Longrightarrow> frame_wf (frame_of p r)"
proof (induction p r rule: frame_of.induct)
  case (2 p w)
  then show ?case by (auto simp: flatten_newline_def group_markers_def)
next
  case (3 p n)
  then show ?case by (auto simp: group_markers_def is_digit_def dest: int_str_mem)
qed (auto simp: group_markers_def format_f64_no_newline length_concat_pairs)

lemma nat_str_inj: "nat_str a = nat_str b \<Longrightarrow> a = b"
  by (metis digits_val_nat_str)

lemma nat_str_not_minus: "nat_str n \<noteq> ''-1''"
  using nat_str_mem [of "CHR ''-''" n] by (auto simp: is_digit_def)

lemma crlf_split:
  "CHR 0x0D \<notin> set u \<Longrightarrow> CHR 0x0D \<notin> set v \<Longrightarrow> u @ crlf @ a = v @ crlf @ b \<Longrightarrow> u = v \<and> a = b"
proof (induction u arbitrary: v)
  case Nil
  then show ?case by (cases v) (auto simp: crlf_def)
next
  case (Cons x u)
  then show ?case by (cases v) (auto simp: crlf_def)
qed

lemma crlf_count_split: "nat_str m @ crlf @ a = nat_str n @ crlf @ b \<Longrightarrow> m = n \<and> a = b"
  using crlf_split [of "nat_str m" "nat_str n"] nat_str_no_newline nat_str_inj by blast

definition splits_off :: "frame \<Rightarrow> bool" where
  "splits_off f \<longleftrightarrow>
     (\<forall>g a b. frame_wf g \<longrightarrow> frame_bytes f @ a = frame_bytes g @ b \<longrightarrow> f = g \<and> a = b)"

lemma splits_offD:
  "splits_off f \<Longrightarrow> frame_wf g \<Longrightarrow> frame_bytes f @ a = frame_bytes g @ b \<Longrightarrow> f = g \<and> a = b"
  by (simp add: splits_off_def)

lemma frames_prefix_free:
  assumes "length fs = length gs" and "\<forall>f \<in> set fs. splits_off f" and "\<forall>g \<in> set gs. frame_wf g"
    and "concat (map frame_bytes fs) @ a = concat (map frame_bytes gs) @ b"
  shows "fs = gs \<and> a = b"
  using assms
proof (induction fs gs rule: list_induct2)
  case Nil
  then show ?case by simp
next
  case (Cons f fs g gs)
  have "f = g \<and> concat (map frame_bytes fs) @ a = concat (map frame_bytes gs) @ b"
    by (rule splits_offD) (use Cons.prems in simp_all)
  with Cons.IH Cons.prems show ?case by simp
qed

lemma line_splits_off:
  assumes "frame_wf (Line c w)"
  shows "splits_off (Line c w)"
  unfolding splits_off_def
proof (intro allI impI)
  fix g a b
  assume g: "frame_wf g" and e: "frame_bytes (Line c w) @ a = frame_bytes g @ b"
  show "Line c w = g \<and> a = b"
  proof (cases g)
    case (Line c' w')
    with g e assms show ?thesis
      using crlf_split [of w w' a b] by simp
  next
    case (Payload w')
    with e assms crlf_split [of w "nat_str (length w')" a "w' @ crlf @ b"]
      nat_str_not_minus [of "length w'"]
    show ?thesis by (simp add: bulk_bytes_def nat_str_no_newline)
  next
    case (Group c' n fs)
    with g e assms crlf_split [of w "nat_str n" a "concat (map frame_bytes fs) @ b"]
      nat_str_not_minus [of n]
    show ?thesis by (simp add: header_def nat_str_no_newline)
  qed
qed

lemma group_marker_not_dollar: "c \<in> group_markers \<Longrightarrow> c \<noteq> CHR ''$''"
  by (auto simp: group_markers_def)

lemma payload_splits_off: "splits_off (Payload w)"
  unfolding splits_off_def
proof (intro allI impI)
  fix g a b
  assume g: "frame_wf g" and e: "frame_bytes (Payload w) @ a = frame_bytes g @ b"
  show "Payload w = g \<and> a = b"
  proof (cases g)
    case (Line c' w')
    with g e crlf_split [of "nat_str (length w)" w' "w @ crlf @ a" b]
      nat_str_not_minus [of "length w"]
    show ?thesis by (simp add: bulk_bytes_def nat_str_no_newline)
  next
    case (Payload w')
    with e crlf_count_split [of "length w" "w @ crlf @ a" "length w'" "w' @ crlf @ b"]
    show ?thesis by (auto simp: bulk_bytes_def)
  next
    case (Group c' n fs)
    with g e group_marker_not_dollar show ?thesis by (auto simp: bulk_bytes_def header_def)
  qed
qed

lemma group_splits_off:
  assumes "frame_wf (Group c n fs)" and "\<forall>f \<in> set fs. splits_off f"
  shows "splits_off (Group c n fs)"
  unfolding splits_off_def
proof (intro allI impI)
  fix g a b
  assume g: "frame_wf g" and e: "frame_bytes (Group c n fs) @ a = frame_bytes g @ b"
  show "Group c n fs = g \<and> a = b"
  proof (cases g)
    case (Line c' w')
    with g e assms(1) crlf_split [of "nat_str n" w' "concat (map frame_bytes fs) @ a" b]
      nat_str_not_minus [of n]
    show ?thesis by (simp add: header_def nat_str_no_newline)
  next
    case (Payload w')
    with e assms(1) group_marker_not_dollar show ?thesis
      by (auto simp: bulk_bytes_def header_def)
  next
    case (Group c' m gs)
    with e crlf_count_split [of n "concat (map frame_bytes fs) @ a" m
        "concat (map frame_bytes gs) @ b"]
    have *: "c = c'" "n = m" "concat (map frame_bytes fs) @ a = concat (map frame_bytes gs) @ b"
      by (simp_all add: header_def)
    have "fs = gs \<and> a = b"
      by (rule frames_prefix_free) (use * Group g assms in simp_all)
    with * Group show ?thesis by simp
  qed
qed

lemma frame_splits_off: "frame_wf f \<Longrightarrow> splits_off f"
  by (induction f) (simp_all add: line_splits_off payload_splits_off group_splits_off del: splits_off_def)

subsection \<open>Properties\<close>

text \<open>
  C17. A command a client writes as an array of bulk strings is read back exactly: the parser
  returns the same arguments and consumes exactly the bytes of the command, whatever follows.
\<close>
theorem request_round_trip:
  assumes "args \<noteq> []" and "length args \<le> 1024 * 1024"
    and "\<forall>x \<in> set args. length x \<le> m \<and> int (length x) \<le> i64_max"
  shows "parse_request (encode p (bulk_array args) @ rest) m =
    Inr (Some \<lparr>argv = args, consumed = length (encode p (bulk_array args))\<rparr>)"
  by (rule parse_request_command [OF assms])

lemma request_round_trip_witness:
  "parse_request (encode Resp2 (bulk_array [''GET'', [CHR 0x0D, CHR 0x0A]]) @ ''*1'') 64 =
     Inr (Some \<lparr>argv = [''GET'', [CHR 0x0D, CHR 0x0A]],
                consumed = length (encode Resp2 (bulk_array [''GET'', [CHR 0x0D, CHR 0x0A]]))\<rparr>)"
  by (rule request_round_trip) (simp_all add: i64_max_def)

lemma parse_request_star: "parse_request (CHR ''*'' # buf) m = parse_array_request (CHR ''*'' # buf) m"
  by (simp add: parse_request_def)

lemma encode_star: "\<exists>tl. encode p (bulk_array args) = CHR ''*'' # tl"
  by (simp add: bulk_array_def header_def)

text \<open>
  C23. A command cut short anywhere is never misread: for every proper prefix of an encoded
  command the parser asks for more bytes, with neither a request nor a protocol error.
\<close>
theorem request_prefix_incomplete:
  assumes "args \<noteq> []" and "length args \<le> 1024 * 1024"
    and "\<forall>x \<in> set args. length x \<le> m \<and> int (length x) \<le> i64_max"
    and "n < length (encode p (bulk_array args))"
  shows "parse_request (take n (encode p (bulk_array args))) m = Inr None"
proof (cases n)
  case (Suc k)
  let ?e = "encode p (bulk_array args)"
  obtain tl where tl: "?e = CHR ''*'' # tl" using encode_star by blast
  then have t: "take n ?e = CHR ''*'' # take k tl" using Suc by simp
  have whole: "parse_array_request (take n ?e @ drop n ?e) m = Inr (Some \<lparr>argv = args, consumed = length ?e\<rparr>)"
    using parse_request_command [OF assms(1-3), of p "[]"] tl by (simp add: parse_request_star)
  show ?thesis
  proof (rule ccontr)
    assume "parse_request (take n ?e) m \<noteq> Inr None"
    then have "parse_array_request (take n ?e) m \<noteq> Inr None" by (simp add: t parse_request_star)
    from parse_array_append [OF this, of "drop n ?e"] whole
    have "parse_array_request (take n ?e) m = Inr (Some \<lparr>argv = args, consumed = length ?e\<rparr>)" by simp
    from parse_array_progress [OF this] assms(4) show False by simp
  qed
qed (simp add: parse_request_def)

lemma request_prefix_incomplete_witness:
  "parse_request (take 7 (encode Resp3 (bulk_array [''PING'']))) 64 = Inr None"
  by (rule request_prefix_incomplete) (simp_all add: i64_max_def bulk_array_def bulk_bytes_def header_def crlf_def)

text \<open>
  C24. What the parser has accepted cannot be changed by bytes that arrive later, and every
  accepted request moves the read position forward within the buffer: the server's read
  loop consumes each pipelined command once and ends.
\<close>
theorem request_stable_progress:
  assumes "parse_request buf m = Inr (Some r)"
  shows "parse_request (buf @ more_bytes) m = Inr (Some r) \<and> 0 < consumed r \<and> consumed r \<le> length buf"
  using parse_request_append [OF assms] parse_request_progress [OF assms] by simp

lemma request_stable_progress_witness:
  "parse_request ((''PING'' @ [CHR 0x0A]) @ ''SET'') 64 = Inr (Some \<lparr>argv = [''PING''], consumed = 5\<rparr>)"
proof -
  have "parse_request (''PING'' @ [CHR 0x0A]) 64 = Inr (Some \<lparr>argv = [''PING''], consumed = 5\<rparr>)"
    by code_simp
  from request_stable_progress [OF this, of "''SET''"] show ?thesis by simp
qed

text \<open>
  C18. A stream of replies can be cut in one way only: if two encoded replies followed by
  anything are the same bytes, both stand for the same frame and the rest is the same. An
  error message or a bulk payload holding line breaks cannot end its frame early.
\<close>
theorem reply_stream_unambiguous:
  assumes "simple_ok r" and "simple_ok r'" and "encode p r @ a = encode p r' @ b"
  shows "frame_of p r = frame_of p r' \<and> a = b"
  using splits_offD [OF frame_splits_off [OF frame_of_wf [OF assms(1)]] frame_of_wf [OF assms(2)]]
    assms(3) by (simp add: encode_frame)

lemma reply_stream_unambiguous_witness:
  "frame_of Resp2 (Error [CHR 0x0A]) = frame_of Resp2 (Error [CHR 0x0D]) \<and> ''x'' = ''x''"
  by (rule reply_stream_unambiguous) (simp_all add: flatten_newline_def)

end
