(* ===== verification/Glob.thy ===== *)
theory Glob
  imports Prelude
begin

text \<open>
  \<^verbatim>\<open>src/util/glob.rs\<close>: Redis-style glob matching. The matcher works on the raw pattern
  bytes; the specification compiles the pattern to tokens once (\<open>tokens\<close>) and gives each
  token its meaning as a set of strings (\<open>denotes\<close>). The matcher is shown to decide exactly
  that language.
\<close>

subsection \<open>The matcher\<close>

text \<open>The loop of \<open>match_class\<close>: \<open>i\<close> is the scan position, \<open>first\<close> is set until one
  member has been read, \<open>found\<close> accumulates.\<close>

function class_loop :: "string \<Rightarrow> char \<Rightarrow> nat \<Rightarrow> bool \<Rightarrow> bool \<Rightarrow> bool \<times> nat" where
  "class_loop p c i first found =
     (if i < length p \<and> (p ! i \<noteq> CHR '']'' \<or> first) then
        if p ! i = CHR 0x5C \<and> i + 1 < length p then
          class_loop p c (i + 2) False (if p ! (i + 1) = c then True else found)
        else if i + 2 < length p \<and> p ! (i + 1) = CHR ''-'' \<and> p ! (i + 2) \<noteq> CHR '']'' then
          class_loop p c (i + 3) False (if p ! i \<le> c \<and> c \<le> p ! (i + 2) then True else found)
        else class_loop p c (i + 1) False (if p ! i = c then True else found)
      else (found, i))"
  by pat_completeness auto
termination
  by (relation "measure (\<lambda>(p, c, i, first, found). length p - i)") auto

declare class_loop.simps [simp del]

definition match_class :: "string \<Rightarrow> char \<Rightarrow> bool \<times> nat" where
  "match_class p c =
     (let negate = (p \<noteq> [] \<and> (p ! 0 = CHR ''^'' \<or> p ! 0 = CHR ''!''));
          (found, i) = class_loop p c (if negate then 1 else 0) True False;
          i' = (if i < length p \<and> p ! i = CHR '']'' then i + 1 else i)
      in (if negate then \<not> found else found, i'))"

text \<open>A star tries every suffix of the subject in turn, shortest skip first.\<close>

fun suffixes_of :: "'a list \<Rightarrow> 'a list list" where
  "suffixes_of [] = [[]]"
| "suffixes_of (x # xs) = (x # xs) # suffixes_of xs"

lemma set_suffixes_of: "set (suffixes_of s) = {u. \<exists>t. s = t @ u}"
proof (induction s)
  case Nil
  then show ?case by auto
next
  case (Cons x xs)
  then show ?case by (auto simp: Cons_eq_append_conv)
qed

function glob_match :: "string \<Rightarrow> string \<Rightarrow> bool" where
  "glob_match [] s = (s = [])"
| "glob_match (c # rest) s =
     (if c = CHR ''*'' then
        (if rest = [] then True else list_ex (\<lambda>u. glob_match rest u) (suffixes_of s))
      else if c = CHR ''?'' then
        (case s of [] \<Rightarrow> False | _ # s' \<Rightarrow> glob_match rest s')
      else if c = CHR ''['' then
        (case s of
           [] \<Rightarrow> False
         | x # s' \<Rightarrow> (case match_class rest x of
                       (matched, consumed) \<Rightarrow> matched \<and> glob_match (drop consumed rest) s'))
      else if c = CHR 0x5C \<and> rest \<noteq> [] then
        (case s of [] \<Rightarrow> False | x # s' \<Rightarrow> x = hd rest \<and> glob_match (tl rest) s')
      else (case s of [] \<Rightarrow> False | x # s' \<Rightarrow> x = c \<and> glob_match rest s'))"
  by pat_completeness auto
termination
  by (relation "measure (\<lambda>(p, s). length p)") auto

declare glob_match.simps(2) [simp del]

subsection \<open>The language of a pattern\<close>

text \<open>A class is a list of ranges read off the pattern, a single byte being a range of one.\<close>

datatype token = Star | AnyOne | Lit char | OneOf bool "(char \<times> char) list"

function class_items :: "string \<Rightarrow> nat \<Rightarrow> bool \<Rightarrow> (char \<times> char) list \<times> nat" where
  "class_items p i first =
     (if i < length p \<and> (p ! i \<noteq> CHR '']'' \<or> first) then
        if p ! i = CHR 0x5C \<and> i + 1 < length p then
          (case class_items p (i + 2) False of (r, j) \<Rightarrow> ((p ! (i + 1), p ! (i + 1)) # r, j))
        else if i + 2 < length p \<and> p ! (i + 1) = CHR ''-'' \<and> p ! (i + 2) \<noteq> CHR '']'' then
          (case class_items p (i + 3) False of (r, j) \<Rightarrow> ((p ! i, p ! (i + 2)) # r, j))
        else (case class_items p (i + 1) False of (r, j) \<Rightarrow> ((p ! i, p ! i) # r, j))
      else ([], i))"
  by pat_completeness auto
termination
  by (relation "measure (\<lambda>(p, i, first). length p - i)") auto

declare class_items.simps [simp del]

definition class_token :: "string \<Rightarrow> token \<times> nat" where
  "class_token p =
     (let negate = (p \<noteq> [] \<and> (p ! 0 = CHR ''^'' \<or> p ! 0 = CHR ''!''));
          (items, i) = class_items p (if negate then 1 else 0) True
      in (OneOf negate items, if i < length p \<and> p ! i = CHR '']'' then i + 1 else i))"

function tokens :: "string \<Rightarrow> token list" where
  "tokens [] = []"
| "tokens (c # rest) =
     (if c = CHR ''*'' then Star # tokens rest
      else if c = CHR ''?'' then AnyOne # tokens rest
      else if c = CHR ''['' then
        (case class_token rest of (t, n) \<Rightarrow> t # tokens (drop n rest))
      else if c = CHR 0x5C \<and> rest \<noteq> [] then Lit (hd rest) # tokens (tl rest)
      else Lit c # tokens rest)"
  by pat_completeness auto
termination
  by (relation "measure length") auto

declare tokens.simps(2) [simp del]

definition in_class :: "char \<Rightarrow> (char \<times> char) list \<Rightarrow> bool" where
  "in_class c items \<longleftrightarrow> (\<exists>(lo, hi) \<in> set items. lo \<le> c \<and> c \<le> hi)"

fun denotes :: "token \<Rightarrow> string set" where
  "denotes Star = UNIV"
| "denotes AnyOne = {[c] | c. True}"
| "denotes (Lit c) = {[c]}"
| "denotes (OneOf negate items) = {[c] | c. in_class c items \<noteq> negate}"

fun language :: "token list \<Rightarrow> string set" where
  "language [] = {[]}"
| "language (t # ts) = {u @ v | u v. u \<in> denotes t \<and> v \<in> language ts}"

subsection \<open>The matcher decides the language\<close>

lemma class_loop_items:
  "class_loop p c i first found =
     (found \<or> in_class c (fst (class_items p i first)), snd (class_items p i first))"
proof (induction p c i first found rule: class_loop.induct)
  case (1 p c i first found)
  consider (stop) "\<not> (i < length p \<and> (p ! i \<noteq> CHR '']'' \<or> first))"
    | (esc) "i < length p \<and> (p ! i \<noteq> CHR '']'' \<or> first)" "p ! i = CHR 0x5C \<and> i + 1 < length p"
    | (range) "i < length p \<and> (p ! i \<noteq> CHR '']'' \<or> first)"
        "\<not> (p ! i = CHR 0x5C \<and> i + 1 < length p)"
        "i + 2 < length p \<and> p ! (i + 1) = CHR ''-'' \<and> p ! (i + 2) \<noteq> CHR '']''"
    | (one) "i < length p \<and> (p ! i \<noteq> CHR '']'' \<or> first)"
        "\<not> (p ! i = CHR 0x5C \<and> i + 1 < length p)"
        "\<not> (i + 2 < length p \<and> p ! (i + 1) = CHR ''-'' \<and> p ! (i + 2) \<noteq> CHR '']'')"
    by blast
  then show ?case
  proof cases
    case stop
    then show ?thesis
      unfolding class_loop.simps [of p c i] class_items.simps [of p i] if_not_P [OF stop]
      by (simp add: in_class_def)
  next
    case esc
    show ?thesis
      unfolding class_loop.simps [of p c i] class_items.simps [of p i]
      using esc "1.IH"(1) [OF esc] by (auto simp: in_class_def case_prod_beta)
  next
    case range
    show ?thesis
      unfolding class_loop.simps [of p c i] class_items.simps [of p i]
      using range "1.IH"(2) [OF range] by (auto simp: in_class_def case_prod_beta)
  next
    case one
    show ?thesis
      unfolding class_loop.simps [of p c i] class_items.simps [of p i]
      using one "1.IH"(3) [OF one] by (auto simp: in_class_def case_prod_beta)
  qed
qed

lemma match_class_token:
  assumes "class_token p = (t, n)"
  shows "snd (match_class p c) = n" and "fst (match_class p c) \<longleftrightarrow> [c] \<in> denotes t"
  using assms
  by (auto simp: match_class_def class_token_def class_loop_items Let_def split: prod.splits)

lemma class_token_single:
  "class_token p = (t, n) \<Longrightarrow> u \<in> denotes t \<Longrightarrow> \<exists>c. u = [c]"
  by (auto simp: class_token_def Let_def split: prod.splits)

lemma glob_match_class:
  "glob_match (CHR ''['' # p) s =
     (case s of [] \<Rightarrow> False
      | x # s' \<Rightarrow> [x] \<in> denotes (fst (class_token p)) \<and>
                  glob_match (drop (snd (class_token p)) p) s')"
  using match_class_token [of p "fst (class_token p)" "snd (class_token p)"]
  by (cases s) (simp_all add: glob_match.simps(2) case_prod_beta)

lemma tokens_class:
  "tokens (CHR ''['' # p) = fst (class_token p) # tokens (drop (snd (class_token p)) p)"
  by (simp add: tokens.simps(2) case_prod_beta)

lemma language_star: "s \<in> language (Star # ts) \<longleftrightarrow> (\<exists>u \<in> set (suffixes_of s). u \<in> language ts)"
  by (auto simp: set_suffixes_of)

lemma language_single:
  assumes "denotes t = {[c] | c. P c}"
  shows "s \<in> language (t # ts) \<longleftrightarrow> (case s of [] \<Rightarrow> False | x # s' \<Rightarrow> P x \<and> s' \<in> language ts)"
proof (cases s)
  case Nil
  then show ?thesis using assms by auto
next
  case (Cons x s')
  have "P x \<Longrightarrow> s' \<in> language ts \<Longrightarrow> s \<in> language (t # ts)"
    unfolding language.simps using assms Cons by (intro CollectI exI [of _ "[x]"] exI [of _ s']) simp
  moreover have "s \<in> language (t # ts) \<Longrightarrow> P x \<and> s' \<in> language ts"
    using assms Cons by auto
  ultimately show ?thesis using Cons by auto
qed

lemma language_any:
  "s \<in> language (AnyOne # ts) \<longleftrightarrow> (case s of [] \<Rightarrow> False | _ # s' \<Rightarrow> s' \<in> language ts)"
  by (subst language_single [where P = "\<lambda>_. True"]) (simp_all split: list.split)

lemma language_lit:
  "s \<in> language (Lit c # ts) \<longleftrightarrow> (case s of [] \<Rightarrow> False | x # s' \<Rightarrow> x = c \<and> s' \<in> language ts)"
  by (rule language_single) simp

lemma language_class:
  "s \<in> language (fst (class_token p) # ts) \<longleftrightarrow>
     (case s of [] \<Rightarrow> False | x # s' \<Rightarrow> [x] \<in> denotes (fst (class_token p)) \<and> s' \<in> language ts)"
  by (rule language_single) (use class_token_single [of p _ "snd (class_token p)"] in force)

text \<open>The correctness theorem of the matcher.\<close>

lemma glob_match_language: "glob_match p s \<longleftrightarrow> s \<in> language (tokens p)"
proof (induction p arbitrary: s rule: tokens.induct)
  case 1
  then show ?case by simp
next
  case (2 c rest)
  consider "c = CHR ''*''" | "c = CHR ''?''" | "c = CHR ''[''"
    | "c = CHR 0x5C" "rest \<noteq> []"
    | "c \<noteq> CHR ''*''" "c \<noteq> CHR ''?''" "c \<noteq> CHR ''[''" "\<not> (c = CHR 0x5C \<and> rest \<noteq> [])"
    by blast
  then show ?case
  proof cases
    case 1
    have "rest = [] \<Longrightarrow> s \<in> language (Star # tokens rest)" by simp
    moreover have "tokens (c # rest) = Star # tokens rest"
      by (simp add: 1 tokens.simps(2))
    ultimately show ?thesis
      unfolding glob_match.simps(2) language_star
      using "2.IH"(1) [OF 1] 1 by (auto simp: list_ex_iff language_star simp del: language.simps)
  next
    case 2
    then show ?thesis
      using "2.IH"(2)
      by (simp add: glob_match.simps(2) tokens.simps(2) language_any del: language.simps
          split: list.split)
  next
    case 3
    have IH: "glob_match (drop (snd (class_token rest)) rest) s' \<longleftrightarrow>
        s' \<in> language (tokens (drop (snd (class_token rest)) rest))" for s'
      using "2.IH"(3) [of "fst (class_token rest)" "snd (class_token rest)" s'] 3
      by (simp add: 3)
    show ?thesis
      unfolding 3 tokens_class language_class glob_match_class IH ..
  next
    case 4
    then show ?thesis
      using "2.IH"(4)
      by (simp add: glob_match.simps(2) tokens.simps(2) language_lit del: language.simps
          split: list.split)
  next
    case 5
    have IH: "glob_match rest s' \<longleftrightarrow> s' \<in> language (tokens rest)" for s'
      by (rule "2.IH"(5)) (use 5 in simp_all)
    have "tokens (c # rest) = Lit c # tokens rest"
      by (simp only: tokens.simps(2) 5 if_False)
    moreover have "glob_match (c # rest) s \<longleftrightarrow>
        (case s of [] \<Rightarrow> False | x # s' \<Rightarrow> x = c \<and> glob_match rest s')"
      by (simp only: glob_match.simps(2) 5 if_False)
    ultimately show ?thesis
      by (simp only: IH language_lit)
  qed
qed

text \<open>A pattern with no special byte matches itself only.\<close>

definition plain :: "string \<Rightarrow> bool" where
  "plain p \<longleftrightarrow> set p \<inter> {CHR ''*'', CHR ''?'', CHR ''['', CHR 0x5C} = {}"

lemma tokens_plain: "plain p \<Longrightarrow> tokens p = map Lit p"
  by (induction p) (auto simp: plain_def tokens.simps(2))

lemma language_lits: "language (map Lit p) = {p}"
  by (induction p) auto

lemma glob_match_plain: "plain p \<Longrightarrow> glob_match p s \<longleftrightarrow> s = p"
  by (simp add: glob_match_language tokens_plain language_lits)

lemma glob_match_star: "glob_match ''*'' s"
  by (simp add: glob_match.simps(2))

subsection \<open>Properties\<close>

text \<open>
  C25. The backtracking matcher behind KEYS, SCAN MATCH and PSUBSCRIBE accepts exactly the
  strings the pattern stands for: the pattern read as a sequence of wildcards, classes
  and literal bytes, and the language of that sequence.
\<close>
theorem glob_is_its_language: "glob_match p s \<longleftrightarrow> s \<in> language (tokens p)"
  by (rule glob_match_language)

end
