(* ===== verification/Orders.thy ===== *)
theory Orders
  imports Floats
begin

text \<open>
  Comparators. The code sorts and searches with \<open>Ord::cmp\<close> and \<open>partial_cmp\<close>;
  the library functions it calls (\<open>partition_point\<close>, \<open>binary_search_by\<close>, \<open>sort_by\<close>) promise
  their result only for a comparator that is a total order on what is compared. The locale
  \<open>comparator\<close> states those laws on a carrier (scores exclude NaN), and the lemmas proved once
  inside it are used for sorted sets, record metadata and sorted key lists.
\<close>

subsection \<open>The library functions\<close>

text \<open>\<open>slice::partition_point\<close>: on a slice partitioned by \<open>p\<close>, the length of its prefix
  satisfying \<open>p\<close>.\<close>

definition partition_point :: "('a \<Rightarrow> bool) \<Rightarrow> 'a list \<Rightarrow> nat" where
  "partition_point p xs = length (takeWhile p xs)"

text \<open>\<open>slice::binary_search_by\<close> on a slice sorted by \<open>f\<close>: \<open>Inl\<close> for \<open>Ok\<close>, \<open>Inr\<close> for \<open>Err\<close>.\<close>

definition binary_search_by :: "('a \<Rightarrow> ordering) \<Rightarrow> 'a list \<Rightarrow> nat + nat" where
  "binary_search_by f xs =
     (let i = partition_point (\<lambda>x. f x = Less) xs
      in if i < length xs \<and> f (xs ! i) = Equal then Inl i else Inr i)"

text \<open>\<open>slice::sort_by\<close>, which is stable: every stable sort gives this list.\<close>

fun insert_by :: "('a \<Rightarrow> 'a \<Rightarrow> ordering) \<Rightarrow> 'a \<Rightarrow> 'a list \<Rightarrow> 'a list" where
  "insert_by cmp x [] = [x]"
| "insert_by cmp x (y # ys) =
     (if cmp x y = Greater then y # insert_by cmp x ys else x # y # ys)"

definition sort_by :: "('a \<Rightarrow> 'a \<Rightarrow> ordering) \<Rightarrow> 'a list \<Rightarrow> 'a list" where
  "sort_by cmp xs = foldr (insert_by cmp) xs []"

definition ascending :: "('a \<Rightarrow> 'a \<Rightarrow> ordering) \<Rightarrow> 'a list \<Rightarrow> bool" where
  "ascending cmp xs \<longleftrightarrow> sorted_wrt (\<lambda>a b. cmp a b = Less) xs"

definition ordered :: "('a \<Rightarrow> 'a \<Rightarrow> ordering) \<Rightarrow> 'a list \<Rightarrow> bool" where
  "ordered cmp xs \<longleftrightarrow> sorted_wrt (\<lambda>a b. cmp a b \<noteq> Greater) xs"

lemma mset_insert_by [simp]: "mset (insert_by cmp x xs) = add_mset x (mset xs)"
  by (induction xs) auto

lemma mset_sort_by [simp]: "mset (sort_by cmp xs) = mset xs"
  by (induction xs) (simp_all add: sort_by_def)

lemma set_sort_by [simp]: "set (sort_by cmp xs) = set xs"
  by (metis mset_sort_by set_mset_mset)

lemma length_sort_by [simp]: "length (sort_by cmp xs) = length xs"
  by (metis mset_sort_by size_mset)

lemma distinct_sort_by [simp]: "distinct (sort_by cmp xs) \<longleftrightarrow> distinct xs"
  by (metis mset_sort_by mset_eq_imp_distinct_iff)

lemma partition_point_le: "partition_point p xs \<le> length xs"
  by (simp add: partition_point_def length_takeWhile_le)

lemma insert_at_partition_point:
  "insert_at (partition_point p xs) x xs = takeWhile p xs @ x # dropWhile p xs"
  by (simp add: insert_at_def partition_point_def takeWhile_eq_take [symmetric]
      dropWhile_eq_drop [symmetric])

lemma ascending_filter: "ascending cmp xs \<Longrightarrow> ascending cmp (filter p xs)"
  by (simp add: ascending_def sorted_wrt_filter)

lemma ascending_remove_at: "ascending cmp xs \<Longrightarrow> ascending cmp (remove_at i xs)"
proof (cases "i < length xs")
  case True
  assume "ascending cmp xs"
  then have "sorted_wrt (\<lambda>a b. cmp a b = Less) (take i xs @ xs ! i # drop (Suc i) xs)"
    using remove_at_split [OF True] by (simp add: ascending_def)
  then show ?thesis by (auto simp: ascending_def remove_at_def sorted_wrt_append)
qed (simp add: remove_at_def ascending_def)

lemma ascending_take: "ascending cmp xs \<Longrightarrow> ascending cmp (take n xs)"
  by (simp add: ascending_def sorted_wrt_take)

lemma ascending_drop: "ascending cmp xs \<Longrightarrow> ascending cmp (drop n xs)"
  by (simp add: ascending_def sorted_wrt_drop)

lemma sorted_wrt_glue:
  "sorted_wrt P lo \<Longrightarrow> sorted_wrt P hi \<Longrightarrow> \<forall>a \<in> set lo. P a x \<Longrightarrow> \<forall>b \<in> set hi. P x b \<Longrightarrow>
   \<forall>a \<in> set lo. \<forall>b \<in> set hi. P a b \<Longrightarrow> sorted_wrt P (lo @ x # hi)"
  by (simp add: sorted_wrt_append)

subsection \<open>The laws\<close>

locale comparator =
  fixes cmp :: "'a \<Rightarrow> 'a \<Rightarrow> ordering" and ok :: "'a \<Rightarrow> bool"
  assumes cmp_refl: "ok a \<Longrightarrow> cmp a a = Equal"
    and cmp_swap: "ok a \<Longrightarrow> ok b \<Longrightarrow> cmp a b = Greater \<longleftrightarrow> cmp b a = Less"
    and less_trans: "ok a \<Longrightarrow> ok b \<Longrightarrow> ok c \<Longrightarrow> cmp a b = Less \<Longrightarrow> cmp b c \<noteq> Greater \<Longrightarrow> cmp a c = Less"
    and le_less_trans: "ok a \<Longrightarrow> ok b \<Longrightarrow> ok c \<Longrightarrow> cmp a b \<noteq> Greater \<Longrightarrow> cmp b c = Less \<Longrightarrow> cmp a c = Less"
    and le_trans: "ok a \<Longrightarrow> ok b \<Longrightarrow> ok c \<Longrightarrow> cmp a b \<noteq> Greater \<Longrightarrow> cmp b c \<noteq> Greater \<Longrightarrow> cmp a c \<noteq> Greater"
begin

lemma less_prefix:
  assumes "ok x" and "\<forall>y \<in> set xs. ok y" and "ascending cmp xs"
  shows "takeWhile (\<lambda>y. cmp y x = Less) xs = filter (\<lambda>y. cmp y x = Less) xs"
  using assms(2-)
proof (induction xs)
  case Nil
  then show ?case by simp
next
  case (Cons y ys)
  show ?case
  proof (cases "cmp y x = Less")
    case True
    with Cons show ?thesis by (simp add: ascending_def)
  next
    case False
    have "cmp z x \<noteq> Less" if "z \<in> set ys" for z
      using Cons.prems that False less_trans [of y z x] assms(1)
      by (auto simp: ascending_def)
    with False show ?thesis by (simp add: filter_empty_conv)
  qed
qed

lemma greater_suffix:
  assumes "ok x" and "\<forall>y \<in> set xs. ok y" and "ascending cmp xs"
  shows "dropWhile (\<lambda>y. cmp y x = Less) xs = filter (\<lambda>y. cmp y x \<noteq> Less) xs"
  using assms(2-)
proof (induction xs)
  case Nil
  then show ?case by simp
next
  case (Cons y ys)
  show ?case
  proof (cases "cmp y x = Less")
    case True
    with Cons show ?thesis by (simp add: ascending_def)
  next
    case False
    have "cmp z x \<noteq> Less" if "z \<in> set ys" for z
      using Cons.prems that False less_trans [of y z x] assms(1)
      by (auto simp: ascending_def)
    with False show ?thesis by simp
  qed
qed

text \<open>Inserting where \<open>partition_point\<close> says keeps the vector strictly ascending.\<close>

lemma ascending_insert:
  assumes x: "ok x" and xs: "\<forall>y \<in> set xs. ok y" and asc: "ascending cmp xs"
    and new: "\<forall>y \<in> set xs. cmp y x \<noteq> Equal"
  shows "ascending cmp (insert_at (partition_point (\<lambda>y. cmp y x = Less) xs) x xs)"
proof -
  let ?lo = "filter (\<lambda>y. cmp y x = Less) xs" and ?hi = "filter (\<lambda>y. cmp y x \<noteq> Less) xs"
  have hi: "cmp x y = Less" if "y \<in> set ?hi" for y
    using that new x xs cmp_swap [of y x] by (cases "cmp y x") auto
  have split: "?lo @ ?hi = xs"
    using takeWhile_dropWhile_id [of "\<lambda>y. cmp y x = Less" xs]
    by (simp only: less_prefix [OF x xs asc] greater_suffix [OF x xs asc])
  have "sorted_wrt (\<lambda>a b. cmp a b = Less) (?lo @ ?hi)"
    unfolding split using asc by (simp only: ascending_def)
  then have lohi: "\<forall>a \<in> set ?lo. \<forall>b \<in> set ?hi. cmp a b = Less"
    unfolding sorted_wrt_append by blast
  have "sorted_wrt (\<lambda>a b. cmp a b = Less) (?lo @ x # ?hi)"
  proof (rule sorted_wrt_glue)
    show "\<forall>b \<in> set ?hi. cmp x b = Less" using hi by blast
    show "\<forall>a \<in> set ?lo. \<forall>b \<in> set ?hi. cmp a b = Less" by (rule lohi)
  qed (use asc in \<open>simp_all add: ascending_def sorted_wrt_filter\<close>)
  then show ?thesis
    unfolding ascending_def insert_at_partition_point less_prefix [OF x xs asc]
      greater_suffix [OF x xs asc] .
qed

lemma partition_point_hit:
  assumes "ok x" and "\<forall>y \<in> set xs. ok y" and "ascending cmp xs"
    and "y \<in> set xs" and "cmp y x = Equal"
  shows "partition_point (\<lambda>y. cmp y x = Less) xs < length xs"
    and "cmp (xs ! partition_point (\<lambda>y. cmp y x = Less) xs) x = Equal"
proof -
  let ?p = "partition_point (\<lambda>y. cmp y x = Less) xs"
  have d: "drop ?p xs = filter (\<lambda>y. cmp y x \<noteq> Less) xs"
    using greater_suffix [OF assms(1-3)] by (simp add: dropWhile_eq_drop partition_point_def)
  have y: "y \<in> set (drop ?p xs)"
    unfolding d using assms(4,5) by simp
  then show l: "?p < length xs" by (cases "?p < length xs") auto
  then have c: "drop ?p xs = xs ! ?p # drop (Suc ?p) xs"
    by (simp add: Cons_nth_drop_Suc)
  then have "xs ! ?p \<in> set (drop ?p xs)" by simp
  then have ge: "cmp (xs ! ?p) x \<noteq> Less"
    unfolding d by simp
  have "xs ! ?p = y \<or> cmp (xs ! ?p) y = Less"
    using y c ascending_drop [OF assms(3), of ?p] by (auto simp: ascending_def)
  then have "cmp (xs ! ?p) x \<noteq> Greater"
    using le_trans [of "xs ! ?p" y x] assms l by auto
  with ge show "cmp (xs ! ?p) x = Equal" by (cases "cmp (xs ! ?p) x") auto
qed

lemma binary_search_Inl:
  "binary_search_by (\<lambda>y. cmp y x) xs = Inl i \<Longrightarrow> i < length xs \<and> cmp (xs ! i) x = Equal"
  by (auto simp: binary_search_by_def Let_def split: if_splits)

lemma binary_search_Inr:
  assumes "ok x" and "\<forall>y \<in> set xs. ok y" and "ascending cmp xs"
    and "binary_search_by (\<lambda>y. cmp y x) xs = Inr i"
  shows "i = partition_point (\<lambda>y. cmp y x = Less) xs" and "\<forall>y \<in> set xs. cmp y x \<noteq> Equal"
  using assms(4) partition_point_hit [OF assms(1-3)]
  by (auto simp: binary_search_by_def Let_def split: if_splits)

lemma ordered_insert_by:
  assumes "ok x" and "\<forall>y \<in> set xs. ok y" and "ordered cmp xs"
  shows "ordered cmp (insert_by cmp x xs)"
  using assms(2-)
proof (induction xs)
  case Nil
  then show ?case by (simp add: ordered_def)
next
  case (Cons y ys)
  show ?case
  proof (cases "cmp x y = Greater")
    case True
    then have "cmp y x = Less" using assms(1) Cons.prems cmp_swap by simp
    moreover have "set (insert_by cmp x ys) = insert x (set ys)"
      by (metis mset_insert_by set_mset_add_mset_insert set_mset_mset)
    ultimately show ?thesis using True Cons by (auto simp: ordered_def)
  next
    case False
    have "cmp x z \<noteq> Greater" if "z \<in> set ys" for z
      using le_trans [of x y z] Cons.prems that False assms(1) by (auto simp: ordered_def)
    with False Cons.prems show ?thesis by (auto simp: ordered_def)
  qed
qed

text \<open>\<open>sort_by\<close> orders what it is given.\<close>

lemma ordered_sort_by: "\<forall>y \<in> set xs. ok y \<Longrightarrow> ordered cmp (sort_by cmp xs)"
proof (induction xs)
  case Nil
  then show ?case by (simp add: sort_by_def ordered_def)
next
  case (Cons x xs)
  then show ?case
    using ordered_insert_by [of x "sort_by cmp xs"] set_sort_by [of cmp xs]
    by (simp add: sort_by_def)
qed

end

subsection \<open>Byte strings\<close>

interpretation byte_order: comparator "cmp_of :: string \<Rightarrow> string \<Rightarrow> ordering" "\<lambda>_. True"
  by unfold_locales (auto simp: cmp_of_def split: if_splits)

lemma cmp_of_simps [simp]:
  "cmp_of a b = Less \<longleftrightarrow> a < b" "cmp_of a b = Equal \<longleftrightarrow> a = b" "cmp_of a b = Greater \<longleftrightarrow> b < a"
  by (auto simp: cmp_of_def)

end
