(* ===== verification/Lists.thy ===== *)
theory Lists
  imports Prelude
begin

text \<open>
  \<^verbatim>\<open>src/types/list.rs\<close>: a list is a deque of byte strings, indexed Redis-style (negative
  indices count from the end). \<open>resolve_range\<close> clamps a pair of indices and is shared by the
  list and sorted-set commands; \<open>range\<close>, \<open>trim\<close>, LREM's \<open>remove\<close> and LINSERT's \<open>insert\<close> follow
  the code step by step, and the lemmas give each the meaning Redis documents, with no
  clamping in it.
\<close>

type_synonym vlist = "bytes list"

subsection \<open>Operations\<close>

definition resolve_range :: "nat \<Rightarrow> int \<Rightarrow> int \<Rightarrow> (nat \<times> nat) option" where
  "resolve_range len start stop =
     (let len = int len;
          start = (if start < 0 then start + len else start);
          stop = (if stop < 0 then stop + len else stop);
          start = (if start < 0 then 0 else start);
          stop = (if stop \<ge> len then len - 1 else stop)
      in if len = 0 \<or> start > stop \<or> start \<ge> len then None
         else Some (nat start, nat stop))"

definition resolve_index :: "nat \<Rightarrow> int \<Rightarrow> nat option" where
  "resolve_index len index =
     (let real = (if index < 0 then index + int len else index)
      in if real < 0 \<or> real \<ge> int len then None else Some (nat real))"

definition list_range :: "'a list \<Rightarrow> int \<Rightarrow> int \<Rightarrow> 'a list" where
  "list_range xs start stop =
     (case resolve_range (length xs) start stop of
        None \<Rightarrow> []
      | Some (start, stop) \<Rightarrow> take (stop - start + 1) (drop start xs))"

definition list_trim :: "'a list \<Rightarrow> int \<Rightarrow> int \<Rightarrow> 'a list" where
  "list_trim xs start stop =
     (case resolve_range (length xs) start stop of
        None \<Rightarrow> []
      | Some (start, stop) \<Rightarrow> drop start (take (stop + 1) xs))"

text \<open>\<open>usize::MAX\<close> as a limit on a vector's length is no limit: \<open>None\<close>.\<close>

definition match_positions :: "'a list \<Rightarrow> 'a \<Rightarrow> nat list" where
  "match_positions xs v = filter (\<lambda>i. xs ! i = v) [0..<length xs]"

definition list_remove :: "'a list \<Rightarrow> int \<Rightarrow> 'a \<Rightarrow> 'a list \<times> nat" where
  "list_remove xs cnt v =
     (let limit = (if cnt = 0 then None else Some (nat \<bar>cnt\<bar>));
          positions = match_positions xs v;
          positions = (if cnt < 0 then rev positions else positions);
          positions = (case limit of None \<Rightarrow> positions | Some n \<Rightarrow> take n positions);
          positions = rev (sort positions)
      in (fold remove_at positions xs, length positions))"

definition list_insert :: "'a list \<Rightarrow> bool \<Rightarrow> 'a \<Rightarrow> 'a \<Rightarrow> ('a list \<times> nat) option" where
  "list_insert xs before pivot v =
     (case position (\<lambda>x. x = pivot) xs of
        None \<Rightarrow> None
      | Some pos \<Rightarrow>
          (let xs' = insert_at (if before then pos else pos + 1) v xs
           in Some (xs', length xs')))"

subsection \<open>Index ranges\<close>

lemma resolve_range_bounds:
  "resolve_range len start stop = Some (s, e) \<Longrightarrow> s \<le> e \<and> e < len"
  by (auto simp: resolve_range_def Let_def split: if_splits)

text \<open>Which positions a pair of indices selects: each index counted from the end when
  negative, and no clamping.\<close>

definition from_end :: "nat \<Rightarrow> int \<Rightarrow> int" where
  "from_end len i = (if i < 0 then i + int len else i)"

definition selected :: "nat \<Rightarrow> int \<Rightarrow> int \<Rightarrow> nat set" where
  "selected len start stop = {i. i < len \<and> from_end len start \<le> int i \<and> int i \<le> from_end len stop}"

lemma resolve_range_selected:
  "(case resolve_range len start stop of None \<Rightarrow> {} | Some (s, e) \<Rightarrow> {s..e}) =
     selected len start stop"
  by (auto simp: resolve_range_def selected_def from_end_def Let_def split: if_splits)

lemma nths_cong: "(\<And>i. i < length xs \<Longrightarrow> i \<in> A \<longleftrightarrow> i \<in> B) \<Longrightarrow> nths xs A = nths xs B"
proof (induction xs arbitrary: A B)
  case Nil
  then show ?case by simp
next
  case (Cons x xs)
  have "nths xs {j. Suc j \<in> A} = nths xs {j. Suc j \<in> B}"
    by (rule Cons.IH) (use Cons.prems in auto)
  moreover have "0 \<in> A \<longleftrightarrow> 0 \<in> B" using Cons.prems by simp
  ultimately show ?case by (simp add: nths_Cons)
qed

lemma nths_interval: "e < length xs \<Longrightarrow> nths xs {s..e} = take (e + 1 - s) (drop s xs)"
proof (induction xs arbitrary: s e)
  case Nil
  then show ?case by simp
next
  case (Cons x xs)
  show ?case
  proof (cases e)
    case 0
    then show ?thesis by (cases s) (simp_all add: nths_Cons)
  next
    case (Suc e')
    with Cons.prems have "e' < length xs" by simp
    note IH = Cons.IH [OF this, of "s - 1"]
    have shift: "{j. Suc j \<in> {s..Suc e'}} = {s - 1..e'}" by auto
    show ?thesis
      unfolding Suc nths_Cons shift IH by (cases s) simp_all
  qed
qed

lemma list_range_nths: "list_range xs start stop = nths xs (selected (length xs) start stop)"
proof (cases "resolve_range (length xs) start stop")
  case None
  then show ?thesis
    using resolve_range_selected [of "length xs" start stop] by (simp add: list_range_def)
next
  case (Some p)
  obtain s e where p: "p = (s, e)" by (cases p)
  with Some have "e < length xs" "s \<le> e" using resolve_range_bounds by auto
  then show ?thesis
    using Some p resolve_range_selected [of "length xs" start stop] nths_interval [of e xs s]
    by (simp add: list_range_def Suc_diff_le)
qed

lemma list_trim_range: "list_trim xs start stop = list_range xs start stop"
  by (auto simp: list_trim_def list_range_def drop_take Suc_diff_le
      dest: resolve_range_bounds split: option.split)

lemma resolve_index_Some:
  "resolve_index len i = Some k \<longleftrightarrow> k < len \<and> int k = from_end len i"
  by (auto simp: resolve_index_def from_end_def Let_def split: if_splits)

lemma set_list_range: "set (list_range xs start stop) \<subseteq> set xs"
  by (simp add: list_range_nths set_nths_subset)

subsection \<open>LREM\<close>

lemma remove_at_Suc: "remove_at (Suc i) (x # xs) = x # remove_at i xs"
  by (simp add: remove_at_def)

lemma nths_remove_at:
  assumes "i < length xs" and "\<forall>j \<in> A. j < i"
  shows "nths (remove_at i xs) (- A) = nths xs (- insert i A)"
proof -
  have "{j. j + length (take i xs) \<in> - A} = UNIV" using assms by force
  moreover have "{j. j + length (take i xs @ [xs ! i]) \<in> - insert i A} = UNIV"
    using assms by force
  moreover have "nths (take i xs) (- insert i A) = nths (take i xs) (- A)"
    by (rule nths_cong) (use assms in auto)
  moreover have "nths xs (- insert i A) = nths (take i xs @ xs ! i # drop (Suc i) xs) (- insert i A)"
    using remove_at_split [OF assms(1)] by simp
  ultimately show ?thesis
    using assms by (simp add: remove_at_def nths_append nths_Cons nths_all)
qed

text \<open>Removing positions from the highest down removes just those positions.\<close>

lemma fold_remove_at:
  "sorted_wrt (>) ps \<Longrightarrow> \<forall>p \<in> set ps. p < length xs \<Longrightarrow> fold remove_at ps xs = nths xs (- set ps)"
proof (induction ps arbitrary: xs)
  case Nil
  then show ?case by (simp add: nths_all)
next
  case (Cons p ps)
  then have "p < length xs" by simp
  moreover have "\<forall>q \<in> set ps. q < length (remove_at p xs)"
    using Cons.prems by (force simp: length_remove_at)
  ultimately show ?case
    using Cons by (simp add: nths_remove_at)
qed

text \<open>The meaning of LREM: drop the first \<open>n\<close> matches, from the head or from the tail, or all.\<close>

fun drop_matches :: "'a \<Rightarrow> nat \<Rightarrow> 'a list \<Rightarrow> 'a list" where
  "drop_matches v n [] = []"
| "drop_matches v n (x # xs) =
     (if x = v \<and> 0 < n then drop_matches v (n - 1) xs else x # drop_matches v n xs)"

definition lrem_spec :: "int \<Rightarrow> 'a \<Rightarrow> 'a list \<Rightarrow> 'a list" where
  "lrem_spec cnt v xs =
     (if cnt = 0 then filter (\<lambda>x. x \<noteq> v) xs
      else if 0 < cnt then drop_matches v (nat cnt) xs
      else rev (drop_matches v (nat (- cnt)) (rev xs)))"

lemma match_positions_Cons:
  "match_positions (x # xs) v = (if x = v then [0] else []) @ map Suc (match_positions xs v)"
  by (simp add: match_positions_def upt_conv_Cons map_Suc_upt [symmetric] filter_map comp_def
      del: upt_Suc)

lemma match_positions_snoc:
  "match_positions (xs @ [x]) v = match_positions xs v @ (if x = v then [length xs] else [])"
  by (auto simp: match_positions_def nth_append intro: filter_cong)

lemma match_positions_wf:
  "sorted (match_positions xs v)" "distinct (match_positions xs v)"
  "p \<in> set (match_positions xs v) \<Longrightarrow> p < length xs"
  by (auto simp: match_positions_def sorted_wrt_filter)

lemma nths_drop_matches:
  "nths xs (- set (take n (match_positions xs v))) = drop_matches v n xs"
proof (induction xs arbitrary: n)
  case Nil
  then show ?case by simp
next
  case (Cons x xs)
  have s: "{j. Suc j \<in> - Suc ` A} = - A" "{j. Suc j \<in> - insert 0 (Suc ` A)} = - A" for A
    by auto
  show ?case
  proof (cases "x = v \<and> 0 < n")
    case True
    then obtain m where "n = Suc m" by (cases n) auto
    with True Cons.IH [of m] show ?thesis
      by (simp add: match_positions_Cons nths_Cons take_map s del: Compl_iff Compl_insert) simp
  next
    case False
    then have "take n (match_positions (x # xs) v) = map Suc (take n (match_positions xs v))"
      by (auto simp: match_positions_Cons take_map)
    then have "nths (x # xs) (- set (take n (match_positions (x # xs) v))) =
        x # nths xs (- set (take n (match_positions xs v)))"
      by (simp only: nths_Cons set_map s) auto
    with False Cons.IH [of n] show ?thesis by auto
  qed
qed

lemma nths_drop_matches_rev:
  "nths xs (- set (take n (rev (match_positions xs v)))) = rev (drop_matches v n (rev xs))"
proof (induction xs arbitrary: n rule: rev_induct)
  case Nil
  then show ?case by simp
next
  case (snoc x xs)
  have lt: "\<forall>p \<in> set (take m (rev (match_positions xs v))). p < length xs" for m
    using match_positions_wf(3) [of _ xs v] by (auto dest: in_set_takeD)
  have old: "nths xs (- insert (length xs) A) = nths xs (- A)" for A
    by (rule nths_cong) auto
  have new: "nths [x] {j. j + length xs \<in> - insert (length xs) A} = []" for A
    by (simp add: nths_Cons)
  have keep: "length xs \<notin> A \<Longrightarrow> nths [x] {j. j + length xs \<in> - A} = [x]" for A
    by (simp add: nths_Cons)
  show ?case
  proof (cases "x = v \<and> 0 < n")
    case True
    then obtain m where n: "n = Suc m" by (cases n) auto
    from True n have "take n (rev (match_positions (xs @ [x]) v)) =
        length xs # take m (rev (match_positions xs v))"
      by (simp add: match_positions_snoc)
    with True n snoc.IH [of m] show ?thesis
      by (simp add: nths_append old new del: Compl_iff) simp
  next
    case False
    then have "take n (rev (match_positions (xs @ [x]) v)) = take n (rev (match_positions xs v))"
      by (auto simp: match_positions_snoc)
    moreover have "length xs \<notin> set (take n (rev (match_positions xs v)))"
      using lt [of n] by blast
    ultimately show ?thesis
      using False snoc.IH [of n] by (auto simp: nths_append keep simp del: Compl_iff)
  qed
qed

lemma nths_filter_matches: "nths xs (- set (match_positions xs v)) = filter (\<lambda>x. x \<noteq> v) xs"
proof -
  have "drop_matches v n xs = filter (\<lambda>x. x \<noteq> v) xs" if "length xs \<le> n" for n
    using that by (induction v n xs rule: drop_matches.induct) auto
  moreover have "length (match_positions xs v) \<le> length xs"
    unfolding match_positions_def by (metis length_filter_le length_upt minus_nat.diff_0)
  ultimately show ?thesis
    using nths_drop_matches [of xs "length xs" v] by simp
qed

lemma sorted_wrt_rev_sort: "distinct ps \<Longrightarrow> sorted_wrt (>) (rev (sort (ps :: nat list)))"
  by (simp add: sorted_wrt_rev strict_sorted_iff)

lemma list_remove_nths:
  assumes "distinct ps" and "\<forall>p \<in> set ps. p < length xs"
  shows "fold remove_at (rev (sort ps)) xs = nths xs (- set ps)"
  using fold_remove_at [OF sorted_wrt_rev_sort [OF assms(1)], of xs] assms(2) by simp

lemma length_nths_complement:
  assumes "distinct ps" and "\<forall>p \<in> set ps. p < length xs"
  shows "length xs - length (nths xs (- set ps)) = length ps"
proof -
  have "{i. i < length xs \<and> i \<in> - set ps} = {..<length xs} - set ps" by auto
  moreover have "card ({..<length xs} - set ps) = length xs - length ps"
    using assms by (subst card_Diff_subset) (auto simp: distinct_card)
  moreover have "length ps \<le> length xs"
    using assms by (metis card_lessThan card_mono distinct_card finite_lessThan lessThan_iff subsetI)
  ultimately show ?thesis by (simp add: length_nths)
qed

lemma list_remove_spec:
  "list_remove xs cnt v = (lrem_spec cnt v xs, length xs - length (lrem_spec cnt v xs))"
proof -
  let ?ps = "if cnt = 0 then match_positions xs v
    else if 0 < cnt then take (nat cnt) (match_positions xs v)
    else take (nat (- cnt)) (rev (match_positions xs v))"
  have ps: "distinct ?ps" "\<forall>p \<in> set ?ps. p < length xs"
    using match_positions_wf [where xs = xs and v = v] by (auto dest: in_set_takeD)
  have "list_remove xs cnt v = (fold remove_at (rev (sort ?ps)) xs, length ?ps)"
    by (simp add: list_remove_def Let_def)
  moreover have "nths xs (- set ?ps) = lrem_spec cnt v xs"
    by (simp add: lrem_spec_def nths_filter_matches nths_drop_matches nths_drop_matches_rev)
  ultimately show ?thesis
    using list_remove_nths [OF ps] length_nths_complement [OF ps] by simp
qed

subsection \<open>Properties\<close>

text \<open>
  LRANGE and LTRIM select the same elements: those whose position lies between the two
  indices, each counted from the end when negative. Out-of-range indices are clamped
  and an empty or inverted range selects nothing.
\<close>
theorem range_and_trim_select:
  "list_range xs start stop = nths xs (selected (length xs) start stop) \<and>
   list_trim xs start stop = nths xs (selected (length xs) start stop)"
  by (simp add: list_trim_range list_range_nths)

text \<open>
  C28. LREM drops the first \<open>count\<close> occurrences from the head, the last \<open>-count\<close> from the
  tail, or all of them for zero, keeps the order of the rest and reports how many went:
  deleting by descending position equals the one-pass specification.
\<close>
theorem lrem_drops_matches:
  "list_remove xs cnt v = (lrem_spec cnt v xs, length xs - length (lrem_spec cnt v xs))"
  by (rule list_remove_spec)

end
