(* ===== verification/Zsets.thy ===== *)
theory Zsets
  imports Orders Lists FloatText "HOL-Library.Product_Lexorder"
begin

text \<open>
  \<^verbatim>\<open>src/types/zset.rs\<close>: a sorted set is a vector of members with their scores, strictly
  ascending by score and then member. Each operation follows the code's index arithmetic.
  The lemmas show the vector invariant (\<open>zset_wf\<close>) is kept, that the vector implements a finite
  map from member to score, that ranges and pops read it in order, and that the descending
  views mirror the ascending ones.
\<close>

type_synonym zset = "(bytes \<times> f64) list"

record score_bound =
  score :: f64
  exclusive :: bool

subsection \<open>Score bounds\<close>

definition score_bound_parse :: "bytes \<Rightarrow> score_bound option" where
  "score_bound_parse s =
     (case s of
        [] \<Rightarrow> map_option (\<lambda>v. \<lparr>score = v, exclusive = False\<rparr>) (parse_f64 s)
      | c # inner \<Rightarrow>
          if c = CHR ''('' then map_option (\<lambda>v. \<lparr>score = v, exclusive = True\<rparr>) (parse_f64 inner)
          else map_option (\<lambda>v. \<lparr>score = v, exclusive = False\<rparr>) (parse_f64 s))"

definition accepts_as_min :: "score_bound \<Rightarrow> f64 \<Rightarrow> bool" where
  "accepts_as_min b s = (if exclusive b then fless (score b) s else fle (score b) s)"

definition accepts_as_max :: "score_bound \<Rightarrow> f64 \<Rightarrow> bool" where
  "accepts_as_max b s = (if exclusive b then fless s (score b) else fle s (score b))"

definition in_bounds :: "score_bound \<Rightarrow> score_bound \<Rightarrow> f64 \<Rightarrow> bool" where
  "in_bounds lo hi s \<longleftrightarrow> accepts_as_min lo s \<and> accepts_as_max hi s"

subsection \<open>The order of entries\<close>

fun then_with :: "ordering \<Rightarrow> ordering \<Rightarrow> ordering" where
  "then_with Equal o2 = o2"
| "then_with o1 _ = o1"

definition cmp_entry :: "bytes \<times> f64 \<Rightarrow> bytes \<times> f64 \<Rightarrow> ordering" where
  "cmp_entry a b =
     then_with (case partial_cmp (snd a) (snd b) of None \<Rightarrow> Equal | Some c \<Rightarrow> c)
       (cmp_of (fst a) (fst b))"

subsection \<open>Operations\<close>

definition find_index :: "zset \<Rightarrow> bytes \<Rightarrow> nat option" where
  "find_index z member = position (\<lambda>(m, _). m = member) z"

definition zset_add :: "zset \<Rightarrow> bytes \<Rightarrow> f64 \<Rightarrow> zset \<times> bool" where
  "zset_add z member s =
     (let (entries, is_new) = (case find_index z member of
                                 Some idx \<Rightarrow> (remove_at idx z, False)
                               | None \<Rightarrow> (z, True));
          pos = partition_point (\<lambda>e. cmp_entry e (member, s) = Less) entries
      in (insert_at pos (member, s) entries, is_new))"

definition zset_rem :: "zset \<Rightarrow> bytes \<Rightarrow> zset \<times> bool" where
  "zset_rem z member =
     (case find_index z member of
        Some idx \<Rightarrow> (remove_at idx z, True)
      | None \<Rightarrow> (z, False))"

definition zset_score :: "zset \<Rightarrow> bytes \<Rightarrow> f64 option" where
  "zset_score z member = map_option (\<lambda>i. snd (z ! i)) (find_index z member)"

definition zset_incr_by :: "zset \<Rightarrow> bytes \<Rightarrow> f64 \<Rightarrow> zset \<times> f64" where
  "zset_incr_by z member delta =
     (let new_score = fadd F64 (case zset_score z member of None \<Rightarrow> Fin 0 | Some s \<Rightarrow> s) delta
      in (fst (zset_add z member new_score), new_score))"

definition zset_rank :: "zset \<Rightarrow> bytes \<Rightarrow> nat option" where
  "zset_rank z member = find_index z member"

definition zset_rev_rank :: "zset \<Rightarrow> bytes \<Rightarrow> nat option" where
  "zset_rev_rank z member = map_option (\<lambda>r. length z - 1 - r) (zset_rank z member)"

text \<open>\<open>entries[a..=b]\<close>.\<close>

definition slice_incl :: "'a list \<Rightarrow> nat \<Rightarrow> nat \<Rightarrow> 'a list" where
  "slice_incl xs a b = take (b + 1 - a) (drop a xs)"

definition zset_range :: "zset \<Rightarrow> int \<Rightarrow> int \<Rightarrow> (bytes \<times> f64) list" where
  "zset_range z start stop =
     (case resolve_range (length z) start stop of
        None \<Rightarrow> []
      | Some (start, stop) \<Rightarrow> slice_incl z start stop)"

definition zset_rev_range :: "zset \<Rightarrow> int \<Rightarrow> int \<Rightarrow> (bytes \<times> f64) list" where
  "zset_rev_range z start stop =
     (let len = length z
      in case resolve_range len start stop of
           None \<Rightarrow> []
         | Some (start, stop) \<Rightarrow> rev (slice_incl z (len - 1 - stop) (len - 1 - start)))"

definition range_by_score :: "zset \<Rightarrow> score_bound \<Rightarrow> score_bound \<Rightarrow> (bytes \<times> f64) list" where
  "range_by_score z lo hi = filter (\<lambda>(m, s). in_bounds lo hi s) z"

definition count_by_score :: "zset \<Rightarrow> score_bound \<Rightarrow> score_bound \<Rightarrow> nat" where
  "count_by_score z lo hi = length (filter (\<lambda>(m, s). in_bounds lo hi s) z)"

definition remove_range_by_rank :: "zset \<Rightarrow> int \<Rightarrow> int \<Rightarrow> zset \<times> nat" where
  "remove_range_by_rank z start stop =
     (case resolve_range (length z) start stop of
        None \<Rightarrow> (z, 0)
      | Some (start, stop) \<Rightarrow>
          (take start z @ drop (stop + 1) z, length (slice_incl z start stop)))"

definition remove_range_by_score :: "zset \<Rightarrow> score_bound \<Rightarrow> score_bound \<Rightarrow> zset \<times> nat" where
  "remove_range_by_score z lo hi =
     (let z' = filter (\<lambda>(m, s). \<not> in_bounds lo hi s) z
      in (z', length z - length z'))"

definition zset_pop :: "zset \<Rightarrow> nat \<Rightarrow> bool \<Rightarrow> zset \<times> (bytes \<times> f64) list" where
  "zset_pop z cnt from_max =
     (let cnt = min cnt (length z)
      in if from_max then
           (take (length z - cnt) z, rev (drop (length z - cnt) z))
         else (drop cnt z, take cnt z))"

subsection \<open>The order is one\<close>

definition entry_ok :: "bytes \<times> f64 \<Rightarrow> bool" where
  "entry_ok e \<longleftrightarrow> \<not> is_nan (snd e)"

lemma cmp_entry_Less:
  "entry_ok a \<Longrightarrow> entry_ok b \<Longrightarrow>
   cmp_entry a b = Less \<longleftrightarrow>
     fless (snd a) (snd b) \<or> \<not> fless (snd b) (snd a) \<and> fst a < fst b"
  using fless_linear [of "snd a" "snd b"]
  by (auto simp: cmp_entry_def entry_ok_def partial_cmp_def feq_def fless_def)

lemma cmp_entry_Greater:
  "entry_ok a \<Longrightarrow> entry_ok b \<Longrightarrow>
   cmp_entry a b = Greater \<longleftrightarrow>
     fless (snd b) (snd a) \<or> \<not> fless (snd a) (snd b) \<and> fst b < fst a"
  using fless_linear [of "snd a" "snd b"]
  by (auto simp: cmp_entry_def entry_ok_def partial_cmp_def feq_def fless_def)

lemma cmp_entry_Equal: "cmp_entry a b = Equal \<Longrightarrow> fst a = fst b"
  unfolding cmp_entry_def
  by (cases "case partial_cmp (snd a) (snd b) of None \<Rightarrow> Equal | Some c \<Rightarrow> c") simp_all

text \<open>Entries compare as triples do: infinities first, then the value, then the member.\<close>

definition entry_key :: "bytes \<times> f64 \<Rightarrow> int \<times> rat \<times> bytes" where
  "entry_key e = (rank (snd e), fval (snd e), fst e)"

lemma entry_key_less:
  "entry_key a < entry_key b \<longleftrightarrow>
     rank (snd a) < rank (snd b) \<or> rank (snd a) = rank (snd b) \<and>
       (fval (snd a) < fval (snd b) \<or> fval (snd a) = fval (snd b) \<and> fst a < fst b)"
  unfolding entry_key_def less_prod_simp
  by (cases "rank (snd a)" "rank (snd b)" rule: linorder_cases;
      cases "fval (snd a)" "fval (snd b)" rule: linorder_cases) simp_all

lemma fless_ok:
  "entry_ok a \<Longrightarrow> entry_ok b \<Longrightarrow> fless (snd a) (snd b) \<longleftrightarrow>
     rank (snd a) < rank (snd b) \<or> rank (snd a) = rank (snd b) \<and> fval (snd a) < fval (snd b)"
  by (simp add: fless_def entry_ok_def)

lemma lex_three:
  fixes i j :: "'a :: linorder" and x y :: "'b :: linorder"
  shows "(i < j \<or> i = j \<and> x < y) \<or> \<not> (j < i \<or> j = i \<and> y < x) \<and> P \<longleftrightarrow>
    i < j \<or> i = j \<and> (x < y \<or> x = y \<and> P)"
  by (cases i j rule: linorder_cases; cases x y rule: linorder_cases) auto

lemma cmp_entry_key:
  assumes "entry_ok a" and "entry_ok b"
  shows "cmp_entry a b = Less \<longleftrightarrow> entry_key a < entry_key b"
    and "cmp_entry a b = Greater \<longleftrightarrow> entry_key b < entry_key a"
  unfolding cmp_entry_Less [OF assms] cmp_entry_Greater [OF assms] fless_ok [OF assms]
    fless_ok [OF assms(2,1)] entry_key_less lex_three
  by (rule refl)+

interpretation entry_order: comparator cmp_entry entry_ok
proof unfold_locales
  fix a :: "bytes \<times> f64"
  assume "entry_ok a"
  then show "cmp_entry a a = Equal"
    using cmp_entry_key [of a a] by (cases "cmp_entry a a") simp_all
next
  fix a b c :: "bytes \<times> f64"
  assume ok: "entry_ok a" "entry_ok b" "entry_ok c"
  note keys = cmp_entry_key [OF ok(1,2)] cmp_entry_key [OF ok(2,3)] cmp_entry_key [OF ok(1,3)]
  show "cmp_entry a b = Less \<Longrightarrow> cmp_entry b c \<noteq> Greater \<Longrightarrow> cmp_entry a c = Less"
    unfolding keys by (rule less_le_trans) (simp_all only: not_less)
  show "cmp_entry a b \<noteq> Greater \<Longrightarrow> cmp_entry b c = Less \<Longrightarrow> cmp_entry a c = Less"
    unfolding keys by (rule le_less_trans) (simp_all only: not_less)
  show "cmp_entry a b \<noteq> Greater \<Longrightarrow> cmp_entry b c \<noteq> Greater \<Longrightarrow> cmp_entry a c \<noteq> Greater"
    unfolding keys not_less by (rule order_trans)
qed (simp add: cmp_entry_key)

subsection \<open>The invariant\<close>

definition zset_wf :: "zset \<Rightarrow> bool" where
  "zset_wf z \<longleftrightarrow> distinct (map fst z) \<and> (\<forall>e \<in> set z. entry_ok e) \<and> ascending cmp_entry z"

lemma zset_wf_Nil [simp]: "zset_wf []"
  by (simp add: zset_wf_def ascending_def)

lemma find_index_None: "find_index z m = None \<longleftrightarrow> m \<notin> fst ` set z"
  by (force simp: find_index_def position_None)

lemma find_index_Some:
  "distinct (map fst z) \<Longrightarrow> find_index z m = Some i \<longleftrightarrow> i < length z \<and> fst (z ! i) = m"
  by (auto simp: find_index_def position_Some case_prod_beta nth_eq_iff_index_eq
      distinct_conv_nth)

lemma zset_score_map_of: "zset_score z m = map_of z m"
proof (induction z)
  case Nil
  then show ?case by (simp add: zset_score_def find_index_def)
next
  case (Cons e z)
  then show ?case
    by (cases e) (auto simp: zset_score_def find_index_def option.map_comp comp_def)
qed

lemma remove_at_find_index:
  assumes "find_index z m = Some i" and "distinct (map fst z)"
  shows "remove_at i z = filter (\<lambda>e. fst e \<noteq> m) z"
  using assms
proof (induction z arbitrary: i)
  case Nil
  then show ?case by (simp add: find_index_def)
next
  case (Cons e z)
  show ?case
  proof (cases "fst e = m")
    case True
    with Cons.prems have "m \<notin> fst ` set z" by simp
    then have "filter (\<lambda>e. fst e \<noteq> m) z = z" by (force simp: filter_id_conv)
    moreover have "i = 0" using True Cons.prems by (simp add: find_index_def case_prod_beta)
    moreover note True
    ultimately have "i = 0" "filter (\<lambda>e. fst e \<noteq> m) z = z" by simp_all
    with True show ?thesis by (simp add: remove_at_def)
  next
    case False
    with Cons.prems obtain j where "i = Suc j" "find_index z m = Some j"
      by (auto simp: find_index_def case_prod_beta)
    with Cons False show ?thesis by (simp add: remove_at_Suc)
  qed
qed

text \<open>Adding is: drop the member's old entry, insert the new one where the order wants it.\<close>

lemma zset_add_filter:
  assumes "distinct (map fst z)"
  shows "zset_add z m s =
    (let rest = filter (\<lambda>e. fst e \<noteq> m) z
     in (insert_at (partition_point (\<lambda>e. cmp_entry e (m, s) = Less) rest) (m, s) rest,
         m \<notin> fst ` set z))"
proof (cases "find_index z m")
  case None
  then have "filter (\<lambda>e. fst e \<noteq> m) z = z" "m \<notin> fst ` set z"
    by (auto simp: find_index_None filter_id_conv)
  with None show ?thesis by (simp add: zset_add_def)
next
  case (Some i)
  then have "m \<in> fst ` set z" by (metis find_index_None option.distinct(1))
  with Some remove_at_find_index [OF Some assms] show ?thesis by (simp add: zset_add_def Let_def)
qed

lemma zset_rem_filter:
  assumes "distinct (map fst z)"
  shows "zset_rem z m = (filter (\<lambda>e. fst e \<noteq> m) z, m \<in> fst ` set z)"
proof (cases "find_index z m")
  case None
  then have "filter (\<lambda>e. fst e \<noteq> m) z = z" "m \<notin> fst ` set z"
    by (auto simp: find_index_None filter_id_conv)
  with None show ?thesis by (simp add: zset_rem_def)
next
  case (Some i)
  then have "m \<in> fst ` set z" by (metis find_index_None option.distinct(1))
  with Some remove_at_find_index [OF Some assms] show ?thesis by (simp add: zset_rem_def)
qed

lemma distinct_insert_at: "distinct (insert_at k x xs) \<longleftrightarrow> x \<notin> set xs \<and> distinct xs"
  using mset_eq_imp_distinct_iff [of "insert_at k x xs" "x # xs"] by (simp add: mset_insert_at)

lemma map_insert_at: "map f (insert_at k x xs) = insert_at k (f x) (map f xs)"
  by (simp add: insert_at_def take_map drop_map)

lemma zset_wf_filter: "zset_wf z \<Longrightarrow> zset_wf (filter p z)"
  by (simp add: zset_wf_def distinct_map_filter ascending_filter)

lemma zset_add_wf:
  assumes "zset_wf z" and "\<not> is_nan s"
  shows "zset_wf (fst (zset_add z m s))"
proof -
  let ?rest = "filter (\<lambda>e. fst e \<noteq> m) z"
  let ?new = "insert_at (partition_point (\<lambda>e. cmp_entry e (m, s) = Less) ?rest) (m, s) ?rest"
  have r: "zset_wf ?rest" using assms(1) by (rule zset_wf_filter)
  have "\<forall>e \<in> set ?rest. cmp_entry e (m, s) \<noteq> Equal"
    using cmp_entry_Equal by fastforce
  then have "ascending cmp_entry ?new"
    using r assms(2) by (intro entry_order.ascending_insert) (auto simp: zset_wf_def entry_ok_def)
  moreover have "distinct (map fst ?new)"
    using r by (auto simp: zset_wf_def map_insert_at distinct_insert_at)
  moreover have "fst (zset_add z m s) = ?new"
    using assms(1) by (simp add: zset_wf_def zset_add_filter Let_def)
  ultimately show ?thesis
    using r assms(2) by (auto simp: zset_wf_def entry_ok_def)
qed

lemma zset_rem_wf: "zset_wf z \<Longrightarrow> zset_wf (fst (zset_rem z m))"
  using zset_wf_filter [of z] by (simp add: zset_wf_def zset_rem_filter)

lemma zset_wf_append: "zset_wf (xs @ ys @ zs) \<Longrightarrow> zset_wf (xs @ zs)"
  by (auto simp: zset_wf_def ascending_def sorted_wrt_append)

lemma zset_wf_cut:
  assumes "zset_wf z" and "i \<le> j"
  shows "zset_wf (take i z @ drop j z)"
proof (rule zset_wf_append)
  have "drop i z = take (j - i) (drop i z) @ drop j z"
    using assms(2) append_take_drop_id [of "j - i" "drop i z"] by simp
  then show "zset_wf (take i z @ take (j - i) (drop i z) @ drop j z)"
    using assms(1) by (metis append_take_drop_id)
qed

lemma zset_wf_take: "zset_wf z \<Longrightarrow> zset_wf (take n z)"
  using zset_wf_cut [of z n "max n (length z)"] by simp

lemma zset_wf_drop: "zset_wf z \<Longrightarrow> zset_wf (drop n z)"
  using zset_wf_cut [of z 0 n] by simp

text \<open>Every operation that changes the vector keeps it well formed.\<close>

lemma remove_range_by_rank_wf: "zset_wf z \<Longrightarrow> zset_wf (fst (remove_range_by_rank z a b))"
  by (auto simp: remove_range_by_rank_def split: option.split dest!: resolve_range_bounds
      intro!: zset_wf_cut)

lemma remove_range_by_score_wf: "zset_wf z \<Longrightarrow> zset_wf (fst (remove_range_by_score z lo hi))"
  by (simp add: remove_range_by_score_def Let_def zset_wf_filter)

lemma zset_pop_wf: "zset_wf z \<Longrightarrow> zset_wf (fst (zset_pop z n from_max))"
  by (simp add: zset_pop_def Let_def zset_wf_take zset_wf_drop)

subsection \<open>A map from member to score\<close>

lemma zset_add_map:
  assumes "zset_wf z" and "\<not> is_nan s"
  shows "zset_score (fst (zset_add z m s)) = (zset_score z)(m \<mapsto> s)"
    and "snd (zset_add z m s) \<longleftrightarrow> zset_score z m = None"
proof -
  let ?rest = "filter (\<lambda>e. fst e \<noteq> m) z"
  have d: "distinct (map fst z)" using assms(1) by (simp add: zset_wf_def)
  have "set (fst (zset_add z m s)) = set ((m, s) # ?rest)"
    using d by (auto simp: zset_add_filter Let_def)
  moreover have "distinct (map fst (fst (zset_add z m s)))"
    using zset_add_wf [OF assms] by (simp add: zset_wf_def)
  moreover have "distinct (map fst ((m, s) # ?rest))" using d by (auto simp: distinct_map_filter)
  ultimately have "map_of (fst (zset_add z m s)) = map_of ((m, s) # ?rest)"
    using map_of_inject_set by blast
  moreover have "map_of ?rest x = map_of z x" if "x \<noteq> m" for x
    using that by (induction z) auto
  ultimately show "zset_score (fst (zset_add z m s)) = (zset_score z)(m \<mapsto> s)"
    by (auto simp: zset_score_map_of)
  show "snd (zset_add z m s) \<longleftrightarrow> zset_score z m = None"
    using d by (simp add: zset_add_filter Let_def zset_score_map_of map_of_eq_None_iff)
qed

lemma zset_rem_map:
  assumes "zset_wf z"
  shows "zset_score (fst (zset_rem z m)) = (zset_score z)(m := None)"
    and "snd (zset_rem z m) \<longleftrightarrow> zset_score z m \<noteq> None"
proof -
  have d: "distinct (map fst z)" using assms by (simp add: zset_wf_def)
  have "map_of (filter (\<lambda>e. fst e \<noteq> m) z) x = (if x = m then None else map_of z x)" for x
    by (induction z) auto
  then show "zset_score (fst (zset_rem z m)) = (zset_score z)(m := None)"
    using d by (auto simp: zset_rem_filter zset_score_map_of)
  show "snd (zset_rem z m) \<longleftrightarrow> zset_score z m \<noteq> None"
    using d by (simp add: zset_rem_filter zset_score_map_of map_of_eq_None_iff)
qed

subsection \<open>Views in order\<close>

lemma slice_incl_range:
  "resolve_range (length z) a b = Some (s, e) \<Longrightarrow> slice_incl z s e = take (e - s + 1) (drop s z)"
  by (auto simp: slice_incl_def Suc_diff_le dest: resolve_range_bounds)

lemma zset_range_list: "zset_range z a b = list_range z a b"
  by (auto simp: zset_range_def list_range_def slice_incl_range split: option.split)

text \<open>ZREVRANGE is ZRANGE of the reversed vector.\<close>

lemma rev_slice:
  assumes "s \<le> e" and "e < length z"
  shows "rev (slice_incl z (length z - 1 - e) (length z - 1 - s)) = take (e - s + 1) (drop s (rev z))"
proof (rule nth_equalityI)
  let ?w = "slice_incl z (length z - 1 - e) (length z - 1 - s)"
  have l: "length ?w = e - s + 1" using assms by (simp add: slice_incl_def)
  then show "length (rev ?w) = length (take (e - s + 1) (drop s (rev z)))" using assms by simp
  fix i
  assume "i < length (rev ?w)"
  then have i: "i < e - s + 1" using l by simp
  then have "rev ?w ! i = ?w ! (e - s - i)" using l by (simp add: rev_nth)
  also have "\<dots> = z ! (length z - 1 - e + (e - s - i))"
    using assms i by (simp add: slice_incl_def)
  also have "length z - 1 - e + (e - s - i) = length z - Suc (s + i)"
    using assms i by simp
  also have "z ! \<dots> = take (e - s + 1) (drop s (rev z)) ! i"
    using assms i by (simp add: rev_nth)
  finally show "rev ?w ! i = take (e - s + 1) (drop s (rev z)) ! i" .
qed

lemma zset_rev_range_list: "zset_rev_range z a b = list_range (rev z) a b"
  using rev_slice [of _ _ z]
  by (auto simp: zset_rev_range_def list_range_def Let_def split: option.split
      dest: resolve_range_bounds)

lemma zset_range_ascending: "zset_wf z \<Longrightarrow> zset_wf (zset_range z a b)"
  by (auto simp: zset_range_def slice_incl_def zset_wf_take zset_wf_drop split: option.split)

text \<open>A member's rank is the number of entries the order puts before it, and its reverse rank
  is its position in the reversed vector.\<close>

lemma ascending_before:
  assumes "zset_wf z" and "i < length z" and "j < length z"
  shows "cmp_entry (z ! j) (z ! i) = Less \<longleftrightarrow> j < i"
proof -
  have lt: "a < b \<Longrightarrow> b < length z \<Longrightarrow> cmp_entry (z ! a) (z ! b) = Less" for a b
    using assms(1) sorted_wrt_nth_less [of "\<lambda>a b. cmp_entry a b = Less" z a b]
    by (simp add: zset_wf_def ascending_def)
  have ok: "a < length z \<Longrightarrow> entry_ok (z ! a)" for a
    using assms(1) by (simp add: zset_wf_def)
  consider "j < i" | "j = i" | "i < j" by linarith
  then show ?thesis
  proof cases
    case 3
    then have "cmp_entry (z ! j) (z ! i) = Greater"
      using lt [OF 3 assms(3)] ok assms entry_order.cmp_swap by simp
    with 3 show ?thesis by simp
  qed (use assms lt ok entry_order.cmp_refl in simp_all)
qed

lemma zset_rank_count:
  assumes "zset_wf z" and "zset_rank z m = Some i" and "zset_score z m = Some s"
  shows "i = length (filter (\<lambda>e. cmp_entry e (m, s) = Less) z)"
proof -
  have d: "distinct (map fst z)" using assms(1) by (simp add: zset_wf_def)
  have f: "find_index z m = Some i" using assms(2) by (simp add: zset_rank_def)
  then have i: "i < length z" "fst (z ! i) = m" using find_index_Some [OF d] by auto
  have "snd (z ! i) = s" using assms(3) f by (simp add: zset_score_def)
  with i have e: "z ! i = (m, s)" by (metis prod.collapse)
  have "{j. j < length z \<and> cmp_entry (z ! j) (m, s) = Less} = {..<i}"
    using ascending_before [OF assms(1) i(1)] i(1) e by auto
  then show ?thesis by (simp add: length_filter_conv_card)
qed

lemma zset_rev_rank_rev:
  assumes "zset_wf z"
  shows "zset_rev_rank z m = find_index (rev z) m"
proof (cases "find_index z m")
  case None
  then have "find_index (rev z) m = None" by (simp add: find_index_None)
  with None show ?thesis by (simp add: zset_rev_rank_def zset_rank_def)
next
  case (Some i)
  have d: "distinct (map fst z)" using assms by (simp add: zset_wf_def)
  then have d': "distinct (map fst (rev z))" by (simp add: rev_map [symmetric])
  have i: "i < length z" "fst (z ! i) = m" using Some find_index_Some [OF d] by auto
  then have "find_index (rev z) m = Some (length z - 1 - i)"
    unfolding find_index_Some [OF d'] by (simp add: rev_nth)
  with Some show ?thesis by (simp add: zset_rev_rank_def zset_rank_def)
qed

text \<open>Pops take from the named end and keep the rest; removals report what they removed.\<close>

lemma zset_pop_spec:
  "zset_pop z n from_max =
     (if from_max then (rev (drop n (rev z)), take n (rev z)) else (drop n z, take n z))"
proof -
  have "length z - min n (length z) = length z - n" by simp
  then show ?thesis
    by (cases "n \<le> length z") (simp_all add: zset_pop_def Let_def take_rev drop_rev)
qed

lemma cut_nths:
  assumes "s \<le> e" and "e < length z"
  shows "nths z (- {s..e}) = take s z @ drop (e + 1) z"
proof -
  let ?mid = "take (e + 1 - s) (drop s z)"
  have z: "z = take s z @ ?mid @ drop (e + 1) z"
    using append_take_drop_id [of s z] append_take_drop_id [of "e + 1 - s" "drop s z"] assms
    by simp
  have l: "length (take s z) = s" "length ?mid = e + 1 - s" using assms by simp_all
  have 1: "nths (take s z) (- {s..e}) = take s z" by (rule nths_all) (use l in auto)
  have 2: "nths ?mid {j. j + s \<in> - {s..e}} = []"
  proof -
    have "nths ?mid {j. j + s \<in> - {s..e}} = nths ?mid {}" by (rule nths_cong) (use l in auto)
    then show ?thesis by simp
  qed
  have 3: "nths (drop (e + 1) z) {j. j + (e + 1 - s) + s \<in> - {s..e}} = drop (e + 1) z"
    by (rule nths_all) (use assms in auto)
  have "nths (take s z @ ?mid @ drop (e + 1) z) (- {s..e}) = take s z @ drop (e + 1) z"
    unfolding nths_append l 1 2 using 3 by (simp add: l add.assoc)
  with z show ?thesis by simp
qed

lemma remove_range_by_rank_nths:
  "remove_range_by_rank z a b =
     (nths z (- selected (length z) a b), length (zset_range z a b))"
proof (cases "resolve_range (length z) a b")
  case None
  then show ?thesis
    using resolve_range_selected [of "length z" a b]
    by (simp add: remove_range_by_rank_def zset_range_def nths_all)
next
  case (Some p)
  obtain s e where p: "p = (s, e)" by (cases p)
  with Some have "s \<le> e" "e < length z" using resolve_range_bounds by auto
  note cut = cut_nths [OF this]
  have "selected (length z) a b = {s..e}"
    using Some p resolve_range_selected [of "length z" a b] by simp
  with Some p cut show ?thesis by (simp add: remove_range_by_rank_def zset_range_def)
qed

subsection \<open>Properties\<close>

text \<open>
  C27. Adding a member to a sorted set keeps the set sorted by score and then member, with
  each member once, changes that member's score and no other, and reports as new exactly
  a member that was absent.
\<close>
theorem zset_add_sorted_map:
  assumes "zset_wf z" and "\<not> is_nan s"
  shows "zset_wf (fst (zset_add z m s)) \<and>
    zset_score (fst (zset_add z m s)) = (zset_score z)(m \<mapsto> s) \<and>
    (snd (zset_add z m s) \<longleftrightarrow> zset_score z m = None)"
  using zset_add_wf [OF assms] zset_add_map [OF assms] by simp

lemma zset_sample_wf: "zset_wf [(''b'', NInf), (''a'', Fin 1), (''c'', Fin 1)]"
  by code_simp

lemma zset_add_sorted_map_witness:
  "zset_wf (fst (zset_add [(''b'', NInf), (''a'', Fin 1), (''c'', Fin 1)] ''a'' PInf)) \<and>
   zset_score (fst (zset_add [(''b'', NInf), (''a'', Fin 1), (''c'', Fin 1)] ''a'' PInf)) =
     (zset_score [(''b'', NInf), (''a'', Fin 1), (''c'', Fin 1)])(''a'' \<mapsto> PInf) \<and>
   (snd (zset_add [(''b'', NInf), (''a'', Fin 1), (''c'', Fin 1)] ''a'' PInf) \<longleftrightarrow>
     zset_score [(''b'', NInf), (''a'', Fin 1), (''c'', Fin 1)] ''a'' = None)"
  by (rule zset_add_sorted_map [OF zset_sample_wf]) simp

text \<open>
  ZRANK is the number of entries that sort before the member, and ZREVRANK counts from
  the other end.
\<close>
theorem zset_rank_counts:
  assumes "zset_wf z" and "zset_rank z m = Some i" and "zset_score z m = Some s"
  shows "i = length (filter (\<lambda>e. cmp_entry e (m, s) = Less) z) \<and>
    zset_rev_rank z m = Some (length z - 1 - i)"
  using zset_rank_count [OF assms] assms(2) by (simp add: zset_rev_rank_def)

lemma zset_rank_counts_witness:
  "2 = length (filter (\<lambda>e. cmp_entry e (''c'', Fin 1) = Less)
         [(''b'', NInf), (''a'', Fin 1), (''c'', Fin 1)]) \<and>
   zset_rev_rank [(''b'', NInf), (''a'', Fin 1), (''c'', Fin 1)] ''c'' =
     Some (length [(''b'', NInf), (''a'', Fin 1), (''c'', Fin 1)] - 1 - 2)"
  by (rule zset_rank_counts [OF zset_sample_wf]) code_simp+

text \<open>
  The reverse range is the range of the reversed set, ZPOPMIN and ZPOPMAX split the set
  into what is returned and what stays, taken from the named end in rank order, and
  removing by rank deletes exactly what the same range would return.
\<close>
theorem zset_ranges_mirror:
  "zset_rev_range z a b = nths (rev z) (selected (length z) a b) \<and>
   zset_pop z n from_max =
     (if from_max then (rev (drop n (rev z)), take n (rev z)) else (drop n z, take n z)) \<and>
   remove_range_by_rank z a b = (nths z (- selected (length z) a b), length (zset_range z a b))"
  by (simp add: zset_rev_range_list list_range_nths zset_pop_spec remove_range_by_rank_nths)

end
