(* ===== verification/MemTypes.thy ===== *)
theory MemTypes
  imports Floats
begin

text \<open>
  The data of a memory index (\<^verbatim>\<open>src/types/memory/\<close>): its records, its inverted index and its
  vector array. Only the types are here, because the keyspace stores them.
\<close>

datatype mode = Search | Vector | Hybrid

datatype metric = Cosine | L2 | InnerProduct

record weights =
  w_keyword :: f32
  w_vector :: f32
  w_recency :: f32
  w_importance :: f32

record memory_config =
  mc_mode :: mode
  mc_dim :: nat
  mc_metric :: metric
  mc_weights :: weights
  mc_half_life :: time

record memory_record =
  rec_id :: bytes
  rec_text :: bytes
  rec_meta :: "(bytes \<times> bytes) list"
  rec_importance :: f32
  rec_created_at :: time
  rec_updated_at :: time
  rec_expire_at :: "time option"
  rec_slot :: "nat option"

record text_index =
  postings :: "(bytes, (bytes \<times> nat) list) hmap"
  doc_len :: "(bytes, nat) hmap"
  total_len :: nat

record vector_index =
  vi_dim :: nat
  vi_metric :: metric
  vi_data :: "f32 list"
  vi_free :: "nat list"
  vi_live :: nat

record memory =
  mem_config :: memory_config
  mem_records :: "(bytes, memory_record) hmap"
  mem_text :: text_index
  mem_vectors :: vector_index
  mem_next_id :: nat

end
