(* ===== verification/Rand.thy ===== *)
theory Rand
  imports Floats
begin

text \<open>
  \<^verbatim>\<open>src/util/rand.rs\<close> and the world outside the program. \<open>env\<close> is what a command reads from
  it: the wall clock, the monotonic clock, the allocator's counters
  (\<^verbatim>\<open>src/util/memory.rs\<close>), after how many entries writing a dump fails (\<open>None\<close> when it does
  not), and the process id. One command reads one \<open>env\<close>: the clock does not advance while it
  runs. The generator is the thread-local xorshift64*, its state an explicit word; a state of
  zero means not yet seeded.
\<close>

unbundle bit_operations_syntax

record env =
  now :: time
  mono :: time
  used_bytes :: nat
  peak_bytes :: nat
  disk_fails :: "nat option"
  pid :: nat

definition rand_seed :: "env \<Rightarrow> 64 word" where
  "rand_seed E =
     (if 0 \<le> now E then word_of_int (now E) else 0x2545F4914F6CDD1D) OR 1"

definition xorshift :: "64 word \<Rightarrow> 64 word" where
  "xorshift x =
     (let x = x XOR drop_bit 12 x;
          x = x XOR push_bit 25 x;
          x = x XOR drop_bit 27 x
      in x)"

text \<open>The new state, and the value drawn.\<close>

definition next_u64 :: "env \<Rightarrow> 64 word \<Rightarrow> 64 word \<times> 64 word" where
  "next_u64 E s =
     (let x = xorshift (if s = 0 then rand_seed E else s)
      in (x, x * 0x2545F4914F6CDD1D))"

definition unit_interval :: "env \<Rightarrow> 64 word \<Rightarrow> 64 word \<times> f64" where
  "unit_interval E s =
     (let (s, v) = next_u64 E s
      in (s, fdiv F64 (of_nat_flt F64 (unat (drop_bit 11 v))) (of_nat_flt F64 (2 ^ 53))))"

definition below :: "env \<Rightarrow> nat \<Rightarrow> 64 word \<Rightarrow> 64 word \<times> nat" where
  "below E n s =
     (if n = 0 then (s, 0)
      else (let (s, v) = next_u64 E s in (s, unat v mod n)))"

lemma below_less: "0 < n \<Longrightarrow> snd (below E n s) < n"
  by (simp add: below_def split: prod.split)

text \<open>The generator never falls back to the unseeded state, so it never repeats the seed.\<close>

lemma xor_shift_zero:
  fixes x :: "64 word"
  assumes shift: "\<And>i. bit y i \<longleftrightarrow> i < 64 \<and> bit x (i + k)" and "0 < k" and "x XOR y = 0"
  shows "x = 0"
proof -
  have step: "bit x i \<longleftrightarrow> i < 64 \<and> bit x (i + k)" for i
  proof -
    have "bit (x XOR y) i = bit (0 :: 64 word) i" using assms(3) by simp
    then show ?thesis
      using shift [of i] bit_imp_le_length [of x i] by (auto simp: bit_xor_iff)
  qed
  have "\<not> bit x i" for i
  proof (induction "64 - i" arbitrary: i rule: less_induct)
    case less
    show ?case
    proof (cases "i < 64")
      case True
      then have "\<not> bit x (i + k)" by (intro less) (use \<open>0 < k\<close> in simp)
      then show ?thesis using step by blast
    next
      case False
      then show ?thesis using bit_imp_le_length [of x i] by auto
    qed
  qed
  then show ?thesis by (simp add: bit_eq_iff)
qed

lemma xor_push_zero:
  fixes x :: "64 word"
  assumes "0 < k" and "x XOR push_bit k x = 0"
  shows "x = 0"
proof -
  have step: "bit x i \<longleftrightarrow> i < 64 \<and> k \<le> i \<and> bit x (i - k)" for i
  proof -
    have "bit (x XOR push_bit k x) i = bit (0 :: 64 word) i" using assms(2) by simp
    then show ?thesis
      using bit_imp_le_length [of x i] by (auto simp: bit_xor_iff bit_push_bit_iff)
  qed
  have "\<not> bit x i" for i
  proof (induction i rule: less_induct)
    case (less i)
    show ?case
    proof (cases "k \<le> i")
      case True
      then have "\<not> bit x (i - k)" using less [of "i - k"] \<open>0 < k\<close> by simp
      then show ?thesis using step by blast
    qed (use step in blast)
  qed
  then show ?thesis by (simp add: bit_eq_iff)
qed

lemma xor_drop_zero:
  fixes x :: "64 word"
  assumes "0 < k" and "x XOR drop_bit k x = 0"
  shows "x = 0"
proof (rule xor_shift_zero [OF _ assms])
  fix i
  show "bit (drop_bit k x) i \<longleftrightarrow> i < 64 \<and> bit x (i + k)"
    using bit_imp_le_length [of x "i + k"] by (auto simp: bit_drop_bit_eq add.commute)
qed

lemma xorshift_nonzero: "x \<noteq> 0 \<Longrightarrow> xorshift x \<noteq> 0"
  unfolding xorshift_def Let_def by (metis xor_drop_zero xor_push_zero zero_less_numeral)

lemma rand_seed_nonzero: "rand_seed E \<noteq> 0"
proof -
  have "bit (rand_seed E) 0" by (simp add: rand_seed_def bit_or_iff bit_1_iff)
  then show ?thesis by auto
qed

lemma next_u64_nonzero: "fst (next_u64 E s) \<noteq> 0"
  by (simp add: next_u64_def xorshift_nonzero rand_seed_nonzero Let_def)

end
