(* ===== verification/MemIndex.thy ===== *)
theory MemIndex
  imports MemTypes Orders Bytes Rand
begin

text \<open>
  The stores inside a memory index: one record's metadata (\<^verbatim>\<open>src/types/memory/record.rs\<close>), the
  inverted index (\<^verbatim>\<open>src/types/memory/text.rs\<close>) and the vector array
  (\<^verbatim>\<open>src/types/memory/vector.rs\<close>), with the parts of \<^verbatim>\<open>src/types/memory/mod.rs\<close> that rebuild an
  index from its records, which is what copying a key does. Searching is not here.
\<close>

subsection \<open>Records\<close>

definition DEFAULT_IMPORTANCE :: f32 where "DEFAULT_IMPORTANCE = Fin (1/2)"

definition record_new :: "bytes \<Rightarrow> bytes \<Rightarrow> time \<Rightarrow> memory_record" where
  "record_new i t at_time =
     \<lparr>rec_id = i, rec_text = t, rec_meta = [], rec_importance = DEFAULT_IMPORTANCE,
      rec_created_at = at_time, rec_updated_at = at_time, rec_expire_at = None, rec_slot = None\<rparr>"

definition rec_is_live :: "time \<Rightarrow> memory_record \<Rightarrow> bool" where
  "rec_is_live t r = (case rec_expire_at r of Some d \<Rightarrow> d > t | None \<Rightarrow> True)"

definition cmp_field :: "bytes \<times> bytes \<Rightarrow> bytes \<times> bytes \<Rightarrow> ordering" where
  "cmp_field a b = cmp_of (fst a) (fst b)"

definition find_field :: "(bytes \<times> bytes) list \<Rightarrow> bytes \<Rightarrow> nat + nat" where
  "find_field m f = binary_search_by (\<lambda>p. cmp_field p (f, [])) m"

definition set_meta :: "bytes \<Rightarrow> bytes \<Rightarrow> memory_record \<Rightarrow> memory_record \<times> bool" where
  "set_meta f v r =
     (case find_field (rec_meta r) f of
        Inl i \<Rightarrow> (r\<lparr>rec_meta := (rec_meta r)[i := (fst (rec_meta r ! i), v)]\<rparr>, False)
      | Inr i \<Rightarrow> (r\<lparr>rec_meta := insert_at i (f, v) (rec_meta r)\<rparr>, True))"

definition get_meta :: "bytes \<Rightarrow> memory_record \<Rightarrow> bytes option" where
  "get_meta f r =
     (case find_field (rec_meta r) f of
        Inl i \<Rightarrow> Some (snd (rec_meta r ! i)) | Inr _ \<Rightarrow> None)"

definition remove_meta :: "bytes \<Rightarrow> memory_record \<Rightarrow> memory_record \<times> bool" where
  "remove_meta f r =
     (case find_field (rec_meta r) f of
        Inl i \<Rightarrow> (r\<lparr>rec_meta := remove_at i (rec_meta r)\<rparr>, True) | Inr _ \<Rightarrow> (r, False))"

subsection \<open>The inverted index\<close>

definition STOPWORDS :: "bytes list" where
  "STOPWORDS =
     [''a'', ''an'', ''and'', ''are'', ''as'', ''at'', ''be'', ''but'', ''by'', ''for'', ''from'',
      ''had'', ''has'', ''have'', ''he'', ''her'', ''his'', ''in'', ''is'', ''it'', ''its'', ''of'',
      ''on'', ''or'', ''she'', ''that'', ''the'', ''their'', ''them'', ''then'', ''there'',
      ''these'', ''they'', ''this'', ''to'', ''was'', ''were'', ''with'']"

definition is_stopword :: "bytes \<Rightarrow> bool" where
  "is_stopword term \<longleftrightarrow> term \<in> set STOPWORDS"

definition is_word_byte :: "char \<Rightarrow> bool" where
  "is_word_byte c \<longleftrightarrow>
     (let n = ord_of c
      in 48 \<le> n \<and> n \<le> 57 \<or> 65 \<le> n \<and> n \<le> 90 \<or> 97 \<le> n \<and> n \<le> 122 \<or> c = CHR ''_'' \<or> n \<ge> 128)"

text \<open>The new terms, and whether the cap is reached; the pending word is cleared either way.
  The cap \<open>None\<close> is \<open>usize::MAX\<close>, which no list reaches.\<close>

definition push_term :: "bytes list \<Rightarrow> bytes \<Rightarrow> nat option \<Rightarrow> bytes list \<times> bool" where
  "push_term terms word max_terms =
     (let terms = (if length word > 1 \<and> \<not> is_stopword word then terms @ [word] else terms)
      in (terms, case max_terms of None \<Rightarrow> False | Some n \<Rightarrow> length terms \<ge> n))"

fun tokenize_loop :: "bytes \<Rightarrow> bytes list \<Rightarrow> bytes \<Rightarrow> nat option \<Rightarrow> bytes list" where
  "tokenize_loop [] terms word max_terms = fst (push_term terms word max_terms)"
| "tokenize_loop (b # bs) terms word max_terms =
     (if is_word_byte b then tokenize_loop bs terms (word @ [lower b]) max_terms
      else (let (terms, full) = push_term terms word max_terms
            in if full then terms else tokenize_loop bs terms [] max_terms))"

definition tokenize :: "bytes \<Rightarrow> nat option \<Rightarrow> bytes list" where
  "tokenize txt max_terms = tokenize_loop txt [] [] max_terms"

definition term_frequencies :: "bytes list \<Rightarrow> (bytes \<times> nat) list" where
  "term_frequencies terms =
     fold (\<lambda>t m. hm_insert t (case hm_get m t of None \<Rightarrow> 1 | Some n \<Rightarrow> n + 1) m) terms []"

definition empty_text_index :: text_index where
  "empty_text_index = \<lparr>postings = [], doc_len = [], total_len = 0\<rparr>"

definition text_remove :: "bytes \<Rightarrow> bytes \<Rightarrow> nat option \<Rightarrow> text_index \<Rightarrow> text_index" where
  "text_remove i txt max_terms ix =
     (case hm_get (doc_len ix) i of
        None \<Rightarrow> ix
      | Some len \<Rightarrow>
          fold (\<lambda>(t, _) ix.
              case hm_get (postings ix) t of
                None \<Rightarrow> ix
              | Some ps \<Rightarrow>
                  (let ps = filter (\<lambda>(d, _). d \<noteq> i) ps
                   in ix\<lparr>postings := (if ps = [] then hm_remove t (postings ix)
                                       else hm_insert t ps (postings ix))\<rparr>))
            (term_frequencies (tokenize txt max_terms))
            (ix\<lparr>doc_len := hm_remove i (doc_len ix), total_len := total_len ix - len\<rparr>))"

definition text_index :: "bytes \<Rightarrow> bytes option \<Rightarrow> bytes \<Rightarrow> nat option \<Rightarrow> text_index \<Rightarrow> text_index" where
  "text_index i previous txt max_terms ix =
     (let ix = (case previous of None \<Rightarrow> ix | Some p \<Rightarrow> text_remove i p max_terms ix);
          frequencies = term_frequencies (tokenize txt max_terms);
          len = sum_list (map snd frequencies);
          ix = fold (\<lambda>(t, tf) ix. ix\<lparr>postings := hm_insert t
                 ((case hm_get (postings ix) t of None \<Rightarrow> [] | Some ps \<Rightarrow> ps) @ [(i, tf)])
                 (postings ix)\<rparr>) frequencies ix
      in ix\<lparr>doc_len := hm_insert i len (doc_len ix), total_len := total_len ix + len\<rparr>)"

subsection \<open>The vector array\<close>

definition normalizes :: "metric \<Rightarrow> bool" where
  "normalizes m \<longleftrightarrow> m = Cosine"

definition vnorm :: "f32 list \<Rightarrow> f32" where
  "vnorm vs = fsqrt F32 (fsum F32 (map (\<lambda>v. fmul F32 v v) vs))"

definition dot :: "f32 list \<Rightarrow> f32 list \<Rightarrow> f32" where
  "dot a b = fsum F32 (map (\<lambda>(x, y). fmul F32 x y) (zip a b))"

definition l2_distance :: "f32 list \<Rightarrow> f32 list \<Rightarrow> f32" where
  "l2_distance a b =
     fsqrt F32 (fsum F32 (map (\<lambda>(x, y). fmul F32 (fsub F32 x y) (fsub F32 x y)) (zip a b)))"

definition vector_new :: "nat \<Rightarrow> metric \<Rightarrow> vector_index" where
  "vector_new d m = \<lparr>vi_dim = d, vi_metric = m, vi_data = [], vi_free = [], vi_live = 0\<rparr>"

definition prepared :: "metric \<Rightarrow> f32 list \<Rightarrow> f32 list" where
  "prepared m vs =
     (if \<not> normalizes m then vs
      else (let len = vnorm vs in if fless (Fin 0) len then map (\<lambda>v. fdiv F32 v len) vs else vs))"

text \<open>\<open>data[at..at + dim].copy_from_slice(values)\<close>, then normalised in place.\<close>

definition splice :: "'a list \<Rightarrow> nat \<Rightarrow> 'a list \<Rightarrow> 'a list" where
  "splice xs i ys = take i xs @ ys @ drop (i + length ys) xs"

definition vector_write :: "nat \<Rightarrow> f32 list \<Rightarrow> vector_index \<Rightarrow> vector_index" where
  "vector_write s vs ix =
     ix\<lparr>vi_data := splice (vi_data ix) (s * vi_dim ix) (prepared (vi_metric ix) vs)\<rparr>"

definition vector_insert :: "f32 list \<Rightarrow> vector_index \<Rightarrow> vector_index \<times> nat" where
  "vector_insert vs ix =
     (let (ix, s) =
        (if vi_free ix \<noteq> [] then (ix\<lparr>vi_free := butlast (vi_free ix)\<rparr>, last (vi_free ix))
         else (let ix = ix\<lparr>vi_data := vi_data ix @ replicate (vi_dim ix) (Fin 0)\<rparr>
               in (ix, length (vi_data ix) div vi_dim ix - 1)));
          ix = ix\<lparr>vi_live := vi_live ix + 1\<rparr>
      in (vector_write s vs ix, s))"

definition vector_remove :: "nat \<Rightarrow> vector_index \<Rightarrow> vector_index" where
  "vector_remove s ix =
     (let at_pos = s * vi_dim ix
      in if at_pos + vi_dim ix > length (vi_data ix) \<or> s \<in> set (vi_free ix) then ix
         else ix\<lparr>vi_data := splice (vi_data ix) at_pos (replicate (vi_dim ix) (Fin 0)),
                 vi_free := vi_free ix @ [s], vi_live := vi_live ix - 1\<rparr>)"

definition vector_get :: "nat \<Rightarrow> vector_index \<Rightarrow> f32 list option" where
  "vector_get s ix =
     (let at_pos = s * vi_dim ix
      in if at_pos + vi_dim ix \<le> length (vi_data ix)
         then Some (take (vi_dim ix) (drop at_pos (vi_data ix))) else None)"

subsection \<open>Rebuilding an index\<close>

definition indexes_text :: "mode \<Rightarrow> bool" where
  "indexes_text m \<longleftrightarrow> m \<in> {Search, Hybrid}"

definition stores_vectors :: "mode \<Rightarrow> bool" where
  "stores_vectors m \<longleftrightarrow> m \<in> {Vector, Hybrid}"

definition memory_new :: "memory_config \<Rightarrow> memory" where
  "memory_new c =
     \<lparr>mem_config = c, mem_records = [], mem_text = empty_text_index,
      mem_vectors = vector_new (mc_dim c) (mc_metric c), mem_next_id = 1\<rparr>"

definition sorted_ids :: "env \<Rightarrow> memory \<Rightarrow> bytes list" where
  "sorted_ids E m = sort (map (\<lambda>(_, r). rec_id r) (filter (\<lambda>(_, r). rec_is_live (now E) r) (mem_records m)))"

definition records_for_dump :: "env \<Rightarrow> memory \<Rightarrow> (memory_record \<times> f32 list option) list" where
  "records_for_dump E m =
     map (\<lambda>r. (r, Option.bind (rec_slot r) (\<lambda>s. vector_get s (mem_vectors m))))
       (filter (rec_is_live (now E))
          (List.map_filter (\<lambda>i. hm_get (mem_records m) i) (sorted_ids E m)))"

definition load_record ::
    "memory_record \<Rightarrow> f32 list option \<Rightarrow> nat option \<Rightarrow> memory \<Rightarrow> memory" where
  "load_record r v max_terms m =
     (let m = (if indexes_text (mc_mode (mem_config m))
               then m\<lparr>mem_text := text_index (rec_id r) None (rec_text r) max_terms (mem_text m)\<rparr>
               else m);
          (m, s) = (case v of
                      Some vs \<Rightarrow>
                        if stores_vectors (mc_mode (mem_config m))
                           \<and> length vs = mc_dim (mem_config m)
                        then (let (ix, s) = vector_insert vs (mem_vectors m)
                              in (m\<lparr>mem_vectors := ix\<rparr>, Some s))
                        else (m, None)
                    | None \<Rightarrow> (m, None))
      in m\<lparr>mem_records := hm_insert (rec_id r) (r\<lparr>rec_slot := s\<rparr>) (mem_records m)\<rparr>)"

definition set_next_id :: "nat \<Rightarrow> memory \<Rightarrow> memory" where
  "set_next_id n m = m\<lparr>mem_next_id := max n 1\<rparr>"

definition memory_clone :: "env \<Rightarrow> memory \<Rightarrow> memory" where
  "memory_clone E m =
     set_next_id (mem_next_id m)
       (fold (\<lambda>(r, v). load_record r v None) (records_for_dump E m) (memory_new (mem_config m)))"

subsection \<open>Metadata stays sorted and is a map\<close>

interpretation field_order: comparator cmp_field "\<lambda>_. True"
  by unfold_locales (auto simp: cmp_field_def)

definition meta_wf :: "(bytes \<times> bytes) list \<Rightarrow> bool" where
  "meta_wf m \<longleftrightarrow> ascending cmp_field m"

lemma meta_wf_distinct: "meta_wf m \<Longrightarrow> distinct (map fst m)"
  by (induction m) (auto simp: meta_wf_def ascending_def cmp_field_def)

lemma find_field_Inl: "find_field m f = Inl i \<Longrightarrow> i < length m \<and> fst (m ! i) = f"
  using field_order.binary_search_Inl [where x = "(f, [])" and xs = m and i = i] by (simp add: find_field_def cmp_field_def)

lemma find_field_Inr:
  assumes "meta_wf m" and "find_field m f = Inr i"
  shows "f \<notin> fst ` set m" and "meta_wf (insert_at i (f, v) m)"
proof -
  have i: "i = partition_point (\<lambda>y. cmp_field y (f, []) = Less) m"
    and n: "\<forall>y \<in> set m. cmp_field y (f, []) \<noteq> Equal"
    using field_order.binary_search_Inr [where x = "(f, [])" and xs = m and i = i] assms
    by (auto simp: meta_wf_def find_field_def)
  from n show "f \<notin> fst ` set m" by (auto simp: cmp_field_def)
  have "i = partition_point (\<lambda>y. cmp_field y (f, v) = Less) m"
    using i by (simp add: cmp_field_def)
  moreover have "\<forall>y \<in> set m. cmp_field y (f, v) \<noteq> Equal"
    using n by (simp add: cmp_field_def)
  ultimately show "meta_wf (insert_at i (f, v) m)"
    using field_order.ascending_insert [where x = "(f, v)" and xs = m] assms(1) by (simp add: meta_wf_def)
qed

lemma find_field_map:
  assumes "meta_wf m"
  shows "map_of m f = (case find_field m f of Inl i \<Rightarrow> Some (snd (m ! i)) | Inr _ \<Rightarrow> None)"
proof (cases "find_field m f")
  case (Inl i)
  then have "(f, snd (m ! i)) \<in> set m"
    using find_field_Inl [OF Inl] by (metis nth_mem prod.collapse)
  with Inl meta_wf_distinct [OF assms] show ?thesis by simp
next
  case (Inr i)
  with find_field_Inr(1) [OF assms Inr] show ?thesis by (simp add: map_of_eq_None_iff)
qed

lemma get_meta_map: "meta_wf (rec_meta r) \<Longrightarrow> get_meta f r = map_of (rec_meta r) f"
  by (simp add: get_meta_def find_field_map)

lemma ascending_value_update:
  "ascending cmp_field m \<Longrightarrow> i < length m \<Longrightarrow> ascending cmp_field (m[i := (fst (m ! i), v)])"
  by (auto simp: ascending_def cmp_field_def sorted_wrt_iff_nth_less nth_list_update)

lemma set_meta_wf: "meta_wf (rec_meta r) \<Longrightarrow> meta_wf (rec_meta (fst (set_meta f v r)))"
  using find_field_Inl [of "rec_meta r" f] find_field_Inr(2) [of "rec_meta r" f]
  by (auto simp: set_meta_def meta_wf_def intro!: ascending_value_update split: sum.split)

lemma remove_meta_wf: "meta_wf (rec_meta r) \<Longrightarrow> meta_wf (rec_meta (fst (remove_meta f r)))"
  by (simp add: remove_meta_def meta_wf_def ascending_remove_at split: sum.split)

end
