(* ===== verification/Store.thy ===== *)
theory Store
  imports Zsets MemIndex
begin

text \<open>
  \<^verbatim>\<open>src/store.rs\<close>: the keyspace. A map from key to entry, beside it two vectors of keys (all
  keys, and those with an expiry) that exist so that eviction can draw a random sample, a
  logical clock, and counters. Every operation of the file is here, with its lazy expiry, its
  access bookkeeping and its dirty accounting. A reference the code hands out for mutation
  (\<open>&mut List\<close>) is the value read, written back with \<open>put_value\<close>.
\<close>

subsection \<open>Types\<close>

datatype store_type = TString | TList | THash | TSet | TZset | TMemory

definition type_name :: "store_type \<Rightarrow> bytes" where
  "type_name t = (case t of TString \<Rightarrow> ''string'' | TList \<Rightarrow> ''list'' | THash \<Rightarrow> ''hash''
     | TSet \<Rightarrow> ''set'' | TZset \<Rightarrow> ''zset'' | TMemory \<Rightarrow> ''memory'')"

datatype val =
    VStr bytes
  | VList vlist
  | VHash "(bytes, bytes) hmap"
  | VSet "bytes list"
  | VZset zset
  | VMemory memory

fun val_type :: "val \<Rightarrow> store_type" where
  "val_type (VStr _) = TString"
| "val_type (VList _) = TList"
| "val_type (VHash _) = THash"
| "val_type (VSet _) = TSet"
| "val_type (VZset _) = TZset"
| "val_type (VMemory _) = TMemory"

fun is_empty_collection :: "val \<Rightarrow> bool" where
  "is_empty_collection (VStr _) = False"
| "is_empty_collection (VMemory _) = False"
| "is_empty_collection (VList l) = (l = [])"
| "is_empty_collection (VHash h) = (h = [])"
| "is_empty_collection (VSet s) = (s = [])"
| "is_empty_collection (VZset z) = (length z = 0)"

record access =
  acc_at :: nat
  freq :: "8 word"
  decayed_at :: nat

record entry =
  evalue :: val
  expire_at :: "time option"
  slot :: nat
  volatile_slot :: "nat option"
  acc :: access

record store =
  entries :: "(bytes, entry) hmap"
  keys :: "bytes list"
  volatile :: "bytes list"
  clock :: nat
  started :: time
  dirty :: nat
  expired :: nat
  lookup_hits :: nat
  lookup_misses :: nat
  rng :: "64 word"

definition empty_store :: "env \<Rightarrow> store" where
  "empty_store E =
     \<lparr>entries = [], keys = [], volatile = [], clock = 0, started = mono E, dirty = 0,
      expired = 0, lookup_hits = 0, lookup_misses = 0, rng = 0\<rparr>"

subsection \<open>Access records\<close>

definition LFU_INIT :: "8 word" where "LFU_INIT = 5"

definition access_new :: "nat \<Rightarrow> nat \<Rightarrow> access" where
  "access_new c minute = \<lparr>acc_at = c, freq = LFU_INIT, decayed_at = minute\<rparr>"

text \<open>\<open>LFU_DECAY_MINUTES\<close> is 1; the subtraction of minutes saturates, as it does on \<open>nat\<close>.\<close>

definition decayed_freq :: "access \<Rightarrow> nat \<Rightarrow> 8 word" where
  "decayed_freq a minute =
     (let halvings = (minute - decayed_at a) div 1
      in if halvings = 0 then freq a
         else if halvings \<ge> 8 then 0
         else drop_bit halvings (freq a))"

text \<open>\<open>1.0 / (base.max(0.0) * 10.0 + 1.0)\<close> with \<open>base = freq as f64 - 5.0\<close>.\<close>

definition hit_odds :: "8 word \<Rightarrow> f64" where
  "hit_odds f =
     (let base = fadd F64 (of_nat_flt F64 (unat f)) (Fin (- 5))
      in fdiv F64 (Fin 1) (fadd F64 (fmul F64 (fmax base (Fin 0)) (Fin 10)) (Fin 1)))"

definition record_hit ::
    "env \<Rightarrow> nat \<Rightarrow> nat \<Rightarrow> access \<Rightarrow> 64 word \<Rightarrow> access \<times> 64 word" where
  "record_hit E c minute a s =
     (let a = a\<lparr>acc_at := c, freq := decayed_freq a minute, decayed_at := minute\<rparr>
      in if freq a = 255 then (a, s)
         else (let (s, u) = unit_interval E s
               in (if fless u (hit_odds (freq a)) then a\<lparr>freq := freq a + 1\<rparr> else a, s)))"

text \<open>\<open>(started.elapsed().as_secs() / 60) as u32\<close>.\<close>

definition minute_of :: "env \<Rightarrow> store \<Rightarrow> nat" where
  "minute_of E st = (nat (mono E - started st) div 1000000000 div 60) mod 2 ^ 32"

subsection \<open>The two places the map grows or shrinks\<close>

definition hm_modify :: "'k \<Rightarrow> ('v \<Rightarrow> 'v) \<Rightarrow> ('k, 'v) hmap \<Rightarrow> ('k, 'v) hmap" where
  "hm_modify k f m = (case hm_get m k of None \<Rightarrow> m | Some v \<Rightarrow> hm_insert k (f v) m)"

definition detach_volatile :: "nat \<Rightarrow> store \<Rightarrow> store" where
  "detach_volatile s st =
     (let vol = swap_remove s (volatile st);
          st = st\<lparr>volatile := vol\<rparr>
      in if s < length vol then
           st\<lparr>entries := hm_modify (vol ! s) (\<lambda>e. e\<lparr>volatile_slot := Some s\<rparr>) (entries st)\<rparr>
         else st)"

definition sync_volatile :: "bytes \<Rightarrow> store \<Rightarrow> store" where
  "sync_volatile k st =
     (case hm_get (entries st) k of
        None \<Rightarrow> st
      | Some e \<Rightarrow>
          (case (expire_at e \<noteq> None, volatile_slot e) of
             (True, None) \<Rightarrow>
               st\<lparr>volatile := volatile st @ [k],
                  entries := hm_modify k
                    (\<lambda>e. e\<lparr>volatile_slot := Some (length (volatile st))\<rparr>) (entries st)\<rparr>
           | (False, Some s) \<Rightarrow>
               detach_volatile s
                 (st\<lparr>entries := hm_modify k (\<lambda>e. e\<lparr>volatile_slot := None\<rparr>) (entries st)\<rparr>)
           | _ \<Rightarrow> st))"

definition insert_entry :: "bytes \<Rightarrow> entry \<Rightarrow> store \<Rightarrow> store" where
  "insert_entry k e st =
     (let (e, st) =
        (case hm_get (entries st) k of
           Some previous \<Rightarrow>
             (e\<lparr>slot := slot previous, volatile_slot := volatile_slot previous\<rparr>, st)
         | None \<Rightarrow>
             (e\<lparr>slot := length (keys st), volatile_slot := None\<rparr>,
              st\<lparr>keys := keys st @ [k]\<rparr>))
      in sync_volatile k (st\<lparr>entries := hm_insert k e (entries st)\<rparr>))"

definition fresh :: "env \<Rightarrow> val \<Rightarrow> time option \<Rightarrow> store \<Rightarrow> entry" where
  "fresh E v deadline st =
     \<lparr>evalue = v, expire_at = deadline, slot = 0, volatile_slot = None,
      acc = access_new (clock st) (minute_of E st)\<rparr>"

definition remove_entry :: "bytes \<Rightarrow> store \<Rightarrow> store \<times> entry option" where
  "remove_entry k st =
     (case hm_get (entries st) k of
        None \<Rightarrow> (st, None)
      | Some e \<Rightarrow>
          (let ks = swap_remove (slot e) (keys st);
               m = hm_remove k (entries st);
               m = (if slot e < length ks
                    then hm_modify (ks ! slot e) (\<lambda>e'. e'\<lparr>slot := slot e\<rparr>) m else m);
               st = st\<lparr>entries := m, keys := ks\<rparr>
           in (case volatile_slot e of None \<Rightarrow> st | Some s \<Rightarrow> detach_volatile s st, Some e)))"

subsection \<open>Lookups\<close>

definition touch :: "env \<Rightarrow> bytes \<Rightarrow> store \<Rightarrow> store" where
  "touch E k st =
     (let st = st\<lparr>clock := clock st + 1\<rparr>
      in case hm_get (entries st) k of
           None \<Rightarrow> st
         | Some e \<Rightarrow>
             (let (a, s) = record_hit E (clock st) (minute_of E st) (acc e) (rng st)
              in st\<lparr>entries := hm_modify k (\<lambda>e. e\<lparr>acc := a\<rparr>) (entries st), rng := s\<rparr>))"

definition is_live :: "env \<Rightarrow> entry \<Rightarrow> bool" where
  "is_live E e = (case expire_at e of Some t \<Rightarrow> t > now E | None \<Rightarrow> True)"

definition expire_if_due :: "env \<Rightarrow> bytes \<Rightarrow> store \<Rightarrow> store" where
  "expire_if_due E k st =
     (case hm_get (entries st) k of
        None \<Rightarrow> st
      | Some e \<Rightarrow>
          if is_live E e then st
          else (let st = fst (remove_entry k st)
                in st\<lparr>dirty := dirty st + 1, expired := expired st + 1\<rparr>))"

definition account :: "bool \<Rightarrow> store \<Rightarrow> store" where
  "account found st =
     (if found then st\<lparr>lookup_hits := lookup_hits st + 1\<rparr>
      else st\<lparr>lookup_misses := lookup_misses st + 1\<rparr>)"

text \<open>\<open>find\<close> and \<open>find_mut\<close>, which differ in the reference they return.\<close>

definition find :: "env \<Rightarrow> bytes \<Rightarrow> store \<Rightarrow> store \<times> entry option" where
  "find E k st =
     (let st = expire_if_due E k st;
          found = (hm_get (entries st) k \<noteq> None);
          st = account found st;
          st = (if found then touch E k st else st)
      in (st, hm_get (entries st) k))"

definition lookup_counts :: "store \<Rightarrow> nat \<times> nat" where
  "lookup_counts st = (lookup_hits st, lookup_misses st)"

definition volatile_size :: "env \<Rightarrow> store \<Rightarrow> nat" where
  "volatile_size E st =
     length (filter (\<lambda>k. case hm_get (entries st) k of None \<Rightarrow> False | Some e \<Rightarrow> is_live E e)
              (volatile st))"

definition type_breakdown :: "env \<Rightarrow> store \<Rightarrow> (store_type \<times> nat) list" where
  "type_breakdown E st =
     map (\<lambda>t. (t, length (filter (\<lambda>(k, e). is_live E e \<and> val_type (evalue e) = t) (entries st))))
       [TString, TList, THash, TSet, TZset, TMemory]"

definition reset_dirty :: "store \<Rightarrow> store" where
  "reset_dirty st = st\<lparr>dirty := 0\<rparr>"

definition mark_dirty :: "store \<Rightarrow> store" where
  "mark_dirty st = st\<lparr>dirty := dirty st + 1\<rparr>"

definition exists_key :: "env \<Rightarrow> bytes \<Rightarrow> store \<Rightarrow> store \<times> bool" where
  "exists_key E k st = (let (st, e) = find E k st in (st, e \<noteq> None))"

definition type_of :: "env \<Rightarrow> bytes \<Rightarrow> store \<Rightarrow> store \<times> store_type option" where
  "type_of E k st =
     (let (st, e) = find E k st in (st, map_option (\<lambda>e. val_type (evalue e)) e))"

definition peek_type :: "env \<Rightarrow> bytes \<Rightarrow> store \<Rightarrow> store \<times> store_type option" where
  "peek_type E k st =
     (let st = expire_if_due E k st
      in (st, map_option (\<lambda>e. val_type (evalue e)) (hm_get (entries st) k)))"

definition del :: "env \<Rightarrow> bytes \<Rightarrow> store \<Rightarrow> store \<times> bool" where
  "del E k st =
     (let (st, e) = find E k st
      in if e = None then (st, False)
         else (mark_dirty (fst (remove_entry k st)), True))"

definition delete_if_empty :: "env \<Rightarrow> bytes \<Rightarrow> store \<Rightarrow> store" where
  "delete_if_empty E k st =
     (let (st, e) = find E k st
      in if (case e of None \<Rightarrow> False | Some e \<Rightarrow> is_empty_collection (evalue e))
         then mark_dirty (fst (remove_entry k st)) else st)"

subsection \<open>Expiry\<close>

definition set_expire_at :: "env \<Rightarrow> bytes \<Rightarrow> time option \<Rightarrow> store \<Rightarrow> store \<times> bool" where
  "set_expire_at E k t st =
     (let (st, e) = find E k st
      in case e of
           None \<Rightarrow> (st, False)
         | Some _ \<Rightarrow>
             (mark_dirty (sync_volatile k
                (st\<lparr>entries := hm_modify k (\<lambda>e. e\<lparr>expire_at := t\<rparr>) (entries st)\<rparr>)), True))"

definition has_expiry :: "env \<Rightarrow> bytes \<Rightarrow> store \<Rightarrow> store \<times> bool" where
  "has_expiry E k st =
     (let (st, e) = find E k st
      in (st, case e of None \<Rightarrow> False | Some e \<Rightarrow> expire_at e \<noteq> None))"

definition pttl_ms :: "env \<Rightarrow> bytes \<Rightarrow> store \<Rightarrow> store \<times> int" where
  "pttl_ms E k st =
     (let (st, e) = find E k st
      in (st, case e of
                None \<Rightarrow> - 2
              | Some e \<Rightarrow>
                  (case expire_at e of
                     None \<Rightarrow> - 1
                   | Some t \<Rightarrow> if now E \<le> t then as_i64 ((t - now E) div 1000000) else 0)))"

definition ttl :: "env \<Rightarrow> bytes \<Rightarrow> store \<Rightarrow> store \<times> int" where
  "ttl E k st = (let (st, n) = pttl_ms E k st in (st, if n < 0 then n else n div 1000))"

subsection \<open>Whole-key operations\<close>

definition rename :: "env \<Rightarrow> bytes \<Rightarrow> bytes \<Rightarrow> store \<Rightarrow> store \<times> bool" where
  "rename E k new_key st =
     (let (st, e) = find E k st
      in if e = None then (st, False)
         else if k = new_key then (st, True)
         else (case remove_entry k st of
                 (st, Some e) \<Rightarrow> (mark_dirty (insert_entry new_key e st), True)
               | (st, None) \<Rightarrow> (st, False)))"

text \<open>\<open>Entry::clone\<close>: a memory index is rebuilt from its live records, everything else is
  copied as it is.\<close>

fun val_clone :: "env \<Rightarrow> val \<Rightarrow> val" where
  "val_clone E (VMemory m) = VMemory (memory_clone E m)"
| "val_clone E v = v"

definition copy :: "env \<Rightarrow> bytes \<Rightarrow> bytes \<Rightarrow> bool \<Rightarrow> store \<Rightarrow> store \<times> bool option" where
  "copy E k dest replace st =
     (let (st, e) = find E k st
      in if e = None then (st, None)
         else (let (st, taken) = (if replace then (st, False) else exists_key E dest st)
               in if taken then (st, Some False)
                  else (case hm_get (entries st) k of
                          Some e \<Rightarrow>
                            (mark_dirty (insert_entry dest
                               (e\<lparr>evalue := val_clone E (evalue e)\<rparr>) st), Some True)
                        | None \<Rightarrow> (st, None))))"

definition flush :: "store \<Rightarrow> store \<times> nat" where
  "flush st =
     (mark_dirty (st\<lparr>entries := [], keys := [], volatile := []\<rparr>), length (entries st))"

fun random_draws :: "nat \<Rightarrow> env \<Rightarrow> store \<Rightarrow> store \<times> bytes option" where
  "random_draws 0 E st = (st, None)"
| "random_draws (Suc n) E st =
     (if keys st = [] then (st, None)
      else (let (s, i) = below E (length (keys st)) (rng st);
                st = st\<lparr>rng := s\<rparr>;
                k = keys st ! i
            in if (case hm_get (entries st) k of None \<Rightarrow> False | Some e \<Rightarrow> is_live E e)
               then (st, Some k) else random_draws n E st))"

definition random_key :: "env \<Rightarrow> store \<Rightarrow> store \<times> bytes option" where
  "random_key E st = random_draws 20 E st"

definition size_of :: "env \<Rightarrow> store \<Rightarrow> nat" where
  "size_of E st = length (filter (\<lambda>(k, e). is_live E e) (entries st))"

definition live_keys :: "env \<Rightarrow> store \<Rightarrow> bytes list" where
  "live_keys E st = map fst (filter (\<lambda>(k, e). is_live E e) (entries st))"

definition sweep_one :: "bytes \<Rightarrow> store \<Rightarrow> store" where
  "sweep_one k st =
     (let st = fst (remove_entry k st)
      in st\<lparr>dirty := dirty st + 1, expired := expired st + 1\<rparr>)"

definition sweep_expired :: "env \<Rightarrow> store \<Rightarrow> store" where
  "sweep_expired E st =
     fold sweep_one (map fst (filter (\<lambda>(k, e). \<not> is_live E e) (entries st))) st"

subsection \<open>Sampling and scanning\<close>

record candidate =
  cand_key :: bytes
  last_access :: nat
  cand_freq :: "8 word"
  cand_expire_at :: "time option"

fun sample_draws :: "nat \<Rightarrow> env \<Rightarrow> bytes list \<Rightarrow> store \<Rightarrow> store \<times> candidate list" where
  "sample_draws 0 E pool st = (st, [])"
| "sample_draws (Suc n) E pool st =
     (let (s, i) = below E (length pool) (rng st);
          st = st\<lparr>rng := s\<rparr>;
          k = pool ! i;
          drawn = (case hm_get (entries st) k of
                     None \<Rightarrow> []
                   | Some e \<Rightarrow>
                       if is_live E e
                       then [\<lparr>cand_key = k, last_access = acc_at (acc e),
                              cand_freq = decayed_freq (acc e) (minute_of E st),
                              cand_expire_at = expire_at e\<rparr>]
                       else []);
          (st, cs) = sample_draws n E pool st
      in (st, drawn @ cs))"

definition sample :: "env \<Rightarrow> bool \<Rightarrow> nat \<Rightarrow> store \<Rightarrow> store \<times> candidate list" where
  "sample E volatile_only cnt st =
     (let pool = (if volatile_only then volatile st else keys st)
      in if pool = [] \<or> cnt = 0 then (st, []) else sample_draws cnt E pool st)"

definition evict :: "bytes \<Rightarrow> store \<Rightarrow> store \<times> bool" where
  "evict k st =
     (case remove_entry k st of
        (st, None) \<Rightarrow> (st, False)
      | (st, Some _) \<Rightarrow> (mark_dirty st, True))"

text \<open>\<open>scan\<close>: the sum of cursor and count is a \<open>usize\<close> and wraps in a release build; a batch
  whose end then lies before its start is a slice out of order, which panics.\<close>

definition scan :: "env \<Rightarrow> nat \<Rightarrow> nat \<Rightarrow> store \<Rightarrow> (bytes list \<times> nat) outcome" where
  "scan E start_cursor min_count st =
     (let ks = sort (live_keys E st)
      in if start_cursor \<ge> length ks then Done ([], 0)
         else (let stop = min ((start_cursor + max min_count 1) mod 2 ^ 64) (length ks)
               in if stop < start_cursor then Panicked
                  else Done (take (stop - start_cursor) (drop start_cursor ks),
                             if stop \<ge> length ks then 0 else stop)))"

definition foreach_entry :: "env \<Rightarrow> store \<Rightarrow> (bytes \<times> store_type) list" where
  "foreach_entry E st =
     map (\<lambda>(k, e). (k, val_type (evalue e))) (filter (\<lambda>(k, e). is_live E e) (entries st))"

definition memory_keys :: "env \<Rightarrow> store \<Rightarrow> bytes list" where
  "memory_keys E st =
     map fst (filter (\<lambda>(k, e). is_live E e \<and> val_type (evalue e) = TMemory) (entries st))"

subsection \<open>Values\<close>

definition put_value :: "bytes \<Rightarrow> val \<Rightarrow> store \<Rightarrow> store" where
  "put_value k v st =
     st\<lparr>entries := hm_modify k (\<lambda>e. e\<lparr>evalue := v\<rparr>) (entries st)\<rparr>"

definition set_string :: "env \<Rightarrow> bytes \<Rightarrow> bytes \<Rightarrow> store \<Rightarrow> store" where
  "set_string E k v st =
     (let st = mark_dirty st in insert_entry k (fresh E (VStr v) None st) st)"

definition update_string :: "env \<Rightarrow> bytes \<Rightarrow> bytes \<Rightarrow> store \<Rightarrow> store" where
  "update_string E k v st =
     (let (st, e) = find E k (mark_dirty st)
      in case e of
           Some _ \<Rightarrow> put_value k (VStr v) st
         | None \<Rightarrow> insert_entry k (fresh E (VStr v) None st) st)"

definition get_string :: "env \<Rightarrow> bytes \<Rightarrow> store \<Rightarrow> store \<times> bytes option" where
  "get_string E k st =
     (let (st, e) = find E k st
      in (st, case e of
                None \<Rightarrow> None
              | Some e \<Rightarrow> (case evalue e of VStr s \<Rightarrow> Some s | _ \<Rightarrow> None)))"

definition create_memory :: "env \<Rightarrow> bytes \<Rightarrow> memory \<Rightarrow> store \<Rightarrow> store \<times> bool" where
  "create_memory E k m st =
     (let (st, taken) = exists_key E k st
      in if taken then (st, False)
         else (let st = mark_dirty st
               in (insert_entry k (fresh E (VMemory m) None st) st, True)))"

definition get_existing_memory :: "env \<Rightarrow> bytes \<Rightarrow> store \<Rightarrow> store \<times> memory option" where
  "get_existing_memory E k st =
     (let (st, e) = find E k st
      in (st, case e of
                None \<Rightarrow> None
              | Some e \<Rightarrow> (case evalue e of VMemory m \<Rightarrow> Some m | _ \<Rightarrow> None)))"

text \<open>The collection accessors the macro \<open>define_collection_accessors\<close> stamps out, over the
  variant's projection and its empty value.\<close>

fun as_list :: "val \<Rightarrow> vlist option" where "as_list (VList l) = Some l" | "as_list _ = None"
fun as_hash :: "val \<Rightarrow> (bytes, bytes) hmap option" where
  "as_hash (VHash h) = Some h" | "as_hash _ = None"
fun as_set :: "val \<Rightarrow> bytes list option" where "as_set (VSet s) = Some s" | "as_set _ = None"
fun as_zset :: "val \<Rightarrow> zset option" where "as_zset (VZset z) = Some z" | "as_zset _ = None"

definition get_or_create ::
    "(val \<Rightarrow> 'c option) \<Rightarrow> val \<Rightarrow> env \<Rightarrow> bytes \<Rightarrow> store \<Rightarrow> store \<times> 'c option" where
  "get_or_create prj dflt E k st =
     (let (st, e) = find E k (mark_dirty st)
      in case e of
           Some e \<Rightarrow> (st, prj (evalue e))
         | None \<Rightarrow> (insert_entry k (fresh E dflt None st) st, prj dflt))"

definition read_collection ::
    "(val \<Rightarrow> 'c option) \<Rightarrow> env \<Rightarrow> bytes \<Rightarrow> store \<Rightarrow> store \<times> 'c option" where
  "read_collection prj E k st =
     (let (st, e) = find E k st
      in (st, case e of None \<Rightarrow> None | Some e \<Rightarrow> prj (evalue e)))"

definition write_collection ::
    "(val \<Rightarrow> 'c option) \<Rightarrow> env \<Rightarrow> bytes \<Rightarrow> store \<Rightarrow> store \<times> 'c option" where
  "write_collection prj E k st =
     (let (st, e) = find E k st
      in case (case e of None \<Rightarrow> None | Some e \<Rightarrow> prj (evalue e)) of
           None \<Rightarrow> (st, None)
         | Some c \<Rightarrow> (mark_dirty st, Some c))"

abbreviation "get_or_create_list \<equiv> get_or_create as_list (VList [])"
abbreviation "get_or_create_hash \<equiv> get_or_create as_hash (VHash [])"
abbreviation "get_or_create_set \<equiv> get_or_create as_set (VSet [])"
abbreviation "get_or_create_zset \<equiv> get_or_create as_zset (VZset [])"
abbreviation "read_list \<equiv> read_collection as_list"
abbreviation "read_hash \<equiv> read_collection as_hash"
abbreviation "read_set \<equiv> read_collection as_set"
abbreviation "read_zset \<equiv> read_collection as_zset"
abbreviation "write_list \<equiv> write_collection as_list"
abbreviation "write_hash \<equiv> write_collection as_hash"
abbreviation "write_set \<equiv> write_collection as_set"
abbreviation "write_zset \<equiv> write_collection as_zset"

end
