(* ===== verification/Keyspace.thy ===== *)
theory Keyspace
  imports Store
begin

text \<open>
  The correctness of \<^verbatim>\<open>src/store.rs\<close>. First the index invariant: the key vectors and the slots
  recorded in the entries describe each other exactly, so a random draw from a vector always
  names a key of the map and \<open>swap_remove\<close> never goes out of range. Then the abstract keyspace:
  the finite map of live keys to value and deadline, which is all a client can observe, and
  what each operation does to it. Slots, clocks, counters and expired leftovers disappear in
  this view.
\<close>

subsection \<open>A vector and the slots into it\<close>

definition slot_index :: "('k \<Rightarrow> nat option) \<Rightarrow> 'k list \<Rightarrow> bool" where
  "slot_index f v \<longleftrightarrow>
     (\<forall>k s. f k = Some s \<longrightarrow> s < length v \<and> v ! s = k) \<and> (\<forall>i < length v. f (v ! i) = Some i)"

lemma slot_indexD: "slot_index f v \<Longrightarrow> f k = Some s \<Longrightarrow> s < length v \<and> v ! s = k"
  by (simp add: slot_index_def)

lemma slot_index_nth: "slot_index f v \<Longrightarrow> i < length v \<Longrightarrow> f (v ! i) = Some i"
  by (simp add: slot_index_def)

lemma slot_index_distinct: "slot_index f v \<Longrightarrow> distinct v"
  unfolding distinct_conv_nth by (metis option.inject slot_index_nth)

lemma slot_index_set: "slot_index f v \<Longrightarrow> set v = dom f"
  by (auto simp: in_set_conv_nth slot_index_nth) (metis slot_indexD)

lemma slot_index_push:
  assumes "slot_index f v" and "f k = None"
  shows "slot_index (f(k \<mapsto> length v)) (v @ [k])"
  unfolding slot_index_def
proof (intro conjI allI impI)
  fix x s
  assume "(f(k \<mapsto> length v)) x = Some s"
  then show "s < length (v @ [k])" "(v @ [k]) ! s = x"
    using slot_indexD [OF assms(1), of x s] by (auto split: if_splits simp: nth_append)
next
  fix i
  assume i: "i < length (v @ [k])"
  show "(f(k \<mapsto> length v)) ((v @ [k]) ! i) = Some i"
  proof (cases "i < length v")
    case True
    then have "v ! i \<noteq> k" using slot_index_nth [OF assms(1) True] assms(2) by auto
    with True show ?thesis using slot_index_nth [OF assms(1) True] by (simp add: nth_append)
  next
    case False
    with i show ?thesis by (simp add: nth_append less_Suc_eq)
  qed
qed

text \<open>\<open>swap_remove\<close>, then re-slotting the key that moved into the hole, if any did.\<close>

definition moved :: "nat \<Rightarrow> 'k list \<Rightarrow> 'k \<Rightarrow> bool" where
  "moved s v k \<longleftrightarrow> s < length (swap_remove s v) \<and> k = swap_remove s v ! s"

lemma slot_index_swap_remove:
  assumes ix: "slot_index f v" and k: "f k = Some s"
  shows "slot_index (\<lambda>x. if x = k then None else if moved s v x then Some s else f x)
    (swap_remove s v)"
proof -
  let ?v = "swap_remove s v"
  have s: "s < length v" "v ! s = k" using slot_indexD [OF ix k] by auto
  have l: "length ?v = length v - 1" using s by (simp add: length_swap_remove)
  have d: "distinct ?v" using slot_index_distinct [OF ix] by (rule distinct_swap_remove)
  have st: "set ?v = set v - {k}"
    using set_swap_remove [OF slot_index_distinct [OF ix] s(1)] s(2) by simp
  have keep: "?v ! j = v ! j" if "j < length ?v" "j \<noteq> s" for j
    using nth_swap_remove [OF s(1), of j] that l by simp
  show ?thesis
    unfolding slot_index_def
  proof (rule conjI; intro allI impI)
    fix x j
    assume f: "(if x = k then None else if moved s v x then Some s else f x) = Some j"
    then have "x \<noteq> k" by (auto split: if_splits)
    show "j < length ?v \<and> ?v ! j = x"
    proof (cases "moved s v x")
      case True
      with f \<open>x \<noteq> k\<close> show ?thesis by (simp add: moved_def)
    next
      case False
      with f \<open>x \<noteq> k\<close> have "f x = Some j" by simp
      then have j: "j < length v" "v ! j = x" using slot_indexD [OF ix] by auto
      with s \<open>x \<noteq> k\<close> have "j \<noteq> s" by auto
      moreover have "j < length v - 1"
      proof (rule ccontr)
        assume "\<not> j < length v - 1"
        with j have "j = length v - 1" by simp
        with j s have "x = last v" by (metis last_conv_nth length_0_conv not_less_zero)
        with \<open>j \<noteq> s\<close> \<open>j = length v - 1\<close> s have "s < length ?v" "?v ! s = x"
          using nth_swap_remove [OF s(1), of s] l by auto
        with False show False by (simp add: moved_def)
      qed
      ultimately show ?thesis using keep [of j] l j by simp
    qed
  next
    fix i
    assume i: "i < length ?v"
    have "?v ! i \<noteq> k" using st i by (metis Diff_iff insertI1 nth_mem)
    show "(if ?v ! i = k then None else if moved s v (?v ! i) then Some s else f (?v ! i)) = Some i"
    proof (cases "i = s")
      case True
      with i \<open>?v ! i \<noteq> k\<close> show ?thesis by (simp add: moved_def)
    next
      case False
      then have "\<not> moved s v (?v ! i)"
        using d i by (auto simp: moved_def nth_eq_iff_index_eq)
      moreover have "f (?v ! i) = Some i"
        using keep [OF i False] slot_index_nth [OF ix, of i] i l by simp
      ultimately show ?thesis using \<open>?v ! i \<noteq> k\<close> by simp
    qed
  qed
qed

lemma hm_get_modify:
  "hm_get (hm_modify k f m) x = (if x = k then map_option f (hm_get m k) else hm_get m x)"
  by (auto simp: hm_modify_def hm_get_insert split: option.splits)

lemma hm_wf_modify [simp]: "hm_wf m \<Longrightarrow> hm_wf (hm_modify k f m)"
  by (simp add: hm_modify_def split: option.split)

subsection \<open>The invariant\<close>

definition key_slot :: "store \<Rightarrow> bytes \<Rightarrow> nat option" where
  "key_slot st k = map_option slot (hm_get (entries st) k)"

definition vol_slot :: "store \<Rightarrow> bytes \<Rightarrow> nat option" where
  "vol_slot st k = Option.bind (hm_get (entries st) k) volatile_slot"

definition deadline :: "store \<Rightarrow> bytes \<Rightarrow> time option" where
  "deadline st k = Option.bind (hm_get (entries st) k) expire_at"

definition index_wf :: "store \<Rightarrow> bool" where
  "index_wf st \<longleftrightarrow> hm_wf (entries st) \<and> slot_index (key_slot st) (keys st)
     \<and> slot_index (vol_slot st) (volatile st)"

definition store_wf :: "store \<Rightarrow> bool" where
  "store_wf st \<longleftrightarrow> index_wf st \<and> (\<forall>k. vol_slot st k = None \<longleftrightarrow> deadline st k = None)"

text \<open>What a client can observe of a key: its value and its deadline.\<close>

type_synonym datum = "val \<times> time option"

definition datum_of :: "entry \<Rightarrow> datum" where
  "datum_of e = (evalue e, expire_at e)"

definition contents :: "store \<Rightarrow> bytes \<Rightarrow> datum option" where
  "contents st k = map_option datum_of (hm_get (entries st) k)"

definition unexpired :: "env \<Rightarrow> datum \<Rightarrow> bool" where
  "unexpired E d = (case snd d of None \<Rightarrow> True | Some t \<Rightarrow> now E < t)"

definition live :: "env \<Rightarrow> store \<Rightarrow> bytes \<Rightarrow> datum option" where
  "live E st k =
     (case contents st k of None \<Rightarrow> None | Some d \<Rightarrow> if unexpired E d then Some d else None)"

lemma is_live_datum: "is_live E e = unexpired E (datum_of e)"
  by (simp add: is_live_def unexpired_def datum_of_def)

lemma datum_of_simps [simp]:
  "datum_of (e\<lparr>slot := a\<rparr>) = datum_of e" "datum_of (e\<lparr>volatile_slot := b\<rparr>) = datum_of e"
  "datum_of (e\<lparr>acc := c\<rparr>) = datum_of e"
  "datum_of (e\<lparr>evalue := v\<rparr>) = (v, expire_at e)" "datum_of (e\<lparr>expire_at := t\<rparr>) = (evalue e, t)"
  by (simp_all add: datum_of_def)

text \<open>Fields that are neither the map nor a key vector do not matter to either.\<close>

lemma wf_cong:
  assumes "entries st' = entries st" and "keys st' = keys st" and "volatile st' = volatile st"
  shows "store_wf st' = store_wf st" and "index_wf st' = index_wf st" and "contents st' = contents st"
    and "live E st' = live E st"
proof -
  have "key_slot st' = key_slot st" "vol_slot st' = vol_slot st" "deadline st' = deadline st"
    "contents st' = contents st"
    using assms
    by (simp_all add: key_slot_def vol_slot_def deadline_def contents_def fun_eq_iff)
  with assms show "store_wf st' = store_wf st" "index_wf st' = index_wf st"
    "contents st' = contents st"
    by (simp_all add: store_wf_def index_wf_def)
  with \<open>contents st' = contents st\<close> show "live E st' = live E st"
    by (intro ext) (simp add: live_def)
qed

lemma store_wf_counters [simp]:
  "store_wf (st\<lparr>dirty := a\<rparr>) = store_wf st" "store_wf (st\<lparr>expired := a\<rparr>) = store_wf st"
  "store_wf (st\<lparr>lookup_hits := a\<rparr>) = store_wf st" "store_wf (st\<lparr>lookup_misses := a\<rparr>) = store_wf st"
  "store_wf (st\<lparr>clock := a\<rparr>) = store_wf st" "store_wf (st\<lparr>rng := s\<rparr>) = store_wf st"
  by (rule wf_cong; simp)+

lemma contents_counters [simp]:
  "contents (st\<lparr>dirty := a\<rparr>) = contents st" "contents (st\<lparr>expired := a\<rparr>) = contents st"
  "contents (st\<lparr>lookup_hits := a\<rparr>) = contents st" "contents (st\<lparr>lookup_misses := a\<rparr>) = contents st"
  "contents (st\<lparr>clock := a\<rparr>) = contents st" "contents (st\<lparr>rng := s\<rparr>) = contents st"
  by (rule wf_cong; simp)+

lemma mark_dirty_view [simp]:
  "store_wf (mark_dirty st) = store_wf st" "contents (mark_dirty st) = contents st"
  "entries (mark_dirty st) = entries st" "keys (mark_dirty st) = keys st"
  "volatile (mark_dirty st) = volatile st"
  by (simp_all add: mark_dirty_def)

lemma live_contents: "contents st' = contents st \<Longrightarrow> live E st' = live E st"
  by (simp add: live_def fun_eq_iff)

lemma live_update:
  "contents st' = (contents st)(k := d) \<Longrightarrow>
   live E st' = (live E st)(k := (case d of None \<Rightarrow> None
                                 | Some d \<Rightarrow> if unexpired E d then Some d else None))"
  by (auto simp: live_def fun_eq_iff)

subsection \<open>Removing and inserting\<close>

lemma entries_detach:
  "hm_get (entries (detach_volatile s st)) x =
     (if moved s (volatile st) x
      then map_option (\<lambda>e. e\<lparr>volatile_slot := Some s\<rparr>) (hm_get (entries st) x)
      else hm_get (entries st) x)"
  by (auto simp: detach_volatile_def Let_def moved_def hm_get_modify)

lemma detach_simps [simp]:
  "keys (detach_volatile s st) = keys st"
  "volatile (detach_volatile s st) = swap_remove s (volatile st)"
  "hm_wf (entries st) \<Longrightarrow> hm_wf (entries (detach_volatile s st))"
  by (simp_all add: detach_volatile_def Let_def)

lemma key_slot_detach [simp]: "key_slot (detach_volatile s st) = key_slot st"
  by (auto simp: key_slot_def entries_detach fun_eq_iff option.map_comp comp_def)

lemma contents_detach [simp]: "contents (detach_volatile s st) = contents st"
  by (auto simp: contents_def entries_detach fun_eq_iff option.map_comp comp_def)

lemma deadline_contents: "deadline st k = Option.bind (contents st k) snd"
  by (cases "hm_get (entries st) k") (simp_all add: deadline_def contents_def datum_of_def)

lemma vol_slot_detach:
  "vol_slot (detach_volatile s st) x =
     (if moved s (volatile st) x \<and> hm_get (entries st) x \<noteq> None then Some s else vol_slot st x)"
  by (cases "hm_get (entries st) x") (auto simp: vol_slot_def entries_detach)

text \<open>Detaching the slot of a key whose entry no longer claims it.\<close>

lemma detach_index:
  assumes "slot_index f (volatile st)" and "f k = Some s"
    and "vol_slot st = f(k := None)" and "\<And>x s. f x = Some s \<Longrightarrow> x \<noteq> k \<Longrightarrow> hm_get (entries st) x \<noteq> None"
  shows "slot_index (vol_slot (detach_volatile s st)) (volatile (detach_volatile s st))"
proof -
  have "vol_slot (detach_volatile s st) =
      (\<lambda>x. if x = k then None else if moved s (volatile st) x then Some s else f x)"
  proof
    fix x
    note ix = slot_index_swap_remove [OF assms(1,2)]
    show "vol_slot (detach_volatile s st) x =
        (if x = k then None else if moved s (volatile st) x then Some s else f x)"
    proof (cases "moved s (volatile st) x")
      case True
      then have m: "s < length (swap_remove s (volatile st))" "x = swap_remove s (volatile st) ! s"
        by (auto simp: moved_def)
      have "x \<noteq> k"
        using slot_index_nth [OF ix m(1)] m(2) by auto
      moreover have "x \<in> set (volatile st)"
        using m set_swap_remove [OF slot_index_distinct [OF assms(1)]] slot_indexD [OF assms(1,2)]
        by (metis DiffD1 nth_mem)
      then obtain i where "f x = Some i"
        using slot_index_set [OF assms(1)] by auto
      ultimately show ?thesis using True assms(4) by (auto simp: vol_slot_detach)
    next
      case False
      then show ?thesis using assms(3) by (simp add: vol_slot_detach)
    qed
  qed
  then show ?thesis using slot_index_swap_remove [OF assms(1,2)] by simp
qed

lemma detach_dom:
  assumes "slot_index f (volatile st)" and "f k = Some s"
    and "slot_index (vol_slot (detach_volatile s st)) (volatile (detach_volatile s st))"
  shows "vol_slot (detach_volatile s st) x = None \<longleftrightarrow> x = k \<or> f x = None"
proof -
  have "dom (vol_slot (detach_volatile s st)) = set (volatile st) - {k}"
    using slot_index_set [OF assms(3)] slot_indexD [OF assms(1,2)]
      set_swap_remove [OF slot_index_distinct [OF assms(1)]] by auto
  then have "vol_slot (detach_volatile s st) x = None \<longleftrightarrow> x \<notin> set (volatile st) - {k}"
    by (metis domIff)
  then show ?thesis using slot_index_set [OF assms(1)] by auto
qed

lemma contents_modify:
  "contents (st\<lparr>entries := hm_modify k f (entries st)\<rparr>) x =
     (if x = k then map_option (\<lambda>e. datum_of (f e)) (hm_get (entries st) k) else contents st x)"
  by (simp add: contents_def hm_get_modify option.map_comp comp_def)

lemma contents_sync [simp]: "contents (sync_volatile k st) = contents st"
proof (rule ext)
  fix x
  show "contents (sync_volatile k st) x = contents st x"
    by (auto simp: sync_volatile_def contents_modify contents_def hm_get_modify option.map_comp
        comp_def entries_detach split: option.split bool.split)
qed

lemma keys_sync [simp]: "keys (sync_volatile k st) = keys st"
  by (auto simp: sync_volatile_def split: option.split bool.split)

lemma key_slot_sync [simp]: "key_slot (sync_volatile k st) = key_slot st"
  by (rule ext) (auto simp: sync_volatile_def key_slot_def hm_get_modify option.map_comp comp_def
      entries_detach split: option.split bool.split)

lemma sync_volatile_wf:
  assumes ix: "index_wf st" and others: "\<And>x. x \<noteq> k \<Longrightarrow> vol_slot st x = None \<longleftrightarrow> deadline st x = None"
  shows "store_wf (sync_volatile k st)"
proof (cases "hm_get (entries st) k")
  case None
  then have "vol_slot st k = None" "deadline st k = None"
    by (simp_all add: vol_slot_def deadline_def)
  with ix others have "store_wf st" unfolding store_wf_def by metis
  with None show ?thesis by (simp add: sync_volatile_def)
next
  case (Some e)
  have dl: "deadline (sync_volatile k st) = deadline st"
    by (simp add: deadline_contents fun_eq_iff)
  have hm: "hm_wf (entries (sync_volatile k st))"
    using ix Some by (auto simp: sync_volatile_def index_wf_def split: option.split bool.split)
  have vi: "slot_index (vol_slot st) (volatile st)" using ix by (simp add: index_wf_def)
  consider (push) "expire_at e \<noteq> None" "volatile_slot e = None"
    | (drop) s where "expire_at e = None" "volatile_slot e = Some s"
    | (same) "expire_at e = None \<longleftrightarrow> volatile_slot e = None"
    by (cases "volatile_slot e") auto
  then show ?thesis
  proof cases
    case push
    let ?st = "sync_volatile k st"
    have v: "volatile ?st = volatile st @ [k]"
      using Some push by (auto simp: sync_volatile_def)
    have f: "vol_slot ?st = (vol_slot st)(k \<mapsto> length (volatile st))"
      using Some push by (auto simp: sync_volatile_def vol_slot_def hm_get_modify fun_eq_iff)
    have "slot_index (vol_slot ?st) (volatile ?st)"
      unfolding v f using vi Some push by (intro slot_index_push) (simp_all add: vol_slot_def)
    moreover have "vol_slot ?st x = None \<longleftrightarrow> deadline st x = None" for x
      using f others [of x] Some push by (simp add: deadline_def)
    ultimately show ?thesis
      using hm dl ix by (simp add: store_wf_def index_wf_def)
  next
    case drop
    let ?st' = "st\<lparr>entries := hm_modify k (\<lambda>e. e\<lparr>volatile_slot := None\<rparr>) (entries st)\<rparr>"
    have sy: "sync_volatile k st = detach_volatile s ?st'"
      using Some drop by (simp add: sync_volatile_def)
    have fk: "vol_slot st k = Some s" using Some drop by (simp add: vol_slot_def)
    have d: "slot_index (vol_slot (detach_volatile s ?st')) (volatile (detach_volatile s ?st'))"
    proof (rule detach_index [where f = "vol_slot st", OF _ fk])
      show "slot_index (vol_slot st) (volatile ?st')" using vi by simp
      show "vol_slot ?st' = (vol_slot st)(k := None)"
        using Some by (auto simp: vol_slot_def hm_get_modify fun_eq_iff)
    next
      fix x t
      assume "vol_slot st x = Some t" "x \<noteq> k"
      then show "hm_get (entries ?st') x \<noteq> None"
        by (cases "hm_get (entries st) x") (auto simp: vol_slot_def hm_get_modify)
    qed
    have "vol_slot (sync_volatile k st) x = None \<longleftrightarrow> deadline st x = None" for x
      using detach_dom [of "vol_slot st" ?st' k s x] vi fk d others [of x] Some drop
      by (cases "x = k") (auto simp: sy deadline_def)
    moreover have "slot_index (key_slot (sync_volatile k st)) (keys (sync_volatile k st))"
      using ix by (simp add: index_wf_def)
    ultimately show ?thesis
      using d hm dl sy unfolding store_wf_def index_wf_def by simp
  next
    case same
    then have "sync_volatile k st = st"
      using Some by (auto simp: sync_volatile_def split: option.split)
    moreover have "vol_slot st x = None \<longleftrightarrow> deadline st x = None" for x
      using Some same others [of x] by (cases "x = k") (auto simp: vol_slot_def deadline_def)
    ultimately show ?thesis using ix by (simp add: store_wf_def)
  qed
qed

lemma insert_entry_wf:
  assumes "store_wf st"
  shows "store_wf (insert_entry k e st)"
    and "contents (insert_entry k e st) = (contents st)(k \<mapsto> datum_of e)"
proof -
  have wf: "hm_wf (entries st)" "slot_index (key_slot st) (keys st)"
    "slot_index (vol_slot st) (volatile st)" "\<And>x. vol_slot st x = None \<longleftrightarrow> deadline st x = None"
    using assms by (auto simp: store_wf_def index_wf_def)
  have "\<exists>st' e'. insert_entry k e st = sync_volatile k st' \<and> index_wf st'
      \<and> entries st' = hm_insert k e' (entries st) \<and> datum_of e' = datum_of e"
  proof (cases "hm_get (entries st) k")
    case (Some p)
    let ?e = "e\<lparr>slot := slot p, volatile_slot := volatile_slot p\<rparr>"
    let ?st = "st\<lparr>entries := hm_insert k ?e (entries st)\<rparr>"
    have "key_slot ?st = key_slot st" "vol_slot ?st = vol_slot st"
      using Some by (auto simp: key_slot_def vol_slot_def hm_get_insert fun_eq_iff)
    then have "index_wf ?st" using wf by (simp add: index_wf_def)
    moreover have "insert_entry k e st = sync_volatile k ?st"
      using Some by (simp add: insert_entry_def)
    ultimately show ?thesis by (intro exI [of _ ?st] exI [of _ ?e]) simp
  next
    case None
    let ?e = "e\<lparr>slot := length (keys st), volatile_slot := None\<rparr>"
    let ?st = "st\<lparr>keys := keys st @ [k], entries := hm_insert k ?e (entries st)\<rparr>"
    have f: "key_slot ?st = (key_slot st)(k \<mapsto> length (keys st))" "vol_slot ?st = vol_slot st"
      using None by (auto simp: key_slot_def vol_slot_def hm_get_insert fun_eq_iff)
    have "slot_index (key_slot ?st) (keys ?st)"
      unfolding f using wf(2) None slot_index_push [of "key_slot st" "keys st" k]
      by (simp add: key_slot_def)
    then have "index_wf ?st" using wf f by (simp add: index_wf_def)
    moreover have "insert_entry k e st = sync_volatile k ?st"
      using None by (simp add: insert_entry_def)
    ultimately show ?thesis by (intro exI [of _ ?st] exI [of _ ?e]) simp
  qed
  then obtain st' e' where i: "insert_entry k e st = sync_volatile k st'" "index_wf st'"
    "entries st' = hm_insert k e' (entries st)" "datum_of e' = datum_of e"
    by blast
  have "vol_slot st' x = None \<longleftrightarrow> deadline st' x = None" if "x \<noteq> k" for x
    using wf(4) [of x] that i(3) by (simp add: vol_slot_def deadline_def hm_get_insert)
  from sync_volatile_wf [OF i(2) this] i(1) show "store_wf (insert_entry k e st)" by simp
  show "contents (insert_entry k e st) = (contents st)(k \<mapsto> datum_of e)"
    using i by (auto simp: contents_def hm_get_insert fun_eq_iff)
qed

lemma remove_entry_None: "hm_get (entries st) k = None \<Longrightarrow> remove_entry k st = (st, None)"
  by (simp add: remove_entry_def)

lemma remove_entry_result: "snd (remove_entry k st) = hm_get (entries st) k"
  by (simp add: remove_entry_def Let_def split: option.split)

lemma remove_entry_wf:
  assumes "store_wf st"
  shows "store_wf (fst (remove_entry k st))"
    and "contents (fst (remove_entry k st)) = (contents st)(k := None)"
proof -
  have wf: "hm_wf (entries st)" "slot_index (key_slot st) (keys st)"
    "slot_index (vol_slot st) (volatile st)" "\<And>x. vol_slot st x = None \<longleftrightarrow> deadline st x = None"
    using assms by (auto simp: store_wf_def index_wf_def)
  have "store_wf (fst (remove_entry k st)) \<and>
    contents (fst (remove_entry k st)) = (contents st)(k := None)"
  proof (cases "hm_get (entries st) k")
    case None
    then have "contents st k = None" by (simp add: contents_def)
    with None assms show ?thesis by (auto simp: remove_entry_None)
  next
    case (Some e)
    let ?s = "slot e" and ?ks = "swap_remove (slot e) (keys st)"
    let ?m = "hm_remove k (entries st)"
    let ?m' = "if ?s < length ?ks then hm_modify (?ks ! ?s) (\<lambda>e'. e'\<lparr>slot := ?s\<rparr>) ?m else ?m"
    let ?st = "st\<lparr>entries := ?m', keys := ?ks\<rparr>"
    have fk: "key_slot st k = Some ?s" using Some by (simp add: key_slot_def)
    have g: "hm_get ?m' x = (if x = k then None
        else if moved ?s (keys st) x then map_option (\<lambda>e'. e'\<lparr>slot := ?s\<rparr>) (hm_get (entries st) x)
        else hm_get (entries st) x)" for x
      by (auto simp: hm_get_modify hm_get_remove moved_def)
    have live_moved: "hm_get (entries st) x \<noteq> None" if "moved ?s (keys st) x" for x
    proof -
      have "x \<in> set (keys st)"
        using that set_swap_remove [OF slot_index_distinct [OF wf(2)]] slot_indexD [OF wf(2) fk]
        by (metis DiffD1 moved_def nth_mem)
      then show ?thesis using slot_index_set [OF wf(2)] by (auto simp: key_slot_def)
    qed
    have "key_slot ?st = (\<lambda>x. if x = k then None else if moved ?s (keys st) x then Some ?s
        else key_slot st x)"
      using live_moved by (force simp: key_slot_def g fun_eq_iff)
    then have ks: "slot_index (key_slot ?st) (keys ?st)"
      using slot_index_swap_remove [OF wf(2) fk] by simp
    have vs: "vol_slot ?st = (vol_slot st)(k := None)"
      by (auto simp: vol_slot_def g fun_eq_iff Option.bind_map_option comp_def
          split: bind_split)
    have ct: "contents ?st = (contents st)(k := None)"
      by (auto simp: contents_def g fun_eq_iff option.map_comp comp_def)
    have dl: "deadline ?st x = (if x = k then None else deadline st x)" for x
      using ct by (simp add: deadline_contents)
    have hm: "hm_wf (entries ?st)" using wf(1) by simp
    show ?thesis
    proof (cases "volatile_slot e")
      case None
      then have "vol_slot st k = None" using Some by (simp add: vol_slot_def)
      then have "vol_slot ?st = vol_slot st" using vs by auto
      then have "store_wf ?st"
        using hm ks wf dl \<open>vol_slot st k = None\<close> by (auto simp: store_wf_def index_wf_def)
      moreover have "fst (remove_entry k st) = ?st"
        using Some None by (simp add: remove_entry_def Let_def)
      ultimately show ?thesis using ct by simp
    next
      case (Some t)
      have r: "fst (remove_entry k st) = detach_volatile t ?st"
        using Some \<open>hm_get (entries st) k = Some e\<close> by (simp add: remove_entry_def Let_def)
      have fv: "vol_slot st k = Some t"
        using Some \<open>hm_get (entries st) k = Some e\<close> by (simp add: vol_slot_def)
      have d: "slot_index (vol_slot (detach_volatile t ?st)) (volatile (detach_volatile t ?st))"
      proof (rule detach_index [where f = "vol_slot st", OF _ fv vs])
        show "slot_index (vol_slot st) (volatile ?st)" using wf(3) by simp
      next
        fix x s
        assume "vol_slot st x = Some s" "x \<noteq> k"
        then show "hm_get (entries ?st) x \<noteq> None"
          by (cases "hm_get (entries st) x") (simp_all add: vol_slot_def g)
      qed
      have "vol_slot (detach_volatile t ?st) x = None \<longleftrightarrow> deadline (detach_volatile t ?st) x = None" for x
        using detach_dom [of "vol_slot st" ?st k t x] wf(3) fv d wf(4) [of x] dl [of x]
        by (auto simp: deadline_contents)
      then have "store_wf (detach_volatile t ?st)"
        using hm ks d by (simp add: store_wf_def index_wf_def)
      with r ct show ?thesis by simp
    qed
  qed
  then show "store_wf (fst (remove_entry k st))"
    and "contents (fst (remove_entry k st)) = (contents st)(k := None)" by auto
qed

subsection \<open>Lookups do not change what is live\<close>

lemma store_wf_entry_update:
  assumes "store_wf st" and "\<And>e. slot (f e) = slot e" and "\<And>e. volatile_slot (f e) = volatile_slot e"
    and "\<And>e. expire_at (f e) = expire_at e"
  shows "store_wf (st\<lparr>entries := hm_modify k f (entries st)\<rparr>)"
proof -
  let ?st = "st\<lparr>entries := hm_modify k f (entries st)\<rparr>"
  have "key_slot ?st = key_slot st"
    by (rule ext) (simp add: key_slot_def hm_get_modify option.map_comp comp_def assms)
  moreover have "vol_slot ?st = vol_slot st"
    by (rule ext) (simp add: vol_slot_def hm_get_modify bind_map_option comp_def assms)
  moreover have "deadline ?st = deadline st"
    by (rule ext) (simp add: deadline_def hm_get_modify bind_map_option comp_def assms)
  ultimately show ?thesis using assms(1) by (simp add: store_wf_def index_wf_def)
qed

lemma touch_found:
  "hm_get (entries st) k = Some e \<Longrightarrow> \<exists>a s. touch E k st =
     st\<lparr>clock := clock st + 1, entries := hm_modify k (\<lambda>e. e\<lparr>acc := a\<rparr>) (entries st), rng := s\<rparr>"
  unfolding touch_def Let_def by (auto split: prod.split)

lemma touch_wf:
  assumes "store_wf st"
  shows "store_wf (touch E k st)"
proof (cases "hm_get (entries st) k")
  case None
  then show ?thesis using assms by (simp add: touch_def)
next
  case (Some e)
  then obtain a s where t: "touch E k st = st\<lparr>clock := clock st + 1,
      entries := hm_modify k (\<lambda>e. e\<lparr>acc := a\<rparr>) (entries st), rng := s\<rparr>"
    using touch_found by blast
  have "store_wf (st\<lparr>entries := hm_modify k (\<lambda>e. e\<lparr>acc := a\<rparr>) (entries st)\<rparr>)"
    using assms by (rule store_wf_entry_update) simp_all
  moreover have "store_wf (touch E k st) =
      store_wf (st\<lparr>entries := hm_modify k (\<lambda>e. e\<lparr>acc := a\<rparr>) (entries st)\<rparr>)"
    unfolding t by (rule wf_cong) simp_all
  ultimately show ?thesis by simp
qed

lemma contents_touch [simp]: "contents (touch E k st) = contents st"
  by (rule ext) (auto simp: touch_def Let_def contents_def hm_get_modify option.map_comp comp_def
      split: option.split prod.split)

lemma account_view [simp]:
  "store_wf (account b st) = store_wf st" "contents (account b st) = contents st"
  "entries (account b st) = entries st"
  by (simp_all add: account_def)

lemma contents_None: "contents st k = None \<longleftrightarrow> hm_get (entries st) k = None"
  by (simp add: contents_def)

lemma expire_if_due_wf: "store_wf st \<Longrightarrow> store_wf (expire_if_due E k st)"
  by (simp add: expire_if_due_def Let_def remove_entry_wf split: option.split)

lemma contents_expire:
  assumes "store_wf st"
  shows "contents (expire_if_due E k st) = (contents st)(k := live E st k)"
proof (cases "contents st k")
  case None
  then show ?thesis by (auto simp: expire_if_due_def contents_def live_def)
next
  case (Some d)
  then obtain e where e: "hm_get (entries st) k = Some e" "d = datum_of e"
    by (auto simp: contents_def)
  show ?thesis
  proof (cases "unexpired E d")
    case True
    with Some e show ?thesis by (auto simp: expire_if_due_def live_def is_live_datum)
  next
    case False
    with Some e assms show ?thesis
      by (simp add: expire_if_due_def live_def is_live_datum Let_def remove_entry_wf)
  qed
qed

text \<open>The value and deadline of the key looked up are exactly its live ones; everything else
  that is live stays as it was.\<close>

lemma find_wf: "store_wf st \<Longrightarrow> store_wf (fst (find E k st))"
  by (simp add: find_def Let_def expire_if_due_wf touch_wf)

lemma find_contents: "store_wf st \<Longrightarrow> contents (fst (find E k st)) = (contents st)(k := live E st k)"
  by (simp add: find_def Let_def contents_expire)

lemma live_idem: "contents st' = (contents st)(k := live E st k) \<Longrightarrow> live E st' = live E st"
  by (rule ext) (auto simp: live_def split: option.splits if_splits)

lemma find_live: "store_wf st \<Longrightarrow> live E (fst (find E k st)) = live E st"
  by (rule live_idem) (rule find_contents)

lemma find_result_get: "snd (find E k st) = hm_get (entries (fst (find E k st))) k"
  by (simp add: find_def Let_def)

lemma find_result: "store_wf st \<Longrightarrow> map_option datum_of (snd (find E k st)) = live E st k"
  using find_contents [of st E k] by (simp add: find_result_get contents_def fun_eq_iff)

text \<open>Case analysis on a lookup, the shape every operation of the store starts with.\<close>

lemma find_cases:
  assumes "store_wf st"
  obtains (missing) st' where "find E k st = (st', None)" "store_wf st'" "live E st k = None"
      "contents st' = (contents st)(k := None)" "live E st' = live E st"
    | (found) st' e where "find E k st = (st', Some e)" "store_wf st'"
      "live E st k = Some (datum_of e)" "hm_get (entries st') k = Some e"
      "contents st' = (contents st)(k \<mapsto> datum_of e)" "live E st' = live E st"
proof (cases "find E k st")
  case (Pair st' r)
  have *: "store_wf st'" "live E st' = live E st" "contents st' = (contents st)(k := live E st k)"
    "map_option datum_of r = live E st k" "r = hm_get (entries st') k"
    using find_wf [OF assms, of E k] find_live [OF assms, of E k] find_contents [OF assms, of E k]
      find_result [OF assms, of E k] find_result_get [of E k st] Pair by simp_all
  show ?thesis
  proof (cases r)
    case None
    show ?thesis by (rule missing [of st']) (use * Pair None in simp_all)
  next
    case (Some e)
    then have "live E st k = Some (datum_of e)" using *(4) by simp
    moreover have "hm_get (entries st') k = Some e" using Some *(5) by simp
    ultimately show ?thesis
      using * Pair Some by (intro found [of st' e]) (simp_all only:)
  qed
qed

lemma peek_type_view:
  assumes "store_wf st"
  shows "store_wf (fst (peek_type E k st))" and "live E (fst (peek_type E k st)) = live E st"
    and "snd (peek_type E k st) = map_option (\<lambda>d. val_type (fst d)) (live E st k)"
proof -
  show "store_wf (fst (peek_type E k st))"
    using assms by (simp add: peek_type_def Let_def expire_if_due_wf)
  note c = contents_expire [OF assms, of E k]
  show "live E (fst (peek_type E k st)) = live E st"
    using live_idem [OF c] by (simp add: peek_type_def Let_def)
  have "map_option datum_of (hm_get (entries (expire_if_due E k st)) k) = live E st k"
    using c by (simp add: contents_def fun_eq_iff)
  then have "map_option (\<lambda>d. val_type (fst d)) (live E st k) = map_option (\<lambda>d. val_type (fst d))
      (map_option datum_of (hm_get (entries (expire_if_due E k st)) k))" by simp
  also have "\<dots> = map_option (\<lambda>e. val_type (evalue e)) (hm_get (entries (expire_if_due E k st)) k)"
    by (simp add: option.map_comp comp_def datum_of_def)
  finally show "snd (peek_type E k st) = map_option (\<lambda>d. val_type (fst d)) (live E st k)"
    by (simp add: peek_type_def Let_def)
qed

subsection \<open>What each operation does to the live keyspace\<close>

lemma live_remove: "store_wf st \<Longrightarrow> live E (fst (remove_entry k st)) = (live E st)(k := None)"
  using live_update [OF remove_entry_wf(2), where E = E and k = k] by simp

lemma live_insert:
  "store_wf st \<Longrightarrow> live E (insert_entry k e st) =
     (live E st)(k := if unexpired E (datum_of e) then Some (datum_of e) else None)"
  using live_update [OF insert_entry_wf(2), where E = E and k = k] by simp

lemma live_mark_dirty [simp]: "live E (mark_dirty st) = live E st"
  by (rule live_contents) simp

lemma del_spec:
  assumes "store_wf st"
  shows "store_wf (fst (del E k st))" and "live E (fst (del E k st)) = (live E st)(k := None)"
    and "snd (del E k st) \<longleftrightarrow> live E st k \<noteq> None"
  by (cases rule: find_cases [OF assms, of E k];
      auto simp: del_def remove_entry_wf live_remove fun_upd_idem)+

lemma delete_if_empty_spec:
  assumes "store_wf st"
  shows "store_wf (delete_if_empty E k st)"
    and "live E (delete_if_empty E k st) =
      (case live E st k of
         None \<Rightarrow> live E st
       | Some d \<Rightarrow> if is_empty_collection (fst d) then (live E st)(k := None) else live E st)"
  by (cases rule: find_cases [OF assms, of E k];
      auto simp: delete_if_empty_def remove_entry_wf live_remove datum_of_def)+

lemma exists_key_spec:
  assumes "store_wf st"
  shows "store_wf (fst (exists_key E k st))" and "live E (fst (exists_key E k st)) = live E st"
    and "snd (exists_key E k st) \<longleftrightarrow> live E st k \<noteq> None"
  by (cases rule: find_cases [OF assms, of E k]; auto simp: exists_key_def)+

lemma type_of_spec:
  assumes "store_wf st"
  shows "store_wf (fst (type_of E k st))" and "live E (fst (type_of E k st)) = live E st"
    and "snd (type_of E k st) = map_option (\<lambda>d. val_type (fst d)) (live E st k)"
  by (cases rule: find_cases [OF assms, of E k]; auto simp: type_of_def datum_of_def)+

lemma has_expiry_spec:
  assumes "store_wf st"
  shows "store_wf (fst (has_expiry E k st))" and "live E (fst (has_expiry E k st)) = live E st"
    and "snd (has_expiry E k st) \<longleftrightarrow> (\<exists>v t. live E st k = Some (v, Some t))"
  by (cases rule: find_cases [OF assms, of E k]; auto simp: has_expiry_def datum_of_def)+

lemma pttl_ms_spec:
  assumes "store_wf st"
  shows "store_wf (fst (pttl_ms E k st))" and "live E (fst (pttl_ms E k st)) = live E st"
    and "snd (pttl_ms E k st) =
      (case live E st k of None \<Rightarrow> - 2 | Some (v, None) \<Rightarrow> - 1
       | Some (v, Some t) \<Rightarrow> if now E \<le> t then as_i64 ((t - now E) div 1000000) else 0)"
  by (cases rule: find_cases [OF assms, of E k];
      auto simp: pttl_ms_def datum_of_def split: option.split)+

lemma ttl_view:
  assumes "store_wf st"
  shows "store_wf (fst (ttl E k st))" and "live E (fst (ttl E k st)) = live E st"
  using pttl_ms_spec [OF assms, of E k] by (auto simp: ttl_def split: prod.splits)

lemma sync_after_modify:
  assumes "store_wf st" and "\<And>e. slot (f e) = slot e" and "\<And>e. volatile_slot (f e) = volatile_slot e"
  shows "store_wf (sync_volatile k (st\<lparr>entries := hm_modify k f (entries st)\<rparr>))"
proof (rule sync_volatile_wf)
  let ?st = "st\<lparr>entries := hm_modify k f (entries st)\<rparr>"
  have "key_slot ?st = key_slot st"
    by (rule ext) (simp add: key_slot_def hm_get_modify option.map_comp comp_def assms)
  moreover have "vol_slot ?st = vol_slot st"
    by (rule ext) (simp add: vol_slot_def hm_get_modify bind_map_option comp_def assms)
  ultimately show "index_wf ?st"
    using assms(1) by (simp add: store_wf_def index_wf_def)
  fix x
  assume "x \<noteq> k"
  then have "deadline ?st x = deadline st x" by (simp add: deadline_def hm_get_modify)
  then show "vol_slot ?st x = None \<longleftrightarrow> deadline ?st x = None"
    using assms(1) \<open>vol_slot ?st = vol_slot st\<close> by (simp add: store_wf_def)
qed

lemma set_expire_at_spec:
  assumes "store_wf st"
  shows "store_wf (fst (set_expire_at E k t st))"
    and "live E (fst (set_expire_at E k t st)) =
      (case live E st k of None \<Rightarrow> live E st
       | Some (v, _) \<Rightarrow> (live E st)(k := if unexpired E (v, t) then Some (v, t) else None))"
    and "snd (set_expire_at E k t st) \<longleftrightarrow> live E st k \<noteq> None"
proof -
  have "store_wf (fst (set_expire_at E k t st)) \<and> live E (fst (set_expire_at E k t st)) =
      (case live E st k of None \<Rightarrow> live E st
       | Some (v, _) \<Rightarrow> (live E st)(k := if unexpired E (v, t) then Some (v, t) else None))
      \<and> (snd (set_expire_at E k t st) \<longleftrightarrow> live E st k \<noteq> None)"
    using assms
  proof (cases rule: find_cases [where E = E and k = k])
    case (missing st')
    then show ?thesis by (simp add: set_expire_at_def)
  next
    case (found st' e)
    let ?st = "st'\<lparr>entries := hm_modify k (\<lambda>e. e\<lparr>expire_at := t\<rparr>) (entries st')\<rparr>"
    have "contents ?st = (contents st')(k := Some (evalue e, t))"
      by (rule ext) (simp add: contents_modify found)
    from live_update [OF this, of E] have "live E ?st =
        (live E st)(k := if unexpired E (evalue e, t) then Some (evalue e, t) else None)"
      using found by simp
    moreover have "live E (sync_volatile k ?st) = live E ?st" by (rule live_contents) simp
    moreover have "store_wf (sync_volatile k ?st)"
      by (rule sync_after_modify [OF found(2)]) simp_all
    ultimately show ?thesis using found by (simp add: set_expire_at_def datum_of_def)
  qed
  then show "store_wf (fst (set_expire_at E k t st))"
    and "live E (fst (set_expire_at E k t st)) =
      (case live E st k of None \<Rightarrow> live E st
       | Some (v, _) \<Rightarrow> (live E st)(k := if unexpired E (v, t) then Some (v, t) else None))"
    and "snd (set_expire_at E k t st) \<longleftrightarrow> live E st k \<noteq> None" by blast+
qed

lemma rename_spec:
  assumes "store_wf st"
  shows "store_wf (fst (rename E k k' st))"
    and "live E (fst (rename E k k' st)) =
      (if live E st k = None \<or> k = k' then live E st
       else (live E st)(k := None, k' := live E st k))"
    and "snd (rename E k k' st) \<longleftrightarrow> live E st k \<noteq> None"
proof -
  have "store_wf (fst (rename E k k' st)) \<and> live E (fst (rename E k k' st)) =
      (if live E st k = None \<or> k = k' then live E st
       else (live E st)(k := None, k' := live E st k))
      \<and> (snd (rename E k k' st) \<longleftrightarrow> live E st k \<noteq> None)"
    using assms
  proof (cases rule: find_cases [where E = E and k = k])
    case (missing st')
    then show ?thesis by (simp add: rename_def)
  next
    case (found st' e)
    have u: "unexpired E (datum_of e)"
      using found(3) by (auto simp: live_def split: option.splits if_splits)
    obtain st'' where r: "remove_entry k st' = (st'', Some e)"
      using remove_entry_result [of k st'] found(4) by (metis prod.collapse)
    with remove_entry_wf [OF found(2), of k] have "store_wf st''" by simp
    moreover have "live E st'' = (live E st)(k := None)"
      using live_remove [OF found(2), of E k] r found(6) by simp
    ultimately show ?thesis
      using found r u by (simp add: rename_def insert_entry_wf live_insert)
  qed
  then show "store_wf (fst (rename E k k' st))"
    and "live E (fst (rename E k k' st)) =
      (if live E st k = None \<or> k = k' then live E st
       else (live E st)(k := None, k' := live E st k))"
    and "snd (rename E k k' st) \<longleftrightarrow> live E st k \<noteq> None" by blast+
qed

lemma live_unexpired: "live E st k = Some d \<Longrightarrow> unexpired E d \<and> contents st k = Some d"
  by (auto simp: live_def split: option.splits if_splits)

lemma contents_get: "hm_get (entries st) k = Some e \<Longrightarrow> contents st k = Some (datum_of e)"
  by (simp add: contents_def)

lemma copy_spec:
  assumes "store_wf st"
  shows "store_wf (fst (copy E k dest replace st))"
    and "live E (fst (copy E k dest replace st)) =
      (if live E st k = None \<or> \<not> replace \<and> live E st dest \<noteq> None then live E st
       else (live E st)(dest := map_option (\<lambda>(v, t). (val_clone E v, t)) (live E st k)))"
    and "snd (copy E k dest replace st) =
      (if live E st k = None then None else Some (replace \<or> live E st dest = None))"
proof -
  have "store_wf (fst (copy E k dest replace st)) \<and> live E (fst (copy E k dest replace st)) =
      (if live E st k = None \<or> \<not> replace \<and> live E st dest \<noteq> None then live E st
       else (live E st)(dest := map_option (\<lambda>(v, t). (val_clone E v, t)) (live E st k)))
      \<and> snd (copy E k dest replace st) =
      (if live E st k = None then None else Some (replace \<or> live E st dest = None))"
    using assms
  proof (cases rule: find_cases [where E = E and k = k])
    case (missing st')
    then show ?thesis by (simp add: copy_def)
  next
    case (found st' e)
    obtain st'' taken where t: "(if replace then (st', False) else exists_key E dest st') = (st'', taken)"
      by (meson surj_pair)
    have w: "store_wf st''" "live E st'' = live E st" "taken \<longleftrightarrow> \<not> replace \<and> live E st dest \<noteq> None"
      using t exists_key_spec [OF found(2), of E dest] found(2,6) by (auto split: if_splits)
    show ?thesis
    proof (cases taken)
      case True
      then show ?thesis using found(1,3) t w by (simp add: copy_def)
    next
      case False
      have "live E st'' k = Some (datum_of e)" using w(2) found(3) by simp
      note lk = live_unexpired [OF this]
      then obtain e' where e': "hm_get (entries st'') k = Some e'" "datum_of e' = datum_of e"
        by (auto simp: contents_def)
      have "copy E k dest replace st = (mark_dirty (insert_entry dest
          (e'\<lparr>evalue := val_clone E (evalue e')\<rparr>) st''), Some True)"
        using found(1) t False e'(1) by (simp add: copy_def)
      then show ?thesis
        using found(3) w False e' lk
        by (cases "live E st dest")
          (simp_all add: insert_entry_wf live_insert datum_of_def unexpired_def)
    qed
  qed
  then show "store_wf (fst (copy E k dest replace st))"
    and "live E (fst (copy E k dest replace st)) =
      (if live E st k = None \<or> \<not> replace \<and> live E st dest \<noteq> None then live E st
       else (live E st)(dest := map_option (\<lambda>(v, t). (val_clone E v, t)) (live E st k)))"
    and "snd (copy E k dest replace st) =
      (if live E st k = None then None else Some (replace \<or> live E st dest = None))" by blast+
qed

lemma flush_spec: "store_wf (fst (flush st))" "contents (fst (flush st)) = Map.empty"
  by (simp_all add: flush_def store_wf_def index_wf_def slot_index_def key_slot_def vol_slot_def
      deadline_def contents_def fun_eq_iff)

lemma empty_store_wf: "store_wf (empty_store E)"
  by (simp add: empty_store_def store_wf_def index_wf_def slot_index_def key_slot_def vol_slot_def
      deadline_def)

lemma evict_spec:
  assumes "store_wf st"
  shows "store_wf (fst (evict k st))" and "contents (fst (evict k st)) = (contents st)(k := None)"
    and "snd (evict k st) \<longleftrightarrow> contents st k \<noteq> None"
proof -
  obtain st' r where r: "remove_entry k st = (st', r)" by (meson surj_pair)
  have "r = hm_get (entries st) k" using remove_entry_result [of k st] r by simp
  then show "store_wf (fst (evict k st))" "contents (fst (evict k st)) = (contents st)(k := None)"
    "snd (evict k st) \<longleftrightarrow> contents st k \<noteq> None"
    using remove_entry_wf [OF assms, of k] r
    by (auto simp: evict_def contents_def split: option.split)
qed

lemma sweep_one_spec:
  "store_wf st \<Longrightarrow> store_wf (sweep_one k st) \<and> contents (sweep_one k st) = (contents st)(k := None)"
  by (simp add: sweep_one_def Let_def remove_entry_wf)

lemma sweep_fold:
  "store_wf st \<Longrightarrow> store_wf (fold sweep_one ks st) \<and>
   contents (fold sweep_one ks st) = contents st |` (- set ks)"
proof (induction ks arbitrary: st)
  case Nil
  then show ?case by simp
next
  case (Cons k ks)
  then show ?case
    using sweep_one_spec [OF Cons.prems, of k]
    by (auto simp: restrict_map_def fun_eq_iff)
qed

text \<open>After a sweep nothing expired is left, and what was live is untouched.\<close>

lemma store_wf_hm: "store_wf st \<Longrightarrow> hm_wf (entries st)"
  by (simp add: store_wf_def index_wf_def)

lemma expired_mem:
  "store_wf st \<Longrightarrow> k \<in> set (map fst (filter (\<lambda>(k, e). P k e) (entries st))) \<longleftrightarrow>
     (\<exists>e. hm_get (entries st) k = Some e \<and> P k e)"
  using hm_get_mem [OF store_wf_hm] by force

lemma sweep_expired_spec:
  assumes "store_wf st"
  shows "store_wf (sweep_expired E st)" and "contents (sweep_expired E st) = live E st"
proof -
  note f = sweep_fold [OF assms, of "map fst (filter (\<lambda>(k, e). \<not> is_live E e) (entries st))"]
  then show "store_wf (sweep_expired E st)" by (simp add: sweep_expired_def)
  show "contents (sweep_expired E st) = live E st"
    unfolding sweep_expired_def f [THEN conjunct2]
    by (rule ext) (simp only: restrict_map_def Compl_iff expired_mem [OF assms],
        auto simp: live_def contents_def is_live_datum split: option.split)
qed

text \<open>Writing back a value: it replaces the value and keeps the deadline.\<close>

lemma put_value_spec:
  assumes "store_wf st"
  shows "store_wf (put_value k v st)"
    and "live E (put_value k v st) =
      (case live E st k of None \<Rightarrow> live E st | Some (_, t) \<Rightarrow> (live E st)(k \<mapsto> (v, t)))"
proof -
  show "store_wf (put_value k v st)"
    unfolding put_value_def using assms by (rule store_wf_entry_update) simp_all
  show "live E (put_value k v st) =
      (case live E st k of None \<Rightarrow> live E st | Some (_, t) \<Rightarrow> (live E st)(k \<mapsto> (v, t)))"
    by (cases "hm_get (entries st) k")
      (auto simp: live_def put_value_def contents_def hm_get_modify fun_eq_iff unexpired_def
        datum_of_def split: option.split)
qed

lemma fresh_datum [simp]: "datum_of (fresh E v t st) = (v, t)"
  by (simp add: fresh_def datum_of_def)

lemma unexpired_None [simp]: "unexpired E (v, None)"
  by (simp add: unexpired_def)

lemma set_string_spec:
  assumes "store_wf st"
  shows "store_wf (set_string E k v st)"
    and "live E (set_string E k v st) = (live E st)(k \<mapsto> (VStr v, None))"
  using assms by (simp_all add: set_string_def Let_def insert_entry_wf live_insert)

lemma update_string_spec:
  assumes "store_wf st"
  shows "store_wf (update_string E k v st)"
    and "live E (update_string E k v st) =
      (live E st)(k \<mapsto> (VStr v, case live E st k of None \<Rightarrow> None | Some d \<Rightarrow> snd d))"
proof -
  have "store_wf (mark_dirty st)" using assms by simp
  then have "store_wf (update_string E k v st) \<and> live E (update_string E k v st) =
      (live E st)(k \<mapsto> (VStr v, case live E st k of None \<Rightarrow> None | Some d \<Rightarrow> snd d))"
  proof (cases rule: find_cases [where E = E and k = k])
    case (missing st')
    then show ?thesis by (simp add: update_string_def insert_entry_wf live_insert)
  next
    case (found st' e)
    then show ?thesis
      by (simp add: update_string_def put_value_spec datum_of_def)
  qed
  then show "store_wf (update_string E k v st)" "live E (update_string E k v st) =
      (live E st)(k \<mapsto> (VStr v, case live E st k of None \<Rightarrow> None | Some d \<Rightarrow> snd d))" by blast+
qed

fun as_str :: "val \<Rightarrow> bytes option" where "as_str (VStr s) = Some s" | "as_str _ = None"

lemma get_string_spec:
  assumes "store_wf st"
  shows "store_wf (fst (get_string E k st))" and "live E (fst (get_string E k st)) = live E st"
    and "snd (get_string E k st) = Option.bind (live E st k) (\<lambda>d. as_str (fst d))"
  by (cases rule: find_cases [OF assms, of E k];
      auto simp: get_string_def datum_of_def split: val.split)+

lemma read_collection_spec:
  assumes "store_wf st"
  shows "store_wf (fst (read_collection prj E k st))"
    and "live E (fst (read_collection prj E k st)) = live E st"
    and "snd (read_collection prj E k st) = Option.bind (live E st k) (\<lambda>d. prj (fst d))"
  by (cases rule: find_cases [OF assms, of E k]; auto simp: read_collection_def datum_of_def)+

lemma write_collection_spec:
  assumes "store_wf st"
  shows "store_wf (fst (write_collection prj E k st))"
    and "live E (fst (write_collection prj E k st)) = live E st"
    and "snd (write_collection prj E k st) = Option.bind (live E st k) (\<lambda>d. prj (fst d))"
  by (cases rule: find_cases [OF assms, of E k];
      auto simp: write_collection_def datum_of_def split: option.split)+

lemma get_or_create_spec:
  assumes "store_wf st"
  shows "store_wf (fst (get_or_create prj dflt E k st))"
    and "live E (fst (get_or_create prj dflt E k st)) =
      (case live E st k of None \<Rightarrow> (live E st)(k \<mapsto> (dflt, None)) | Some _ \<Rightarrow> live E st)"
    and "snd (get_or_create prj dflt E k st) =
      (case live E st k of None \<Rightarrow> prj dflt | Some d \<Rightarrow> prj (fst d))"
proof -
  have "store_wf (mark_dirty st)" using assms by simp
  then have "store_wf (fst (get_or_create prj dflt E k st)) \<and>
      live E (fst (get_or_create prj dflt E k st)) =
      (case live E st k of None \<Rightarrow> (live E st)(k \<mapsto> (dflt, None)) | Some _ \<Rightarrow> live E st) \<and>
      snd (get_or_create prj dflt E k st) =
      (case live E st k of None \<Rightarrow> prj dflt | Some d \<Rightarrow> prj (fst d))"
  proof (cases rule: find_cases [where E = E and k = k])
    case (missing st')
    then show ?thesis by (simp add: get_or_create_def insert_entry_wf live_insert)
  next
    case (found st' e)
    then show ?thesis by (simp add: get_or_create_def datum_of_def)
  qed
  then show "store_wf (fst (get_or_create prj dflt E k st))"
    "live E (fst (get_or_create prj dflt E k st)) =
      (case live E st k of None \<Rightarrow> (live E st)(k \<mapsto> (dflt, None)) | Some _ \<Rightarrow> live E st)"
    "snd (get_or_create prj dflt E k st) =
      (case live E st k of None \<Rightarrow> prj dflt | Some d \<Rightarrow> prj (fst d))" by blast+
qed

lemma create_memory_spec:
  assumes "store_wf st"
  shows "store_wf (fst (create_memory E k m st))"
    and "live E (fst (create_memory E k m st)) =
      (if live E st k = None then (live E st)(k \<mapsto> (VMemory m, None)) else live E st)"
    and "snd (create_memory E k m st) \<longleftrightarrow> live E st k = None"
  by (cases rule: find_cases [OF assms, of E k];
      simp add: create_memory_def exists_key_def insert_entry_wf live_insert Let_def)+

lemma get_existing_memory_spec:
  assumes "store_wf st"
  shows "store_wf (fst (get_existing_memory E k st))"
    and "live E (fst (get_existing_memory E k st)) = live E st"
  by (cases rule: find_cases [OF assms, of E k]; simp add: get_existing_memory_def)+

subsection \<open>Counting, sampling, scanning\<close>

lemma live_entry:
  "live E st k = Some d \<longleftrightarrow> (\<exists>e. hm_get (entries st) k = Some e \<and> is_live E e \<and> d = datum_of e)"
  by (auto simp: live_def contents_def is_live_datum split: option.split)

lemma set_live_keys: "store_wf st \<Longrightarrow> set (live_keys E st) = dom (live E st)"
  by (auto simp: live_keys_def expired_mem live_entry dom_def simp del: set_map split_paired_Ex)

lemma distinct_live_keys: "store_wf st \<Longrightarrow> distinct (live_keys E st)"
  using store_wf_hm by (auto simp: live_keys_def hm_wf_def distinct_map_filter)

text \<open>DBSIZE counts what KEYS lists: the live keys.\<close>

lemma size_of_live: "store_wf st \<Longrightarrow> size_of E st = card (dom (live E st))"
  by (metis distinct_card distinct_live_keys length_map live_keys_def set_live_keys size_of_def)

lemma random_draws_rng:
  "entries (fst (random_draws n E st)) = entries st \<and> keys (fst (random_draws n E st)) = keys st \<and>
   volatile (fst (random_draws n E st)) = volatile st"
  by (induction n E st rule: random_draws.induct) (auto simp: Let_def split: prod.split)

lemma random_key_view:
  "store_wf (fst (random_key E st)) = store_wf st" "contents (fst (random_key E st)) = contents st"
  unfolding random_key_def using random_draws_rng [of 20 E st] wf_cong by blast+

lemma live_rng [simp]: "live E (st\<lparr>rng := s\<rparr>) = live E st"
  by (rule live_contents) simp

lemma random_draws_live: "snd (random_draws n E st) = Some k \<Longrightarrow> live E st k \<noteq> None"
proof (induction n arbitrary: st)
  case (Suc n)
  obtain s i where b: "below E (length (keys st)) (rng st) = (s, i)" by (meson surj_pair)
  let ?st = "st\<lparr>rng := s\<rparr>" and ?k = "keys st ! i"
  show ?case
  proof (cases "case hm_get (entries st) ?k of None \<Rightarrow> False | Some e \<Rightarrow> is_live E e")
    case True
    with Suc.prems b have "k = ?k" by (simp split: if_splits)
    with True show ?thesis by (cases "hm_get (entries st) ?k") (auto simp: live_def contents_def is_live_datum)
  next
    case False
    with Suc.prems b have "snd (random_draws n E ?st) = Some k" by (simp split: if_splits)
    from Suc.IH [OF this] show ?thesis by simp
  qed
qed simp

text \<open>With nothing expired in it, a keyspace that is not empty always yields a key.\<close>

lemma random_key_Some:
  assumes "store_wf st" and "contents st = live E st" and "keys st \<noteq> []"
  shows "\<exists>k. snd (random_key E st) = Some k"
proof -
  obtain s i where b: "below E (length (keys st)) (rng st) = (s, i)" by (meson surj_pair)
  then have "i < length (keys st)" using below_less [of "length (keys st)" E "rng st"] assms(3) by simp
  then have "keys st ! i \<in> dom (key_slot st)"
    using assms(1) slot_index_set [of "key_slot st" "keys st"]
    by (metis index_wf_def nth_mem store_wf_def)
  then obtain e where e: "hm_get (entries st) (keys st ! i) = Some e" by (auto simp: key_slot_def)
  then have "live E st (keys st ! i) = Some (datum_of e)"
    using assms(2) by (metis contents_get)
  then have "is_live E e" using e by (auto simp: live_entry)
  moreover have "20 = Suc 19" by simp
  ultimately show ?thesis
    using b e assms(3) by (simp only: random_key_def random_draws.simps) simp
qed

text \<open>Every candidate an eviction policy is offered is a live key with its true deadline; from
  the volatile index, one that has a deadline.\<close>

lemma sample_draws_frame:
  "entries (fst (sample_draws n E pool st)) = entries st \<and>
   keys (fst (sample_draws n E pool st)) = keys st \<and>
   volatile (fst (sample_draws n E pool st)) = volatile st"
proof (induction n arbitrary: st)
  case (Suc n)
  obtain s i where "below E (length pool) (rng st) = (s, i)" by (meson surj_pair)
  with Suc.IH [of "st\<lparr>rng := s\<rparr>"] show ?case by (auto simp: Let_def case_prod_beta)
qed simp

lemma sample_draws_live:
  assumes "pool \<noteq> []" and "c \<in> set (snd (sample_draws n E pool st))"
  shows "\<exists>v. live E st (cand_key c) = Some (v, cand_expire_at c) \<and> cand_key c \<in> set pool"
  using assms(2)
proof (induction n arbitrary: st)
  case (Suc n)
  obtain s i where b: "below E (length pool) (rng st) = (s, i)" by (meson surj_pair)
  then have i: "i < length pool" using below_less [of "length pool" E "rng st"] assms(1) by simp
  let ?st = "st\<lparr>rng := s\<rparr>"
  obtain st' cs where r: "sample_draws n E pool ?st = (st', cs)" by (meson surj_pair)
  show ?case
  proof (cases "c \<in> set cs")
    case True
    with Suc.IH [of ?st] r show ?thesis by simp
  next
    case False
    then show ?thesis
    proof (cases "hm_get (entries st) (pool ! i)")
      case None
      with Suc.prems b r \<open>c \<notin> set cs\<close> show ?thesis by (simp add: Let_def)
    next
      case (Some e)
      with Suc.prems b r \<open>c \<notin> set cs\<close> have "is_live E e" "cand_key c = pool ! i"
        "cand_expire_at c = expire_at e"
        by (auto simp: Let_def split: if_splits)
      with i Some show ?thesis by (auto simp: live_entry datum_of_def)
    qed
  qed
qed simp

lemma sample_view:
  "store_wf (fst (sample E vol n st)) = store_wf st" "contents (fst (sample E vol n st)) = contents st"
proof -
  have "entries (fst (sample E vol n st)) = entries st \<and> keys (fst (sample E vol n st)) = keys st
      \<and> volatile (fst (sample E vol n st)) = volatile st"
    using sample_draws_frame by (simp add: sample_def Let_def)
  then show "store_wf (fst (sample E vol n st)) = store_wf st"
    "contents (fst (sample E vol n st)) = contents st" using wf_cong by blast+
qed

lemma volatile_deadline:
  assumes "store_wf st" and "k \<in> set (volatile st)"
  shows "\<exists>t. deadline st k = Some t"
proof -
  have "k \<in> dom (vol_slot st)"
    using assms slot_index_set [of "vol_slot st" "volatile st"]
    by (simp add: store_wf_def index_wf_def)
  then have "deadline st k \<noteq> None" using assms(1) unfolding store_wf_def by (metis domIff)
  then show ?thesis by simp
qed

lemma sample_live:
  assumes "store_wf st" and "c \<in> set (snd (sample E vol n st))"
  shows "\<exists>v. live E st (cand_key c) = Some (v, cand_expire_at c)"
    and "vol \<Longrightarrow> cand_expire_at c \<noteq> None"
proof -
  let ?pool = "if vol then volatile st else keys st"
  have "?pool \<noteq> []" "c \<in> set (snd (sample_draws n E ?pool st))"
    using assms(2) by (auto simp: sample_def Let_def split: if_splits)
  from sample_draws_live [OF this] obtain v where
    v: "live E st (cand_key c) = Some (v, cand_expire_at c)" "cand_key c \<in> set ?pool" by blast
  then show "\<exists>v. live E st (cand_key c) = Some (v, cand_expire_at c)" by blast
  assume vol
  with v volatile_deadline [OF assms(1)] obtain t where "deadline st (cand_key c) = Some t" by auto
  moreover have "contents st (cand_key c) = Some (v, cand_expire_at c)"
    using live_unexpired [OF v(1)] by simp
  ultimately show "cand_expire_at c \<noteq> None" by (simp add: deadline_contents)
qed

text \<open>SCAN: a client that follows the cursors until it gets 0 reads the live keys in order,
  each once, provided the keyspace does not change meanwhile and the batch size keeps
  cursor arithmetic within 64 bits.\<close>

fun scan_all :: "nat \<Rightarrow> env \<Rightarrow> nat \<Rightarrow> nat \<Rightarrow> store \<Rightarrow> bytes list option" where
  "scan_all 0 E cursor cnt st = None"
| "scan_all (Suc fuel) E cursor cnt st =
     (case scan E cursor cnt st of
        Panicked \<Rightarrow> None
      | Done (batch, next) \<Rightarrow>
          if next = 0 then Some batch
          else map_option (\<lambda>rest. batch @ rest) (scan_all fuel E next cnt st))"

lemma scan_page:
  assumes "length (live_keys E st) + max cnt 1 < 2 ^ 64"
  shows "scan E cursor cnt st =
    (if cursor + max cnt 1 < length (live_keys E st)
     then Done (take (max cnt 1) (drop cursor (sort (live_keys E st))), cursor + max cnt 1)
     else Done (drop cursor (sort (live_keys E st)), 0))"
proof (cases "cursor < length (live_keys E st)")
  case True
  then have "(cursor + max cnt 1) mod 2 ^ 64 = cursor + max cnt 1" using assms by simp
  with True show ?thesis by (simp add: scan_def Let_def min_def)
next
  case False
  then show ?thesis by (simp add: scan_def Let_def)
qed

lemma scan_all_from:
  assumes "length (live_keys E st) + max cnt 1 < 2 ^ 64"
    and "length (live_keys E st) - cursor < fuel"
  shows "scan_all fuel E cursor cnt st = Some (drop cursor (sort (live_keys E st)))"
  using assms(2)
proof (induction fuel arbitrary: cursor)
  case (Suc fuel)
  let ?ks = "sort (live_keys E st)" and ?n = "max cnt 1"
  show ?case
  proof (cases "cursor + ?n < length (live_keys E st)")
    case True
    then have "length (live_keys E st) - (cursor + ?n) < fuel" using Suc.prems by linarith
    from Suc.IH [OF this] True
    have "scan_all (Suc fuel) E cursor cnt st =
        Some (take ?n (drop cursor ?ks) @ drop (cursor + ?n) ?ks)"
      by (simp add: scan_page [OF assms(1)])
    moreover have "take ?n (drop cursor ?ks) @ drop (cursor + ?n) ?ks = drop cursor ?ks"
      using append_take_drop_id [of ?n "drop cursor ?ks"] by (simp add: add.commute)
    ultimately show ?thesis by (simp only:)
  next
    case False
    then show ?thesis by (simp add: scan_page [OF assms(1)])
  qed
qed simp

end
