(* ===== verification/StoreSpec.thy ===== *)
theory StoreSpec
  imports Keyspace
begin

text \<open>
  What the operations of \<open>Store\<close> promise their callers, stated over the abstract keyspace of
  \<open>Keyspace\<close>: the step relation of a store whose operations are called in any order at
  advancing or receding clocks, the invariant of its reachable states, and the effect of each
  operation on the map of live keys.
\<close>

subsection \<open>Reachable stores\<close>

text \<open>One call of a mutating or counting operation, with any arguments, at any time.\<close>

inductive store_step :: "store \<Rightarrow> store \<Rightarrow> bool" where
  set_string: "store_step st (set_string E k v st)"
| update_string: "store_step st (update_string E k v st)"
| get_string: "store_step st (fst (get_string E k st))"
| del: "store_step st (fst (del E k st))"
| delete_if_empty: "store_step st (delete_if_empty E k st)"
| exists_key: "store_step st (fst (exists_key E k st))"
| type_of: "store_step st (fst (type_of E k st))"
| peek_type: "store_step st (fst (peek_type E k st))"
| set_expire_at: "store_step st (fst (set_expire_at E k t st))"
| pttl_ms: "store_step st (fst (pttl_ms E k st))"
| rename: "store_step st (fst (rename E k k' st))"
| copy: "store_step st (fst (copy E k k' r st))"
| flush: "store_step st (fst (flush st))"
| random_key: "store_step st (fst (random_key E st))"
| sweep_expired: "store_step st (sweep_expired E st)"
| sample: "store_step st (fst (sample E vol n st))"
| evict: "store_step st (fst (evict k st))"
| put_value: "store_step st (put_value k v st)"
| create_memory: "store_step st (fst (create_memory E k m st))"
| get_existing_memory: "store_step st (fst (get_existing_memory E k st))"
| get_or_create_list: "store_step st (fst (get_or_create_list E k st))"
| read_list: "store_step st (fst (read_list E k st))"
| write_list: "store_step st (fst (write_list E k st))"
| get_or_create_hash: "store_step st (fst (get_or_create_hash E k st))"
| read_hash: "store_step st (fst (read_hash E k st))"
| write_hash: "store_step st (fst (write_hash E k st))"
| get_or_create_set: "store_step st (fst (get_or_create_set E k st))"
| read_set: "store_step st (fst (read_set E k st))"
| write_set: "store_step st (fst (write_set E k st))"
| get_or_create_zset: "store_step st (fst (get_or_create_zset E k st))"
| read_zset: "store_step st (fst (read_zset E k st))"
| write_zset: "store_step st (fst (write_zset E k st))"

inductive reachable_store :: "store \<Rightarrow> bool" where
  initial: "reachable_store (empty_store E)"
| step: "reachable_store st \<Longrightarrow> store_step st st' \<Longrightarrow> reachable_store st'"

lemma store_step_wf: "store_step st st' \<Longrightarrow> store_wf st \<Longrightarrow> store_wf st'"
  by (induction rule: store_step.induct)
    (simp_all add: set_string_spec update_string_spec get_string_spec del_spec delete_if_empty_spec
      exists_key_spec type_of_spec peek_type_view set_expire_at_spec pttl_ms_spec rename_spec
      copy_spec flush_spec random_key_view sweep_expired_spec sample_view evict_spec put_value_spec
      create_memory_spec get_existing_memory_spec get_or_create_spec read_collection_spec
      write_collection_spec)

lemma reachable_store_wf: "reachable_store st \<Longrightarrow> store_wf st"
  by (induction rule: reachable_store.induct) (auto intro: empty_store_wf store_step_wf)

lemma store_wf_indexes:
  assumes "store_wf st"
  shows "distinct (keys st) \<and> set (keys st) = dom (contents st) \<and>
    distinct (volatile st) \<and> set (volatile st) = {k. \<exists>v t. contents st k = Some (v, Some t)}"
proof -
  have k: "slot_index (key_slot st) (keys st)" and v: "slot_index (vol_slot st) (volatile st)"
    and d: "\<And>k. vol_slot st k = None \<longleftrightarrow> deadline st k = None"
    using assms by (auto simp: store_wf_def index_wf_def)
  have "dom (key_slot st) = dom (contents st)"
    by (auto simp: key_slot_def contents_def dom_def)
  moreover have "dom (vol_slot st) = {k. \<exists>v t. contents st k = Some (v, Some t)}"
    using d by (auto simp: dom_def deadline_def contents_def datum_of_def bind_eq_Some_conv
        split: option.splits)
  ultimately show ?thesis
    using slot_index_distinct [OF k] slot_index_set [OF k] slot_index_distinct [OF v]
      slot_index_set [OF v] by simp
qed

text \<open>
  C2. Whatever sequence of operations a store has been through, its key vector holds each
  key of the map once, and its volatile vector each key with a deadline once: a random draw
  never misses, and \<open>swap_remove\<close> never invalidates a slot.
\<close>
theorem store_indexes_consistent:
  assumes "reachable_store st"
  shows "distinct (keys st) \<and> set (keys st) = dom (contents st) \<and>
    distinct (volatile st) \<and> set (volatile st) = {k. \<exists>v t. contents st k = Some (v, Some t)}"
  by (rule store_wf_indexes [OF reachable_store_wf [OF assms]])

definition sample_env :: env where
  "sample_env = \<lparr>now = 1000000000, mono = 0, used_bytes = 0, peak_bytes = 0, disk_fails = None, pid = 1\<rparr>"

text \<open>A store with one string, one volatile string and one list.\<close>

definition sample_store :: store where
  "sample_store =
     put_value ''l'' (VList [''x'', ''y'']) (set_string sample_env ''l'' []
       (fst (set_expire_at sample_env ''b'' (Some 5000000000)
         (set_string sample_env ''b'' ''2'' (set_string sample_env ''a'' ''1'' (empty_store sample_env))))))"

lemma sample_store_reachable: "reachable_store sample_store"
  unfolding sample_store_def
  by (intro reachable_store.step [OF _ store_step.put_value]
      reachable_store.step [OF _ store_step.set_string]
      reachable_store.step [OF _ store_step.set_expire_at] reachable_store.initial)

lemma sample_store_wf: "store_wf sample_store"
  by (rule reachable_store_wf [OF sample_store_reachable])

lemma live_empty_store: "live E (empty_store E') = Map.empty"
  by (rule ext) (simp add: live_def contents_def empty_store_def)

lemma live_sample_store:
  "live sample_env sample_store =
     [''a'' \<mapsto> (VStr ''1'', None), ''b'' \<mapsto> (VStr ''2'', Some 5000000000),
      ''l'' \<mapsto> (VList [''x'', ''y''], None)]"
  by (simp add: sample_store_def put_value_spec set_string_spec set_expire_at_spec empty_store_wf
      live_empty_store unexpired_def sample_env_def fun_upd_twist)

lemma sample_store_keys: "length (live_keys sample_env sample_store) = 3"
  using distinct_card [OF distinct_live_keys [OF sample_store_wf, of sample_env]]
  by (simp add: set_live_keys [OF sample_store_wf] live_sample_store)

lemma store_indexes_consistent_witness:
  "distinct (keys sample_store) \<and> set (keys sample_store) = dom (contents sample_store) \<and>
    distinct (volatile sample_store) \<and>
    set (volatile sample_store) = {k. \<exists>v t. contents sample_store k = Some (v, Some t)}"
  by (rule store_indexes_consistent [OF sample_store_reachable])

text \<open>
  C1. To its clients the store is a map from live keys to a value and a deadline, and the
  writing operations are that map's updates: SET drops the deadline, the in-place update
  keeps it, DEL and an emptied collection remove the key, EXPIRE changes the deadline or
  removes the key when it is past, RENAME moves the pair, COPY duplicates it.
\<close>
theorem store_refines_map:
  assumes "store_wf st"
  shows
    "live E (set_string E k v st) = (live E st)(k \<mapsto> (VStr v, None)) \<and>
     live E (update_string E k v st) =
       (live E st)(k \<mapsto> (VStr v, case live E st k of None \<Rightarrow> None | Some d \<Rightarrow> snd d)) \<and>
     live E (fst (del E k st)) = (live E st)(k := None) \<and>
     live E (delete_if_empty E k st) =
       (case live E st k of None \<Rightarrow> live E st
        | Some d \<Rightarrow> if is_empty_collection (fst d) then (live E st)(k := None) else live E st) \<and>
     live E (fst (set_expire_at E k t st)) =
       (case live E st k of None \<Rightarrow> live E st
        | Some (w, _) \<Rightarrow> (live E st)(k := if unexpired E (w, t) then Some (w, t) else None)) \<and>
     live E (fst (rename E k k' st)) =
       (if live E st k = None \<or> k = k' then live E st
        else (live E st)(k := None, k' := live E st k)) \<and>
     live E (fst (copy E k k' r st)) =
       (if live E st k = None \<or> \<not> r \<and> live E st k' \<noteq> None then live E st
        else (live E st)(k' := map_option (\<lambda>(w, t). (val_clone E w, t)) (live E st k)))"
  using set_string_spec(2) [OF assms] update_string_spec(2) [OF assms] del_spec(2) [OF assms]
    delete_if_empty_spec(2) [OF assms] set_expire_at_spec(2) [OF assms] rename_spec(2) [OF assms]
    copy_spec(2) [OF assms]
  by (intro conjI) (simp_all only:)

lemma store_refines_map_witness:
  "live sample_env (set_string sample_env ''a'' ''9'' sample_store) =
     (live sample_env sample_store)(''a'' \<mapsto> (VStr ''9'', None))"
  using store_refines_map [OF sample_store_wf, of sample_env "''a''" "''9''"] by (simp only:)

text \<open>
  Reading is not observable: lookups, type and TTL queries, random draws and samples
  change only clocks, counters and the generator, and the expiry sweep deletes exactly
  what was already invisible.
\<close>
theorem reads_keep_keyspace:
  assumes "store_wf st"
  shows
    "live E (fst (get_string E k st)) = live E st \<and> live E (fst (exists_key E k st)) = live E st \<and>
     live E (fst (type_of E k st)) = live E st \<and> live E (fst (pttl_ms E k st)) = live E st \<and>
     live E (fst (ttl E k st)) = live E st \<and>
     live E (fst (read_collection prj E k st)) = live E st \<and>
     live E (fst (get_existing_memory E k st)) = live E st \<and>
     contents (fst (random_key E st)) = contents st \<and>
     contents (fst (sample E vol n st)) = contents st \<and>
     contents (sweep_expired E st) = live E st"
  using assms
  by (simp add: get_string_spec exists_key_spec type_of_spec pttl_ms_spec ttl_view
      read_collection_spec get_existing_memory_spec random_key_view sample_view sweep_expired_spec)

lemma reads_keep_keyspace_witness:
  "contents (sweep_expired sample_env sample_store) = live sample_env sample_store"
  using reads_keep_keyspace [OF sample_store_wf, of sample_env] by blast

text \<open>
  C22. DBSIZE counts the live keys, a scan from cursor 0 that follows its cursors ends and
  returns each live key exactly once in order, and a random key is a live key, found
  whenever nothing in the map has expired and the map is not empty.
\<close>
theorem key_enumeration_complete:
  assumes "store_wf st" and "length (live_keys E st) + max cnt 1 < 2 ^ 64"
  shows "size_of E st = card (dom (live E st)) \<and>
    scan_all (Suc (length (live_keys E st))) E 0 cnt st = Some (sort (live_keys E st)) \<and>
    distinct (live_keys E st) \<and> set (live_keys E st) = dom (live E st) \<and>
    (case snd (random_key E st) of
       None \<Rightarrow> contents st = live E st \<longrightarrow> live E st = Map.empty
     | Some k \<Rightarrow> live E st k \<noteq> None)"
proof -
  have "contents st = live E st \<Longrightarrow> snd (random_key E st) = None \<Longrightarrow> live E st = Map.empty"
    using random_key_Some [OF assms(1), of E] store_wf_indexes [OF assms(1)] by fastforce
  moreover have "snd (random_key E st) = Some k \<Longrightarrow> live E st k \<noteq> None" for k
    using random_draws_live unfolding random_key_def by blast
  ultimately show ?thesis
    using assms by (simp add: size_of_live scan_all_from distinct_live_keys set_live_keys
        split: option.split del: scan_all.simps)
qed

lemma key_enumeration_complete_witness:
  "scan_all (Suc (length (live_keys sample_env sample_store))) sample_env 0 1 sample_store =
     Some (sort (live_keys sample_env sample_store))"
proof -
  have "length (live_keys sample_env sample_store) + max 1 1 < 2 ^ 64" by (simp add: sample_store_keys)
  from key_enumeration_complete [OF sample_store_wf this] show ?thesis by blast
qed

text \<open>
  The one SCAN that does not answer: the sum of cursor and count is not checked, so with
  the default count at the top of its range a cursor of 1 slices out of order and panics.
\<close>
theorem scan_count_overflow_panics:
  assumes "1 < length (live_keys E st)"
  shows "scan E 1 (2 ^ 64 - 1) st = Panicked"
  using assms by (simp add: scan_def Let_def)

lemma scan_count_overflow_panics_witness:
  "scan sample_env 1 (2 ^ 64 - 1) sample_store = Panicked"
proof -
  have "1 < length (live_keys sample_env sample_store)" by (simp add: sample_store_keys)
  then show ?thesis by (rule scan_count_overflow_panics)
qed

end
