(* ===== verification/Memory.thy ===== *)
theory Memory
  imports MemIndex
begin

text \<open>
  The record operations of a memory index (\<^verbatim>\<open>src/types/memory/mod.rs\<close>): adding, deleting, changing
  metadata and deadlines, and the sweep of expired records. Ranked search is not here. The
  lemmas hold the vector array against the records: each slot belongs to one record.
\<close>

datatype vector_error = NotFloats | WrongDimension nat nat | NotFinite | ZeroVector

datatype memory_error =
    VectorsNotSupported
  | TextNotSupported
  | VectorRequired
  | VectorErr vector_error
  | NoSuchRecord
  | TooLargeToScan nat nat
  | ExistenceUnmet
  | FullErr nat

record add_request =
  ar_id :: "bytes option"
  ar_text :: bytes
  ar_vector :: "f32 list option"
  ar_meta :: "(bytes \<times> bytes) list"
  ar_importance :: "f32 option"
  ar_ttl :: "time option"
  ar_new :: bool
  ar_existing :: bool

definition vector_validate :: "f32 list \<Rightarrow> vector_index \<Rightarrow> vector_error option" where
  "vector_validate vs ix =
     (if length vs \<noteq> vi_dim ix then Some (WrongDimension (vi_dim ix) (length vs))
      else if normalizes (vi_metric ix) \<and> feq (vnorm vs) (Fin 0) then Some ZeroVector
      else None)"

definition memory_get :: "env \<Rightarrow> memory \<Rightarrow> bytes \<Rightarrow> memory_record option" where
  "memory_get E m i =
     (case hm_get (mem_records m) i of
        None \<Rightarrow> None | Some r \<Rightarrow> if rec_is_live (now E) r then Some r else None)"

definition memory_len :: "memory \<Rightarrow> nat" where
  "memory_len m = length (mem_records m)"

definition set_weights :: "weights \<Rightarrow> memory \<Rightarrow> memory" where
  "set_weights w m = m\<lparr>mem_config := (mem_config m)\<lparr>mc_weights := w\<rparr>\<rparr>"

definition set_half_life :: "time \<Rightarrow> memory \<Rightarrow> memory" where
  "set_half_life t m = m\<lparr>mem_config := (mem_config m)\<lparr>mc_half_life := t\<rparr>\<rparr>"

definition clamp_unit :: "f32 \<Rightarrow> f32" where
  "clamp_unit v = (if fless v (Fin 0) then Fin 0 else if fless (Fin 1) v then Fin 1 else v)"

text \<open>\<open>add\<close>: first everything that can refuse the request, then the changes. The identifier a refused
  request was given stays used.\<close>

definition add_refusal ::
    "env \<Rightarrow> add_request \<Rightarrow> bytes \<Rightarrow> nat \<Rightarrow> memory \<Rightarrow> memory_error option" where
  "add_refusal E q i max_records m =
     (let existing = (memory_get E m i \<noteq> None)
      in if ar_new q \<and> existing \<or> ar_existing q \<and> \<not> existing then Some ExistenceUnmet
         else if \<not> existing \<and> max_records > 0 \<and> memory_len m \<ge> max_records
         then Some (FullErr max_records)
         else (case ar_vector q of
                 Some vs \<Rightarrow>
                   if stores_vectors (mc_mode (mem_config m))
                   then map_option VectorErr (vector_validate vs (mem_vectors m))
                   else Some VectorsNotSupported
               | None \<Rightarrow>
                   if mc_mode (mem_config m) = Vector \<and> \<not> existing then Some VectorRequired else None))"

definition updated_record :: "env \<Rightarrow> add_request \<Rightarrow> bytes \<Rightarrow> memory \<Rightarrow> memory_record" where
  "updated_record E q i m =
     (let r = (case hm_get (mem_records m) i of
                 Some r \<Rightarrow> r\<lparr>rec_text := ar_text q, rec_updated_at := now E\<rparr>
               | None \<Rightarrow> record_new i (ar_text q) (now E));
          r = fold (\<lambda>(f, v) r. fst (set_meta f v r)) (ar_meta q) r;
          r = (case ar_importance q of None \<Rightarrow> r | Some x \<Rightarrow> r\<lparr>rec_importance := clamp_unit x\<rparr>)
      in case ar_ttl q of None \<Rightarrow> r | Some t \<Rightarrow> r\<lparr>rec_expire_at := Some (now E + t)\<rparr>)"

definition memory_add ::
    "env \<Rightarrow> add_request \<Rightarrow> nat option \<Rightarrow> nat \<Rightarrow> memory \<Rightarrow> memory \<times> (memory_error + bytes)" where
  "memory_add E q max_terms max_records m =
     (let (m, i) = (case ar_id q of
                      Some i \<Rightarrow> (m, i)
                    | None \<Rightarrow> (m\<lparr>mem_next_id := mem_next_id m + 1\<rparr>, CHR ''m'' # nat_str (mem_next_id m)))
      in case add_refusal E q i max_records m of
           Some e \<Rightarrow> (m, Inl e)
         | None \<Rightarrow>
             (let previous = map_option rec_text (hm_get (mem_records m) i);
                  r = updated_record E q i m;
                  m = m\<lparr>mem_records := hm_remove i (mem_records m)\<rparr>;
                  (m, r) = (case ar_vector q of
                              None \<Rightarrow> (m, r)
                            | Some vs \<Rightarrow>
                                (case rec_slot r of
                                   Some s \<Rightarrow> (m\<lparr>mem_vectors := vector_write s vs (mem_vectors m)\<rparr>, r)
                                 | None \<Rightarrow>
                                     (let (ix, s) = vector_insert vs (mem_vectors m)
                                      in (m\<lparr>mem_vectors := ix\<rparr>, r\<lparr>rec_slot := Some s\<rparr>))));
                  m = (if indexes_text (mc_mode (mem_config m))
                       then m\<lparr>mem_text := text_index i previous (rec_text r) max_terms (mem_text m)\<rparr>
                       else m)
              in (m\<lparr>mem_records := hm_insert i r (mem_records m)\<rparr>, Inr i)))"

definition memory_del :: "bytes \<Rightarrow> nat option \<Rightarrow> memory \<Rightarrow> memory \<times> bool" where
  "memory_del i max_terms m =
     (case hm_get (mem_records m) i of
        None \<Rightarrow> (m, False)
      | Some r \<Rightarrow>
          (let m = m\<lparr>mem_records := hm_remove i (mem_records m)\<rparr>;
               m = (if indexes_text (mc_mode (mem_config m))
                    then m\<lparr>mem_text := text_remove i (rec_text r) max_terms (mem_text m)\<rparr> else m);
               m = (case rec_slot r of
                      None \<Rightarrow> m | Some s \<Rightarrow> m\<lparr>mem_vectors := vector_remove s (mem_vectors m)\<rparr>)
           in (m, True)))"

text \<open>The counting loops over a record's metadata.\<close>

fun set_meta_all :: "(bytes \<times> bytes) list \<Rightarrow> memory_record \<Rightarrow> memory_record \<times> nat" where
  "set_meta_all [] r = (r, 0)"
| "set_meta_all ((f, v) # ps) r =
     (let (r, new) = set_meta f v r; (r, n) = set_meta_all ps r in (r, if new then n + 1 else n))"

fun remove_meta_all :: "bytes list \<Rightarrow> memory_record \<Rightarrow> memory_record \<times> nat" where
  "remove_meta_all [] r = (r, 0)"
| "remove_meta_all (f # fs) r =
     (let (r, was) = remove_meta f r; (r, n) = remove_meta_all fs r in (r, if was then n + 1 else n))"

definition memory_set_meta ::
    "env \<Rightarrow> bytes \<Rightarrow> (bytes \<times> bytes) list \<Rightarrow> memory \<Rightarrow> memory \<times> (memory_error + nat)" where
  "memory_set_meta E i pairs m =
     (case memory_get E m i of
        None \<Rightarrow> (m, Inl NoSuchRecord)
      | Some r \<Rightarrow>
          (let (r, added) = set_meta_all pairs r; r = r\<lparr>rec_updated_at := now E\<rparr>
           in (m\<lparr>mem_records := hm_insert i r (mem_records m)\<rparr>, Inr added)))"

definition memory_remove_meta ::
    "env \<Rightarrow> bytes \<Rightarrow> bytes list \<Rightarrow> memory \<Rightarrow> memory \<times> (memory_error + nat)" where
  "memory_remove_meta E i fs m =
     (case memory_get E m i of
        None \<Rightarrow> (m, Inl NoSuchRecord)
      | Some r \<Rightarrow>
          (let (r, removed) = remove_meta_all fs r; r = r\<lparr>rec_updated_at := now E\<rparr>
           in (m\<lparr>mem_records := hm_insert i r (mem_records m)\<rparr>, Inr removed)))"

definition set_record_ttl ::
    "env \<Rightarrow> bytes \<Rightarrow> time option \<Rightarrow> memory \<Rightarrow> memory \<times> (memory_error + unit)" where
  "set_record_ttl E i ttl m =
     (case memory_get E m i of
        None \<Rightarrow> (m, Inl NoSuchRecord)
      | Some r \<Rightarrow>
          (m\<lparr>mem_records := hm_insert i (r\<lparr>rec_expire_at := map_option (\<lambda>d. now E + d) ttl\<rparr>) (mem_records m)\<rparr>,
           Inr ()))"

definition record_pttl :: "env \<Rightarrow> bytes \<Rightarrow> memory \<Rightarrow> int" where
  "record_pttl E i m =
     (case memory_get E m i of
        None \<Rightarrow> - 2
      | Some r \<Rightarrow>
          (case rec_expire_at r of
             None \<Rightarrow> - 1
           | Some t \<Rightarrow> if now E \<le> t then as_i64 ((t - now E) div 1000000) else 0))"

definition memory_sweep :: "env \<Rightarrow> nat option \<Rightarrow> memory \<Rightarrow> memory \<times> nat" where
  "memory_sweep E max_terms m =
     (let dead = map (\<lambda>(_, r). rec_id r) (filter (\<lambda>(_, r). \<not> rec_is_live (now E) r) (mem_records m))
      in (fold (\<lambda>i m. fst (memory_del i max_terms m)) dead m, length dead))"

subsection \<open>Slots and records\<close>

text \<open>\<open>\<sigma>\<close> is the record-to-slot map. Each slot of the array is held by exactly one record or free.\<close>

definition vec_ok :: "vector_index \<Rightarrow> (bytes \<Rightarrow> nat option) \<Rightarrow> bool" where
  "vec_ok ix \<sigma> \<longleftrightarrow> finite (dom \<sigma>) \<and> inj_on \<sigma> (dom \<sigma>) \<and> distinct (vi_free ix) \<and> ran \<sigma> \<inter> set (vi_free ix) = {} \<and>
     vi_live ix = card (dom \<sigma>) \<and>
     (\<exists>cap. length (vi_data ix) = cap * vi_dim ix \<and> ran \<sigma> \<union> set (vi_free ix) = {..<cap})"

lemma length_splice: "i + length ys \<le> length xs \<Longrightarrow> length (splice xs i ys) = length xs"
  by (simp add: splice_def)

definition block :: "nat \<Rightarrow> nat \<Rightarrow> 'a list \<Rightarrow> 'a list" where
  "block d s xs = take d (drop (s * d) xs)"

lemma nth_splice:
  "i + length ys \<le> length xs \<Longrightarrow> j < length xs \<Longrightarrow>
   splice xs i ys ! j = (if j < i then xs ! j else if j < i + length ys then ys ! (j - i) else xs ! j)"
  by (auto simp: splice_def nth_append min_def)

lemma block_inside: "s < cap \<Longrightarrow> s * d + d \<le> cap * (d :: nat)"
  by (metis Suc_leI add.commute mult_Suc mult_le_mono1)

lemma block_splice:
  assumes "s < cap" and "t < cap" and "length xs = cap * d" and "length ys = d"
  shows "block d t (splice xs (s * d) ys) = (if t = s then ys else block d t xs)"
proof -
  have s: "s * d + d \<le> cap * d" and t: "t * d + d \<le> cap * d"
    using block_inside assms(1,2) by blast+
  have l: "length (splice xs (s * d) ys) = cap * d" using length_splice [of "s * d" ys xs] s assms(3,4) by simp
  show ?thesis
  proof (rule nth_equalityI)
    show "length (block d t (splice xs (s * d) ys)) = length (if t = s then ys else block d t xs)"
      using l t assms(3,4) by (simp add: block_def)
    fix j assume "j < length (block d t (splice xs (s * d) ys))"
    then have j: "j < d" using l t by (simp add: block_def)
    have "t * d + j < s * d" if "t < s"
    proof -
      have "t * d + d \<le> s * d" using that block_inside by blast
      with j show ?thesis by simp
    qed
    moreover have "s * d + d \<le> t * d" if "s < t" using that block_inside by blast
    moreover have "block d t zs ! j = zs ! (t * d + j)" if "length zs = cap * d" for zs :: "'a list"
    proof -
      have "t * d \<le> length zs" using that t by linarith
      from nth_drop [OF this, of j] j show ?thesis by (simp add: block_def)
    qed
    ultimately show "block d t (splice xs (s * d) ys) ! j = (if t = s then ys else block d t xs) ! j"
      using nth_splice [of "s * d" ys xs "t * d + j"] s t j l assms(3,4)
      by (cases t s rule: linorder_cases) auto
  qed
qed

lemma vector_get_block:
  "vector_get s ix = (if s * vi_dim ix + vi_dim ix \<le> length (vi_data ix) then Some (block (vi_dim ix) s (vi_data ix)) else None)"
  by (simp add: vector_get_def block_def Let_def)

lemma length_prepared [simp]: "length (prepared m vs) = length vs"
  by (simp add: prepared_def Let_def)

lemma vec_ok_cap:
  assumes "vec_ok ix \<sigma>"
  obtains cap where "length (vi_data ix) = cap * vi_dim ix" "ran \<sigma> \<union> set (vi_free ix) = {..<cap}"
    "\<And>s. \<sigma> i = Some s \<Longrightarrow> s < cap"
  using assms by (auto simp: vec_ok_def ran_def)

lemma vector_write_ok:
  assumes ok: "vec_ok ix \<sigma>" and s: "\<sigma> i = Some s" and l: "length vs = vi_dim ix"
  shows "vec_ok (vector_write s vs ix) \<sigma>"
    and "vector_get s (vector_write s vs ix) = Some (prepared (vi_metric ix) vs)"
    and "\<sigma> j = Some t \<Longrightarrow> j \<noteq> i \<Longrightarrow> vector_get t (vector_write s vs ix) = vector_get t ix"
proof -
  obtain cap where cap: "length (vi_data ix) = cap * vi_dim ix" "ran \<sigma> \<union> set (vi_free ix) = {..<cap}"
    using ok by (rule vec_ok_cap)
  have sc: "s < cap" using cap(2) s by (auto simp: ran_def)
  note in_s = block_inside [OF sc, of "vi_dim ix"]
  have len: "length (splice (vi_data ix) (s * vi_dim ix) (prepared (vi_metric ix) vs)) = cap * vi_dim ix"
    using length_splice [of "s * vi_dim ix" "prepared (vi_metric ix) vs" "vi_data ix"] in_s cap(1) l by simp
  show "vec_ok (vector_write s vs ix) \<sigma>"
    using ok len cap by (auto simp: vec_ok_def vector_write_def)
  show "vector_get s (vector_write s vs ix) = Some (prepared (vi_metric ix) vs)"
    using block_splice [OF sc sc cap(1), of "prepared (vi_metric ix) vs"] len in_s l
    by (simp add: vector_get_block vector_write_def)
  show "vector_get t (vector_write s vs ix) = vector_get t ix" if "\<sigma> j = Some t" "j \<noteq> i"
  proof -
    have tc: "t < cap" using cap(2) that(1) by (auto simp: ran_def)
    have "t \<noteq> s" using that s ok by (auto simp: vec_ok_def inj_on_def domIff)
    then show ?thesis
      using block_splice [OF sc tc cap(1), of "prepared (vi_metric ix) vs"] len cap(1) l
      by (simp add: vector_get_block vector_write_def)
  qed
qed

lemma vec_ok_insert_at:
  assumes ok: "vec_ok ix \<sigma>" and i: "\<sigma> i = None"
    and f: "distinct free'" "ran \<sigma> \<inter> set free' = {}" "s \<notin> set free'" "s \<notin> ran \<sigma>"
    and c: "length d' = cap * vi_dim ix" "ran \<sigma> \<union> set free' \<union> {s} = {..<cap}"
  shows "vec_ok (ix\<lparr>vi_data := d', vi_free := free', vi_live := vi_live ix + 1\<rparr>) (\<sigma>(i \<mapsto> s))"
proof -
  have r: "ran (\<sigma>(i \<mapsto> s)) = insert s (ran \<sigma>)" using i by simp
  have "inj_on (\<sigma>(i \<mapsto> s)) (dom (\<sigma>(i \<mapsto> s)))"
    using ok i f(4) by (auto simp: vec_ok_def inj_on_def ran_def domIff)
  moreover have "card (dom (\<sigma>(i \<mapsto> s))) = Suc (card (dom \<sigma>))"
    using ok i by (simp add: vec_ok_def domIff)
  ultimately show ?thesis
    using ok f c unfolding vec_ok_def r by (auto simp: insert_commute)
qed

text \<open>A vector goes to a new slot at the end of the array or to the one freed last.\<close>

lemma vector_insert_fresh:
  assumes ok: "vec_ok ix \<sigma>" and i: "\<sigma> i = None" and d: "0 < vi_dim ix" and True: "vi_free ix = []"
    and cap: "length (vi_data ix) = cap * vi_dim ix" "ran \<sigma> \<union> set (vi_free ix) = {..<cap}"
    and x: "vector_insert vs ix = (ix', s)"
  obtains mid where "vec_ok mid (\<sigma>(i \<mapsto> s))" "ix' = vector_write s vs mid" "vi_dim mid = vi_dim ix"
    "vi_metric mid = vi_metric ix" "\<And>t. t < cap \<Longrightarrow> vector_get t mid = vector_get t ix"
proof -
  let ?mid = "ix\<lparr>vi_data := vi_data ix @ replicate (vi_dim ix) (Fin 0), vi_free := [], vi_live := vi_live ix + 1\<rparr>"
  have n: "length (vi_data ix @ replicate (vi_dim ix) (Fin 0)) = Suc cap * vi_dim ix" using cap(1) by simp
  have s: "s = cap" using x True cap(1) d by (auto simp: vector_insert_def Let_def)
  have rs: "ran \<sigma> = {..<cap}" using cap(2) True by simp
  show ?thesis
  proof (rule that)
    show "vec_ok ?mid (\<sigma>(i \<mapsto> s))"
      by (rule vec_ok_insert_at [OF ok i _ _ _ _ n]) (simp_all add: rs s lessThan_Suc)
    show "ix' = vector_write s vs ?mid"
      using x True by (cases ix) (auto simp: vector_insert_def Let_def)
    fix t assume "t < cap"
    from block_inside [OF this, of "vi_dim ix"] cap(1)
    have "t * vi_dim ix + vi_dim ix \<le> length (vi_data ix)" by simp
    then show "vector_get t ?mid = vector_get t ix"
      unfolding vector_get_block block_def by (simp add: trans_le_add1)
  qed simp_all
qed

lemma vector_insert_reuse:
  assumes ok: "vec_ok ix \<sigma>" and i: "\<sigma> i = None" and False: "vi_free ix \<noteq> []"
    and cap: "length (vi_data ix) = cap * vi_dim ix" "ran \<sigma> \<union> set (vi_free ix) = {..<cap}"
    and x: "vector_insert vs ix = (ix', s)"
  obtains mid where "vec_ok mid (\<sigma>(i \<mapsto> s))" "ix' = vector_write s vs mid" "vi_dim mid = vi_dim ix"
    "vi_metric mid = vi_metric ix" "\<And>t. t < cap \<Longrightarrow> vector_get t mid = vector_get t ix"
proof -
  let ?mid = "ix\<lparr>vi_data := vi_data ix, vi_free := butlast (vi_free ix), vi_live := vi_live ix + 1\<rparr>"
  have s: "s = last (vi_free ix)" using x False by (simp add: vector_insert_def Let_def)
  have fs: "vi_free ix = butlast (vi_free ix) @ [s]" using False s by simp
  have df: "distinct (vi_free ix)" and rf: "ran \<sigma> \<inter> set (vi_free ix) = {}"
    using ok by (simp_all add: vec_ok_def)
  have h: "set (vi_free ix) = insert s (set (butlast (vi_free ix)))"
    using arg_cong [OF fs, of set] by simp
  have h': "distinct (butlast (vi_free ix) @ [s])" using df fs by metis
  show ?thesis
  proof (rule that)
    show "vec_ok ?mid (\<sigma>(i \<mapsto> s))"
    proof (rule vec_ok_insert_at [OF ok i])
      show "distinct (butlast (vi_free ix))" "s \<notin> set (butlast (vi_free ix))" using h' by simp_all
      show "ran \<sigma> \<inter> set (butlast (vi_free ix)) = {}" "s \<notin> ran \<sigma>" using rf unfolding h by blast+
      show "length (vi_data ix) = cap * vi_dim ix" by (rule cap(1))
      show "ran \<sigma> \<union> set (butlast (vi_free ix)) \<union> {s} = {..<cap}" using cap(2) unfolding h by blast
    qed
    show "ix' = vector_write s vs ?mid" using x False by (auto simp: vector_insert_def Let_def)
  qed (simp_all add: vector_get_block)
qed

lemma vector_insert_ok:
  assumes ok: "vec_ok ix \<sigma>" and i: "\<sigma> i = None" and l: "length vs = vi_dim ix" and d: "0 < vi_dim ix"
    and x: "vector_insert vs ix = (ix', s)"
  shows "vec_ok ix' (\<sigma>(i \<mapsto> s))" and "vector_get s ix' = Some (prepared (vi_metric ix) vs)"
    and "\<And>j t. \<sigma> j = Some t \<Longrightarrow> vector_get t ix' = vector_get t ix"
    and "vi_dim ix' = vi_dim ix \<and> vi_metric ix' = vi_metric ix"
proof -
  obtain cap where cap: "length (vi_data ix) = cap * vi_dim ix" "ran \<sigma> \<union> set (vi_free ix) = {..<cap}"
    using ok by (rule vec_ok_cap)
  obtain mid where mid: "vec_ok mid (\<sigma>(i \<mapsto> s))" "ix' = vector_write s vs mid" "vi_dim mid = vi_dim ix"
    "vi_metric mid = vi_metric ix" "\<And>t. t < cap \<Longrightarrow> vector_get t mid = vector_get t ix"
    using vector_insert_fresh [OF ok i d _ cap x] vector_insert_reuse [OF ok i _ cap x] by blast
  have l': "length vs = vi_dim mid" using l mid(3) by simp
  have si: "(\<sigma>(i \<mapsto> s)) i = Some s" by simp
  note w = vector_write_ok [OF mid(1) si l']
  show "vec_ok ix' (\<sigma>(i \<mapsto> s))" unfolding mid(2) by (rule w(1))
  show "vector_get s ix' = Some (prepared (vi_metric ix) vs)" using w(2) mid(2,4) by simp
  show "vi_dim ix' = vi_dim ix \<and> vi_metric ix' = vi_metric ix" using mid by (simp add: vector_write_def)
  fix j t assume t: "\<sigma> j = Some t"
  then have "j \<noteq> i" "t < cap" using i cap(2) by (auto simp: ran_def)
  with t w(3) [of j t] mid(2,5) show "vector_get t ix' = vector_get t ix" by simp
qed

lemma vector_remove_ok:
  assumes ok: "vec_ok ix \<sigma>" and s: "\<sigma> i = Some s"
  shows "vec_ok (vector_remove s ix) (\<sigma>(i := None))"
    and "\<And>j t. \<sigma> j = Some t \<Longrightarrow> j \<noteq> i \<Longrightarrow> vector_get t (vector_remove s ix) = vector_get t ix"
    and "vi_dim (vector_remove s ix) = vi_dim ix \<and> vi_metric (vector_remove s ix) = vi_metric ix"
proof -
  obtain cap where cap: "length (vi_data ix) = cap * vi_dim ix" "ran \<sigma> \<union> set (vi_free ix) = {..<cap}"
    using ok by (rule vec_ok_cap)
  have sc: "s < cap" using cap(2) s by (auto simp: ran_def)
  note in_s = block_inside [OF sc, of "vi_dim ix"]
  have nf: "s \<notin> set (vi_free ix)" using ok s by (auto simp: vec_ok_def ran_def)
  let ?d = "splice (vi_data ix) (s * vi_dim ix) (replicate (vi_dim ix) (Fin 0))"
  have x: "vector_remove s ix = ix\<lparr>vi_data := ?d, vi_free := vi_free ix @ [s], vi_live := vi_live ix - 1\<rparr>"
    using nf in_s cap(1) by (simp add: vector_remove_def Let_def)
  have len: "length ?d = cap * vi_dim ix"
    using length_splice [of "s * vi_dim ix" "replicate (vi_dim ix) (Fin 0)" "vi_data ix"] in_s cap(1) by simp
  have r: "ran (\<sigma>(i := None)) = ran \<sigma> - {s}"
    using ok s by (auto simp: ran_def vec_ok_def inj_on_def domIff split: if_splits) (metis option.sel option.distinct(1))+
  have "card (dom (\<sigma>(i := None))) = card (dom \<sigma>) - 1"
    using ok s by (simp add: vec_ok_def domIff)
  moreover have "inj_on (\<sigma>(i := None)) (dom (\<sigma>(i := None)))"
    using ok by (auto simp: vec_ok_def inj_on_def domIff)
  ultimately show "vec_ok (vector_remove s ix) (\<sigma>(i := None))"
    using ok nf len cap sc unfolding x vec_ok_def r by (auto simp: ran_def s)
  show "vi_dim (vector_remove s ix) = vi_dim ix \<and> vi_metric (vector_remove s ix) = vi_metric ix"
    by (simp add: x)
  fix j t assume t: "\<sigma> j = Some t" "j \<noteq> i"
  then have tc: "t < cap" "t \<noteq> s"
    using cap(2) s ok by (auto simp: ran_def vec_ok_def inj_on_def domIff)
  then show "vector_get t (vector_remove s ix) = vector_get t ix"
    using block_splice [OF sc tc(1) cap(1), of "replicate (vi_dim ix) (Fin 0)"] len cap(1)
    by (simp add: vector_get_block x)
qed

subsection \<open>The invariant of an index\<close>

definition slot_of :: "memory \<Rightarrow> bytes \<Rightarrow> nat option" where
  "slot_of m i = Option.bind (hm_get (mem_records m) i) rec_slot"

definition memory_wf :: "memory \<Rightarrow> bool" where
  "memory_wf m \<longleftrightarrow> hm_wf (mem_records m) \<and> (\<forall>i r. hm_get (mem_records m) i = Some r \<longrightarrow> rec_id r = i) \<and>
     vec_ok (mem_vectors m) (slot_of m) \<and>
     (if stores_vectors (mc_mode (mem_config m)) then 0 < vi_dim (mem_vectors m) else slot_of m = Map.empty) \<and>
     vi_dim (mem_vectors m) = mc_dim (mem_config m) \<and> vi_metric (mem_vectors m) = mc_metric (mem_config m)"

text \<open>What a client sees of a record's vector.\<close>

definition vector_at :: "memory \<Rightarrow> bytes \<Rightarrow> f32 list option" where
  "vector_at m i = Option.bind (slot_of m i) (\<lambda>s. vector_get s (mem_vectors m))"

lemma memory_new_wf:
  "(stores_vectors (mc_mode c) \<Longrightarrow> 0 < mc_dim c) \<Longrightarrow> memory_wf (memory_new c)"
  by (auto simp: memory_wf_def memory_new_def vector_new_def vec_ok_def slot_of_def dom_def ran_def
      intro: exI [of _ 0])

lemma set_meta_frame [simp]:
  "rec_id (fst (set_meta f v r)) = rec_id r" "rec_slot (fst (set_meta f v r)) = rec_slot r"
  "rec_text (fst (set_meta f v r)) = rec_text r" "rec_expire_at (fst (set_meta f v r)) = rec_expire_at r"
  by (simp_all add: set_meta_def split: sum.split)

lemma fold_set_meta_frame:
  "rec_id (fold (\<lambda>(f, v) r. fst (set_meta f v r)) ps r) = rec_id r \<and>
   rec_slot (fold (\<lambda>(f, v) r. fst (set_meta f v r)) ps r) = rec_slot r \<and>
   rec_text (fold (\<lambda>(f, v) r. fst (set_meta f v r)) ps r) = rec_text r \<and>
   rec_expire_at (fold (\<lambda>(f, v) r. fst (set_meta f v r)) ps r) = rec_expire_at r"
  by (induction ps arbitrary: r) (auto simp: case_prod_beta)

lemma updated_record_frame:
  "rec_id (updated_record E q i m) = (case hm_get (mem_records m) i of Some r \<Rightarrow> rec_id r | None \<Rightarrow> i)"
  "rec_slot (updated_record E q i m) = slot_of m i"
  "rec_text (updated_record E q i m) = ar_text q"
  "rec_expire_at (updated_record E q i m) = (case ar_ttl q of Some t \<Rightarrow> Some (now E + t)
     | None \<Rightarrow> Option.bind (hm_get (mem_records m) i) rec_expire_at)"
  by (simp_all add: updated_record_def Let_def fold_set_meta_frame slot_of_def record_new_def
      split: option.split)

lemma slot_of_remove: "slot_of (m\<lparr>mem_records := hm_remove i (mem_records m)\<rparr>) = (slot_of m)(i := None)"
  by (rule ext) (simp add: slot_of_def hm_get_remove)

lemma slot_of_insert:
  "slot_of (m\<lparr>mem_records := hm_insert i r (mem_records m)\<rparr>) = (slot_of m)(i := rec_slot r)"
  by (rule ext) (simp add: slot_of_def hm_get_insert)

lemma slot_of_cong: "mem_records m = mem_records m' \<Longrightarrow> slot_of m = slot_of m'"
  by (rule ext) (simp add: slot_of_def)

text \<open>Deleting a record frees its slot and leaves every other record and its vector alone.\<close>

lemma memory_del_spec:
  assumes wf: "memory_wf m"
  shows "memory_wf (fst (memory_del i n m))"
    and "hm_get (mem_records (fst (memory_del i n m))) j = (if j = i then None else hm_get (mem_records m) j)"
    and "j \<noteq> i \<Longrightarrow> vector_at (fst (memory_del i n m)) j = vector_at m j"
    and "snd (memory_del i n m) \<longleftrightarrow> hm_get (mem_records m) i \<noteq> None"
    and "mem_config (fst (memory_del i n m)) = mem_config m"
proof -
  have h: "hm_wf (mem_records m)" "\<And>i r. hm_get (mem_records m) i = Some r \<Longrightarrow> rec_id r = i"
    "vec_ok (mem_vectors m) (slot_of m)"
    "if stores_vectors (mc_mode (mem_config m)) then 0 < vi_dim (mem_vectors m) else slot_of m = Map.empty"
    "vi_dim (mem_vectors m) = mc_dim (mem_config m)" "vi_metric (mem_vectors m) = mc_metric (mem_config m)"
    using wf by (auto simp: memory_wf_def)
  consider "hm_get (mem_records m) i = None" | r where "hm_get (mem_records m) i = Some r" "rec_slot r = None"
    | r s where "hm_get (mem_records m) i = Some r" "rec_slot r = Some s"
    by (cases "hm_get (mem_records m) i") auto
  then have "memory_wf (fst (memory_del i n m)) \<and>
    (\<forall>j. hm_get (mem_records (fst (memory_del i n m))) j = (if j = i then None else hm_get (mem_records m) j)) \<and>
    (\<forall>j. j \<noteq> i \<longrightarrow> vector_at (fst (memory_del i n m)) j = vector_at m j) \<and>
    (snd (memory_del i n m) \<longleftrightarrow> hm_get (mem_records m) i \<noteq> None) \<and>
    mem_config (fst (memory_del i n m)) = mem_config m"
  proof cases
    case 1
    then show ?thesis using wf by (simp add: memory_del_def)
  next
    case (2 r)
    let ?m = "fst (memory_del i n m)"
    have x: "mem_records ?m = hm_remove i (mem_records m)" "mem_vectors ?m = mem_vectors m"
      "mem_config ?m = mem_config m" "snd (memory_del i n m)"
      using 2 by (simp_all add: memory_del_def Let_def)
    have "slot_of m i = None" using 2 by (simp add: slot_of_def)
    then have "(slot_of m)(i := None) = slot_of m" by (simp add: fun_upd_idem)
    then have s: "slot_of ?m = slot_of m"
      using slot_of_cong [of ?m "m\<lparr>mem_records := hm_remove i (mem_records m)\<rparr>"] x(1) slot_of_remove by simp
    then show ?thesis using h x 2 by (auto simp: memory_wf_def hm_get_remove vector_at_def)
  next
    case (3 r s)
    let ?m = "fst (memory_del i n m)"
    have x: "mem_records ?m = hm_remove i (mem_records m)" "mem_vectors ?m = vector_remove s (mem_vectors m)"
      "mem_config ?m = mem_config m" "snd (memory_del i n m)"
      using 3 by (simp_all add: memory_del_def Let_def)
    have si: "slot_of m i = Some s" using 3 by (simp add: slot_of_def)
    note rm = vector_remove_ok [OF h(3) si]
    have s: "slot_of ?m = (slot_of m)(i := None)"
      using slot_of_cong [of ?m "m\<lparr>mem_records := hm_remove i (mem_records m)\<rparr>"] x(1) slot_of_remove by simp
    have "vector_at ?m j = vector_at m j" if "j \<noteq> i" for j
      using rm(2) [of j] that by (cases "slot_of m j") (simp_all add: vector_at_def s x)
    then show ?thesis using h x 3 rm(1,3) s by (auto simp: memory_wf_def hm_get_remove)
  qed
  then show "memory_wf (fst (memory_del i n m))"
    "hm_get (mem_records (fst (memory_del i n m))) j = (if j = i then None else hm_get (mem_records m) j)"
    "j \<noteq> i \<Longrightarrow> vector_at (fst (memory_del i n m)) j = vector_at m j"
    "snd (memory_del i n m) \<longleftrightarrow> hm_get (mem_records m) i \<noteq> None"
    "mem_config (fst (memory_del i n m)) = mem_config m"
    by blast+
qed

text \<open>The sweep deletes exactly the expired records.\<close>

lemma fold_del_spec:
  "memory_wf m \<Longrightarrow> memory_wf (fold (\<lambda>(i :: bytes) m. fst (memory_del i n m)) ds m) \<and>
     (\<forall>j. hm_get (mem_records (fold (\<lambda>i m. fst (memory_del i n m)) ds m)) j =
        (if j \<in> set ds then None else hm_get (mem_records m) j)) \<and>
     (\<forall>j. j \<notin> set ds \<longrightarrow> vector_at (fold (\<lambda>i m. fst (memory_del i n m)) ds m) j = vector_at m j)"
proof (induction ds arbitrary: m)
  case (Cons d ds)
  let ?m = "fst (memory_del d n m)"
  note s = memory_del_spec [OF Cons.prems, where i = d and n = n]
  note IH = Cons.IH [OF s(1)]
  show ?case
  proof (intro conjI allI impI)
    show "memory_wf (fold (\<lambda>i m. fst (memory_del i n m)) (d # ds) m)" using IH by simp
    fix j
    show "hm_get (mem_records (fold (\<lambda>i m. fst (memory_del i n m)) (d # ds) m)) j =
        (if j \<in> set (d # ds) then None else hm_get (mem_records m) j)"
      using IH s(2) by simp
    assume "j \<notin> set (d # ds)"
    then show "vector_at (fold (\<lambda>i m. fst (memory_del i n m)) (d # ds) m) j = vector_at m j"
      using IH s(3) by simp
  qed
qed simp

lemma memory_sweep_spec:
  assumes wf: "memory_wf m" and x: "memory_sweep E n m = (m', c)"
  shows "memory_wf m'"
    and "hm_get (mem_records m') i = memory_get E m i"
    and "memory_get E m i \<noteq> None \<Longrightarrow> vector_at m' i = vector_at m i"
    and "c = length (mem_records m) - length (mem_records m')"
proof -
  let ?ds = "map (\<lambda>(_, r). rec_id r) (filter (\<lambda>(_, r). \<not> rec_is_live (now E) r) (mem_records m))"
  have h: "hm_wf (mem_records m)" "\<And>i r. hm_get (mem_records m) i = Some r \<Longrightarrow> rec_id r = i"
    using wf by (auto simp: memory_wf_def)
  have m': "m' = fold (\<lambda>i m. fst (memory_del i n m)) ?ds m" "c = length ?ds"
    using x by (simp_all add: memory_sweep_def Let_def)
  have ds: "j \<in> set ?ds \<longleftrightarrow> (\<exists>r. hm_get (mem_records m) j = Some r \<and> \<not> rec_is_live (now E) r)" for j
    using h by (force simp: hm_get_mem [OF h(1), symmetric] case_prod_beta)
  note s = fold_del_spec [OF wf, of n "?ds", folded m'(1)]
  show wf': "memory_wf m'" using s by blast
  have g: "hm_get (mem_records m') j = memory_get E m j" for j
    using s ds [of j] by (cases "hm_get (mem_records m) j") (auto simp: memory_get_def)
  then show "hm_get (mem_records m') i = memory_get E m i" .
  show "memory_get E m i \<noteq> None \<Longrightarrow> vector_at m' i = vector_at m i"
    using s ds [of i] by (auto simp: memory_get_def split: option.splits if_splits)
  have w': "hm_wf (mem_records m')" using wf' by (simp add: memory_wf_def)
  have "distinct ?ds"
  proof -
    have "?ds = map fst (filter (\<lambda>(_, r). \<not> rec_is_live (now E) r) (mem_records m))"
    proof (rule map_cong [OF refl])
      fix p assume "p \<in> set (filter (\<lambda>(_, r). \<not> rec_is_live (now E) r) (mem_records m))"
      then have "hm_get (mem_records m) (fst p) = Some (snd p)" using h(1) by (auto simp: hm_get_mem)
      then show "(case p of (_, r) \<Rightarrow> rec_id r) = fst p" using h(2) by (simp add: case_prod_beta)
    qed
    then show ?thesis using hm_wf_filter [OF h(1)] unfolding hm_wf_def by metis
  qed
  then have "c = card (set ?ds)" using m'(2) distinct_card by metis
  also have "set ?ds = dom (hm_get (mem_records m)) - dom (hm_get (mem_records m'))"
  proof (rule set_eqI)
    fix j
    show "j \<in> set ?ds \<longleftrightarrow> j \<in> dom (hm_get (mem_records m)) - dom (hm_get (mem_records m'))"
      unfolding ds [of j] by (auto simp: g memory_get_def domIff split: option.splits if_splits)
  qed
  also have "card \<dots> = card (dom (hm_get (mem_records m))) - card (dom (hm_get (mem_records m')))"
  proof (rule card_Diff_subset)
    show "finite (dom (hm_get (mem_records m')))" by (rule finite_dom_map_of)
    show "dom (hm_get (mem_records m')) \<subseteq> dom (hm_get (mem_records m))"
      by (auto simp: g memory_get_def domIff split: option.splits if_splits)
  qed
  finally show "c = length (mem_records m) - length (mem_records m')"
    using length_hm [OF h(1)] length_hm [OF w'] by simp
qed

subsection \<open>Adding a record\<close>

text \<open>The array after the vector of a request is stored, and the slot of the record.\<close>

definition stored_vector :: "f32 list option \<Rightarrow> nat option \<Rightarrow> vector_index \<Rightarrow> vector_index \<times> nat option" where
  "stored_vector v sl ix =
     (case v of
        None \<Rightarrow> (ix, sl)
      | Some vs \<Rightarrow>
          (case sl of
             Some s \<Rightarrow> (vector_write s vs ix, sl)
           | None \<Rightarrow> (let (ix, s) = vector_insert vs ix in (ix, Some s))))"

lemma stored_vector_ok:
  assumes ok: "vec_ok ix \<sigma>" and x: "stored_vector v (\<sigma> i) ix = (ix', sl)"
    and v: "\<And>vs. v = Some vs \<Longrightarrow> length vs = vi_dim ix \<and> 0 < vi_dim ix"
  shows "vec_ok ix' (\<sigma>(i := sl))"
    and "Option.bind sl (\<lambda>s. vector_get s ix') =
      (case v of Some vs \<Rightarrow> Some (prepared (vi_metric ix) vs) | None \<Rightarrow> Option.bind (\<sigma> i) (\<lambda>s. vector_get s ix))"
    and "\<And>j t. \<sigma> j = Some t \<Longrightarrow> j \<noteq> i \<Longrightarrow> vector_get t ix' = vector_get t ix"
    and "vi_dim ix' = vi_dim ix \<and> vi_metric ix' = vi_metric ix"
proof -
  consider "v = None" | vs s where "v = Some vs" "\<sigma> i = Some s" | vs where "v = Some vs" "\<sigma> i = None"
    by (cases v; cases "\<sigma> i") auto
  then have "vec_ok ix' (\<sigma>(i := sl)) \<and>
    Option.bind sl (\<lambda>s. vector_get s ix') =
      (case v of Some vs \<Rightarrow> Some (prepared (vi_metric ix) vs) | None \<Rightarrow> Option.bind (\<sigma> i) (\<lambda>s. vector_get s ix)) \<and>
    (\<forall>j t. \<sigma> j = Some t \<longrightarrow> j \<noteq> i \<longrightarrow> vector_get t ix' = vector_get t ix) \<and>
    (vi_dim ix' = vi_dim ix \<and> vi_metric ix' = vi_metric ix)"
  proof cases
    case 1
    with x ok show ?thesis by (auto simp: stored_vector_def)
  next
    case (2 vs s)
    have e: "ix' = vector_write s vs ix" "sl = Some s" using x 2 by (auto simp: stored_vector_def)
    have "\<sigma>(i := Some s) = \<sigma>" using 2 by (simp add: fun_upd_idem)
    with vector_write_ok [OF ok 2(2)] v [OF 2(1)] show ?thesis
      unfolding e by (simp add: 2) (auto simp: vector_write_def)
  next
    case (3 vs)
    obtain s where e: "vector_insert vs ix = (ix', s)" "sl = Some s"
      using x 3 by (auto simp: stored_vector_def split: prod.splits)
    have l: "length vs = vi_dim ix" "0 < vi_dim ix" using v [OF 3(1)] by simp_all
    from vector_insert_ok [OF ok 3(2) l e(1)] show ?thesis by (simp add: e(2) 3)
  qed
  then show "vec_ok ix' (\<sigma>(i := sl))"
    "Option.bind sl (\<lambda>s. vector_get s ix') =
      (case v of Some vs \<Rightarrow> Some (prepared (vi_metric ix) vs) | None \<Rightarrow> Option.bind (\<sigma> i) (\<lambda>s. vector_get s ix))"
    "\<And>j t. \<sigma> j = Some t \<Longrightarrow> j \<noteq> i \<Longrightarrow> vector_get t ix' = vector_get t ix"
    "vi_dim ix' = vi_dim ix \<and> vi_metric ix' = vi_metric ix"
    by blast+
qed

text \<open>The identifier a request gets.\<close>

definition add_id :: "add_request \<Rightarrow> memory \<Rightarrow> bytes" where
  "add_id q m = (case ar_id q of Some i \<Rightarrow> i | None \<Rightarrow> CHR ''m'' # nat_str (mem_next_id m))"

definition id_taken :: "add_request \<Rightarrow> memory \<Rightarrow> memory" where
  "id_taken q m = (case ar_id q of Some i \<Rightarrow> m | None \<Rightarrow> m\<lparr>mem_next_id := mem_next_id m + 1\<rparr>)"

lemma id_taken_frame [simp]:
  "mem_records (id_taken q m) = mem_records m" "mem_vectors (id_taken q m) = mem_vectors m"
  "mem_text (id_taken q m) = mem_text m" "mem_config (id_taken q m) = mem_config m"
  by (simp_all add: id_taken_def split: option.split)

lemma id_taken_view [simp]:
  "slot_of (id_taken q m) = slot_of m" "memory_get E (id_taken q m) = memory_get E m"
  "memory_len (id_taken q m) = memory_len m"
  by (simp_all add: slot_of_def memory_get_def memory_len_def fun_eq_iff)

lemma id_taken_add [simp]:
  "add_refusal E q i mx (id_taken q m) = add_refusal E q i mx m"
  "updated_record E q i (id_taken q m) = updated_record E q i m"
  by (simp_all only: add_refusal_def updated_record_def Let_def id_taken_frame id_taken_view)

lemma memory_add_alt:
  "memory_add E q n mx m =
     (case add_refusal E q (add_id q m) mx m of
        Some e \<Rightarrow> (id_taken q m, Inl e)
      | None \<Rightarrow>
          (let i = add_id q m; r = updated_record E q i m;
               (ix, sl) = stored_vector (ar_vector q) (slot_of m i) (mem_vectors m)
           in ((id_taken q m)\<lparr>mem_records := hm_insert i (r\<lparr>rec_slot := sl\<rparr>) (hm_remove i (mem_records m)),
                 mem_vectors := ix,
                 mem_text := (if indexes_text (mc_mode (mem_config m))
                   then text_index i (map_option rec_text (hm_get (mem_records m) i)) (ar_text q) n (mem_text m)
                   else mem_text m)\<rparr>, Inr i)))"
proof -
  have s: "r\<lparr>rec_slot := rec_slot r\<rparr> = r" for r :: memory_record by simp
  have start: "(case ar_id q of Some i \<Rightarrow> (m, i)
      | None \<Rightarrow> (m\<lparr>mem_next_id := mem_next_id m + 1\<rparr>, CHR ''m'' # nat_str (mem_next_id m))) =
      (id_taken q m, add_id q m)"
    by (simp add: id_taken_def add_id_def split: option.split)
  let ?r = "updated_record E q (add_id q m) m"
  have sl: "rec_slot ?r = slot_of m (add_id q m)" by (rule updated_record_frame)
  have tx: "rec_text ?r = ar_text q" by (rule updated_record_frame)
  have sr: "slot_of m (add_id q m) = None \<Longrightarrow> ?r\<lparr>rec_slot := None\<rparr> = ?r"
    "slot_of m (add_id q m) = Some s \<Longrightarrow> ?r\<lparr>rec_slot := Some s\<rparr> = ?r" for s
    using s [of ?r] sl by simp_all
  show ?thesis
    unfolding memory_add_def start
    by (cases "add_refusal E q (add_id q m) mx m"; cases "ar_vector q"; cases "slot_of m (add_id q m)")
      (simp_all add: stored_vector_def sl tx sr Let_def case_prod_beta)
qed

lemma memory_add_spec:
  assumes wf: "memory_wf m" and x: "memory_add E q n mx m = (m', res)"
  shows "case res of
      Inl e \<Rightarrow> mem_records m' = mem_records m \<and> mem_vectors m' = mem_vectors m \<and> mem_text m' = mem_text m
    | Inr i \<Rightarrow> memory_wf m' \<and>
        (\<exists>r. hm_get (mem_records m') i = Some r \<and> rec_text r = ar_text q \<and>
           rec_expire_at r = rec_expire_at (updated_record E q i m)) \<and>
        vector_at m' i = (case ar_vector q of
          Some vs \<Rightarrow> Some (prepared (vi_metric (mem_vectors m)) vs) | None \<Rightarrow> vector_at m i) \<and>
        (\<forall>j. j \<noteq> i \<longrightarrow> hm_get (mem_records m') j = hm_get (mem_records m) j \<and> vector_at m' j = vector_at m j)"
proof (cases "add_refusal E q (add_id q m) mx m")
  case (Some e)
  then show ?thesis using x by (auto simp: memory_add_alt)
next
  case None
  let ?i = "add_id q m"
  obtain ix sl where st: "stored_vector (ar_vector q) (slot_of m ?i) (mem_vectors m) = (ix, sl)" by fastforce
  let ?r = "(updated_record E q ?i m)\<lparr>rec_slot := sl\<rparr>"
  have m': "mem_records m' = hm_insert ?i ?r (hm_remove ?i (mem_records m))" "mem_vectors m' = ix"
    "mem_config m' = mem_config m" "res = Inr ?i"
    using x None st by (auto simp: memory_add_alt Let_def)
  have h: "hm_wf (mem_records m)" "\<And>i r. hm_get (mem_records m) i = Some r \<Longrightarrow> rec_id r = i"
    "vec_ok (mem_vectors m) (slot_of m)"
    "if stores_vectors (mc_mode (mem_config m)) then 0 < vi_dim (mem_vectors m) else slot_of m = Map.empty"
    "vi_dim (mem_vectors m) = mc_dim (mem_config m)" "vi_metric (mem_vectors m) = mc_metric (mem_config m)"
    using wf by (auto simp: memory_wf_def)
  have v: "length vs = vi_dim (mem_vectors m) \<and> 0 < vi_dim (mem_vectors m)" if "ar_vector q = Some vs" for vs
    using None that h(4)
    by (auto simp: add_refusal_def Let_def vector_validate_def split: if_splits)
  have e: "ar_vector q = None" if "\<not> stores_vectors (mc_mode (mem_config m))"
    using None that by (auto simp: add_refusal_def Let_def split: if_splits option.splits)
  note ok = stored_vector_ok [OF h(3) st v]
  have get: "hm_get (mem_records m') j = (if j = ?i then Some ?r else hm_get (mem_records m) j)" for j
    by (simp add: m' hm_get_insert hm_get_remove)
  have s: "slot_of m' = (slot_of m)(?i := sl)"
    by (rule ext) (simp add: slot_of_def get)
  have "rec_id (updated_record E q ?i m) = ?i"
    using h(2) by (simp add: updated_record_frame split: option.split)
  moreover have "slot_of m' = Map.empty" if "\<not> stores_vectors (mc_mode (mem_config m))"
    using st e [OF that] h(4) that by (simp add: s stored_vector_def)
  ultimately have wf': "memory_wf m'"
    using h ok(1,4) s get by (auto simp: memory_wf_def m')
  have "vector_at m' j = vector_at m j" if "j \<noteq> ?i" for j
    using ok(3) [of j] that by (cases "slot_of m j") (simp_all add: vector_at_def s m')
  moreover have "vector_at m' ?i = (case ar_vector q of
      Some vs \<Rightarrow> Some (prepared (vi_metric (mem_vectors m)) vs) | None \<Rightarrow> vector_at m ?i)"
    using ok(2) by (simp add: vector_at_def s m' split: option.splits)
  ultimately show ?thesis
    using wf' get by (simp add: m'(4) updated_record_frame)
qed

subsection \<open>Properties\<close>

text \<open>
  C14. MEM.ADD is all or nothing. A refused request leaves the records, the vectors and the text
  index as they were; an accepted one stores its text and its prepared vector under its
  identifier, leaves every other record and its vector alone, and keeps every slot of the
  vector array held by exactly one record or on the free list.
\<close>
theorem memory_add_atomic:
  assumes "memory_wf m" and "memory_add E q n mx m = (m', res)"
  shows "case res of
      Inl e \<Rightarrow> mem_records m' = mem_records m \<and> mem_vectors m' = mem_vectors m \<and> mem_text m' = mem_text m
    | Inr i \<Rightarrow> memory_wf m' \<and>
        (\<exists>r. hm_get (mem_records m') i = Some r \<and> rec_text r = ar_text q) \<and>
        vector_at m' i = (case ar_vector q of
          Some vs \<Rightarrow> Some (prepared (vi_metric (mem_vectors m)) vs) | None \<Rightarrow> vector_at m i) \<and>
        (\<forall>j. j \<noteq> i \<longrightarrow> hm_get (mem_records m') j = hm_get (mem_records m) j \<and> vector_at m' j = vector_at m j)"
  using memory_add_spec [OF assms] by (auto split: sum.split)

definition sample_memory :: memory where
  "sample_memory = memory_new
     \<lparr>mc_mode = Vector, mc_dim = 2, mc_metric = L2,
      mc_weights = \<lparr>w_keyword = Fin 0, w_vector = Fin 1, w_recency = Fin 0, w_importance = Fin 0\<rparr>,
      mc_half_life = 1\<rparr>"

definition sample_request :: add_request where
  "sample_request =
     \<lparr>ar_id = Some ''a'', ar_text = ''hi'', ar_vector = Some [Fin 1, Fin 2], ar_meta = [], ar_importance = None,
      ar_ttl = None, ar_new = False, ar_existing = False\<rparr>"

definition memory_env :: "time \<Rightarrow> env" where
  "memory_env t = \<lparr>now = t, mono = t, used_bytes = 0, peak_bytes = 0, disk_fails = None, pid = 1\<rparr>"

lemma sample_memory_wf: "memory_wf sample_memory"
  unfolding sample_memory_def by (rule memory_new_wf) simp

lemma memory_add_atomic_witness:
  "vector_at (fst (memory_add (memory_env 5) sample_request None 0 sample_memory)) ''a'' = Some [Fin 1, Fin 2]"
proof -
  have r: "snd (memory_add (memory_env 5) sample_request None 0 sample_memory) = Inr ''a''" by code_simp
  have p: "prepared (vi_metric (mem_vectors sample_memory)) [Fin 1, Fin 2] = [Fin 1, Fin 2]" by code_simp
  show ?thesis
    using memory_add_atomic [OF sample_memory_wf, of "memory_env 5" sample_request None 0
        "fst (memory_add (memory_env 5) sample_request None 0 sample_memory)" "Inr ''a''"] r p
    by (simp add: prod_eq_iff sample_request_def)
qed

definition expired_memory :: memory where
  "expired_memory = fst (memory_add (memory_env 5) (sample_request\<lparr>ar_ttl := Some 1\<rparr>) None 0 sample_memory)"

lemma expired_memory_wf: "memory_wf expired_memory"
proof -
  have "snd (memory_add (memory_env 5) (sample_request\<lparr>ar_ttl := Some 1\<rparr>) None 0 sample_memory) = Inr ''a''"
    by code_simp
  with memory_add_spec [OF sample_memory_wf, of "memory_env 5" "sample_request\<lparr>ar_ttl := Some 1\<rparr>" None 0
      expired_memory "Inr ''a''"]
  show ?thesis by (simp add: expired_memory_def prod_eq_iff)
qed

text \<open>
  C15. The sweep of a memory index removes exactly the records whose own deadline has passed:
  afterwards the index holds precisely the records a client could still read, each with its
  vector, the slots of the others are free again, and the count reported is the number removed.
\<close>
theorem memory_sweep_exact:
  assumes "memory_wf m" and "memory_sweep E n m = (m', c)"
  shows "memory_wf m' \<and> hm_get (mem_records m') = memory_get E m \<and>
    (\<forall>i. memory_get E m i \<noteq> None \<longrightarrow> vector_at m' i = vector_at m i) \<and>
    c = length (mem_records m) - length (mem_records m')"
  using memory_sweep_spec [OF assms] by auto

lemma memory_sweep_exact_witness:
  "hm_get (mem_records (fst (memory_sweep (memory_env 9) None expired_memory))) ''a'' = None \<and>
   snd (memory_sweep (memory_env 9) None expired_memory) = 1"
proof -
  obtain m c where x: "memory_sweep (memory_env 9) None expired_memory = (m, c)" by (meson surj_pair)
  have "memory_get (memory_env 9) expired_memory ''a'' = None" by code_simp
  moreover have "snd (memory_sweep (memory_env 9) None expired_memory) = 1" by code_simp
  ultimately show ?thesis
    using memory_sweep_exact [OF expired_memory_wf x] x by simp
qed

text \<open>
  C33. MEM.ADD over a record that has expired but has not been swept yet brings the old deadline
  back: the request is accepted, yet without a TTL of its own the new record is already
  expired, so no client can read it.
\<close>
theorem add_over_expired_is_lost:
  assumes "memory_wf m" and "hm_get (mem_records m) i = Some r" and "\<not> rec_is_live (now E) r"
    and "ar_id q = Some i" and "ar_ttl q = None" and "memory_add E q n mx m = (m', Inr i)"
  shows "memory_get E m' i = None"
proof -
  have "rec_expire_at (updated_record E q i m) = rec_expire_at r"
    using assms(2,5) by (simp add: updated_record_frame)
  with memory_add_spec [OF assms(1,6)] obtain r' where
    "hm_get (mem_records m') i = Some r'" "rec_expire_at r' = rec_expire_at r" by auto
  with assms(3) show ?thesis by (simp add: memory_get_def rec_is_live_def split: option.splits)
qed

lemma add_over_expired_is_lost_witness:
  "snd (memory_add (memory_env 9) sample_request None 0 expired_memory) = Inr ''a'' \<and>
   memory_get (memory_env 9) (fst (memory_add (memory_env 9) sample_request None 0 expired_memory)) ''a'' = None"
proof
  show r: "snd (memory_add (memory_env 9) sample_request None 0 expired_memory) = Inr ''a''" by code_simp
  have "map_option rec_expire_at (hm_get (mem_records expired_memory) ''a'') = Some (Some 6)" by code_simp
  then have "\<exists>r. hm_get (mem_records expired_memory) ''a'' = Some r \<and> \<not> rec_is_live (now (memory_env 9)) r"
    by (auto simp: rec_is_live_def memory_env_def)
  then obtain r where "hm_get (mem_records expired_memory) ''a'' = Some r" "\<not> rec_is_live (now (memory_env 9)) r"
    by blast
  then show "memory_get (memory_env 9) (fst (memory_add (memory_env 9) sample_request None 0 expired_memory)) ''a'' = None"
    using add_over_expired_is_lost [OF expired_memory_wf, of "''a''" r "memory_env 9" sample_request None 0
        "fst (memory_add (memory_env 9) sample_request None 0 expired_memory)"] r
    by (simp add: sample_request_def prod_eq_iff)
qed

end
