(* ===== verification/VecBytes.thy ===== *)
theory VecBytes
  imports Memory
begin

text \<open>
  Vectors on the wire (\<^verbatim>\<open>src/types/memory/vector.rs\<close>): a blob of little-endian \<open>f32\<close> values, through
  their bit patterns, and its inverse. The lemmas show that what is encoded is read back.
\<close>

text \<open>The \<open>?\<close> operator.\<close>

definition and_then :: "'e + 'a \<Rightarrow> ('a \<Rightarrow> 'e + 'b) \<Rightarrow> 'e + 'b" where
  "and_then x f = (case x of Inl e \<Rightarrow> Inl e | Inr a \<Rightarrow> f a)"

subsection \<open>Little-endian vectors\<close>

text \<open>
  \<open>f32::from_le_bytes\<close> and \<open>to_le_bytes\<close>, through the bit pattern. All NaNs are one value here, the
  canonical quiet NaN.
\<close>

definition f32_of_bits :: "nat \<Rightarrow> f32" where
  "f32_of_bits n =
     (let neg = (n div 2 ^ 31 = 1); e = n div 2 ^ 23 mod 256; m = n mod 2 ^ 23;
          v = (if e = 0 then of_nat m * pow2 (- 149) else of_nat (2 ^ 23 + m) * pow2 (int e - 150))
      in if e = 255 then (if m \<noteq> 0 then NaN else if neg then NInf else PInf)
         else if v = 0 then (if neg then NZero else Fin 0)
         else Fin (if neg then - v else v))"

definition bits_of_pos :: "rat \<Rightarrow> nat" where
  "bits_of_pos q =
     (let k = ilog2 q
      in if k < - 126 then nat \<lfloor>q * pow2 149\<rfloor>
         else nat (k + 127) * 2 ^ 23 + (nat \<lfloor>q * pow2 (23 - k)\<rfloor> - 2 ^ 23))"

fun bits_of_f32 :: "f32 \<Rightarrow> nat" where
  "bits_of_f32 NaN = 255 * 2 ^ 23 + 2 ^ 22"
| "bits_of_f32 PInf = 255 * 2 ^ 23"
| "bits_of_f32 NInf = 2 ^ 31 + 255 * 2 ^ 23"
| "bits_of_f32 NZero = 2 ^ 31"
| "bits_of_f32 (Fin q) = (if q = 0 then 0 else if q < 0 then 2 ^ 31 + bits_of_pos (- q) else bits_of_pos q)"

definition le_bytes :: "nat \<Rightarrow> bytes" where
  "le_bytes n = map (\<lambda>i. char_of (n div 256 ^ i mod 256)) [0..<4]"

fun of_le_bytes :: "bytes \<Rightarrow> nat" where
  "of_le_bytes [] = 0"
| "of_le_bytes (c # cs) = ord_of c + 256 * of_le_bytes cs"

fun read_f32s :: "bytes \<Rightarrow> vector_error + f32 list" where
  "read_f32s (a # b # c # d # cs) =
     (let v = f32_of_bits (of_le_bytes [a, b, c, d])
      in if \<not> is_finite v then Inl NotFinite
         else and_then (read_f32s cs) (\<lambda>vs. Inr (v # vs)))"
| "read_f32s _ = Inr []"

definition parse_le_f32 :: "bytes \<Rightarrow> vector_error + f32 list" where
  "parse_le_f32 blob = (if length blob mod 4 \<noteq> 0 then Inl NotFloats else read_f32s blob)"

definition encode_le_f32 :: "f32 list \<Rightarrow> bytes" where
  "encode_le_f32 vs = concat (map (\<lambda>v. le_bytes (bits_of_f32 v)) vs)"

subsection \<open>Bytes\<close>

lemma of_le_bytes_digits: "of_le_bytes (map (\<lambda>i. char_of (n div 256 ^ i mod 256)) [0..<k]) = n mod 256 ^ k"
proof (induction k arbitrary: n)
  case (Suc k)
  have u: "[0..<Suc k] = 0 # map Suc [0..<k]" by (simp only: map_Suc_upt upt_conv_Cons zero_less_Suc)
  have d: "n div 256 ^ Suc i = n div 256 div 256 ^ i" for i by (simp add: div_mult2_eq)
  have "map (\<lambda>i. char_of (n div 256 ^ i mod 256)) [0..<Suc k] =
      char_of (n mod 256) # map (\<lambda>i. char_of (n div 256 div 256 ^ i mod 256)) [0..<k]"
    unfolding u by (simp only: list.map map_map comp_def d) simp
  then have "of_le_bytes (map (\<lambda>i. char_of (n div 256 ^ i mod 256)) [0..<Suc k]) =
      n mod 256 + 256 * (n div 256 mod 256 ^ k)"
    using Suc.IH [of "n div 256"] by simp
  also have "\<dots> = n mod 256 ^ Suc k" by (simp add: mod_mult2_eq)
  finally show ?case .
qed simp

lemma of_le_bytes_le_bytes: "n < 2 ^ 32 \<Longrightarrow> of_le_bytes (le_bytes n) = n"
  using of_le_bytes_digits [of n 4] by (simp only: le_bytes_def) simp

lemma length_le_bytes [simp]: "length (le_bytes n) = 4"
  by (simp add: le_bytes_def)

subsection \<open>Bit patterns\<close>

lemma ilog2_upper:
  assumes "0 < q"
  shows "q < pow2 (ilog2 q + 1)"
proof -
  obtain n d where nd: "quotient_of q = (n, d)" by fastforce
  then have q: "q = of_int n / of_int d" and d: "0 < d"
    by (simp_all add: quotient_of_div quotient_of_denom_pos)
  with assms have n: "0 < n" by (simp add: zero_less_divide_iff)
  define k where "k = int (bitlen (nat n)) - int (bitlen (nat d))"
  have b: "0 < bitlen (nat d)" using d by (simp add: bitlen.simps)
  have "of_nat (nat n) < (2::rat) ^ bitlen (nat n)"
    using bitlen_bounds [of "nat n"] n by (metis of_nat_less_iff of_nat_numeral of_nat_power zero_less_nat_eq)
  moreover have "(2::rat) ^ (bitlen (nat d) - 1) \<le> of_nat (nat d)"
    using bitlen_bounds [of "nat d"] d by (metis of_nat_le_iff of_nat_numeral of_nat_power zero_less_nat_eq)
  ultimately have "of_nat (nat n) / of_nat (nat d) < (2::rat) ^ bitlen (nat n) / 2 ^ (bitlen (nat d) - 1)"
    by (intro frac_less) (use n d in auto)
  also have "\<dots> = pow2 (k + 1)"
    using b by (simp add: k_def pow2_powi power_int_diff power_int_add of_nat_diff flip: power_int_of_nat)
  finally have "q < pow2 (k + 1)" using q n d by simp
  then show ?thesis
    by (auto simp: ilog2_def nd k_def [symmetric] not_le)
qed

lemma pow2_mult: "pow2 a * pow2 b = pow2 (a + b)"
  by (simp only: pow2_add)

lemma pow2_values: "pow2 0 = 1" "pow2 23 = 2 ^ 23" "pow2 24 = 2 ^ 24"
  by (simp_all add: pow2_def)

lemma floor_pow2: "0 \<le> u \<Longrightarrow> of_int m * pow2 u = of_int (m * 2 ^ nat u)"
  by (simp add: pow2_def)

text \<open>A positive value of the format is a multiple of \<open>2^w\<close> for every \<open>w\<close> below its last place.\<close>

lemma f32_multiple:
  assumes "representable F32 q" and "0 < q" and "w \<le> max (- 149) (ilog2 q - 23)"
  shows "\<exists>M. q = of_nat M * pow2 w"
proof -
  from assms(1) obtain m u where q: "q = of_int m * pow2 u" and m: "\<bar>m\<bar> < 2 ^ 24" and u: "- 149 \<le> u"
    by (auto simp: representable_def F32_def)
  have m0: "0 < m" using assms(2) q by (simp add: zero_less_mult_iff)
  have "(of_int m :: rat) < 2 ^ 24" using m m0 by simp
  then have "q < pow2 (u + 24)" by (simp add: q pow2_add) (simp add: pow2_def)
  with ilog2_le [OF assms(2)] have "pow2 (ilog2 q) < pow2 (u + 24)" by linarith
  then have "ilog2 q < u + 24" by (rule pow2_less)
  with u assms(3) have w: "w \<le> u" by auto
  then have "pow2 u = pow2 w * 2 ^ nat (u - w)"
    using pow2_add [of w "u - w"] by (simp add: pow2_def [of "u - w"])
  then have "q = of_nat (nat m * 2 ^ nat (u - w)) * pow2 w"
    using q m0 by simp
  then show ?thesis by blast
qed

lemma f32_upper:
  assumes "representable F32 q" and "0 < q"
  shows "ilog2 q < 128"
proof -
  from assms(1) obtain m u where q: "q = of_int m * pow2 u" and m: "\<bar>m\<bar> < 2 ^ 24" and u: "u \<le> 104"
    by (auto simp: representable_def F32_def)
  have "(of_int m :: rat) < pow2 24" using m by (simp add: pow2_def)
  then have "q < pow2 (24 + u)" by (simp add: q pow2_add)
  with ilog2_le [OF assms(2)] have "pow2 (ilog2 q) < pow2 (24 + u)" by linarith
  then have "ilog2 q < 24 + u" by (rule pow2_less)
  with u show ?thesis by simp
qed

lemma bit_fields:
  assumes "m < (2::nat) ^ 23" and "e < 255"
  shows "(e * 2 ^ 23 + m) div 2 ^ 23 mod 256 = e" and "(e * 2 ^ 23 + m) mod 2 ^ 23 = m"
    and "(e * 2 ^ 23 + m) div 2 ^ 31 \<noteq> 1"
    and "(2 ^ 31 + (e * 2 ^ 23 + m)) div 2 ^ 23 mod 256 = e"
    and "(2 ^ 31 + (e * 2 ^ 23 + m)) mod 2 ^ 23 = m" and "(2 ^ 31 + (e * 2 ^ 23 + m)) div 2 ^ 31 = 1"
proof -
  have s: "(2::nat) ^ 31 + (e * 2 ^ 23 + m) = (256 + e) * 2 ^ 23 + m" by simp
  have g: "(k * 2 ^ 23 + m) div 2 ^ 23 = k" "(k * 2 ^ 23 + m) mod 2 ^ 23 = m" for k
    using assms by simp_all
  have lo: "e * 2 ^ 23 + m < 2 ^ 31" using assms by simp
  show "(e * 2 ^ 23 + m) div 2 ^ 23 mod 256 = e" "(e * 2 ^ 23 + m) mod 2 ^ 23 = m"
    using assms by simp_all
  show "(e * 2 ^ 23 + m) div 2 ^ 31 \<noteq> 1" using lo by simp
  show "(2 ^ 31 + (e * 2 ^ 23 + m)) div 2 ^ 23 mod 256 = e" "(2 ^ 31 + (e * 2 ^ 23 + m)) mod 2 ^ 23 = m"
    unfolding s g using assms by simp_all
  show "(2 ^ 31 + (e * 2 ^ 23 + m)) div 2 ^ 31 = 1"
    using lo by simp
qed

lemma f32_of_bits_fields:
  assumes "n div 2 ^ 31 = 1 \<longleftrightarrow> neg" and "n div 2 ^ 23 mod 256 = e" and "n mod 2 ^ 23 = m" and "e < 255"
    and "q = (if e = 0 then of_nat m * pow2 (- 149) else of_nat (2 ^ 23 + m) * pow2 (int e - 150))" and "q \<noteq> 0"
  shows "f32_of_bits n = Fin (if neg then - q else q)"
  unfolding f32_of_bits_def Let_def assms(1-3) assms(5) [symmetric] using assms(4,6) by simp

lemma bits_shape:
  assumes "representable F32 q" and "0 < q"
  shows "\<exists>e m. bits_of_pos q = e * 2 ^ 23 + m \<and> m < 2 ^ 23 \<and> e < 255 \<and>
    q = (if e = 0 then of_nat m * pow2 (- 149) else of_nat (2 ^ 23 + m) * pow2 (int e - 150))"
proof (cases "ilog2 q < - 126")
  case True
  obtain M where M: "q = of_nat M * pow2 (- 149)" using f32_multiple [OF assms, of "- 149"] by auto
  have p: "pow2 (- 149) * pow2 149 = 1" by (simp add: pow2_mult pow2_values)
  then have "q * pow2 149 = of_nat M" by (simp add: M mult.assoc)
  then have b: "bits_of_pos q = M" using True by (simp add: bits_of_pos_def Let_def)
  have "q < pow2 (- 126)"
    using ilog2_upper [OF assms(2)] pow2_mono [of "ilog2 q + 1" "- 126"] True by linarith
  then have "q * pow2 149 < pow2 (- 126) * pow2 149" by simp
  also have "\<dots> = pow2 23" by (simp add: pow2_mult)
  finally have "(of_nat M :: rat) < 2 ^ 23" using \<open>q * pow2 149 = of_nat M\<close> by (simp add: pow2_values)
  then have "M < 2 ^ 23" by (metis of_nat_less_iff of_nat_numeral of_nat_power)
  then show ?thesis using b M by (intro exI [of _ 0] exI [of _ M]) simp
next
  case False
  have k: "ilog2 q < 128" by (rule f32_upper [OF assms])
  obtain M where M: "q = of_nat M * pow2 (ilog2 q - 23)" using f32_multiple [OF assms, of "ilog2 q - 23"] False by auto
  have p: "pow2 (ilog2 q - 23) * pow2 (23 - ilog2 q) = 1" by (simp add: pow2_mult pow2_values)
  have "q * pow2 (23 - ilog2 q) = of_nat M * (pow2 (ilog2 q - 23) * pow2 (23 - ilog2 q))"
    by (subst (1) M) (simp only: mult.assoc)
  then have qm: "q * pow2 (23 - ilog2 q) = of_nat M" by (simp only: p mult_1_right)
  have lo: "pow2 (ilog2 q) * pow2 (23 - ilog2 q) \<le> q * pow2 (23 - ilog2 q)" using ilog2_le [OF assms(2)] by simp
  have hi: "q * pow2 (23 - ilog2 q) < pow2 (ilog2 q + 1) * pow2 (23 - ilog2 q)" using ilog2_upper [OF assms(2)] by simp
  have "pow2 (ilog2 q) * pow2 (23 - ilog2 q) = 2 ^ 23" "pow2 (ilog2 q + 1) * pow2 (23 - ilog2 q) = 2 ^ 24"
    by (simp_all add: pow2_mult pow2_values)
  with lo hi qm have "(2 ^ 23 :: rat) \<le> of_nat M" "(of_nat M :: rat) < 2 ^ 24" by simp_all
  then have r: "2 ^ 23 \<le> M" "M < 2 ^ 24" by (metis of_nat_le_iff of_nat_less_iff of_nat_numeral of_nat_power)+
  have b: "bits_of_pos q = nat (ilog2 q + 127) * 2 ^ 23 + (M - 2 ^ 23)"
    using False qm by (simp add: bits_of_pos_def Let_def)
  have e: "int (nat (ilog2 q + 127)) - 150 = ilog2 q - 23" using False by simp
  have f: "2 ^ 23 + (M - 2 ^ 23) = M" using r by simp
  have v: "q = of_nat (2 ^ 23 + (M - 2 ^ 23)) * pow2 (int (nat (ilog2 q + 127)) - 150)"
    unfolding e f by (rule M)
  show ?thesis
  proof (intro exI conjI)
    show "bits_of_pos q = nat (ilog2 q + 127) * 2 ^ 23 + (M - 2 ^ 23)" by (rule b)
    show "M - 2 ^ 23 < 2 ^ 23" using r by simp
    show "nat (ilog2 q + 127) < 255" using k by simp
    have "nat (ilog2 q + 127) \<noteq> 0" using False by simp
    then show "q = (if nat (ilog2 q + 127) = 0 then of_nat (M - 2 ^ 23) * pow2 (- 149)
        else of_nat (2 ^ 23 + (M - 2 ^ 23)) * pow2 (int (nat (ilog2 q + 127)) - 150))"
      using v by (simp only: if_False)
  qed
qed

lemma bits_pos:
  assumes "representable F32 q" and "0 < q"
  shows "bits_of_pos q < 255 * 2 ^ 23" and "f32_of_bits (bits_of_pos q) = Fin q"
    and "f32_of_bits (2 ^ 31 + bits_of_pos q) = Fin (- q)"
proof -
  from bits_shape [OF assms] obtain e m where b: "bits_of_pos q = e * 2 ^ 23 + m" "m < 2 ^ 23" "e < 255"
    and v: "q = (if e = 0 then of_nat m * pow2 (- 149) else of_nat (2 ^ 23 + m) * pow2 (int e - 150))"
    by blast
  show "bits_of_pos q < 255 * 2 ^ 23" using b by simp
  note d = bit_fields [OF b(2,3)]
  have q: "q \<noteq> 0" using assms(2) by simp
  show "f32_of_bits (bits_of_pos q) = Fin q"
    unfolding b(1) using f32_of_bits_fields [OF _ d(1,2) b(3) v q, of False] d(3) by simp
  show "f32_of_bits (2 ^ 31 + bits_of_pos q) = Fin (- q)"
    unfolding b(1) using f32_of_bits_fields [OF _ d(4,5) b(3) v q, of True] d(6) by simp
qed

lemma f32_bits_finite:
  assumes "flt_wf F32 v" and "is_finite v"
  shows "bits_of_f32 v < 2 ^ 32" and "f32_of_bits (bits_of_f32 v) = v"
proof -
  have "bits_of_f32 v < 2 ^ 32 \<and> f32_of_bits (bits_of_f32 v) = v"
  proof (cases v)
    case (Fin q)
    then have r: "representable F32 q" using assms(1) by simp
    consider "q = 0" | "0 < q" | "q < 0" by linarith
    then show ?thesis
    proof cases
      case 1
      then show ?thesis by (simp add: Fin f32_of_bits_def)
    next
      case 2
      then show ?thesis using bits_pos(1,2) [OF r 2] by (simp add: Fin)
    next
      case 3
      then have r': "representable F32 (- q)" "0 < - q" using r by simp_all
      show ?thesis using bits_pos(1,3) [OF r'] 3 by (simp add: Fin)
    qed
  qed (use assms(2) in \<open>simp_all add: f32_of_bits_def\<close>)
  then show "bits_of_f32 v < 2 ^ 32" "f32_of_bits (bits_of_f32 v) = v" by simp_all
qed

lemma vector_blob_spec:
  assumes "list_all (\<lambda>v. flt_wf F32 v \<and> is_finite v) vs"
  shows "length (encode_le_f32 vs) = 4 * length vs \<and> parse_le_f32 (encode_le_f32 vs) = Inr vs"
proof -
  have "length (encode_le_f32 vs) = 4 * length vs \<and> read_f32s (encode_le_f32 vs) = Inr vs"
    using assms
  proof (induction vs)
    case (Cons v vs)
    then have v: "flt_wf F32 v" "is_finite v" by simp_all
    obtain a b c d where b: "le_bytes (bits_of_f32 v) = [a, b, c, d]"
      by (simp add: le_bytes_def upt_rec)
    have e: "encode_le_f32 (v # vs) = a # b # c # d # encode_le_f32 vs"
      by (simp add: encode_le_f32_def b)
    have "f32_of_bits (of_le_bytes [a, b, c, d]) = v"
      using of_le_bytes_le_bytes [OF f32_bits_finite(1) [OF v]] f32_bits_finite(2) [OF v] by (simp only: b)
    then show ?case
      using Cons v by (simp only: e read_f32s.simps Let_def) (simp add: and_then_def)
  qed (simp add: encode_le_f32_def)
  then show ?thesis by (simp add: parse_le_f32_def)
qed

text \<open>
  C37. A vector survives the wire. The little-endian blob the server sends for a stored vector
  (WITHVEC) is four bytes per component, and reading that blob back, as MEM.ADD and the queries
  do, gives the same \<open>f32\<close> values, signed zeros and subnormals included.
\<close>
theorem vector_blob_round_trip:
  assumes "list_all (\<lambda>v. flt_wf F32 v \<and> is_finite v) vs"
  shows "length (encode_le_f32 vs) = 4 * length vs \<and> parse_le_f32 (encode_le_f32 vs) = Inr vs"
  by (rule vector_blob_spec [OF assms])

lemma vector_blob_round_trip_witness:
  "parse_le_f32 (encode_le_f32 [Fin 1, NZero, Fin (- (3 / 2))]) = Inr [Fin 1, NZero, Fin (- (3 / 2))]"
proof -
  have "representable F32 1" "representable F32 (3 / 2)"
    unfolding representable_def F32_def
    by (rule exI [of _ 1], rule exI [of _ 0], simp add: pow2_def)
      (rule exI [of _ 3], rule exI [of _ "- 1"], simp add: pow2_def)
  then show ?thesis
    using vector_blob_round_trip [of "[Fin 1, NZero, Fin (- (3 / 2))]"] by simp
qed

end
