(* ===== verification/Persist.thy ===== *)
theory Persist
  imports StoreSpec FloatText VecBytes
begin

text \<open>
  \<^verbatim>\<open>src/persist.rs\<close>, the writing half: the dump of the whole keyspace, and the autosave clock.
  \<open>dump_entry\<close> gives the bytes of one key's record and reads the key through the same store
  accessors the code uses. The file system is the environment's: \<open>disk_fails\<close> says after how
  many records the write gives up. The lemmas show that saving changes nothing a client can
  see.
\<close>

subsection \<open>Encodings\<close>

definition nl :: bytes where "nl = [CHR 0x0A]"

definition DUMP_MAGIC :: bytes where "DUMP_MAGIC = ''KLYRO-DUMP 3''"

definition write_blob :: "bytes \<Rightarrow> bytes" where
  "write_blob payload = nat_str (length payload) @ nl @ payload @ nl"

definition unix_millis :: "time \<Rightarrow> int" where
  "unix_millis t = (if 0 \<le> t then as_i64 (t div 1000000) else 0)"

definition mode_name :: "mode \<Rightarrow> bytes" where
  "mode_name m = (case m of Search \<Rightarrow> ''SEARCH'' | Vector \<Rightarrow> ''VECTOR'' | Hybrid \<Rightarrow> ''HYBRID'')"

definition metric_name :: "metric \<Rightarrow> bytes" where
  "metric_name m = (case m of Cosine \<Rightarrow> ''COSINE'' | L2 \<Rightarrow> ''L2'' | InnerProduct \<Rightarrow> ''IP'')"

fun join :: "bytes \<Rightarrow> bytes list \<Rightarrow> bytes" where
  "join sep [] = []"
| "join sep [x] = x"
| "join sep (x # y # xs) = x @ sep @ join sep (y # xs)"

definition words :: "bytes list \<Rightarrow> bytes" where
  "words ws = join '' '' ws @ nl"

subsection \<open>Records\<close>

definition dump_config :: "memory \<Rightarrow> bytes" where
  "dump_config m =
     (let c = mem_config m; w = mc_weights c
      in words [mode_name (mc_mode c), nat_str (mc_dim c), metric_name (mc_metric c),
                display_float F32 (w_keyword w), display_float F32 (w_vector w),
                display_float F32 (w_recency w), display_float F32 (w_importance w),
                int_str (mc_half_life c div 1000000000), nat_str (mem_next_id m)])"

definition dump_record :: "memory_record \<times> f32 list option \<Rightarrow> bytes" where
  "dump_record rv =
     (let (r, v) = rv
      in write_blob (rec_id r) @ write_blob (rec_text r)
         @ words [int_str (unix_millis (rec_created_at r)), int_str (unix_millis (rec_updated_at r)),
                  display_float F32 (rec_importance r),
                  int_str (case rec_expire_at r of None \<Rightarrow> -1 | Some t \<Rightarrow> unix_millis t),
                  nat_str (length (rec_meta r)),
                  nat_str (case v of None \<Rightarrow> 0 | Some vs \<Rightarrow> length vs)]
         @ concat (map (\<lambda>(f, x). write_blob f @ write_blob x) (rec_meta r))
         @ (case v of None \<Rightarrow> [] | Some vs \<Rightarrow> write_blob (encode_le_f32 vs)))"

definition dump_collection :: "bytes \<Rightarrow> int \<Rightarrow> bytes \<Rightarrow> nat \<Rightarrow> bytes \<Rightarrow> bytes" where
  "dump_collection kind expiry k n body =
     words [kind, int_str expiry, nat_str n] @ write_blob k @ body"

text \<open>One turn of \<open>save_inner\<close>'s loop: the store after its lookups, and the bytes written.\<close>

definition dump_entry :: "env \<Rightarrow> bytes \<times> store_type \<Rightarrow> store \<Rightarrow> store \<times> bytes" where
  "dump_entry E kt st =
     (let (k, kind) = kt;
          (st, ttl_ms) = pttl_ms E k st;
          expiry = (if ttl_ms < 0 then -1 else unix_millis (now E) + ttl_ms)
      in case kind of
           TString \<Rightarrow>
             (let (st, v) = get_string E k st
              in (st, words [''STRING'', int_str expiry] @ write_blob k
                      @ write_blob (case v of None \<Rightarrow> [] | Some s \<Rightarrow> s)))
         | TList \<Rightarrow>
             (let (st, l) = read_list E k st
              in (st, case l of None \<Rightarrow> []
                      | Some l \<Rightarrow> dump_collection ''LIST'' expiry k (length l)
                                   (concat (map write_blob l))))
         | THash \<Rightarrow>
             (let (st, h) = read_hash E k st
              in (st, case h of None \<Rightarrow> []
                      | Some h \<Rightarrow> dump_collection ''HASH'' expiry k (length h)
                                   (concat (map (\<lambda>(f, v). write_blob f @ write_blob v) h))))
         | TSet \<Rightarrow>
             (let (st, s) = read_set E k st
              in (st, case s of None \<Rightarrow> []
                      | Some s \<Rightarrow> dump_collection ''SET'' expiry k (length s)
                                   (concat (map write_blob s))))
         | TMemory \<Rightarrow>
             (let (st, m) = get_existing_memory E k st
              in (st, case m of None \<Rightarrow> []
                      | Some m \<Rightarrow>
                          (let rs = records_for_dump E m
                           in words [''MEMORY'', int_str expiry, nat_str (length rs)]
                              @ write_blob k @ dump_config m @ concat (map dump_record rs))))
         | TZset \<Rightarrow>
             (let (st, z) = read_zset E k st
              in (st, case z of None \<Rightarrow> []
                      | Some z \<Rightarrow> dump_collection ''ZSET'' expiry k (length z)
                                   (concat (map (\<lambda>(m, s). write_blob m @ format_f64 s @ nl) z)))))"

fun dump_entries :: "env \<Rightarrow> (bytes \<times> store_type) list \<Rightarrow> store \<Rightarrow> store \<times> bytes" where
  "dump_entries E [] st = (st, [])"
| "dump_entries E (kt # kts) st =
     (let (st, out) = dump_entry E kt st; (st, rest) = dump_entries E kts st
      in (st, out @ rest))"

subsection \<open>Saving\<close>

record persist =
  dump_path :: str
  last_check :: "time option"

text \<open>The store, whether the write succeeded, and the file's contents if it did.\<close>

definition save_inner :: "env \<Rightarrow> store \<Rightarrow> store \<times> bytes option" where
  "save_inner E st =
     (let kts = foreach_entry E st
      in case disk_fails E of
           None \<Rightarrow>
             (let (st, out) = dump_entries E kts st
              in (reset_dirty st, Some (DUMP_MAGIC @ nl @ out)))
         | Some n \<Rightarrow> (fst (dump_entries E (take n kts) st), None))"

definition save_to :: "env \<Rightarrow> str \<Rightarrow> persist \<Rightarrow> store \<Rightarrow> persist \<times> store \<times> bool" where
  "save_to E path p st =
     (let (st, out) = save_inner E st in (p\<lparr>dump_path := path\<rparr>, st, out \<noteq> None))"

definition autosave_due :: "env \<Rightarrow> nat \<Rightarrow> store \<Rightarrow> persist \<Rightarrow> persist \<times> bool" where
  "autosave_due E interval st p =
     (case last_check p of
        None \<Rightarrow> (p\<lparr>last_check := Some (mono E)\<rparr>, False)
      | Some t \<Rightarrow>
          if max 0 (mono E - t) < int interval then (p, False)
          else (p\<lparr>last_check := Some (mono E)\<rparr>, dirty st > 0))"

subsection \<open>Saving is not observable\<close>

lemma dump_entry_view:
  assumes "store_wf st"
  shows "store_wf (fst (dump_entry E kt st)) \<and> live E (fst (dump_entry E kt st)) = live E st"
proof -
  obtain k kind where kt: "kt = (k, kind)" by (cases kt)
  obtain st' t where p: "pttl_ms E k st = (st', t)" by (meson surj_pair)
  with pttl_ms_spec [OF assms, of E k] have w: "store_wf st'" "live E st' = live E st" by simp_all
  show ?thesis
    using w
    by (cases kind) (simp_all add: dump_entry_def case_prod_beta kt p get_string_spec [OF w(1)]
        read_collection_spec(1,2) [OF w(1)] get_existing_memory_spec [OF w(1)])
qed

lemma dump_entries_view:
  "store_wf st \<Longrightarrow> store_wf (fst (dump_entries E kts st)) \<and> live E (fst (dump_entries E kts st)) = live E st"
proof (induction kts arbitrary: st)
  case (Cons kt kts)
  have "fst (dump_entries E (kt # kts) st) = fst (dump_entries E kts (fst (dump_entry E kt st)))"
    by (simp add: case_prod_beta)
  with Cons.IH [of "fst (dump_entry E kt st)"] dump_entry_view [OF Cons.prems, of E kt]
  show ?case by simp
qed simp

lemma reset_dirty_view [simp]:
  "store_wf (reset_dirty s) = store_wf s" "contents (reset_dirty s) = contents s"
  by (simp_all add: reset_dirty_def)

lemma live_reset_dirty [simp]: "live E (reset_dirty s) = live E s"
  by (rule live_contents) simp

lemma save_inner_view:
  assumes "store_wf st"
  shows "store_wf (fst (save_inner E st)) \<and> live E (fst (save_inner E st)) = live E st"
  using dump_entries_view [OF assms, of E]
  by (cases "disk_fails E") (simp_all add: save_inner_def case_prod_beta Let_def)

lemma save_to_view:
  assumes "store_wf st" and "save_to E path p st = (p', st', ok)"
  shows "store_wf st' \<and> live E st' = live E st"
  using save_inner_view [OF assms(1), of E] assms(2)
  by (auto simp: save_to_def case_prod_beta)

subsection \<open>Properties\<close>

text \<open>
  SAVE and the autosave never change the keyspace: whether the write succeeds or the
  disk gives up after any number of records, every live key keeps its value and its
  deadline and the store's indexes stay consistent.
\<close>
theorem save_not_observable:
  assumes "store_wf st"
  shows "(case save_to E path p st of (p', st', ok) \<Rightarrow>
    dump_path p' = path \<and> store_wf st' \<and> live E st' = live E st \<and>
    (ok \<longrightarrow> dirty st' = 0) \<and> (ok \<longleftrightarrow> disk_fails E = None))"
  using save_inner_view [OF assms, of E]
  by (cases "disk_fails E") (simp_all add: save_to_def save_inner_def case_prod_beta Let_def reset_dirty_def)

lemma save_not_observable_witness:
  "(case save_to sample_env (map ord_of ''d'') \<lparr>dump_path = [], last_check = None\<rparr> sample_store of
     (p', st', ok) \<Rightarrow>
       dump_path p' = map ord_of ''d'' \<and> store_wf st' \<and>
       live sample_env st' = live sample_env sample_store \<and> (ok \<longrightarrow> dirty st' = 0) \<and>
       (ok \<longleftrightarrow> disk_fails sample_env = None))"
  by (rule save_not_observable [OF sample_store_wf])

end
