(* ===== verification/Policies.thy ===== *)
theory Policies
  imports Keyspace Bytes
begin

text \<open>
  The policy half of \<^verbatim>\<open>src/evict.rs\<close>: the eviction policies, their names, and how one picks a
  victim from a sample. The loop that frees memory is in \<open>Evict\<close>.
\<close>

datatype policy = NoEviction | AllkeysLru | AllkeysLfu | AllkeysRandom
  | VolatileLru | VolatileLfu | VolatileRandom | VolatileTtl

definition POLICIES :: "(bytes \<times> policy) list" where
  "POLICIES =
     [(''noeviction'', NoEviction), (''allkeys-lru'', AllkeysLru), (''allkeys-lfu'', AllkeysLfu),
      (''allkeys-random'', AllkeysRandom), (''volatile-lru'', VolatileLru),
      (''volatile-lfu'', VolatileLfu), (''volatile-random'', VolatileRandom),
      (''volatile-ttl'', VolatileTtl)]"

definition policy_parse :: "bytes \<Rightarrow> policy option" where
  "policy_parse name = map_of POLICIES (to_lower name)"

definition policy_name :: "policy \<Rightarrow> bytes" where
  "policy_name p = (case List.find (\<lambda>(_, q). q = p) POLICIES of Some (s, _) \<Rightarrow> s | None \<Rightarrow> [])"

definition volatile_only :: "policy \<Rightarrow> bool" where
  "volatile_only p \<longleftrightarrow> p \<in> {VolatileLru, VolatileLfu, VolatileRandom, VolatileTtl}"

definition evicts :: "policy \<Rightarrow> bool" where
  "evicts p \<longleftrightarrow> p \<noteq> NoEviction"

text \<open>\<open>Iterator::min_by_key\<close>: the first of the elements with the least key.\<close>

fun min_by_key :: "('a \<Rightarrow> 'b :: linorder) \<Rightarrow> 'a list \<Rightarrow> 'a option" where
  "min_by_key f [] = None"
| "min_by_key f (x # xs) =
     (case min_by_key f xs of
        None \<Rightarrow> Some x
      | Some y \<Rightarrow> if f y < f x then Some y else Some x)"

definition far_future :: time where
  "far_future = 4294967295 * 1000000000"

definition choose_victim :: "policy \<Rightarrow> candidate list \<Rightarrow> candidate option" where
  "choose_victim p cs =
     (case p of
        NoEviction \<Rightarrow> None
      | AllkeysRandom \<Rightarrow> (case cs of [] \<Rightarrow> None | c # _ \<Rightarrow> Some c)
      | VolatileRandom \<Rightarrow> (case cs of [] \<Rightarrow> None | c # _ \<Rightarrow> Some c)
      | AllkeysLru \<Rightarrow> min_by_key last_access cs
      | VolatileLru \<Rightarrow> min_by_key last_access cs
      | AllkeysLfu \<Rightarrow> min_by_key (\<lambda>c. (uint (cand_freq c), last_access c)) cs
      | VolatileLfu \<Rightarrow> min_by_key (\<lambda>c. (uint (cand_freq c), last_access c)) cs
      | VolatileTtl \<Rightarrow>
          min_by_key (\<lambda>c. case cand_expire_at c of None \<Rightarrow> far_future | Some t \<Rightarrow> t) cs)"

lemma policy_name_parse: "policy_parse (policy_name p) = Some p"
proof -
  have "list_all (\<lambda>p. policy_parse (policy_name p) = Some p)
      [NoEviction, AllkeysLru, AllkeysLfu, AllkeysRandom, VolatileLru, VolatileLfu,
       VolatileRandom, VolatileTtl]"
    by code_simp
  then show ?thesis by (cases p) simp_all
qed

lemma min_by_key_None: "min_by_key f xs = None \<longleftrightarrow> xs = []"
  by (cases xs) (auto split: option.splits)

lemma min_by_key_Some:
  "min_by_key f xs = Some x \<Longrightarrow> x \<in> set xs \<and> (\<forall>y \<in> set xs. f x \<le> f y)"
  by (induction xs arbitrary: x) (fastforce split: option.splits if_splits simp: min_by_key_None)+

text \<open>The victim's rank under a policy: what the policy minimises.\<close>

definition policy_rank :: "policy \<Rightarrow> candidate \<Rightarrow> int \<times> int" where
  "policy_rank p c =
     (if p \<in> {AllkeysLru, VolatileLru} then (int (last_access c), 0)
      else if p \<in> {AllkeysLfu, VolatileLfu} then (uint (cand_freq c), int (last_access c))
      else if p = VolatileTtl then (case cand_expire_at c of None \<Rightarrow> far_future | Some t \<Rightarrow> t, 0)
      else (0, 0))"

lemma choose_minimal:
  assumes "choose_victim p cs = Some c"
  shows "p \<noteq> NoEviction \<and> c \<in> set cs \<and> (\<forall>d \<in> set cs. policy_rank p c \<le> policy_rank p d)"
proof -
  show ?thesis
    using assms min_by_key_Some [of last_access cs c]
      min_by_key_Some [of "\<lambda>c. (uint (cand_freq c), last_access c)" cs c]
      min_by_key_Some [of "\<lambda>c. case cand_expire_at c of None \<Rightarrow> far_future | Some t \<Rightarrow> t" cs c]
    by (cases p) (auto simp: choose_victim_def policy_rank_def split: list.splits)
qed

lemma choose_Some: "choose_victim p cs = None \<longleftrightarrow> p = NoEviction \<or> cs = []"
  by (cases p; cases cs) (auto simp: choose_victim_def min_by_key_None simp del: min_by_key.simps)

subsection \<open>Properties\<close>

text \<open>
  The victim an eviction policy names comes from the sample and none of the sample ranks
  below it: least recently used, least frequently used with ties by age, or nearest
  deadline; \<open>noeviction\<close> names none, and every other policy names one whenever the sample
  is not empty.
\<close>
theorem victim_is_least:
  "(case choose_victim p cs of
      None \<Rightarrow> p = NoEviction \<or> cs = []
    | Some c \<Rightarrow> p \<noteq> NoEviction \<and> c \<in> set cs \<and> (\<forall>d \<in> set cs. policy_rank p c \<le> policy_rank p d))"
  using choose_minimal choose_Some by (fastforce split: option.split)

lemma victim_is_least_witness:
  "(let cs = [\<lparr>cand_key = ''a'', last_access = 7, cand_freq = 1, cand_expire_at = None\<rparr>,
              \<lparr>cand_key = ''b'', last_access = 3, cand_freq = 2, cand_expire_at = None\<rparr>]
    in choose_victim AllkeysLru cs = Some (cs ! 1) \<and>
       (\<forall>d \<in> set cs. policy_rank AllkeysLru (cs ! 1) \<le> policy_rank AllkeysLru d))"
  using victim_is_least [of AllkeysLru
      "[\<lparr>cand_key = ''a'', last_access = 7, cand_freq = 1, cand_expire_at = None\<rparr>,
        \<lparr>cand_key = ''b'', last_access = 3, cand_freq = 2, cand_expire_at = None\<rparr>]"]
  by (simp add: choose_victim_def)

end
