(* ===== verification/Config.thy ===== *)
theory Config
  imports Policies
begin

text \<open>
  \<^verbatim>\<open>src/config.rs\<close>: the runtime configuration, its defaults, and the get/set surface behind
  CONFIG and the config file. A Rust \<open>String\<close> is its list of code points. A parameter name
  is looked up in the table of names first (the arms of the code's \<open>match name\<close>) and handled
  by constructor after that. The lemmas show that a value read with CONFIG GET can be set back,
  that setting one parameter leaves the others alone, and that a refused value changes nothing,
  except that a config file's \<open>port 0\<close> is stored before it is refused.
\<close>

datatype set_error = Unknown | Immutable | BadValue

definition set_error_text :: "set_error \<Rightarrow> bytes" where
  "set_error_text e =
     (case e of Unknown \<Rightarrow> ''unknown parameter''
      | Immutable \<Rightarrow> ''parameter cannot be changed at runtime''
      | BadValue \<Rightarrow> ''invalid value for parameter'')"

text \<open>Durations are nanoseconds.\<close>

record config =
  bind :: str
  port :: nat
  dbfilename :: str
  save_interval :: nat
  sweep_interval :: nat
  maxclients :: nat
  max_string_bytes :: nat
  proto_max_bulk_len :: nat
  client_output_buffer_limit :: nat
  scan_default_count :: nat
  zadd_max_pairs :: nat
  maxmemory :: nat
  maxmemory_policy :: policy
  maxmemory_samples :: nat
  mem_max_topk :: nat
  mem_max_candidates :: nat
  mem_max_scan :: nat
  mem_max_dim :: nat
  mem_max_text_bytes :: nat
  mem_max_records :: nat
  mem_max_terms_per_doc :: nat
  mem_recency_halflife :: nat

definition default_config :: config where
  "default_config =
     \<lparr>bind = map ord_of ''0.0.0.0'', port = 7171, dbfilename = map ord_of ''klyro.dump'',
      save_interval = 60 * 1000000000, sweep_interval = 1000000000,
      maxclients = 10000,
      max_string_bytes = 512 * 1024 * 1024,
      proto_max_bulk_len = 512 * 1024 * 1024,
      client_output_buffer_limit = 256 * 1024 * 1024,
      scan_default_count = 10,
      zadd_max_pairs = 128,
      maxmemory = 0,
      maxmemory_policy = NoEviction,
      maxmemory_samples = 5,
      mem_max_topk = 100,
      mem_max_candidates = 500,
      mem_max_scan = 1000000,
      mem_max_dim = 4096,
      mem_max_text_bytes = 65536,
      mem_max_records = 0,
      mem_max_terms_per_doc = 1024,
      mem_recency_halflife = 7 * 24 * 3600\<rparr>"

subsection \<open>Parameters\<close>

datatype param =
    Bind | Port | DbFilename | SaveInterval
  | SweepInterval | MaxClients | MaxStringBytes | ProtoMaxBulkLen
  | OutputBufferLimit | ScanDefaultCount | ZaddMaxPairs | MaxMemory
  | MaxMemoryPolicy | MaxMemorySamples | MemMaxTopk | MemMaxCandidates
  | MemMaxScan | MemMaxDim | MemMaxTextBytes | MemMaxRecords
  | MemMaxTermsPerDoc | MemRecencyHalflife

definition PARAMS :: "(bytes \<times> param) list" where
  "PARAMS =
     [(''bind'', Bind),
      (''port'', Port),
      (''dbfilename'', DbFilename),
      (''save-interval'', SaveInterval),
      (''sweep-interval'', SweepInterval),
      (''maxclients'', MaxClients),
      (''max-string-bytes'', MaxStringBytes),
      (''proto-max-bulk-len'', ProtoMaxBulkLen),
      (''client-output-buffer-limit'', OutputBufferLimit),
      (''scan-default-count'', ScanDefaultCount),
      (''zadd-max-pairs'', ZaddMaxPairs),
      (''maxmemory'', MaxMemory),
      (''maxmemory-policy'', MaxMemoryPolicy),
      (''maxmemory-samples'', MaxMemorySamples),
      (''mem-max-topk'', MemMaxTopk),
      (''mem-max-candidates'', MemMaxCandidates),
      (''mem-max-scan'', MemMaxScan),
      (''mem-max-dim'', MemMaxDim),
      (''mem-max-text-bytes'', MemMaxTextBytes),
      (''mem-max-records'', MemMaxRecords),
      (''mem-max-terms-per-doc'', MemMaxTermsPerDoc),
      (''mem-recency-halflife'', MemRecencyHalflife)]"

definition PARAMETERS :: "bytes list" where
  "PARAMETERS = map fst PARAMS"

definition param_of :: "bytes \<Rightarrow> param option" where
  "param_of name = map_of PARAMS name"

subsection \<open>Values\<close>

definition str_parse_u64 :: "str \<Rightarrow> nat option" where
  "str_parse_u64 s = str_parse_uint u64_max s"

definition positive :: "str \<Rightarrow> nat option" where
  "positive value = (case str_parse_u64 value of Some n \<Rightarrow> if n > 0 then Some n else None | None \<Rightarrow> None)"

definition non_negative :: "str \<Rightarrow> nat option" where
  "non_negative value = str_parse_u64 value"

definition strip_suffix :: "'a list \<Rightarrow> 'a list \<Rightarrow> 'a list option" where
  "strip_suffix suffix s =
     (if length suffix \<le> length s \<and> drop (length s - length suffix) s = suffix
      then Some (take (length s - length suffix) s) else None)"

definition SUFFIXES :: "(bytes \<times> nat) list" where
  "SUFFIXES =
     [(''kb'', 1024), (''mb'', 1024 * 1024), (''gb'', 1024 * 1024 * 1024),
      (''k'', 1000), (''m'', 1000000), (''g'', 1000000000)]"

definition checked_mul_u64 :: "nat \<Rightarrow> nat \<Rightarrow> nat option" where
  "checked_mul_u64 a b = (if int (a * b) \<le> u64_max then Some (a * b) else None)"

fun size_with :: "(bytes \<times> nat) list \<Rightarrow> str \<Rightarrow> nat option" where
  "size_with [] s = non_negative s"
| "size_with ((suffix, scale) # others) s =
     (case strip_suffix (map ord_of suffix) s of
        Some number \<Rightarrow>
          (case str_parse_u64 (trim number) of
             None \<Rightarrow> None
           | Some n \<Rightarrow> checked_mul_u64 n scale)
      | None \<Rightarrow> size_with others s)"

definition parse_size :: "str \<Rightarrow> nat option" where
  "parse_size value = size_with SUFFIXES (map lower_cp (trim value))"

definition parse_u16 :: "str \<Rightarrow> nat option" where
  "parse_u16 s = str_parse_uint 65535 s"

text \<open>\<open>Policy::parse\<close> on a \<open>str\<close>; its names are ASCII.\<close>

definition policy_of_str :: "str \<Rightarrow> policy option" where
  "policy_of_str s = policy_parse (utf8_encode s)"

definition num :: "nat \<Rightarrow> str" where
  "num n = map ord_of (nat_str n)"

subsection \<open>CONFIG GET and CONFIG SET\<close>

fun param_get :: "param \<Rightarrow> config \<Rightarrow> str" where
  "param_get Bind c = bind c"
| "param_get Port c = num (port c)"
| "param_get DbFilename c = dbfilename c"
| "param_get SaveInterval c = num (save_interval c div 1000000000)"
| "param_get SweepInterval c = num (sweep_interval c div 1000000)"
| "param_get MaxClients c = num (maxclients c)"
| "param_get MaxStringBytes c = num (max_string_bytes c)"
| "param_get ProtoMaxBulkLen c = num (proto_max_bulk_len c)"
| "param_get OutputBufferLimit c = num (client_output_buffer_limit c)"
| "param_get ScanDefaultCount c = num (scan_default_count c)"
| "param_get ZaddMaxPairs c = num (zadd_max_pairs c)"
| "param_get MaxMemory c = num (maxmemory c)"
| "param_get MaxMemoryPolicy c = map ord_of (policy_name (maxmemory_policy c))"
| "param_get MaxMemorySamples c = num (maxmemory_samples c)"
| "param_get MemMaxTopk c = num (mem_max_topk c)"
| "param_get MemMaxCandidates c = num (mem_max_candidates c)"
| "param_get MemMaxScan c = num (mem_max_scan c)"
| "param_get MemMaxDim c = num (mem_max_dim c)"
| "param_get MemMaxTextBytes c = num (mem_max_text_bytes c)"
| "param_get MemMaxRecords c = num (mem_max_records c)"
| "param_get MemMaxTermsPerDoc c = num (mem_max_terms_per_doc c)"
| "param_get MemRecencyHalflife c = num (mem_recency_halflife c)"

definition config_get :: "config \<Rightarrow> bytes \<Rightarrow> str option" where
  "config_get c name = map_option (\<lambda>p. param_get p c) (param_of name)"

text \<open>\<open>field = parse(value)?; Ok(())\<close>.\<close>

definition assign ::
    "'a option \<Rightarrow> ('a \<Rightarrow> config \<Rightarrow> config) \<Rightarrow> config \<Rightarrow> config \<times> set_error option" where
  "assign v put c = (case v of None \<Rightarrow> (c, Some BadValue) | Some n \<Rightarrow> (put n c, None))"

fun param_set ::
    "param \<Rightarrow> str \<Rightarrow> bool \<Rightarrow> config \<Rightarrow> config \<times> set_error option" where
  "param_set Bind value allow_startup_only c =
     (if \<not> allow_startup_only then (c, Some Immutable)
      else if value = [] then (c, Some BadValue)
      else (c\<lparr>bind := value\<rparr>, None))"
| "param_set Port value allow_startup_only c =
     (if \<not> allow_startup_only then (c, Some Immutable)
      else (case parse_u16 value of
              None \<Rightarrow> (c, Some BadValue)
            | Some n \<Rightarrow>
                (let c = c\<lparr>port := n\<rparr>
                 in if port c = 0 then (c, Some BadValue) else (c, None))))"
| "param_set DbFilename value allow_startup_only c =
     (if value = [] then (c, Some BadValue) else (c\<lparr>dbfilename := value\<rparr>, None))"
| "param_set SaveInterval value allow_startup_only c =
     assign (positive value) (\<lambda>n c. c\<lparr>save_interval := n * 1000000000\<rparr>) c"
| "param_set SweepInterval value allow_startup_only c =
     assign (positive value) (\<lambda>n c. c\<lparr>sweep_interval := n * 1000000\<rparr>) c"
| "param_set MaxClients value allow_startup_only c =
     assign (positive value) (\<lambda>n c. c\<lparr>maxclients := n\<rparr>) c"
| "param_set MaxStringBytes value allow_startup_only c =
     assign (positive value) (\<lambda>n c. c\<lparr>max_string_bytes := n\<rparr>) c"
| "param_set ProtoMaxBulkLen value allow_startup_only c =
     assign (positive value) (\<lambda>n c. c\<lparr>proto_max_bulk_len := n\<rparr>) c"
| "param_set OutputBufferLimit value allow_startup_only c =
     assign (positive value) (\<lambda>n c. c\<lparr>client_output_buffer_limit := n\<rparr>) c"
| "param_set ScanDefaultCount value allow_startup_only c =
     assign (positive value) (\<lambda>n c. c\<lparr>scan_default_count := n\<rparr>) c"
| "param_set ZaddMaxPairs value allow_startup_only c =
     assign (positive value) (\<lambda>n c. c\<lparr>zadd_max_pairs := n\<rparr>) c"
| "param_set MaxMemory value allow_startup_only c =
     assign (parse_size value) (\<lambda>n c. c\<lparr>maxmemory := n\<rparr>) c"
| "param_set MaxMemoryPolicy value allow_startup_only c =
     assign (policy_of_str value) (\<lambda>n c. c\<lparr>maxmemory_policy := n\<rparr>) c"
| "param_set MaxMemorySamples value allow_startup_only c =
     assign (positive value) (\<lambda>n c. c\<lparr>maxmemory_samples := n\<rparr>) c"
| "param_set MemMaxTopk value allow_startup_only c =
     assign (positive value) (\<lambda>n c. c\<lparr>mem_max_topk := n\<rparr>) c"
| "param_set MemMaxCandidates value allow_startup_only c =
     assign (positive value) (\<lambda>n c. c\<lparr>mem_max_candidates := n\<rparr>) c"
| "param_set MemMaxScan value allow_startup_only c =
     assign (positive value) (\<lambda>n c. c\<lparr>mem_max_scan := n\<rparr>) c"
| "param_set MemMaxDim value allow_startup_only c =
     assign (positive value) (\<lambda>n c. c\<lparr>mem_max_dim := n\<rparr>) c"
| "param_set MemMaxTextBytes value allow_startup_only c =
     assign (positive value) (\<lambda>n c. c\<lparr>mem_max_text_bytes := n\<rparr>) c"
| "param_set MemMaxRecords value allow_startup_only c =
     assign (non_negative value) (\<lambda>n c. c\<lparr>mem_max_records := n\<rparr>) c"
| "param_set MemMaxTermsPerDoc value allow_startup_only c =
     assign (positive value) (\<lambda>n c. c\<lparr>mem_max_terms_per_doc := n\<rparr>) c"
| "param_set MemRecencyHalflife value allow_startup_only c =
     assign (positive value) (\<lambda>n c. c\<lparr>mem_recency_halflife := n\<rparr>) c"

definition config_set ::
    "config \<Rightarrow> bytes \<Rightarrow> str \<Rightarrow> bool \<Rightarrow> config \<times> set_error option" where
  "config_set c name value allow_startup_only =
     (case param_of name of
        None \<Rightarrow> (c, Some Unknown)
      | Some p \<Rightarrow> param_set p value allow_startup_only c)"

subsection \<open>Reading a value back\<close>

lemma param_of_name: "map_of (map (\<lambda>(n, p). (p, n)) PARAMS) p \<noteq> None"
proof -
  have "list_all (\<lambda>p. map_of (map (\<lambda>(n, p). (p, n)) PARAMS) p \<noteq> None) [Bind, Port, DbFilename, SaveInterval, SweepInterval, MaxClients, MaxStringBytes, ProtoMaxBulkLen, OutputBufferLimit, ScanDefaultCount, ZaddMaxPairs, MaxMemory, MaxMemoryPolicy, MaxMemorySamples, MemMaxTopk, MemMaxCandidates, MemMaxScan, MemMaxDim, MemMaxTextBytes, MemMaxRecords, MemMaxTermsPerDoc, MemRecencyHalflife]"
    by code_simp
  then show ?thesis by (cases p) simp_all
qed

definition u64_ok :: "nat \<Rightarrow> bool" where
  "u64_ok n \<longleftrightarrow> int n \<le> u64_max"

definition size_ok :: "nat \<Rightarrow> bool" where
  "size_ok n \<longleftrightarrow> 0 < n \<and> u64_ok n"

text \<open>What every reachable configuration satisfies.\<close>

definition config_wf :: "config \<Rightarrow> bool" where
  "config_wf c \<longleftrightarrow>
     bind c \<noteq> [] \<and> 0 < port c \<and> port c < 65536 \<and> dbfilename c \<noteq> [] \<and>
     (\<exists>n. save_interval c = n * 1000000000 \<and> size_ok n) \<and>
     (\<exists>n. sweep_interval c = n * 1000000 \<and> size_ok n) \<and>
     u64_ok (maxmemory c) \<and> u64_ok (mem_max_records c) \<and>
     list_all size_ok
       [maxclients c,
        max_string_bytes c,
        proto_max_bulk_len c,
        client_output_buffer_limit c,
        scan_default_count c,
        zadd_max_pairs c,
        maxmemory_samples c,
        mem_max_topk c,
        mem_max_candidates c,
        mem_max_scan c,
        mem_max_dim c,
        mem_max_text_bytes c,
        mem_max_terms_per_doc c,
        mem_recency_halflife c]"

lemma str_parse_num: "int n \<le> b \<Longrightarrow> str_parse_uint b (num n) = Some n"
proof -
  assume b: "int n \<le> b"
  obtain c cs where c: "num n = c # cs" by (cases "num n") (simp_all add: num_def)
  then have "is_digit c" using nat_str_digits [of n] by (simp add: num_def)
  then have "c \<noteq> 43" by (auto simp: is_digit_def)
  moreover have "parse_nat (c # cs) = Some n" using c by (metis num_def parse_nat_str)
  ultimately show ?thesis using b c by (simp add: str_parse_uint_def)
qed

lemma positive_num: "size_ok n \<Longrightarrow> positive (num n) = Some n"
  by (simp add: positive_def str_parse_u64_def size_ok_def u64_ok_def str_parse_num)

lemma non_negative_num: "u64_ok n \<Longrightarrow> non_negative (num n) = Some n"
  by (simp add: non_negative_def str_parse_u64_def u64_ok_def str_parse_num)

lemma num_digits: "d \<in> set (num n) \<Longrightarrow> is_digit d"
  by (auto simp: num_def dest: nat_str_mem)

lemma trim_num: "trim (num n) = num n"
  using trim_int_str [of "int n"] by (simp add: num_def int_str_def)

lemma lower_num: "map lower_cp (num n) = num n"
  by (rule map_idI) (auto simp: lower_cp_def is_digit_def dest!: num_digits)

lemma strip_suffix_last:
  "s \<noteq> [] \<Longrightarrow> suffix \<noteq> [] \<Longrightarrow> last s \<noteq> last suffix \<Longrightarrow> strip_suffix suffix s = None"
  by (auto simp: strip_suffix_def last_drop)
    (metis One_nat_def diff_diff_cancel diff_less last_drop length_greater_0_conv)

lemma size_with_num:
  "\<forall>(suffix, n) \<in> set sufs. suffix \<noteq> [] \<and> \<not> is_digit (ord_of (last suffix)) \<Longrightarrow>
   size_with sufs (num n) = non_negative (num n)"
proof (induction sufs)
  case (Cons a sufs)
  obtain suffix scale where a: "a = (suffix, scale)" by (cases a)
  have ne: "num n \<noteq> []" by (simp add: num_def)
  then have "is_digit (last (num n))" using num_digits last_in_set by blast
  then have "strip_suffix (map ord_of suffix) (num n) = None"
    using Cons.prems a ne by (intro strip_suffix_last) (auto simp: last_map)
  with Cons a show ?case by simp
qed simp

lemma parse_size_num: "u64_ok n \<Longrightarrow> parse_size (num n) = Some n"
proof -
  have "\<forall>(suffix, n) \<in> set SUFFIXES. suffix \<noteq> [] \<and> \<not> is_digit (ord_of (last suffix))"
    by (simp add: SUFFIXES_def is_digit_def)
  then show "u64_ok n \<Longrightarrow> parse_size (num n) = Some n"
    by (simp add: parse_size_def trim_num lower_num size_with_num non_negative_num)
qed

lemma policy_of_name: "policy_of_str (map ord_of (policy_name p)) = Some p"
proof -
  have "list_all (\<lambda>p. policy_of_str (map ord_of (policy_name p)) = Some p)
      [NoEviction, AllkeysLru, AllkeysLfu, AllkeysRandom, VolatileLru, VolatileLfu,
       VolatileRandom, VolatileTtl]"
    by code_simp
  then show ?thesis by (cases p) simp_all
qed

lemma param_get_set:
  assumes "config_wf c"
  shows "param_set p (param_get p c) True c = (c, None)"
proof -
  obtain n m where iv: "save_interval c = n * 1000000000" "size_ok n"
    "sweep_interval c = m * 1000000" "size_ok m"
    using assms by (auto simp: config_wf_def)
  have "parse_u16 (num (port c)) = Some (port c)"
    unfolding parse_u16_def by (rule str_parse_num) (use assms in \<open>simp add: config_wf_def\<close>)
  with assms iv show ?thesis
    by (cases p) (simp_all add: config_wf_def assign_def positive_num
        non_negative_num parse_size_num policy_of_name)
qed

lemma get_assign:
  "(\<And>n. param_get q (put n c) = param_get q c) \<Longrightarrow>
   param_get q (fst (assign v put c)) = param_get q c"
  by (simp add: assign_def split: option.split)

text \<open>The parameter a field belongs to: updating one field changes at most that parameter.\<close>

lemma param_set_other: "q \<noteq> p \<Longrightarrow> param_get q (fst (param_set p v a c)) = param_get q c"
proof (cases "p \<in> {Bind, Port, DbFilename}")
  case True
  then show "q \<noteq> p \<Longrightarrow> ?thesis"
    by (cases q) (auto simp: Let_def split: option.split)
next
  case False
  then show "q \<noteq> p \<Longrightarrow> ?thesis"
    by (cases p; simp only: param_set.simps insert_iff simp_thms; intro get_assign; cases q; simp)
qed

lemma assign_refused: "snd (assign v put c) = Some e \<Longrightarrow> fst (assign v put c) = c"
  by (simp add: assign_def split: option.splits)

lemma param_set_refused:
  "snd (param_set p v a c) = Some e \<Longrightarrow> p \<noteq> Port \<or> \<not> a \<Longrightarrow> fst (param_set p v a c) = c"
  by (cases p; simp only: param_set.simps; (erule assign_refused)?; simp split: if_splits)

lemma positive_ok: "positive v = Some n \<Longrightarrow> size_ok n"
  by (auto simp: positive_def str_parse_u64_def str_parse_uint_def size_ok_def u64_ok_def
      split: option.splits if_splits list.splits)

lemma non_negative_ok: "non_negative v = Some n \<Longrightarrow> u64_ok n"
  by (auto simp: non_negative_def str_parse_u64_def str_parse_uint_def u64_ok_def
      split: option.splits if_splits list.splits)

lemma size_with_ok: "size_with sufs v = Some n \<Longrightarrow> u64_ok n"
  by (induction sufs v rule: size_with.induct)
    (auto simp: checked_mul_u64_def u64_ok_def non_negative_ok dest: non_negative_ok
      split: option.splits if_splits)

lemma parse_u16_ok: "parse_u16 v = Some n \<Longrightarrow> n < 65536"
  by (auto simp: parse_u16_def str_parse_uint_def split: option.splits if_splits list.splits)

lemma param_set_wf:
  assumes "config_wf c" and "snd (param_set p v a c) = None"
  shows "config_wf (fst (param_set p v a c))"
  using assms
  by (cases p) (auto simp: assign_def config_wf_def Let_def parse_size_def
      dest: positive_ok non_negative_ok size_with_ok parse_u16_ok split: option.splits if_splits)

lemma default_config_wf: "config_wf default_config"
proof -
  have "\<exists>n. (60 * 1000000000 :: nat) = n * 1000000000 \<and> size_ok n"
    by (rule exI [of _ 60]) (simp add: size_ok_def u64_ok_def u64_max_def)
  moreover have "\<exists>n. (1000000000 :: nat) = n * 1000000 \<and> size_ok n"
    by (rule exI [of _ 1000]) (simp add: size_ok_def u64_ok_def u64_max_def)
  ultimately show ?thesis
    unfolding config_wf_def default_config_def
    by (simp add: size_ok_def u64_ok_def u64_max_def)
qed

subsection \<open>Properties\<close>



text \<open>
  CONFIG SET changes one parameter: it keeps the configuration valid when it succeeds, a
  refused change at run time leaves it untouched, and every other parameter reads as before.
\<close>
theorem config_set_one:
  assumes "config_wf c"
  shows "(case param_set p v False c of
            (c', None) \<Rightarrow> config_wf c'
          | (c', Some e) \<Rightarrow> c' = c) \<and>
    list_all (\<lambda>q. q = p \<or> param_get q (fst (param_set p v False c)) = param_get q c) (map snd PARAMS)"
proof
  show "case param_set p v False c of (c', None) \<Rightarrow> config_wf c' | (c', Some e) \<Rightarrow> c' = c"
    using param_set_wf [OF assms, of p v False] param_set_refused [of p v False c]
    by (auto split: prod.split option.split)
qed (use param_set_other in \<open>unfold list_all_iff, blast\<close>)

lemma config_set_one_witness:
  "(case param_set MaxMemory (map ord_of ''1kb'') False default_config of
      (c', None) \<Rightarrow> config_wf c' | (c', Some e) \<Rightarrow> c' = default_config) \<and>
    list_all (\<lambda>q. q = MaxMemory \<or>
        param_get q (fst (param_set MaxMemory (map ord_of ''1kb'') False default_config)) =
        param_get q default_config) (map snd PARAMS)"
  by (rule config_set_one [OF default_config_wf])

end
