(* ===== verification/MemClone.thy ===== *)
theory MemClone
  imports Memory
begin

text \<open>
  Rebuilding a memory index record by record: \<^verbatim>\<open>Clone for Memory\<close>, \<^verbatim>\<open>records_for_dump\<close> and \<^verbatim>\<open>load_record\<close> of
  \<^verbatim>\<open>src/types/memory/mod.rs\<close>. The lemmas show that COPY and the dump carry over exactly the live records.
\<close>

subsection \<open>Rebuilding an index\<close>

lemma memory_wf_next: "memory_wf (m\<lparr>mem_next_id := n\<rparr>) = memory_wf m"
  by (simp add: memory_wf_def slot_of_def [abs_def])

lemma load_record_spec:
  assumes wf: "memory_wf m" and i: "hm_get (mem_records m) (rec_id r) = None"
    and v: "\<And>vs. v = Some vs \<Longrightarrow> length vs = mc_dim (mem_config m) \<and> stores_vectors (mc_mode (mem_config m))"
  shows "memory_wf (load_record r v n m)" (is ?a)
    and "\<exists>sl. \<forall>j. hm_get (mem_records (load_record r v n m)) j =
      (if j = rec_id r then Some (r\<lparr>rec_slot := sl\<rparr>) else hm_get (mem_records m) j)" (is ?b)
    and "vector_at (load_record r v n m) j =
      (if j = rec_id r then map_option (prepared (mc_metric (mem_config m))) v else vector_at m j)" (is ?c)
    and "mem_config (load_record r v n m) = mem_config m" (is ?d)
    and "vi_free (mem_vectors m) = [] \<Longrightarrow> vi_free (mem_vectors (load_record r v n m)) = []" (is "_ \<Longrightarrow> ?e")
proof -
  have h: "hm_wf (mem_records m)" "\<And>i r. hm_get (mem_records m) i = Some r \<Longrightarrow> rec_id r = i"
    "vec_ok (mem_vectors m) (slot_of m)"
    "if stores_vectors (mc_mode (mem_config m)) then 0 < vi_dim (mem_vectors m) else slot_of m = Map.empty"
    "vi_dim (mem_vectors m) = mc_dim (mem_config m)" "vi_metric (mem_vectors m) = mc_metric (mem_config m)"
    using wf by (auto simp: memory_wf_def)
  have si: "slot_of m (rec_id r) = None" using i by (simp add: slot_of_def)
  obtain ix sl where st: "stored_vector v (slot_of m (rec_id r)) (mem_vectors m) = (ix, sl)" by fastforce
  let ?m = "load_record r v n m"
  have m': "mem_records ?m = hm_insert (rec_id r) (r\<lparr>rec_slot := sl\<rparr>) (mem_records m)" "mem_vectors ?m = ix"
    "mem_config ?m = mem_config m"
    using st v by (cases v; auto simp: load_record_def stored_vector_def si Let_def split: prod.splits)+
  show ?d by (rule m'(3))
  have l: "length vs = vi_dim (mem_vectors m) \<and> 0 < vi_dim (mem_vectors m)" if "v = Some vs" for vs
    using v [OF that] h(4,5) by simp
  note ok = stored_vector_ok [OF h(3) st l]
  have get: "hm_get (mem_records ?m) j = (if j = rec_id r then Some (r\<lparr>rec_slot := sl\<rparr>) else hm_get (mem_records m) j)" for j
    by (simp add: m' hm_get_insert)
  then show ?b by blast
  have s: "slot_of ?m = (slot_of m)(rec_id r := sl)" by (rule ext) (simp add: slot_of_def get)
  have "sl = None" if "\<not> stores_vectors (mc_mode (mem_config m))"
    using st v h(4) that by (cases v) (auto simp: stored_vector_def)
  then have "slot_of ?m = Map.empty" if "\<not> stores_vectors (mc_mode (mem_config m))"
    using h(4) that by (simp add: s)
  with h ok(1,4) s get show ?a by (auto simp: memory_wf_def m')
  have va: "vector_at ?m j = Option.bind (if j = rec_id r then sl else slot_of m j) (\<lambda>s. vector_get s ix)"
    by (simp add: vector_at_def s m')
  have "Option.bind sl (\<lambda>s. vector_get s ix) = map_option (prepared (mc_metric (mem_config m))) v"
    using ok(2) si h(6) by (cases v) simp_all
  moreover have "Option.bind (slot_of m j) (\<lambda>s. vector_get s ix) = vector_at m j" if "j \<noteq> rec_id r"
    using ok(3) [of j] that by (cases "slot_of m j") (simp_all add: vector_at_def)
  ultimately show ?c unfolding va by simp
  show ?e if "vi_free (mem_vectors m) = []"
    unfolding m'(2) using st that si
    by (cases v) (auto simp: stored_vector_def vector_insert_def vector_write_def Let_def split: prod.splits)
qed

lemma fold_load_spec:
  assumes "memory_wf m" and "distinct (map (rec_id \<circ> fst) rs)"
    and "\<And>r v. (r, v) \<in> set rs \<Longrightarrow> hm_get (mem_records m) (rec_id r) = None"
    and "\<And>r vs. (r, Some vs) \<in> set rs \<Longrightarrow> length vs = mc_dim (mem_config m) \<and> stores_vectors (mc_mode (mem_config m))"
  shows "memory_wf (fold (\<lambda>(r, v). load_record r v n) rs m) \<and>
    (\<forall>j. j \<notin> rec_id ` fst ` set rs \<longrightarrow>
      hm_get (mem_records (fold (\<lambda>(r, v). load_record r v n) rs m)) j = hm_get (mem_records m) j \<and>
      vector_at (fold (\<lambda>(r, v). load_record r v n) rs m) j = vector_at m j) \<and>
    (\<forall>(r, v) \<in> set rs.
      (\<exists>sl. hm_get (mem_records (fold (\<lambda>(r, v). load_record r v n) rs m)) (rec_id r) = Some (r\<lparr>rec_slot := sl\<rparr>)) \<and>
      vector_at (fold (\<lambda>(r, v). load_record r v n) rs m) (rec_id r) =
        map_option (prepared (mc_metric (mem_config m))) v) \<and>
    mem_config (fold (\<lambda>(r, v). load_record r v n) rs m) = mem_config m \<and>
    (vi_free (mem_vectors m) = [] \<longrightarrow> vi_free (mem_vectors (fold (\<lambda>(r, v). load_record r v n) rs m)) = [])"
  using assms
proof (induction rs arbitrary: m)
  case (Cons p rs)
  obtain r v where p: "p = (r, v)" by (cases p)
  let ?m = "load_record r v n m"
  have a: "hm_get (mem_records m) (rec_id r) = None" using Cons.prems(3) [of r v] by (simp add: p)
  have b: "length vs = mc_dim (mem_config m) \<and> stores_vectors (mc_mode (mem_config m))" if "v = Some vs" for vs
    using Cons.prems(4) [of r vs] that by (simp add: p)
  note s = load_record_spec [OF Cons.prems(1) a b, where n = n]
  obtain sl where sl: "\<And>j. hm_get (mem_records ?m) j =
      (if j = rec_id r then Some (r\<lparr>rec_slot := sl\<rparr>) else hm_get (mem_records m) j)"
    using s(2) by auto
  have d: "distinct (map (rec_id \<circ> fst) rs)" "rec_id r \<notin> rec_id ` fst ` set rs"
    using Cons.prems(2) by (simp_all add: p image_comp comp_def)
  have n: "hm_get (mem_records ?m) (rec_id r') = None" if "(r', v') \<in> set rs" for r' v'
  proof -
    have "rec_id r' \<noteq> rec_id r" using d(2) that by (metis fst_conv imageI)
    then show ?thesis using Cons.prems(3) [of r' v'] that by (simp add: sl)
  qed
  note IH = Cons.IH [OF s(1) d(1) n]
  have IH: "memory_wf (fold (\<lambda>(r, v). load_record r v n) rs ?m) \<and>
    (\<forall>j. j \<notin> rec_id ` fst ` set rs \<longrightarrow>
      hm_get (mem_records (fold (\<lambda>(r, v). load_record r v n) rs ?m)) j = hm_get (mem_records ?m) j \<and>
      vector_at (fold (\<lambda>(r, v). load_record r v n) rs ?m) j = vector_at ?m j) \<and>
    (\<forall>(r, v) \<in> set rs.
      (\<exists>sl. hm_get (mem_records (fold (\<lambda>(r, v). load_record r v n) rs ?m)) (rec_id r) = Some (r\<lparr>rec_slot := sl\<rparr>)) \<and>
      vector_at (fold (\<lambda>(r, v). load_record r v n) rs ?m) (rec_id r) =
        map_option (prepared (mc_metric (mem_config ?m))) v) \<and>
    mem_config (fold (\<lambda>(r, v). load_record r v n) rs ?m) = mem_config ?m \<and>
    (vi_free (mem_vectors ?m) = [] \<longrightarrow> vi_free (mem_vectors (fold (\<lambda>(r, v). load_record r v n) rs ?m)) = [])"
    by (rule IH) (use s(4) Cons.prems(4) in \<open>auto simp: p\<close>)
  then show ?case
    unfolding p fold_Cons comp_def prod.case set_simps
    using d(2) s sl by (auto simp: split: if_splits)
qed simp

lemma vector_at_length:
  assumes "memory_wf m" and "vector_at m i = Some vs"
  shows "length vs = mc_dim (mem_config m) \<and> stores_vectors (mc_mode (mem_config m))"
proof -
  have h: "if stores_vectors (mc_mode (mem_config m)) then 0 < vi_dim (mem_vectors m) else slot_of m = Map.empty"
    "vi_dim (mem_vectors m) = mc_dim (mem_config m)"
    using assms(1) by (auto simp: memory_wf_def)
  obtain s where s: "slot_of m i = Some s" "vector_get s (mem_vectors m) = Some vs"
    using assms(2) by (auto simp: vector_at_def bind_eq_Some_conv)
  then have "length vs = vi_dim (mem_vectors m)" by (auto simp: vector_get_def Let_def split: if_splits)
  with h s(1) show ?thesis by (auto split: if_splits)
qed

lemma sorted_ids_spec:
  assumes "memory_wf m"
  shows "set (sorted_ids E m) = {i. memory_get E m i \<noteq> None}" and "distinct (sorted_ids E m)"
proof -
  have h: "hm_wf (mem_records m)" "\<And>i r. hm_get (mem_records m) i = Some r \<Longrightarrow> rec_id r = i"
    using assms by (auto simp: memory_wf_def)
  let ?fs = "filter (\<lambda>(_, r). rec_is_live (now E) r) (mem_records m)"
  have e: "map (\<lambda>(_, r). rec_id r) ?fs = map fst ?fs"
  proof (rule map_cong [OF refl])
    fix p assume "p \<in> set ?fs"
    then have "hm_get (mem_records m) (fst p) = Some (snd p)" using h(1) by (auto simp: hm_get_mem)
    then show "(case p of (_, r) \<Rightarrow> rec_id r) = fst p" using h(2) by (simp add: case_prod_beta)
  qed
  show "distinct (sorted_ids E m)"
    unfolding sorted_ids_def e distinct_sort using hm_wf_filter [OF h(1)] by (simp add: hm_wf_def)
  show "set (sorted_ids E m) = {i. memory_get E m i \<noteq> None}"
  proof (rule set_eqI)
    fix i
    have "i \<in> set (sorted_ids E m) \<longleftrightarrow> (\<exists>r. (i, r) \<in> set (mem_records m) \<and> rec_is_live (now E) r)"
      unfolding sorted_ids_def e set_sort by force
    then show "i \<in> set (sorted_ids E m) \<longleftrightarrow> i \<in> {i. memory_get E m i \<noteq> None}"
      using hm_get_mem [OF h(1), of i] by (auto simp: memory_get_def split: option.split)
  qed
qed

lemma records_for_dump_spec:
  assumes wf: "memory_wf m"
  shows "(r, v) \<in> set (records_for_dump E m) \<longleftrightarrow> memory_get E m (rec_id r) = Some r \<and> v = vector_at m (rec_id r)"
    and "map (rec_id \<circ> fst) (records_for_dump E m) = sorted_ids E m"
proof -
  have h: "hm_wf (mem_records m)" "\<And>i r. hm_get (mem_records m) i = Some r \<Longrightarrow> rec_id r = i"
    using wf by (auto simp: memory_wf_def)
  note ids = sorted_ids_spec [OF wf, of E]
  have g: "\<exists>r. hm_get (mem_records m) i = Some r \<and> rec_is_live (now E) r \<and> rec_id r = i" if "i \<in> set (sorted_ids E m)" for i
  proof -
    from that ids(1) have "memory_get E m i \<noteq> None" by simp
    then obtain r where "hm_get (mem_records m) i = Some r" "rec_is_live (now E) r"
      by (auto simp: memory_get_def split: option.splits if_splits)
    with h(2) show ?thesis by blast
  qed
  have a: "filter (rec_is_live (now E)) (List.map_filter (hm_get (mem_records m)) is) =
      map (\<lambda>i. the (hm_get (mem_records m) i)) is" if "set is \<subseteq> set (sorted_ids E m)" for "is"
    using that
  proof (induction "is")
    case (Cons i js)
    then have "i \<in> set (sorted_ids E m)" by simp
    with g obtain r where "hm_get (mem_records m) i = Some r" "rec_is_live (now E) r" by blast
    with Cons show ?case by (simp add: List.map_filter_simps)
  qed (simp add: List.map_filter_simps)
  have b: "records_for_dump E m = map (\<lambda>i. let r = the (hm_get (mem_records m) i) in
      (r, Option.bind (rec_slot r) (\<lambda>s. vector_get s (mem_vectors m)))) (sorted_ids E m)"
    unfolding records_for_dump_def using a [OF subset_refl] by (simp add: Let_def)
  have c: "records_for_dump E m = map (\<lambda>i. (the (hm_get (mem_records m) i), vector_at m i)) (sorted_ids E m)"
    unfolding b
  proof (rule map_cong [OF refl])
    fix i assume "i \<in> set (sorted_ids E m)"
    with g obtain r where "hm_get (mem_records m) i = Some r" by blast
    then show "(let r = the (hm_get (mem_records m) i) in
        (r, Option.bind (rec_slot r) (\<lambda>s. vector_get s (mem_vectors m)))) = (the (hm_get (mem_records m) i), vector_at m i)"
      by (simp add: vector_at_def slot_of_def)
  qed
  show "map (rec_id \<circ> fst) (records_for_dump E m) = sorted_ids E m"
    unfolding c map_map
  proof (rule map_idI)
    fix i assume "i \<in> set (sorted_ids E m)"
    with g obtain r where "hm_get (mem_records m) i = Some r" "rec_id r = i" by blast
    then show "((rec_id \<circ> fst) \<circ> (\<lambda>i. (the (hm_get (mem_records m) i), vector_at m i))) i = i" by simp
  qed
  have "(r, v) \<in> set (records_for_dump E m) \<longleftrightarrow>
      (\<exists>i. memory_get E m i \<noteq> None \<and> r = the (hm_get (mem_records m) i) \<and> v = vector_at m i)"
    unfolding c using ids(1) by auto
  also have "\<dots> \<longleftrightarrow> (\<exists>i. memory_get E m i = Some r \<and> v = vector_at m i)"
    by (rule ex_cong1) (auto simp: memory_get_def split: option.splits if_splits)
  also have "\<dots> \<longleftrightarrow> memory_get E m (rec_id r) = Some r \<and> v = vector_at m (rec_id r)"
  proof -
    have "rec_id r = i" if "memory_get E m i = Some r" for i
      using that h(2) [of i r] by (simp add: memory_get_def split: option.splits if_splits)
    then show ?thesis by blast
  qed
  finally show "(r, v) \<in> set (records_for_dump E m) \<longleftrightarrow> memory_get E m (rec_id r) = Some r \<and> v = vector_at m (rec_id r)" .
qed

text \<open>
  A clone has the live records with their fields and vectors, the expired ones dropped, and an array
  without a free slot.
\<close>

lemma memory_clone_spec:
  assumes wf: "memory_wf m"
  shows "memory_wf (memory_clone E m)" (is ?a)
    and "\<exists>sl. hm_get (mem_records (memory_clone E m)) i = map_option (\<lambda>r. r\<lparr>rec_slot := sl\<rparr>) (memory_get E m i)" (is ?b)
    and "memory_get E m i \<noteq> None \<Longrightarrow>
      vector_at (memory_clone E m) i = map_option (prepared (mc_metric (mem_config m))) (vector_at m i)"
    and "mem_config (memory_clone E m) = mem_config m" (is ?d)
    and "vi_free (mem_vectors (memory_clone E m)) = []" (is ?e)
proof -
  let ?rs = "records_for_dump E m"
  let ?n = "memory_new (mem_config m)"
  let ?f = "fold (\<lambda>(r, v). load_record r v None) ?rs ?n"
  note rs = records_for_dump_spec [OF wf, where E = E]
  have new: "memory_wf ?n" using wf by (intro memory_new_wf) (auto simp: memory_wf_def)
  have d: "distinct (map (rec_id \<circ> fst) ?rs)" using sorted_ids_spec(2) [OF wf] rs(2) by simp
  note f = fold_load_spec [OF new d, of None]
  have f: "memory_wf ?f \<and>
    (\<forall>j. j \<notin> rec_id ` fst ` set ?rs \<longrightarrow> hm_get (mem_records ?f) j = hm_get (mem_records ?n) j \<and> vector_at ?f j = vector_at ?n j) \<and>
    (\<forall>(r, v) \<in> set ?rs. (\<exists>sl. hm_get (mem_records ?f) (rec_id r) = Some (r\<lparr>rec_slot := sl\<rparr>)) \<and>
      vector_at ?f (rec_id r) = map_option (prepared (mc_metric (mem_config ?n))) v) \<and>
    mem_config ?f = mem_config ?n \<and> (vi_free (mem_vectors ?n) = [] \<longrightarrow> vi_free (mem_vectors ?f) = [])"
  proof (rule f)
    fix r v assume "(r, v) \<in> set ?rs"
    show "hm_get (mem_records ?n) (rec_id r) = None" by (simp add: memory_new_def)
  next
    fix r vs assume "(r, Some vs) \<in> set ?rs"
    then have "vector_at m (rec_id r) = Some vs" by (simp add: rs(1))
    from vector_at_length [OF wf this]
    show "length vs = mc_dim (mem_config ?n) \<and> stores_vectors (mc_mode (mem_config ?n))" by (simp add: memory_new_def)
  qed
  define N where "N = ?f"
  note f = f [folded N_def]
  have f1: "memory_wf N" using f by (elim conjE)
  have f2: "hm_get (mem_records N) i = None" if "memory_get E m i = None"
  proof -
    have "rec_id ` fst ` set ?rs = set (sorted_ids E m)"
      using arg_cong [OF rs(2), of set] by (simp only: set_map image_comp)
    with sorted_ids_spec(1) [OF wf, of E] that have "i \<notin> rec_id ` fst ` set ?rs" by simp
    with f have "hm_get (mem_records N) i = hm_get (mem_records ?n) i" by (elim conjE) blast
    then show ?thesis by (simp add: memory_new_def)
  qed
  have f3: "(\<exists>sl. hm_get (mem_records N) i = Some (r\<lparr>rec_slot := sl\<rparr>)) \<and>
      vector_at N i = map_option (prepared (mc_metric (mem_config m))) (vector_at m i)"
    if "memory_get E m i = Some r" for r
  proof -
    have g: "rec_id r = i"
      using that wf by (auto simp: memory_get_def memory_wf_def split: option.splits if_splits)
    have "(r, vector_at m i) \<in> set ?rs" using rs(1) g that by simp
    with f have "(\<exists>sl. hm_get (mem_records N) (rec_id r) = Some (r\<lparr>rec_slot := sl\<rparr>)) \<and>
      vector_at N (rec_id r) = map_option (prepared (mc_metric (mem_config ?n))) (vector_at m i)"
      by (elim conjE) (drule (1) bspec, simp)
    then show ?thesis by (simp only: g) (simp add: memory_new_def)
  qed
  have f4: "mem_config N = mem_config m" using f by (elim conjE) (simp add: memory_new_def)
  have f5: "vi_free (mem_vectors N) = []"
    using f by (elim conjE) (simp add: memory_new_def vector_new_def)
  have c: "memory_clone E m = N\<lparr>mem_next_id := max (mem_next_id m) 1\<rparr>"
    by (simp add: memory_clone_def set_next_id_def N_def)
  have v: "slot_of (memory_clone E m) = slot_of N" "vector_at (memory_clone E m) = vector_at N"
    "mem_records (memory_clone E m) = mem_records N" "mem_config (memory_clone E m) = mem_config N"
    "mem_vectors (memory_clone E m) = mem_vectors N"
    by (simp_all add: c slot_of_def vector_at_def fun_eq_iff)
  show ?a using f1 by (simp add: c memory_wf_next)
  show ?d by (simp add: v f4)
  show ?e by (simp add: v f5)
  show ?b
  proof (cases "memory_get E m i")
    case None
    with f2 show ?thesis by (simp add: v)
  next
    case (Some r)
    with f3 [OF Some] show ?thesis by (simp add: v)
  qed
  show "vector_at (memory_clone E m) i = map_option (prepared (mc_metric (mem_config m))) (vector_at m i)"
    if "memory_get E m i \<noteq> None"
    using that f3 by (auto simp: v)
qed

end
