(* ===== verification/Tidy.thy ===== *)
theory Tidy
  imports Persist MemClone
begin

text \<open>
  The invariant on the values a store holds, and how far an operation may bend it: a command
  builds an empty collection before it fills it and empties one before it deletes the key, so
  between operations only the values no client can see have to be well formed. \<open>tidy\<close> says
  that, every operation of \<open>Store\<close> keeps it, and a command that leaves only well-formed values
  visible has restored the invariant.
\<close>

fun val_wf :: "val \<Rightarrow> bool" where
  "val_wf (VStr s) \<longleftrightarrow> True"
| "val_wf (VList l) \<longleftrightarrow> l \<noteq> []"
| "val_wf (VHash h) \<longleftrightarrow> h \<noteq> [] \<and> hm_wf h"
| "val_wf (VSet s) \<longleftrightarrow> s \<noteq> [] \<and> distinct s"
| "val_wf (VZset z) \<longleftrightarrow> z \<noteq> [] \<and> zset_wf z"
| "val_wf (VMemory m) \<longleftrightarrow> memory_wf m"

text \<open>No visible value is malformed; in particular no empty collection is visible.\<close>

definition vals_ok :: "(bytes \<Rightarrow> datum option) \<Rightarrow> bool" where
  "vals_ok M \<longleftrightarrow> (\<forall>k v t. M k = Some (v, t) \<longrightarrow> val_wf v)"

definition store_ok :: "store \<Rightarrow> bool" where
  "store_ok st \<longleftrightarrow> store_wf st \<and> vals_ok (contents st)"

definition tidy :: "env \<Rightarrow> store \<Rightarrow> bool" where
  "tidy E st \<longleftrightarrow> store_wf st \<and>
     (\<forall>k v t. contents st k = Some (v, t) \<longrightarrow> val_wf v \<or> live E st k = Some (v, t))"

lemma tidy_wf: "tidy E st \<Longrightarrow> store_wf st"
  by (simp add: tidy_def)

lemma vals_okD: "vals_ok M \<Longrightarrow> M k = Some (v, t) \<Longrightarrow> val_wf v"
  by (auto simp: vals_ok_def)

lemma vals_ok_updI [simp, intro]: "vals_ok M \<Longrightarrow> val_wf v \<Longrightarrow> vals_ok (M(k \<mapsto> (v, t)))"
  by (auto simp: vals_ok_def)

lemma vals_ok_del [simp, intro]: "vals_ok M \<Longrightarrow> vals_ok (M(k := None))"
  by (auto simp: vals_ok_def)

lemma vals_ok_empty [simp]: "vals_ok Map.empty"
  by (simp add: vals_ok_def)

lemma store_okD:
  assumes "store_ok st"
  shows "store_wf st" and "tidy E st" and "vals_ok (live E st)"
  using assms by (auto simp: store_ok_def tidy_def vals_ok_def dest!: live_unexpired)

lemma tidy_store_ok: "tidy E st \<Longrightarrow> vals_ok (live E st) \<Longrightarrow> store_ok st"
  unfolding tidy_def vals_ok_def store_ok_def by blast

lemma live_cong: "contents s x = contents st x \<Longrightarrow> live E s x = live E st x"
  by (simp add: live_def)

lemma tidyI:
  assumes "store_wf s" and "tidy E st"
    and "\<And>x. contents s x = contents st x \<or> contents s x = None \<or> contents s x = live E s x \<or>
      (\<exists>v t. contents s x = Some (v, t) \<and> val_wf v)"
  shows "tidy E s"
  unfolding tidy_def
proof (intro conjI allI impI)
  fix k v t
  assume s: "contents s k = Some (v, t)"
  consider "contents s k = contents st k" | "live E s k = Some (v, t)" | "val_wf v"
    using assms(3) [of k] s by auto
  then show "val_wf v \<or> live E s k = Some (v, t)"
  proof cases
    case 1
    with s have "contents st k = Some (v, t)" by simp
    then show ?thesis using assms(2) live_cong [OF 1, of E] by (auto simp: tidy_def)
  qed simp_all
qed (rule assms(1))

lemma contents_remove: "store_wf st \<Longrightarrow> contents (fst (remove_entry k st)) = (contents st)(k := None)"
  by (rule remove_entry_wf)

lemma contents_insert:
  "store_wf st \<Longrightarrow> contents (insert_entry k e st) = (contents st)(k \<mapsto> datum_of e)"
  by (simp add: insert_entry_wf)

lemma contents_put:
  "contents (put_value k v st) = (contents st)(k := map_option (\<lambda>d. (v, snd d)) (contents st k))"
  by (rule ext) (simp add: put_value_def contents_modify contents_def hm_get_modify option.map_comp
      comp_def datum_of_def)

lemma find_tidy: "tidy E st \<Longrightarrow> tidy E (fst (find E k st))"
  by (rule tidyI [of _ E st]) (auto simp: find_wf find_contents find_live tidy_wf)

lemma mark_dirty_tidy [simp]: "tidy E (mark_dirty st) = tidy E st"
  by (simp add: tidy_def)

lemma remove_entry_tidy: "tidy E st \<Longrightarrow> tidy E (fst (remove_entry k st))"
  by (rule tidyI [of _ E st]) (auto simp: remove_entry_wf tidy_wf)

lemma insert_entry_tidy:
  "tidy E st \<Longrightarrow> unexpired E (datum_of e) \<or> val_wf (evalue e) \<Longrightarrow> tidy E (insert_entry k e st)"
  by (rule tidyI [of _ E st]) (auto simp: insert_entry_wf live_insert datum_of_def tidy_wf)

lemma put_value_tidy:
  assumes "tidy E st" and "live E st k \<noteq> None"
  shows "tidy E (put_value k v st)"
proof -
  obtain w t where l: "live E st k = Some (w, t)" using assms(2) by (cases "live E st k") auto
  from live_unexpired [OF l] l show ?thesis
    by (intro tidyI [OF _ assms(1)]) (auto simp: put_value_spec tidy_wf [OF assms(1)] contents_put)
qed

lemma find_pair_tidy: "tidy E st \<Longrightarrow> find E k st = (s, r) \<Longrightarrow> tidy E s"
  using find_tidy [of E st k] by simp

lemma tidy_rng [simp]: "tidy E (st\<lparr>rng := s\<rparr>) = tidy E st"
  by (simp add: tidy_def)

lemma tidy_view: "store_wf s = store_wf st \<Longrightarrow> contents s = contents st \<Longrightarrow> tidy E s = tidy E st"
  using live_contents [of s st E] by (simp add: tidy_def)

lemma reads_tidy:
  assumes "tidy E st"
  shows "tidy E (fst (exists_key E k st))" "tidy E (fst (type_of E k st))"
    "tidy E (fst (has_expiry E k st))" "tidy E (fst (pttl_ms E k st))" "tidy E (fst (ttl E k st))"
    "tidy E (fst (get_string E k st))" "tidy E (fst (read_collection prj E k st))"
    "tidy E (fst (write_collection prj E k st))" "tidy E (fst (get_existing_memory E k st))"
    "tidy E (delete_if_empty E k st)" "tidy E (fst (del E k st))"
  using find_tidy [OF assms, of k] remove_entry_tidy
  by (auto simp: exists_key_def type_of_def has_expiry_def pttl_ms_def ttl_def get_string_def
      read_collection_def write_collection_def get_existing_memory_def delete_if_empty_def del_def
      case_prod_beta split: option.split)

lemma expire_if_due_tidy: "tidy E st \<Longrightarrow> tidy E (expire_if_due E k st)"
  by (rule tidyI [of _ E st])
    (auto simp: expire_if_due_wf contents_expire tidy_wf live_idem [OF contents_expire])

lemma peek_type_tidy: "tidy E st \<Longrightarrow> tidy E (fst (peek_type E k st))"
  by (simp add: peek_type_def Let_def expire_if_due_tidy)

lemma set_string_tidy: "tidy E st \<Longrightarrow> tidy E (set_string E k v st)"
  by (simp add: set_string_def Let_def insert_entry_tidy)

lemma update_string_tidy:
  assumes "tidy E st"
  shows "tidy E (update_string E k v st)"
proof -
  have t: "tidy E (mark_dirty st)" using assms by simp
  from tidy_wf [OF t] show ?thesis
  proof (cases rule: find_cases [where E = E and k = k])
    case (missing st')
    then show ?thesis
      using find_pair_tidy [OF t missing(1)] by (simp add: update_string_def insert_entry_tidy)
  next
    case (found st' e)
    then show ?thesis
      using find_pair_tidy [OF t found(1)] by (simp add: update_string_def put_value_tidy)
  qed
qed

lemma get_or_create_tidy:
  assumes "tidy E st"
  shows "tidy E (fst (get_or_create prj dflt E k st))"
  using find_tidy [of E "mark_dirty st" k] assms
  by (auto simp: get_or_create_def case_prod_beta insert_entry_tidy split: option.split)

lemma create_memory_tidy: "tidy E st \<Longrightarrow> tidy E (fst (create_memory E k m st))"
  using reads_tidy(1) [of E st k]
  by (auto simp: create_memory_def case_prod_beta Let_def insert_entry_tidy)

lemma flush_tidy: "tidy E (fst (flush st))"
  by (simp add: tidy_def flush_spec)

lemma sweep_expired_tidy: "tidy E st \<Longrightarrow> tidy E (sweep_expired E st)"
  by (rule tidyI [of _ E st]) (auto simp: sweep_expired_spec tidy_wf live_def split: option.split)

lemma random_key_tidy: "tidy E (fst (random_key E st)) = tidy E st"
  by (rule tidy_view) (rule random_key_view)+

lemma sample_tidy: "tidy E (fst (sample E vol n st)) = tidy E st"
  by (rule tidy_view) (rule sample_view)+

lemma evict_tidy: "tidy E st \<Longrightarrow> tidy E (fst (evict k st))"
  by (rule tidyI [of _ E st]) (auto simp: evict_spec tidy_wf)

lemma reset_dirty_tidy: "tidy E (reset_dirty st) = tidy E st"
  by (rule tidy_view) simp_all

text \<open>A deadline in the past hides a value that stays stored until the next lookup, so it has to
  be well formed already.\<close>

lemma set_expire_at_tidy:
  assumes "tidy E st" and "vals_ok (live E st)"
  shows "tidy E (fst (set_expire_at E k t st))"
  using tidy_wf [OF assms(1)]
proof (cases rule: find_cases [where E = E and k = k])
  case (missing st')
  then show ?thesis using find_pair_tidy [OF assms(1) missing(1)] by (simp add: set_expire_at_def)
next
  case (found st' e)
  note t = find_pair_tidy [OF assms(1) found(1)]
  have v: "val_wf (evalue e)"
    using assms(2) found(3) by (auto simp: vals_ok_def datum_of_def)
  let ?s = "sync_volatile k (st'\<lparr>entries := hm_modify k (\<lambda>e. e\<lparr>expire_at := t\<rparr>) (entries st')\<rparr>)"
  have s: "fst (set_expire_at E k t st) = mark_dirty ?s" using found(1) by (simp add: set_expire_at_def)
  have "contents ?s = (contents st')(k := Some (evalue e, t))"
    by (rule ext) (simp add: contents_modify found)
  moreover have "store_wf ?s"
    using set_expire_at_spec(1) [OF tidy_wf [OF assms(1)], of E k t] s by simp
  ultimately have "tidy E ?s" by (intro tidyI [OF _ t]) (auto simp: v)
  then show ?thesis by (simp add: s)
qed

lemma rename_tidy:
  assumes "tidy E st"
  shows "tidy E (fst (rename E k k' st))"
  using tidy_wf [OF assms(1)]
proof (cases rule: find_cases [where E = E and k = k])
  case (missing st')
  then show ?thesis using find_pair_tidy [OF assms(1) missing(1)] by (simp add: rename_def)
next
  case (found st' e)
  note t = find_pair_tidy [OF assms(1) found(1)]
  obtain s r where r: "remove_entry k st' = (s, r)" by (meson surj_pair)
  have "r = Some e" using r found(4) by (simp add: remove_entry_def Let_def)
  moreover have "unexpired E (datum_of e)" using live_unexpired [OF found(3)] by simp
  moreover have "tidy E s" using remove_entry_tidy [OF t, of k] r by simp
  ultimately show ?thesis
    using t r found(1) by (simp add: rename_def insert_entry_tidy)
qed

lemma copy_tidy:
  assumes "tidy E st"
  shows "tidy E (fst (copy E k dest replace st))"
  using tidy_wf [OF assms(1)]
proof (cases rule: find_cases [where E = E and k = k])
  case (missing st')
  then show ?thesis using find_pair_tidy [OF assms(1) missing(1)] by (simp add: copy_def)
next
  case (found st' e)
  note t = find_pair_tidy [OF assms(1) found(1)]
  obtain s taken where r: "(if replace then (st', False) else exists_key E dest st') = (s, taken)"
    by (meson surj_pair)
  have s: "tidy E s" "live E s = live E st'"
    using r t reads_tidy(1) [OF t, of dest] exists_key_spec(2) [OF tidy_wf [OF t], of E dest]
    by (auto split: if_splits)
  have "live E s k = Some (datum_of e)" using s(2) found(3,6) by simp
  note l = live_unexpired [OF this]
  then obtain e' where e': "hm_get (entries s) k = Some e'" "datum_of e' = datum_of e"
    by (auto simp: contents_def)
  have "unexpired E (datum_of (e'\<lparr>evalue := val_clone E (evalue e')\<rparr>))"
    using l e'(2) by (simp add: datum_of_def unexpired_def)
  with s e'(1) found(1) r show ?thesis
    by (cases taken) (simp_all add: copy_def insert_entry_tidy)
qed

end
