(* ===== verification/CmdBase.thy ===== *)
theory CmdBase
  imports Tidy Config Resp
begin

text \<open>
  What the command handlers of \<^verbatim>\<open>src/commands/\<close> share: argument checks, the standard errors,
  deadlines, and the way their effect is stated. A handler here takes the environment (one
  reading of the clock for the whole command), the configuration, the argument vector and the
  store, and returns the new store and the reply; the early return of an argument check is a
  branch. \<open>wp E Q\<close> says of such a result that the store is tidy and that \<open>Q\<close> holds of the live
  map and the reply. The rules collected in \<open>wp\<close> push it through lookups, updates and case
  distinctions, one rule for each operation of the store.
\<close>

named_theorems wp

subsection \<open>Errors and argument checks\<close>

definition wrongtype :: reply where
  "wrongtype = Error ''WRONGTYPE Operation against a key holding the wrong kind of value''"

definition not_an_integer :: reply where
  "not_an_integer = Error ''ERR value is not an integer or out of range''"

definition not_a_float :: reply where
  "not_a_float = Error ''ERR value is not a valid float''"

definition syntax_error :: reply where
  "syntax_error = Error ''ERR syntax error''"

definition unknown_in_family :: reply where
  "unknown_in_family = Error ''ERR unknown command''"

fun is_error :: "reply \<Rightarrow> bool" where
  "is_error (Error m) \<longleftrightarrow> True"
| "is_error _ \<longleftrightarrow> False"

text \<open>The type check lets a missing key pass.\<close>

definition check_type :: "env \<Rightarrow> bytes \<Rightarrow> store_type \<Rightarrow> store \<Rightarrow> store \<times> bool" where
  "check_type E k want st =
     (let (st, found) = peek_type E k st
      in (st, case found of Some t \<Rightarrow> t = want | None \<Rightarrow> True))"

definition exact_args :: "bytes list \<Rightarrow> nat \<Rightarrow> bool" where
  "exact_args av n \<longleftrightarrow> length av = n + 1"

definition min_args :: "bytes list \<Rightarrow> nat \<Rightarrow> bool" where
  "min_args av n \<longleftrightarrow> length av > n"

text \<open>\<open>chunks(2)\<close> of an even number of arguments.\<close>

fun chunks2 :: "'a list \<Rightarrow> ('a \<times> 'a) list" where
  "chunks2 (x # y # xs) = (x, y) # chunks2 xs"
| "chunks2 _ = []"

lemma chunks2_nonempty: "2 \<le> length xs \<Longrightarrow> chunks2 xs \<noteq> []"
  by (induction xs rule: chunks2.induct) auto

subsection \<open>Deadlines\<close>

definition deadline_after_millis :: "env \<Rightarrow> int \<Rightarrow> time" where
  "deadline_after_millis E millis = now E + millis * 1000000"

definition deadline_at_unix_millis :: "int \<Rightarrow> time" where
  "deadline_at_unix_millis millis = (if millis \<le> 0 then 0 else millis * 1000000)"

definition bulk_or_nil :: "bytes option \<Rightarrow> reply" where
  "bulk_or_nil v = (case v of Some b \<Rightarrow> Bulk b | None \<Rightarrow> RNil)"

definition of_int_reply :: "nat \<Rightarrow> reply" where
  "of_int_reply n = Integer (as_i64 (int n))"

lemma is_error_simps [simp]:
  "is_error wrongtype" "is_error not_an_integer" "is_error not_a_float" "is_error syntax_error"
  "is_error unknown_in_family" "is_error (wrong_arity name)" "\<not> is_error reply_ok"
  "\<not> is_error (reply_bool b)" "\<not> is_error (bulk_or_nil v)" "\<not> is_error (bulk_array bs)"
  "\<not> is_error (of_int_reply n)"
  by (simp_all add: wrongtype_def not_an_integer_def not_a_float_def syntax_error_def
      unknown_in_family_def wrong_arity_def reply_ok_def reply_bool_def bulk_or_nil_def bulk_array_def
      of_int_reply_def split: option.split)

subsection \<open>The effect of a handler\<close>

definition wp :: "env \<Rightarrow> ((bytes \<Rightarrow> datum option) \<Rightarrow> 'r \<Rightarrow> bool) \<Rightarrow> store \<times> 'r \<Rightarrow> bool" where
  "wp E Q x \<longleftrightarrow> tidy E (fst x) \<and> Q (live E (fst x)) (snd x)"

text \<open>The same of a handler that may panic: it does not.\<close>

definition wpo :: "env \<Rightarrow> ((bytes \<Rightarrow> datum option) \<Rightarrow> 'r \<Rightarrow> bool) \<Rightarrow> (store \<times> 'r) outcome \<Rightarrow> bool" where
  "wpo E Q x \<longleftrightarrow> (case x of Done y \<Rightarrow> wp E Q y | Panicked \<Rightarrow> False)"

lemma wpo_Done [wp]: "wp E Q y \<Longrightarrow> wpo E Q (Done y)"
  by (simp add: wpo_def)

lemma wpo_bind:
  "wpo E R x \<Longrightarrow> (\<And>s r. tidy E s \<Longrightarrow> R (live E s) r \<Longrightarrow> wpo E Q (f s r)) \<Longrightarrow>
   wpo E Q (case x of Panicked \<Rightarrow> Panicked | Done (s, r) \<Rightarrow> f s r)"
  by (cases x) (auto simp: wpo_def wp_def)

lemma wpo_case:
  "v \<noteq> Panicked \<Longrightarrow> (\<And>y. v = Done y \<Longrightarrow> wpo E Q (f y)) \<Longrightarrow>
   wpo E Q (case v of Done y \<Rightarrow> f y | Panicked \<Rightarrow> Panicked)"
  by (cases v) simp_all

text \<open>What every command guarantees: no malformed value is left visible, only the keys it names
  change, and an error changes nothing.\<close>

definition effect_on :: "bytes set \<Rightarrow> (bytes \<Rightarrow> datum option) \<Rightarrow> (bytes \<Rightarrow> datum option) \<Rightarrow> reply \<Rightarrow> bool" where
  "effect_on K L M r \<longleftrightarrow> vals_ok M \<and> (\<forall>k. k \<notin> K \<longrightarrow> M k = L k) \<and> (is_error r \<longrightarrow> M = L)"

lemma effect_onI [wp]:
  "vals_ok M \<Longrightarrow> (\<And>k. k \<notin> K \<Longrightarrow> M k = L k) \<Longrightarrow> (is_error r \<Longrightarrow> M = L) \<Longrightarrow> effect_on K L M r"
  by (simp add: effect_on_def)

definition sound :: "env \<Rightarrow> bytes set \<Rightarrow> store \<Rightarrow> store \<times> reply \<Rightarrow> bool" where
  "sound E K st x \<longleftrightarrow> (store_ok st \<longrightarrow> wp E (effect_on K (live E st)) x)"

lemma soundI:
  "(tidy E st \<Longrightarrow> vals_ok (live E st) \<Longrightarrow> wp E (effect_on K (live E st)) x) \<Longrightarrow> sound E K st x"
  using store_okD [of st] by (auto simp: sound_def)

definition sounds :: "env \<Rightarrow> bytes set \<Rightarrow> store \<Rightarrow> (store \<times> reply) outcome \<Rightarrow> bool" where
  "sounds E K st x \<longleftrightarrow> (store_ok st \<longrightarrow> wpo E (effect_on K (live E st)) x)"

lemma soundsI:
  "(tidy E st \<Longrightarrow> vals_ok (live E st) \<Longrightarrow> wpo E (effect_on K (live E st)) x) \<Longrightarrow> sounds E K st x"
  using store_okD [of st] by (auto simp: sounds_def)

lemma sounds_Done [simp]: "sounds E K st (Done x) = sound E K st x"
  by (simp add: sounds_def sound_def wpo_def)

lemma sound_store_ok: "sound E K st x \<Longrightarrow> store_ok st \<Longrightarrow> store_ok (fst x)"
  by (auto simp: sound_def wp_def effect_on_def intro: tidy_store_ok)

lemma sound_mono: "sound E K st x \<Longrightarrow> K \<subseteq> K' \<Longrightarrow> sound E K' st x"
  by (auto simp: sound_def wp_def effect_on_def)

lemma wp_return [wp]: "tidy E st \<Longrightarrow> Q (live E st) r \<Longrightarrow> wp E Q (st, r)"
  by (simp add: wp_def)

lemma step_if: "(b \<Longrightarrow> P x) \<Longrightarrow> (\<not> b \<Longrightarrow> P y) \<Longrightarrow> P (if b then x else y)"
  by simp

lemma step_option:
  "(v = None \<Longrightarrow> P x) \<Longrightarrow> (\<And>a. v = Some a \<Longrightarrow> P (f a)) \<Longrightarrow>
   P (case v of None \<Rightarrow> x | Some a \<Rightarrow> f a)"
  by (cases v) simp_all

lemma step_list:
  "(v = [] \<Longrightarrow> P x) \<Longrightarrow> (\<And>a as. v = a # as \<Longrightarrow> P (f a as)) \<Longrightarrow>
   P (case v of [] \<Rightarrow> x | a # as \<Rightarrow> f a as)"
  by (cases v) simp_all

lemma step_sum:
  "(\<And>a. v = Inl a \<Longrightarrow> P (f a)) \<Longrightarrow> (\<And>a. v = Inr a \<Longrightarrow> P (g a)) \<Longrightarrow>
   P (case v of Inl a \<Rightarrow> f a | Inr a \<Rightarrow> g a)"
  by (cases v) simp_all

lemma step_prod: "(\<And>a b. v = (a, b) \<Longrightarrow> P (f a b)) \<Longrightarrow> P (case v of (a, b) \<Rightarrow> f a b)"
  by (cases v) simp

lemma step_let: "P (f v) \<Longrightarrow> P (Let v f)"
  by simp

lemma step_let_if:
  "(b \<Longrightarrow> P (Let x f)) \<Longrightarrow> (\<not> b \<Longrightarrow> P (Let y f)) \<Longrightarrow> P (Let (if b then x else y) f)"
  by simp

lemma step_let_option:
  "(v = None \<Longrightarrow> P (Let x f)) \<Longrightarrow> (\<And>a. v = Some a \<Longrightarrow> P (Let (g a) f)) \<Longrightarrow>
   P (Let (case v of None \<Rightarrow> x | Some a \<Rightarrow> g a) f)"
  by (cases v) simp_all

lemma step_let_pair: "P (f a b) \<Longrightarrow> P (let (s, r) = (a, b) in f s r)"
  by simp

text \<open>Sequencing through a helper whose own effect is known.\<close>

lemma wp_bind:
  "wp E R x \<Longrightarrow> (\<And>s r. tidy E s \<Longrightarrow> R (live E s) r \<Longrightarrow> wp E Q (f s r)) \<Longrightarrow>
   wp E Q (let (s, r) = x in f s r)"
  by (cases x) (simp add: wp_def)

lemma wp_weaken: "wp E R x \<Longrightarrow> (\<And>M r. R M r \<Longrightarrow> Q M r) \<Longrightarrow> wp E Q x"
  by (simp add: wp_def)

subsection \<open>Updates of the live map\<close>

text \<open>What the composite operations of the store do to the live map, each under a name, with its
  frame and the values it leaves.\<close>

definition drop_empty :: "bytes \<Rightarrow> (bytes \<Rightarrow> datum option) \<Rightarrow> (bytes \<Rightarrow> datum option)" where
  "drop_empty k M = (case M k of None \<Rightarrow> M
     | Some d \<Rightarrow> if is_empty_collection (fst d) then M(k := None) else M)"

definition with_deadline ::
    "env \<Rightarrow> bytes \<Rightarrow> time option \<Rightarrow> (bytes \<Rightarrow> datum option) \<Rightarrow> (bytes \<Rightarrow> datum option)" where
  "with_deadline E k t M = (case M k of None \<Rightarrow> M
     | Some (v, _) \<Rightarrow> M(k := if unexpired E (v, t) then Some (v, t) else None))"

definition deadline_of :: "datum option \<Rightarrow> time option" where
  "deadline_of d = Option.bind d snd"

lemma deadline_of_simps [simp]: "deadline_of None = None" "deadline_of (Some (v, t)) = t"
  by (simp_all add: deadline_of_def)

lemma drop_empty_other [simp]: "x \<noteq> k \<Longrightarrow> drop_empty k M x = M x"
  by (simp add: drop_empty_def split: option.split)

lemma drop_empty_upd [simp]:
  "drop_empty k (M(k \<mapsto> (v, t))) = (if is_empty_collection v then M(k := None) else M(k \<mapsto> (v, t)))"
  by (simp add: drop_empty_def)

lemma drop_empty_upd_other [simp]: "k \<noteq> x \<Longrightarrow> drop_empty k (M(x := d)) = (drop_empty k M)(x := d)"
  by (auto simp: drop_empty_def fun_upd_twist split: option.split)

lemma not_empty_wf: "val_wf v \<Longrightarrow> \<not> is_empty_collection v"
  by (cases v) simp_all

lemma drop_empty_ok [simp]: "vals_ok M \<Longrightarrow> drop_empty k M = M"
  by (auto simp: drop_empty_def vals_ok_def not_empty_wf split: option.split)

lemma with_deadline_other [simp]: "x \<noteq> k \<Longrightarrow> with_deadline E k t M x = M x"
  by (simp add: with_deadline_def split: option.split prod.split)

lemma with_deadline_None [simp]: "M k = None \<Longrightarrow> with_deadline E k t M = M"
  by (simp add: with_deadline_def)

lemma vals_ok_with_deadline [simp]: "vals_ok M \<Longrightarrow> vals_ok (with_deadline E k t M)"
  by (auto simp: with_deadline_def vals_ok_def split: option.split)

text \<open>The values a lookup of the live map may return.\<close>

lemma as_None [simp]:
  "as_str v = None \<longleftrightarrow> val_type v \<noteq> TString" "as_list v = None \<longleftrightarrow> val_type v \<noteq> TList"
  "as_hash v = None \<longleftrightarrow> val_type v \<noteq> THash" "as_set v = None \<longleftrightarrow> val_type v \<noteq> TSet"
  "as_zset v = None \<longleftrightarrow> val_type v \<noteq> TZset"
  by (cases v; simp)+

lemma as_iff [simp]:
  "as_str v = Some s \<longleftrightarrow> v = VStr s" "as_list v = Some l \<longleftrightarrow> v = VList l"
  "as_hash v = Some h \<longleftrightarrow> v = VHash h" "as_set v = Some x \<longleftrightarrow> v = VSet x"
  "as_zset v = Some z \<longleftrightarrow> v = VZset z"
  by (cases v; simp)+

definition has_type :: "store_type \<Rightarrow> datum option \<Rightarrow> bool" where
  "has_type T d = (case d of None \<Rightarrow> True | Some (v, _) \<Rightarrow> val_type v = T)"

lemma has_type_simps [simp]: "has_type T None" "has_type T (Some (v, t)) \<longleftrightarrow> val_type v = T"
  by (simp_all add: has_type_def)

subsection \<open>One rule for each operation of the store\<close>

lemma step_exists_key:
  assumes "tidy E st" and "\<And>s. tidy E s \<Longrightarrow> live E s = live E st \<Longrightarrow> P (f s (live E st k \<noteq> None))"
  shows "P (let (s, r) = exists_key E k st in f s r)"
  using assms(2) [of "fst (exists_key E k st)"]
  by (simp add: Let_def case_prod_beta reads_tidy exists_key_spec tidy_wf [OF assms(1)] assms(1))

lemma step_type_of:
  assumes "tidy E st" and "\<And>s. tidy E s \<Longrightarrow> live E s = live E st \<Longrightarrow>
    P (f s (map_option (\<lambda>d. val_type (fst d)) (live E st k)))"
  shows "P (let (s, r) = type_of E k st in f s r)"
  using assms(2) [of "fst (type_of E k st)"]
  by (simp add: Let_def case_prod_beta reads_tidy type_of_spec tidy_wf [OF assms(1)] assms(1))

lemma step_peek_type:
  assumes "tidy E st" and "\<And>s. tidy E s \<Longrightarrow> live E s = live E st \<Longrightarrow>
    P (f s (map_option (\<lambda>d. val_type (fst d)) (live E st k)))"
  shows "P (let (s, r) = peek_type E k st in f s r)"
  using assms(2) [of "fst (peek_type E k st)"]
  by (simp add: Let_def case_prod_beta peek_type_tidy peek_type_view tidy_wf [OF assms(1)] assms(1))

lemma step_check_type:
  assumes "tidy E st" and "\<And>s. tidy E s \<Longrightarrow> live E s = live E st \<Longrightarrow> P (f s (has_type T (live E st k)))"
  shows "P (let (s, r) = check_type E k T st in f s r)"
  using assms(2) [of "fst (check_type E k T st)"]
  by (auto simp: Let_def case_prod_beta check_type_def case_prod_beta peek_type_tidy peek_type_view tidy_wf [OF assms(1)]
      assms(1) has_type_def split: option.split)

lemma step_has_expiry:
  assumes "tidy E st" and "\<And>s. tidy E s \<Longrightarrow> live E s = live E st \<Longrightarrow>
    P (f s (\<exists>v t. live E st k = Some (v, Some t)))"
  shows "P (let (s, r) = has_expiry E k st in f s r)"
  using assms(2) [of "fst (has_expiry E k st)"]
  by (simp add: Let_def case_prod_beta reads_tidy has_expiry_spec tidy_wf [OF assms(1)] assms(1))

lemma step_get_string:
  assumes "tidy E st"
    and "\<And>s. tidy E s \<Longrightarrow> live E s = live E st \<Longrightarrow>
      Option.bind (live E st k) (\<lambda>d. as_str (fst d)) = None \<Longrightarrow> P (f s None)"
    and "\<And>s t v. tidy E s \<Longrightarrow> live E s = live E st \<Longrightarrow> live E st k = Some (VStr v, t) \<Longrightarrow>
      P (f s (Some v))"
  shows "P (let (s, r) = get_string E k st in f s r)"
proof -
  let ?x = "get_string E k st" and ?r = "Option.bind (live E st k) (\<lambda>d. as_str (fst d))"
  have "tidy E (fst ?x)" "live E (fst ?x) = live E st" "snd ?x = ?r"
    by (simp_all add: reads_tidy get_string_spec tidy_wf [OF assms(1)] assms(1))
  with assms(2,3) [of "fst ?x"] show ?thesis
    by (cases ?r) (auto simp: Let_def case_prod_beta bind_eq_Some_conv as_iff)
qed

lemma step_read_collection:
  assumes "tidy E st"
    and "\<And>s. tidy E s \<Longrightarrow> live E s = live E st \<Longrightarrow>
      Option.bind (live E st k) (\<lambda>d. prj (fst d)) = None \<Longrightarrow> P (f s None)"
    and "\<And>s v t c. tidy E s \<Longrightarrow> live E s = live E st \<Longrightarrow> live E st k = Some (v, t) \<Longrightarrow>
      prj v = Some c \<Longrightarrow> (vals_ok (live E st) \<longrightarrow> val_wf v) \<Longrightarrow> P (f s (Some c))"
  shows "P (let (s, r) = read_collection prj E k st in f s r)"
proof -
  let ?x = "read_collection prj E k st" and ?r = "Option.bind (live E st k) (\<lambda>d. prj (fst d))"
  have "tidy E (fst ?x)" "live E (fst ?x) = live E st" "snd ?x = ?r"
    by (simp_all add: reads_tidy read_collection_spec tidy_wf [OF assms(1)] assms(1))
  with assms(2,3) [of "fst ?x"] show ?thesis
    by (cases ?r) (auto simp: Let_def case_prod_beta bind_eq_Some_conv dest: vals_okD)
qed

lemma step_write_collection:
  assumes "tidy E st"
    and "\<And>s. tidy E s \<Longrightarrow> live E s = live E st \<Longrightarrow>
      Option.bind (live E st k) (\<lambda>d. prj (fst d)) = None \<Longrightarrow> P (f s None)"
    and "\<And>s v t c. tidy E s \<Longrightarrow> live E s = live E st \<Longrightarrow> live E st k = Some (v, t) \<Longrightarrow>
      prj v = Some c \<Longrightarrow> (vals_ok (live E st) \<longrightarrow> val_wf v) \<Longrightarrow> P (f s (Some c))"
  shows "P (let (s, r) = write_collection prj E k st in f s r)"
proof -
  let ?x = "write_collection prj E k st" and ?r = "Option.bind (live E st k) (\<lambda>d. prj (fst d))"
  have "tidy E (fst ?x)" "live E (fst ?x) = live E st" "snd ?x = ?r"
    by (simp_all add: reads_tidy write_collection_spec tidy_wf [OF assms(1)] assms(1))
  with assms(2,3) [of "fst ?x"] show ?thesis
    by (cases ?r) (auto simp: Let_def case_prod_beta bind_eq_Some_conv dest: vals_okD)
qed

lemma step_pttl_ms:
  assumes "tidy E st" and "\<And>s n. tidy E s \<Longrightarrow> live E s = live E st \<Longrightarrow> P (f s n)"
  shows "P (let (s, r) = pttl_ms E k st in f s r)"
  using assms(2) [of "fst (pttl_ms E k st)" "snd (pttl_ms E k st)"]
  by (simp add: Let_def case_prod_beta reads_tidy pttl_ms_spec tidy_wf [OF assms(1)] assms(1))

lemma step_ttl:
  assumes "tidy E st" and "\<And>s n. tidy E s \<Longrightarrow> live E s = live E st \<Longrightarrow> P (f s n)"
  shows "P (let (s, r) = ttl E k st in f s r)"
  using assms(2) [of "fst (ttl E k st)" "snd (ttl E k st)"]
  by (simp add: Let_def case_prod_beta reads_tidy ttl_view tidy_wf [OF assms(1)] assms(1))

lemma step_random_key:
  assumes "tidy E st" and "\<And>s r. tidy E s \<Longrightarrow> live E s = live E st \<Longrightarrow> P (f s r)"
  shows "P (let (s, r) = random_key E st in f s r)"
  using assms(2) [of "fst (random_key E st)" "snd (random_key E st)"]
  by (simp add: Let_def case_prod_beta random_key_tidy live_contents [OF random_key_view(2)] assms(1))

lemma step_set_string:
  assumes "tidy E st" and "\<And>s. tidy E s \<Longrightarrow> live E s = (live E st)(k \<mapsto> (VStr v, None)) \<Longrightarrow> P (f s)"
  shows "P (let s = set_string E k v st in f s)"
  using assms(2) [OF set_string_tidy [OF assms(1)] set_string_spec(2) [OF tidy_wf [OF assms(1)]]] by simp

lemma step_update_string:
  assumes "tidy E st" and "\<And>s. tidy E s \<Longrightarrow>
      live E s = (live E st)(k \<mapsto> (VStr v, deadline_of (live E st k))) \<Longrightarrow> P (f s)"
  shows "P (let s = update_string E k v st in f s)"
  using assms(2) [OF update_string_tidy [OF assms(1)]] update_string_spec(2) [OF tidy_wf [OF assms(1)], of E k v]
  by (cases "live E st k") (simp_all add: deadline_of_def)

lemma step_put_value:
  assumes "tidy E st" and "live E st k \<noteq> None"
    and "\<And>s. tidy E s \<Longrightarrow> live E s = (live E st)(k \<mapsto> (v, deadline_of (live E st k))) \<Longrightarrow> P (f s)"
  shows "P (let s = put_value k v st in f s)"
  using assms(3) [OF put_value_tidy [OF assms(1,2)]] assms(2)
    put_value_spec(2) [OF tidy_wf [OF assms(1)], of E k v]
  by (cases "live E st k") (simp_all add: deadline_of_def case_prod_beta)

lemma step_delete_if_empty:
  assumes "tidy E st" and "\<And>s. tidy E s \<Longrightarrow> live E s = drop_empty k (live E st) \<Longrightarrow> P (f s)"
  shows "P (let s = delete_if_empty E k st in f s)"
  using assms(2) [OF reads_tidy(10) [OF assms(1), of k]]
    delete_if_empty_spec(2) [OF tidy_wf [OF assms(1)], of E k] by (simp add: drop_empty_def)

lemma step_del:
  assumes "tidy E st" and "\<And>s. tidy E s \<Longrightarrow> live E s = (live E st)(k := None) \<Longrightarrow>
    P (f s (live E st k \<noteq> None))"
  shows "P (let (s, r) = del E k st in f s r)"
  using assms(2) [of "fst (del E k st)"]
  by (simp add: Let_def case_prod_beta reads_tidy del_spec tidy_wf [OF assms(1)] assms(1))

lemma step_set_expire_at:
  assumes "tidy E st" and "vals_ok (live E st)"
    and "\<And>s. tidy E s \<Longrightarrow> live E s = with_deadline E k t (live E st) \<Longrightarrow>
      P (f s (live E st k \<noteq> None))"
  shows "P (let (s, r) = set_expire_at E k t st in f s r)"
  using assms(3) [of "fst (set_expire_at E k t st)"]
  by (simp add: Let_def case_prod_beta with_deadline_def set_expire_at_tidy set_expire_at_spec tidy_wf [OF assms(1)] assms(1,2))

lemma step_rename:
  assumes "tidy E st" and "\<And>s. tidy E s \<Longrightarrow> live E s = (if live E st k = None \<or> k = k' then live E st
       else (live E st)(k := None, k' := live E st k)) \<Longrightarrow> P (f s (live E st k \<noteq> None))"
  shows "P (let (s, r) = rename E k k' st in f s r)"
  using assms(2) [of "fst (rename E k k' st)"]
  by (simp add: Let_def case_prod_beta rename_tidy rename_spec tidy_wf [OF assms(1)] assms(1))

lemma step_copy:
  assumes "tidy E st" and "\<And>s. tidy E s \<Longrightarrow>
      live E s = (if live E st k = None \<or> \<not> rep \<and> live E st dest \<noteq> None then live E st
        else (live E st)(dest := map_option (\<lambda>(v, t). (val_clone E v, t)) (live E st k))) \<Longrightarrow>
      P (f s (if live E st k = None then None else Some (rep \<or> live E st dest = None)))"
  shows "P (let (s, r) = copy E k dest rep st in f s r)"
  using assms(2) [of "fst (copy E k dest rep st)"]
  by (simp add: Let_def case_prod_beta copy_tidy copy_spec tidy_wf [OF assms(1)] assms(1))

lemma live_no_contents: "contents s = Map.empty \<Longrightarrow> live E s = Map.empty"
  by (rule ext) (simp add: live_def)

lemma step_flush:
  assumes "\<And>s n. tidy E s \<Longrightarrow> live E s = Map.empty \<Longrightarrow> P (f s n)"
  shows "P (let (s, r) = flush st in f s r)"
  using assms [of "fst (flush st)" "snd (flush st)"]
  by (simp add: Let_def case_prod_beta flush_tidy live_no_contents [OF flush_spec(2)])

lemma step_get_or_create:
  assumes "tidy E st"
    and "\<And>s. tidy E s \<Longrightarrow> live E s = (live E st)(k \<mapsto> (dflt, None)) \<Longrightarrow> live E st k = None \<Longrightarrow>
      P (f s (prj dflt))"
    and "\<And>s v t. tidy E s \<Longrightarrow> live E s = live E st \<Longrightarrow> live E st k = Some (v, t) \<Longrightarrow>
      (vals_ok (live E st) \<longrightarrow> val_wf v) \<Longrightarrow> P (f s (prj v))"
  shows "P (let (s, r) = get_or_create prj dflt E k st in f s r)"
proof -
  have w: "vals_ok (live E st) \<longrightarrow> val_wf v" if "live E st k = Some (v, t)" for v t
    using that by (auto dest: vals_okD)
  show ?thesis
    using assms(2,3) [of "fst (get_or_create prj dflt E k st)"] w
    by (cases "live E st k") (auto simp: Let_def case_prod_beta get_or_create_tidy get_or_create_spec
        tidy_wf [OF assms(1)] assms(1))
qed

text \<open>The rules for results and for results that may be a panic.\<close>

lemmas wp_steps [wp] =
  step_if [where P = "wp E Q" for E Q]
  step_option [where P = "wp E Q" for E Q]
  step_list [where P = "wp E Q" for E Q]
  step_sum [where P = "wp E Q" for E Q]
  step_prod [where P = "wp E Q" for E Q]
  step_let_if [where P = "wp E Q" for E Q]
  step_let_option [where P = "wp E Q" for E Q]
  step_let_pair [where P = "wp E Q" for E Q]
  step_exists_key [where P = "wp E Q" for E Q]
  step_type_of [where P = "wp E Q" for E Q]
  step_peek_type [where P = "wp E Q" for E Q]
  step_check_type [where P = "wp E Q" for E Q]
  step_has_expiry [where P = "wp E Q" for E Q]
  step_get_string [where P = "wp E Q" for E Q]
  step_read_collection [where P = "wp E Q" for E Q]
  step_write_collection [where P = "wp E Q" for E Q]
  step_pttl_ms [where P = "wp E Q" for E Q]
  step_ttl [where P = "wp E Q" for E Q]
  step_random_key [where P = "wp E Q" for E Q]
  step_set_string [where P = "wp E Q" for E Q]
  step_update_string [where P = "wp E Q" for E Q]
  step_put_value [where P = "wp E Q" for E Q]
  step_delete_if_empty [where P = "wp E Q" for E Q]
  step_del [where P = "wp E Q" for E Q]
  step_set_expire_at [where P = "wp E Q" for E Q]
  step_rename [where P = "wp E Q" for E Q]
  step_copy [where P = "wp E Q" for E Q]
  step_flush [where P = "wp E Q" for E Q]
  step_get_or_create [where P = "wp E Q" for E Q]

lemmas wpo_steps [wp] =
  step_if [where P = "wpo E Q" for E Q]
  step_option [where P = "wpo E Q" for E Q]
  step_list [where P = "wpo E Q" for E Q]
  step_sum [where P = "wpo E Q" for E Q]
  step_prod [where P = "wpo E Q" for E Q]
  step_let_if [where P = "wpo E Q" for E Q]
  step_let_option [where P = "wpo E Q" for E Q]
  step_let_pair [where P = "wpo E Q" for E Q]
  step_exists_key [where P = "wpo E Q" for E Q]
  step_type_of [where P = "wpo E Q" for E Q]
  step_peek_type [where P = "wpo E Q" for E Q]
  step_check_type [where P = "wpo E Q" for E Q]
  step_has_expiry [where P = "wpo E Q" for E Q]
  step_get_string [where P = "wpo E Q" for E Q]
  step_read_collection [where P = "wpo E Q" for E Q]
  step_write_collection [where P = "wpo E Q" for E Q]
  step_pttl_ms [where P = "wpo E Q" for E Q]
  step_ttl [where P = "wpo E Q" for E Q]
  step_random_key [where P = "wpo E Q" for E Q]
  step_set_string [where P = "wpo E Q" for E Q]
  step_update_string [where P = "wpo E Q" for E Q]
  step_put_value [where P = "wpo E Q" for E Q]
  step_delete_if_empty [where P = "wpo E Q" for E Q]
  step_del [where P = "wpo E Q" for E Q]
  step_set_expire_at [where P = "wpo E Q" for E Q]
  step_rename [where P = "wpo E Q" for E Q]
  step_copy [where P = "wpo E Q" for E Q]
  step_flush [where P = "wpo E Q" for E Q]
  step_get_or_create [where P = "wpo E Q" for E Q]

lemmas wp_let = step_let [where P = "wp E Q" for E Q] step_let [where P = "wpo E Q" for E Q]

lemma sound_same: "sound E K st (st, r)"
  by (rule soundI) ((rule wp | assumption | simp)+)

end
