(* ===== verification/CmdString.thy ===== *)
theory CmdString
  imports CmdBase
begin

text \<open>
  \<^verbatim>\<open>src/commands/string.rs\<close>: one definition for each arm of its \<open>handle\<close>, and the lemmas that
  each changes only the key it names, keeps the store well formed and leaves it alone when it
  answers with an error.
\<close>

subsection \<open>Helpers\<close>

definition substring :: "bytes \<Rightarrow> int \<Rightarrow> int \<Rightarrow> bytes" where
  "substring v start stop =
     (let len = int (length v);
          start = (if start < 0 then start + len else start);
          stop = (if stop < 0 then stop + len else stop);
          start = (if start < 0 then 0 else start);
          stop = (if stop \<ge> len then len - 1 else stop)
      in if len = 0 \<or> start > stop \<or> start \<ge> len then []
         else take (nat (stop - start + 1)) (drop (nat start) v))"

definition would_overflow :: reply where
  "would_overflow = Error ''ERR increment or decrement would overflow''"

definition too_long :: reply where
  "too_long = Error ''ERR string exceeds maximum allowed size''"

definition apply_integer_delta :: "env \<Rightarrow> bytes \<Rightarrow> int \<Rightarrow> store \<Rightarrow> store \<times> reply" where
  "apply_integer_delta E k delta st =
     (let (st, good) = check_type E k TString st
      in if \<not> good then (st, wrongtype)
         else (let (st, v) = get_string E k st
               in case (case v of None \<Rightarrow> Some 0 | Some cur \<Rightarrow> parse_i64 cur) of
                    None \<Rightarrow> (st, not_an_integer)
                  | Some n \<Rightarrow>
                      (case checked_add n delta of
                         None \<Rightarrow> (st, would_overflow)
                       | Some updated \<Rightarrow>
                           (let st = update_string E k (int_str updated) st
                            in (st, Integer updated)))))"

subsection \<open>SET\<close>

datatype expiry = Keep | Clear | Deadline time

record set_options =
  only_if_absent :: bool
  only_if_present :: bool
  return_old :: bool
  opt_expiry :: expiry

text \<open>\<open>takes_argument\<close>: the number after EX, PX, EXAT or PXAT.\<close>

definition expiry_argument :: "env \<Rightarrow> bytes list \<Rightarrow> int \<Rightarrow> bool \<Rightarrow> reply + expiry" where
  "expiry_argument E rest unit_millis absolute =
     (case rest of
        [] \<Rightarrow> Inl syntax_error
      | arg # _ \<Rightarrow>
          (case parse_i64 arg of
             None \<Rightarrow> Inl not_an_integer
           | Some amount \<Rightarrow>
               if \<not> absolute \<and> amount \<le> 0
               then Inl (Error (''ERR invalid expire time in '' @ [CHR 0x27] @ ''set'' @ [CHR 0x27]
                                @ '' command''))
               else (let millis = saturating_mul amount unit_millis
                     in Inr (Deadline (if absolute then max millis 0 * 1000000
                                       else deadline_after_millis E millis)))))"

fun set_options_loop :: "env \<Rightarrow> bytes list \<Rightarrow> set_options \<Rightarrow> reply + set_options" where
  "set_options_loop E [] opts = Inr opts"
| "set_options_loop E (option # rest) opts =
     (if eq_ignore_case option ''NX'' then set_options_loop E rest (opts\<lparr>only_if_absent := True\<rparr>)
      else if eq_ignore_case option ''XX'' then set_options_loop E rest (opts\<lparr>only_if_present := True\<rparr>)
      else if eq_ignore_case option ''GET'' then set_options_loop E rest (opts\<lparr>return_old := True\<rparr>)
      else if eq_ignore_case option ''KEEPTTL'' then set_options_loop E rest (opts\<lparr>opt_expiry := Keep\<rparr>)
      else if eq_ignore_case option ''EX'' then
        (case expiry_argument E rest 1000 False of
           Inl e \<Rightarrow> Inl e | Inr x \<Rightarrow> set_options_loop E (drop 1 rest) (opts\<lparr>opt_expiry := x\<rparr>))
      else if eq_ignore_case option ''PX'' then
        (case expiry_argument E rest 1 False of
           Inl e \<Rightarrow> Inl e | Inr x \<Rightarrow> set_options_loop E (drop 1 rest) (opts\<lparr>opt_expiry := x\<rparr>))
      else if eq_ignore_case option ''EXAT'' then
        (case expiry_argument E rest 1000 True of
           Inl e \<Rightarrow> Inl e | Inr x \<Rightarrow> set_options_loop E (drop 1 rest) (opts\<lparr>opt_expiry := x\<rparr>))
      else if eq_ignore_case option ''PXAT'' then
        (case expiry_argument E rest 1 True of
           Inl e \<Rightarrow> Inl e | Inr x \<Rightarrow> set_options_loop E (drop 1 rest) (opts\<lparr>opt_expiry := x\<rparr>))
      else Inl syntax_error)"

definition cmd_set :: "env \<Rightarrow> bytes list \<Rightarrow> store \<Rightarrow> store \<times> reply" where
  "cmd_set E av st =
     (if \<not> min_args av 2 then (st, wrong_arity ''SET'')
      else case set_options_loop E (drop 3 av)
             \<lparr>only_if_absent = False, only_if_present = False, return_old = False, opt_expiry = Clear\<rparr> of
        Inl e \<Rightarrow> (st, e)
      | Inr opts \<Rightarrow>
          if only_if_absent opts \<and> only_if_present opts then (st, syntax_error)
          else
            (let (st, good) = (if return_old opts then check_type E (av ! 1) TString st else (st, True))
             in if \<not> good then (st, wrongtype)
                else
                  (let (st, previous) =
                         (if return_old opts then get_string E (av ! 1) st else (st, None));
                       (st, found) = exists_key E (av ! 1) st
                   in if only_if_absent opts \<and> found \<or> only_if_present opts \<and> \<not> found
                      then (st, if return_old opts then bulk_or_nil previous else RNil)
                      else
                        (let st = (if opt_expiry opts = Keep then update_string E (av ! 1) (av ! 2) st
                                   else set_string E (av ! 1) (av ! 2) st);
                             (st, _) = (case opt_expiry opts of
                                          Deadline t \<Rightarrow> set_expire_at E (av ! 1) (Some t) st
                                        | _ \<Rightarrow> (st, True))
                         in (st, if return_old opts then bulk_or_nil previous else reply_ok)))))"

definition cmd_getex :: "env \<Rightarrow> bytes list \<Rightarrow> store \<Rightarrow> store \<times> reply" where
  "cmd_getex E av st =
     (if \<not> min_args av 1 then (st, wrong_arity ''GETEX'')
      else case
          (if length av = 2 then Inr Keep
           else if length av = 3 \<and> eq_ignore_case (av ! 2) ''PERSIST'' then Inr Clear
           else if length av = 4 \<and> (eq_ignore_case (av ! 2) ''EX'' \<or> eq_ignore_case (av ! 2) ''PX'') then
             (case parse_i64 (av ! 3) of
                None \<Rightarrow> Inl not_an_integer
              | Some amount \<Rightarrow>
                  if amount \<le> 0
                  then Inl (Error (''ERR invalid expire time in '' @ [CHR 0x27] @ ''getex'' @ [CHR 0x27]
                                   @ '' command''))
                  else Inr (Deadline (deadline_after_millis E
                         (if eq_ignore_case (av ! 2) ''EX'' then saturating_mul amount 1000 else amount))))
           else Inl syntax_error) of
        Inl e \<Rightarrow> (st, e)
      | Inr x \<Rightarrow>
          (let (st, good) = check_type E (av ! 1) TString st
           in if \<not> good then (st, wrongtype)
              else
                (let (st, v) = get_string E (av ! 1) st
                 in case v of
                      None \<Rightarrow> (st, RNil)
                    | Some v \<Rightarrow>
                        (let (st, _) = (case x of
                                          Keep \<Rightarrow> (st, True)
                                        | Clear \<Rightarrow> set_expire_at E (av ! 1) None st
                                        | Deadline t \<Rightarrow> set_expire_at E (av ! 1) (Some t) st)
                         in (st, Bulk v)))))"

subsection \<open>The other commands\<close>

definition cmd_setnx :: "env \<Rightarrow> bytes \<Rightarrow> bytes list \<Rightarrow> store \<Rightarrow> store \<times> reply" where
  "cmd_setnx E name av st =
     (if \<not> exact_args av 2 then (st, wrong_arity name)
      else (let (st, found) = exists_key E (av ! 1) st
            in if found then (st, reply_bool False)
               else (let st = set_string E (av ! 1) (av ! 2) st in (st, reply_bool True))))"

definition cmd_setex :: "env \<Rightarrow> bytes \<Rightarrow> bytes list \<Rightarrow> store \<Rightarrow> store \<times> reply" where
  "cmd_setex E name av st =
     (if \<not> exact_args av 3 then (st, wrong_arity name)
      else case parse_i64 (av ! 2) of
        None \<Rightarrow> (st, not_an_integer)
      | Some amount \<Rightarrow>
          if amount \<le> 0
          then (st, Error (''ERR invalid expire time in '' @ [CHR 0x27] @ to_lower name @ [CHR 0x27]
                           @ '' command''))
          else (let millis = (if name = ''SETEX'' then saturating_mul amount 1000 else amount);
                    st = set_string E (av ! 1) (av ! 3) st;
                    (st, _) = set_expire_at E (av ! 1) (Some (deadline_after_millis E millis)) st
                in (st, reply_ok)))"

definition cmd_get :: "env \<Rightarrow> bytes \<Rightarrow> bytes list \<Rightarrow> store \<Rightarrow> store \<times> reply" where
  "cmd_get E name av st =
     (if \<not> exact_args av 1 then (st, wrong_arity name)
      else (let (st, good) = check_type E (av ! 1) TString st
            in if \<not> good then (st, wrongtype)
               else (let (st, v) = get_string E (av ! 1) st in (st, bulk_or_nil v))))"

definition cmd_getset :: "env \<Rightarrow> bytes \<Rightarrow> bytes list \<Rightarrow> store \<Rightarrow> store \<times> reply" where
  "cmd_getset E name av st =
     (if \<not> exact_args av 2 then (st, wrong_arity name)
      else (let (st, good) = check_type E (av ! 1) TString st
            in if \<not> good then (st, wrongtype)
               else (let (st, previous) = get_string E (av ! 1) st;
                         st = set_string E (av ! 1) (av ! 2) st
                     in (st, bulk_or_nil previous))))"

definition cmd_getdel :: "env \<Rightarrow> bytes \<Rightarrow> bytes list \<Rightarrow> store \<Rightarrow> store \<times> reply" where
  "cmd_getdel E name av st =
     (if \<not> exact_args av 1 then (st, wrong_arity name)
      else (let (st, good) = check_type E (av ! 1) TString st
            in if \<not> good then (st, wrongtype)
               else (let (st, v) = get_string E (av ! 1) st;
                         (st, _) = (if v \<noteq> None then del E (av ! 1) st else (st, False))
                     in (st, bulk_or_nil v))))"

fun mget_loop :: "env \<Rightarrow> bytes list \<Rightarrow> store \<Rightarrow> store \<times> reply list" where
  "mget_loop E [] st = (st, [])"
| "mget_loop E (k # ks) st =
     (let (st, t) = peek_type E k st;
          (st, v) = (if t = Some TString then get_string E k st else (st, None));
          (st, rs) = mget_loop E ks st
      in (st, bulk_or_nil v # rs))"

definition cmd_mget :: "env \<Rightarrow> bytes \<Rightarrow> bytes list \<Rightarrow> store \<Rightarrow> store \<times> reply" where
  "cmd_mget E name av st =
     (if \<not> min_args av 1 then (st, wrong_arity name)
      else (let (st, rs) = mget_loop E (drop 1 av) st in (st, Array rs)))"

text \<open>\<open>Iterator::any\<close> over lookups stops at the first key that exists.\<close>

fun any_exists :: "env \<Rightarrow> bytes list \<Rightarrow> store \<Rightarrow> store \<times> bool" where
  "any_exists E [] st = (st, False)"
| "any_exists E (k # ks) st =
     (let (st, found) = exists_key E k st in if found then (st, True) else any_exists E ks st)"

fun set_all :: "env \<Rightarrow> (bytes \<times> bytes) list \<Rightarrow> store \<Rightarrow> store" where
  "set_all E [] st = st"
| "set_all E ((k, v) # kvs) st = (let st = set_string E k v st in set_all E kvs st)"

definition cmd_mset :: "env \<Rightarrow> bytes \<Rightarrow> bytes list \<Rightarrow> store \<Rightarrow> store \<times> reply" where
  "cmd_mset E name av st =
     (if \<not> min_args av 2 then (st, wrong_arity name)
      else if odd (length (drop 1 av)) then (st, wrong_arity name)
      else (let pairs = chunks2 (drop 1 av);
                (st, taken) = (if name = ''MSETNX'' then any_exists E (map fst pairs) st
                               else (st, False))
            in if taken then (st, reply_bool False)
               else (let st = set_all E pairs st
                     in (st, if name = ''MSETNX'' then reply_bool True else reply_ok))))"

definition cmd_incr :: "env \<Rightarrow> bytes \<Rightarrow> bytes list \<Rightarrow> store \<Rightarrow> store \<times> reply" where
  "cmd_incr E name av st =
     (if \<not> exact_args av 1 then (st, wrong_arity name)
      else apply_integer_delta E (av ! 1) (if name = ''INCR'' then 1 else - 1) st)"

definition cmd_incrby :: "env \<Rightarrow> bytes \<Rightarrow> bytes list \<Rightarrow> store \<Rightarrow> store \<times> reply" where
  "cmd_incrby E name av st =
     (if \<not> exact_args av 2 then (st, wrong_arity name)
      else case parse_i64 (av ! 2) of
        None \<Rightarrow> (st, not_an_integer)
      | Some amount \<Rightarrow>
          (case (if name = ''INCRBY'' then Some amount else checked_neg amount) of
             None \<Rightarrow> (st, would_overflow)
           | Some d \<Rightarrow> apply_integer_delta E (av ! 1) d st))"

definition cmd_incrbyfloat :: "env \<Rightarrow> bytes \<Rightarrow> bytes list \<Rightarrow> store \<Rightarrow> store \<times> reply" where
  "cmd_incrbyfloat E name av st =
     (if \<not> exact_args av 2 then (st, wrong_arity name)
      else case parse_f64 (av ! 2) of
        None \<Rightarrow> (st, not_a_float)
      | Some amount \<Rightarrow>
          (let (st, good) = check_type E (av ! 1) TString st
           in if \<not> good then (st, wrongtype)
              else (let (st, v) = get_string E (av ! 1) st
                    in case (case v of None \<Rightarrow> Some (Fin 0) | Some v \<Rightarrow> parse_f64 v) of
                         None \<Rightarrow> (st, not_a_float)
                       | Some cur \<Rightarrow>
                           (let updated = fadd F64 cur amount
                            in if \<not> is_finite updated
                               then (st, Error ''ERR increment would produce NaN or Infinity'')
                               else (let shown = format_f64 updated;
                                         st = update_string E (av ! 1) shown st
                                     in (st, Bulk shown))))))"

definition cmd_append :: "env \<Rightarrow> config \<Rightarrow> bytes \<Rightarrow> bytes list \<Rightarrow> store \<Rightarrow> store \<times> reply" where
  "cmd_append E cfg name av st =
     (if \<not> exact_args av 2 then (st, wrong_arity name)
      else (let (st, good) = check_type E (av ! 1) TString st
            in if \<not> good then (st, wrongtype)
               else (let (st, v) = get_string E (av ! 1) st;
                         v = (case v of None \<Rightarrow> [] | Some v \<Rightarrow> v)
                     in if length v + length (av ! 2) > max_string_bytes cfg then (st, too_long)
                        else (let v = v @ (av ! 2); st = update_string E (av ! 1) v st
                              in (st, of_int_reply (length v))))))"

definition cmd_strlen :: "env \<Rightarrow> bytes \<Rightarrow> bytes list \<Rightarrow> store \<Rightarrow> store \<times> reply" where
  "cmd_strlen E name av st =
     (if \<not> exact_args av 1 then (st, wrong_arity name)
      else (let (st, good) = check_type E (av ! 1) TString st
            in if \<not> good then (st, wrongtype)
               else (let (st, v) = get_string E (av ! 1) st
                     in (st, of_int_reply (case v of None \<Rightarrow> 0 | Some v \<Rightarrow> length v)))))"

definition cmd_getrange :: "env \<Rightarrow> bytes \<Rightarrow> bytes list \<Rightarrow> store \<Rightarrow> store \<times> reply" where
  "cmd_getrange E name av st =
     (if \<not> exact_args av 3 then (st, wrong_arity name)
      else case (parse_i64 (av ! 2), parse_i64 (av ! 3)) of
        (Some start, Some stop) \<Rightarrow>
          (let (st, good) = check_type E (av ! 1) TString st
           in if \<not> good then (st, wrongtype)
              else (let (st, v) = get_string E (av ! 1) st
                    in (st, Bulk (substring (case v of None \<Rightarrow> [] | Some v \<Rightarrow> v) start stop))))
      | _ \<Rightarrow> (st, not_an_integer))"

text \<open>The bytes SETRANGE leaves: the value padded with NULs and the patch written over it.\<close>

definition overwrite :: "bytes \<Rightarrow> nat \<Rightarrow> bytes \<Rightarrow> bytes" where
  "overwrite v offset patch =
     (let stop = offset + length patch;
          v = (if length v < stop then v @ replicate (stop - length v) (CHR 0x00) else v)
      in take offset v @ patch @ drop stop v)"

definition cmd_setrange :: "env \<Rightarrow> config \<Rightarrow> bytes \<Rightarrow> bytes list \<Rightarrow> store \<Rightarrow> store \<times> reply" where
  "cmd_setrange E cfg name av st =
     (if \<not> exact_args av 3 then (st, wrong_arity name)
      else case parse_i64 (av ! 2) of
        None \<Rightarrow> (st, not_an_integer)
      | Some offset \<Rightarrow>
          if offset < 0 then (st, Error ''ERR offset is out of range'')
          else
            (let (st, good) = check_type E (av ! 1) TString st
             in if \<not> good then (st, wrongtype)
                else (let (st, v) = get_string E (av ! 1) st;
                          v = (case v of None \<Rightarrow> [] | Some v \<Rightarrow> v);
                          patch = av ! 3
                      in if patch = [] then (st, of_int_reply (length v))
                         else if nat offset + length patch > max_string_bytes cfg then (st, too_long)
                         else (let v = overwrite v (nat offset) patch;
                                   st = update_string E (av ! 1) v st
                               in (st, of_int_reply (length v))))))"

definition string_cmd :: "env \<Rightarrow> config \<Rightarrow> bytes \<Rightarrow> bytes list \<Rightarrow> store \<Rightarrow> store \<times> reply" where
  "string_cmd E cfg name av st =
     (if name = ''SET'' then cmd_set E av st
      else if name = ''SETNX'' then cmd_setnx E name av st
      else if name \<in> {''SETEX'', ''PSETEX''} then cmd_setex E name av st
      else if name = ''GET'' then cmd_get E name av st
      else if name = ''GETSET'' then cmd_getset E name av st
      else if name = ''GETDEL'' then cmd_getdel E name av st
      else if name = ''GETEX'' then cmd_getex E av st
      else if name = ''MGET'' then cmd_mget E name av st
      else if name \<in> {''MSET'', ''MSETNX''} then cmd_mset E name av st
      else if name \<in> {''INCR'', ''DECR''} then cmd_incr E name av st
      else if name \<in> {''INCRBY'', ''DECRBY''} then cmd_incrby E name av st
      else if name = ''INCRBYFLOAT'' then cmd_incrbyfloat E name av st
      else if name = ''APPEND'' then cmd_append E cfg name av st
      else if name = ''STRLEN'' then cmd_strlen E name av st
      else if name \<in> {''GETRANGE'', ''SUBSTR''} then cmd_getrange E name av st
      else if name = ''SETRANGE'' then cmd_setrange E cfg name av st
      else (st, unknown_in_family))"

subsection \<open>Every command touches only its keys\<close>

lemma wp_let_expiry [wp]:
  "(x = Keep \<Longrightarrow> wp E Q (Let a f)) \<Longrightarrow> (x = Clear \<Longrightarrow> wp E Q (Let b f)) \<Longrightarrow>
   (\<And>t. x = Deadline t \<Longrightarrow> wp E Q (Let (g t) f)) \<Longrightarrow>
   wp E Q (Let (case x of Keep \<Rightarrow> a | Clear \<Rightarrow> b | Deadline t \<Rightarrow> g t) f)"
  by (cases x) simp_all

lemma wp_apply_integer_delta [wp]:
  "tidy E st \<Longrightarrow> vals_ok (live E st) \<Longrightarrow> wp E (effect_on {k} (live E st)) (apply_integer_delta E k d st)"
  unfolding apply_integer_delta_def
  by ((rule wp | assumption | simp)+)

lemma getex_sound: "sound E {av ! 1} st (cmd_getex E av st)"
  unfolding cmd_getex_def
  by (rule soundI) ((rule wp | assumption | simp)+)

lemma set_sound: "sound E {av ! 1} st (cmd_set E av st)"
  unfolding cmd_set_def
  by (rule soundI) ((rule wp | assumption | simp)+)

lemma not_a_string:
  "map_option (\<lambda>d. val_type (fst d)) d \<noteq> Some TString \<Longrightarrow> Option.bind d (\<lambda>d. as_str (fst d)) = None"
  by (cases d; cases "fst (the d)") auto

lemma wp_mget_loop [wp]:
  assumes "tidy E st" and "\<And>s. tidy E s \<Longrightarrow> live E s = live E st \<Longrightarrow>
    wp E Q (f s (map (\<lambda>k. bulk_or_nil (Option.bind (live E st k) (\<lambda>d. as_str (fst d)))) ks))"
  shows "wp E Q (let (s, r) = mget_loop E ks st in f s r)"
proof (rule wp_bind)
  show "wp E (\<lambda>M r. M = live E st \<and>
      r = map (\<lambda>k. bulk_or_nil (Option.bind (live E st k) (\<lambda>d. as_str (fst d)))) ks) (mget_loop E ks st)"
    using assms(1)
  proof (induction ks arbitrary: st)
    case (Cons k ks)
    show ?case
      unfolding mget_loop.simps
      by ((rule wp Cons.prems wp_bind [OF Cons.IH] | assumption | (simp add: not_a_string; fail))+)
  qed (simp add: wp_def)
qed (use assms(2) in auto)

lemma setnx_sound: "sound E {av ! 1} st (cmd_setnx E name av st)"
  unfolding cmd_setnx_def
  by (rule soundI) ((rule wp | assumption | rule wp_let | simp)+)

lemma setex_sound: "sound E {av ! 1} st (cmd_setex E name av st)"
  unfolding cmd_setex_def
  by (rule soundI) ((rule wp | assumption | rule wp_let | simp)+)

lemma get_sound: "sound E {} st (cmd_get E name av st)"
  unfolding cmd_get_def
  by (rule soundI) ((rule wp | assumption | rule wp_let | simp)+)

lemma getset_sound: "sound E {av ! 1} st (cmd_getset E name av st)"
  unfolding cmd_getset_def
  by (rule soundI) ((rule wp | assumption | rule wp_let | simp)+)

lemma getdel_sound: "sound E {av ! 1} st (cmd_getdel E name av st)"
  unfolding cmd_getdel_def
  by (rule soundI) ((rule wp | assumption | rule wp_let | simp)+)

lemma incr_sound: "sound E {av ! 1} st (cmd_incr E name av st)"
  unfolding cmd_incr_def
  by (rule soundI) ((rule wp | assumption | rule wp_let | simp)+)

lemma incrby_sound: "sound E {av ! 1} st (cmd_incrby E name av st)"
  unfolding cmd_incrby_def
  by (rule soundI) ((rule wp | assumption | rule wp_let | simp)+)

lemma incrbyfloat_sound: "sound E {av ! 1} st (cmd_incrbyfloat E name av st)"
  unfolding cmd_incrbyfloat_def
  by (rule soundI) ((rule wp | assumption | rule wp_let | simp)+)

lemma append_sound: "sound E {av ! 1} st (cmd_append E cfg name av st)"
  unfolding cmd_append_def
  by (rule soundI) ((rule wp | assumption | rule wp_let | simp)+)

lemma strlen_sound: "sound E {} st (cmd_strlen E name av st)"
  unfolding cmd_strlen_def
  by (rule soundI) ((rule wp | assumption | rule wp_let | simp)+)

lemma getrange_sound: "sound E {} st (cmd_getrange E name av st)"
  unfolding cmd_getrange_def
  by (rule soundI) ((rule wp | assumption | rule wp_let | simp)+)

lemma setrange_sound: "sound E {av ! 1} st (cmd_setrange E cfg name av st)"
  unfolding cmd_setrange_def
  by (rule soundI) ((rule wp | assumption | rule wp_let | simp)+)

lemma mget_sound: "sound E {} st (cmd_mget E name av st)"
  unfolding cmd_mget_def
  by (rule soundI) ((rule wp | assumption | rule wp_let | simp)+)

lemma wp_any_exists [wp]:
  assumes "tidy E st" and "\<And>s. tidy E s \<Longrightarrow> live E s = live E st \<Longrightarrow>
    wp E Q (f s (\<exists>k \<in> set ks. live E st k \<noteq> None))"
  shows "wp E Q (let (s, r) = any_exists E ks st in f s r)"
proof (rule wp_bind)
  show "wp E (\<lambda>M r. M = live E st \<and> r = (\<exists>k \<in> set ks. live E st k \<noteq> None)) (any_exists E ks st)"
    using assms(1)
  proof (induction ks arbitrary: st)
    case (Cons k ks)
    show ?case
      unfolding any_exists.simps
      by ((rule wp Cons.prems wp_weaken [OF Cons.IH] | assumption | (auto; fail))+)
  qed (simp add: wp_def)
qed (use assms(2) in auto)

definition assign_all :: "(bytes \<times> bytes) list \<Rightarrow> (bytes \<Rightarrow> datum option) \<Rightarrow> (bytes \<Rightarrow> datum option)" where
  "assign_all kvs M = fold (\<lambda>(k, v) M. M(k \<mapsto> (VStr v, None))) kvs M"

lemma set_all_spec:
  "tidy E st \<Longrightarrow> tidy E (set_all E kvs st) \<and> live E (set_all E kvs st) = assign_all kvs (live E st)"
  by (induction E kvs st rule: set_all.induct)
    (simp_all add: assign_all_def Let_def set_string_tidy set_string_spec tidy_wf)

lemma wp_set_all [wp]:
  "tidy E st \<Longrightarrow> (\<And>s. tidy E s \<Longrightarrow> live E s = assign_all kvs (live E st) \<Longrightarrow> wp E Q (f s)) \<Longrightarrow>
   wp E Q (let s = set_all E kvs st in f s)"
  using set_all_spec [of E st kvs] by simp

lemma vals_ok_assign_all [simp]: "vals_ok M \<Longrightarrow> vals_ok (assign_all kvs M)"
  by (induction kvs arbitrary: M) (auto simp: assign_all_def)

lemma assign_all_other: "k \<notin> fst ` set kvs \<Longrightarrow> assign_all kvs M k = M k"
  by (induction kvs arbitrary: M) (auto simp: assign_all_def)

lemma mset_sound: "sound E (fst ` set (chunks2 (drop 1 av))) st (cmd_mset E name av st)"
  unfolding cmd_mset_def
  by (rule soundI) ((rule wp | assumption | rule wp_let | simp add: assign_all_other)+)

text \<open>The keys a string command may change.\<close>

definition string_keys :: "bytes \<Rightarrow> bytes list \<Rightarrow> bytes set" where
  "string_keys name av =
     (if name \<in> {''MSET'', ''MSETNX''} then fst ` set (chunks2 (drop 1 av))
      else if name \<in> {''SET'', ''SETNX'', ''SETEX'', ''PSETEX'', ''GETSET'', ''GETDEL'', ''GETEX'', ''INCR'',
                       ''DECR'', ''INCRBY'', ''DECRBY'', ''INCRBYFLOAT'', ''APPEND'', ''SETRANGE''}
      then {av ! 1}
      else {})"

lemma string_sound: "sound E (string_keys name av) st (string_cmd E cfg name av st)"
  unfolding string_cmd_def string_keys_def
  by (simp add: set_sound setnx_sound setex_sound get_sound getset_sound getdel_sound getex_sound
      mget_sound mset_sound incr_sound incrby_sound incrbyfloat_sound append_sound strlen_sound
      getrange_sound setrange_sound sound_same del: One_nat_def)

end
