(* ===== verification/CmdList.thy ===== *)
theory CmdList
  imports CmdBase Lists
begin

text \<open>
  \<^verbatim>\<open>src/commands/list.rs\<close>: the list commands, with the single pop and the move the blocking
  commands share, and their effect.
\<close>

subsection \<open>Ends\<close>

datatype side = LeftEnd | RightEnd

definition side_parse :: "bytes \<Rightarrow> side option" where
  "side_parse token =
     (if eq_ignore_case token ''LEFT'' then Some LeftEnd
      else if eq_ignore_case token ''RIGHT'' then Some RightEnd
      else None)"

text \<open>What is popped, and what stays.\<close>

definition pop_from :: "side \<Rightarrow> 'a list \<Rightarrow> 'a option \<times> 'a list" where
  "pop_from s l =
     (case l of [] \<Rightarrow> (None, [])
      | x # xs \<Rightarrow> (case s of LeftEnd \<Rightarrow> (Some x, xs) | RightEnd \<Rightarrow> (Some (last l), butlast l)))"

definition push_to :: "side \<Rightarrow> 'a \<Rightarrow> 'a list \<Rightarrow> 'a list" where
  "push_to s v l = (case s of LeftEnd \<Rightarrow> v # l | RightEnd \<Rightarrow> l @ [v])"

definition pop_one :: "env \<Rightarrow> bytes \<Rightarrow> side \<Rightarrow> store \<Rightarrow> store \<times> bytes option" where
  "pop_one E k s st =
     (let (st, l) = write_list E k st
      in case l of
           None \<Rightarrow> (st, None)
         | Some l \<Rightarrow>
             (case pop_from s l of
                (None, _) \<Rightarrow> (st, None)
              | (Some v, l) \<Rightarrow>
                  (let st = put_value k (VList l) st; st = delete_if_empty E k st in (st, Some v))))"

text \<open>The destination has been type checked, so \<open>get_or_create_list\<close> returns a list: the
  \<open>expect\<close> of the code is the branch that leaves the store alone.\<close>

definition move_one ::
    "env \<Rightarrow> bytes \<Rightarrow> bytes \<Rightarrow> side \<Rightarrow> side \<Rightarrow> store \<Rightarrow> (store \<times> bytes option) outcome" where
  "move_one E source destination frm dst st =
     (let (st, l) = write_list E source st
      in case l of
           None \<Rightarrow> Done (st, None)
         | Some l \<Rightarrow>
             (case pop_from frm l of
                (None, _) \<Rightarrow> Done (st, None)
              | (Some v, l) \<Rightarrow>
                  (let st = put_value source (VList l) st;
                       (st, target) = get_or_create_list E destination st
                   in case target of
                        None \<Rightarrow> Panicked
                      | Some target \<Rightarrow>
                          (let st = put_value destination (VList (push_to dst v target)) st;
                               st = delete_if_empty E source st
                           in Done (st, Some v)))))"

fun pop_many :: "side \<Rightarrow> nat \<Rightarrow> 'a list \<Rightarrow> 'a list \<times> 'a list" where
  "pop_many s 0 l = ([], l)"
| "pop_many s (Suc n) l =
     (case pop_from s l of
        (None, l) \<Rightarrow> ([], l)
      | (Some v, l) \<Rightarrow> (let (vs, l) = pop_many s n l in (v # vs, l)))"

subsection \<open>Commands\<close>

definition cmd_push :: "env \<Rightarrow> bytes \<Rightarrow> bytes list \<Rightarrow> store \<Rightarrow> (store \<times> reply) outcome" where
  "cmd_push E name av st =
     (if \<not> min_args av 2 then Done (st, wrong_arity name)
      else
        (let s = (if hd name = CHR ''L'' then LeftEnd else RightEnd);
             (st, good) = check_type E (av ! 1) TList st
         in if \<not> good then Done (st, wrongtype)
            else
              (let (st, found) = (if last name = CHR ''X'' then exists_key E (av ! 1) st else (st, True))
               in if \<not> found then Done (st, Integer 0)
                  else
                    (let (st, l) = get_or_create_list E (av ! 1) st
                     in case l of
                          None \<Rightarrow> Panicked
                        | Some l \<Rightarrow>
                            (let l = fold (push_to s) (drop 2 av) l;
                                 st = put_value (av ! 1) (VList l) st
                             in Done (st, of_int_reply (length l)))))))"

text \<open>Without a count, one value or nil; with one, an array, or a nil array when nothing was popped.\<close>

definition pop_reply :: "nat option \<Rightarrow> bytes list \<Rightarrow> reply" where
  "pop_reply cnt popped =
     (case cnt of
        None \<Rightarrow> (case popped of [] \<Rightarrow> RNil | v # _ \<Rightarrow> Bulk v)
      | Some _ \<Rightarrow> if popped = [] then NilArray else bulk_array popped)"

lemma pop_reply_ok [simp]: "\<not> is_error (pop_reply cnt popped)"
  by (simp add: pop_reply_def split: option.split list.split)

definition cmd_pop :: "env \<Rightarrow> bytes \<Rightarrow> bytes list \<Rightarrow> store \<Rightarrow> store \<times> reply" where
  "cmd_pop E name av st =
     (if \<not> min_args av 1 then (st, wrong_arity name)
      else case
          (if length av = 2 then Inr None
           else if length av = 3 then
             (case parse_i64 (av ! 2) of
                None \<Rightarrow> Inl not_an_integer
              | Some c \<Rightarrow> if c \<ge> 0 then Inr (Some (nat c))
                          else Inl (Error ''ERR value is out of range, must be positive''))
           else Inl (wrong_arity name)) of
        Inl e \<Rightarrow> (st, e)
      | Inr cnt \<Rightarrow>
          (let s = (if name = ''LPOP'' then LeftEnd else RightEnd);
               (st, good) = check_type E (av ! 1) TList st
           in if \<not> good then (st, wrongtype)
              else
                (let (st, l) = write_list E (av ! 1) st
                 in case l of
                      None \<Rightarrow>
                        (let st = delete_if_empty E (av ! 1) st
                         in (st, pop_reply cnt []))
                    | Some l \<Rightarrow>
                        (let (popped, l) = pop_many s (case cnt of None \<Rightarrow> 1 | Some c \<Rightarrow> c) l;
                             st = put_value (av ! 1) (VList l) st;
                             st = delete_if_empty E (av ! 1) st
                         in (st, pop_reply cnt popped)))))"

definition cmd_llen :: "env \<Rightarrow> bytes \<Rightarrow> bytes list \<Rightarrow> store \<Rightarrow> store \<times> reply" where
  "cmd_llen E name av st =
     (if \<not> exact_args av 1 then (st, wrong_arity name)
      else (let (st, good) = check_type E (av ! 1) TList st
            in if \<not> good then (st, wrongtype)
               else (let (st, l) = read_list E (av ! 1) st
                     in (st, of_int_reply (case l of None \<Rightarrow> 0 | Some l \<Rightarrow> length l)))))"

definition cmd_lrange :: "env \<Rightarrow> bytes \<Rightarrow> bytes list \<Rightarrow> store \<Rightarrow> store \<times> reply" where
  "cmd_lrange E name av st =
     (if \<not> exact_args av 3 then (st, wrong_arity name)
      else case (parse_i64 (av ! 2), parse_i64 (av ! 3)) of
        (Some start, Some stop) \<Rightarrow>
          (let (st, good) = check_type E (av ! 1) TList st
           in if \<not> good then (st, wrongtype)
              else (let (st, l) = read_list E (av ! 1) st
                    in (st, bulk_array (case l of None \<Rightarrow> [] | Some l \<Rightarrow> list_range l start stop))))
      | _ \<Rightarrow> (st, not_an_integer))"

definition cmd_lindex :: "env \<Rightarrow> bytes \<Rightarrow> bytes list \<Rightarrow> store \<Rightarrow> store \<times> reply" where
  "cmd_lindex E name av st =
     (if \<not> exact_args av 2 then (st, wrong_arity name)
      else case parse_i64 (av ! 2) of
        None \<Rightarrow> (st, not_an_integer)
      | Some index \<Rightarrow>
          (let (st, good) = check_type E (av ! 1) TList st
           in if \<not> good then (st, wrongtype)
              else (let (st, l) = read_list E (av ! 1) st
                    in (st, bulk_or_nil (case l of
                              None \<Rightarrow> None
                            | Some l \<Rightarrow> map_option (\<lambda>i. l ! i) (resolve_index (length l) index))))))"

definition cmd_lset :: "env \<Rightarrow> bytes \<Rightarrow> bytes list \<Rightarrow> store \<Rightarrow> store \<times> reply" where
  "cmd_lset E name av st =
     (if \<not> exact_args av 3 then (st, wrong_arity name)
      else case parse_i64 (av ! 2) of
        None \<Rightarrow> (st, not_an_integer)
      | Some index \<Rightarrow>
          (let (st, good) = check_type E (av ! 1) TList st
           in if \<not> good then (st, wrongtype)
              else (let (st, l) = write_list E (av ! 1) st
                    in case l of
                         None \<Rightarrow> (st, Error ''ERR no such key'')
                       | Some l \<Rightarrow>
                           (case resolve_index (length l) index of
                              Some i \<Rightarrow>
                                (let st = put_value (av ! 1) (VList (l[i := av ! 3])) st
                                 in (st, reply_ok))
                            | None \<Rightarrow> (st, Error ''ERR index out of range'')))))"

definition cmd_linsert :: "env \<Rightarrow> bytes \<Rightarrow> bytes list \<Rightarrow> store \<Rightarrow> store \<times> reply" where
  "cmd_linsert E name av st =
     (if \<not> exact_args av 4 then (st, wrong_arity name)
      else if \<not> eq_ignore_case (av ! 2) ''BEFORE'' \<and> \<not> eq_ignore_case (av ! 2) ''AFTER''
      then (st, syntax_error)
      else
        (let before = eq_ignore_case (av ! 2) ''BEFORE'';
             (st, good) = check_type E (av ! 1) TList st
         in if \<not> good then (st, wrongtype)
            else (let (st, l) = write_list E (av ! 1) st
                  in case (case l of None \<Rightarrow> None | Some l \<Rightarrow> list_insert l before (av ! 3) (av ! 4)) of
                       Some (l, len) \<Rightarrow>
                         (let st = put_value (av ! 1) (VList l) st in (st, of_int_reply len))
                     | None \<Rightarrow>
                         (let (st, found) = exists_key E (av ! 1) st
                          in (st, Integer (if found then - 1 else 0))))))"

definition cmd_lrem :: "env \<Rightarrow> bytes \<Rightarrow> bytes list \<Rightarrow> store \<Rightarrow> store \<times> reply" where
  "cmd_lrem E name av st =
     (if \<not> exact_args av 3 then (st, wrong_arity name)
      else case parse_i64 (av ! 2) of
        None \<Rightarrow> (st, not_an_integer)
      | Some cnt \<Rightarrow>
          (let (st, good) = check_type E (av ! 1) TList st
           in if \<not> good then (st, wrongtype)
              else (let (st, l) = write_list E (av ! 1) st
                    in case l of
                         None \<Rightarrow> (let st = delete_if_empty E (av ! 1) st in (st, of_int_reply 0))
                       | Some l \<Rightarrow>
                           (let (l, removed) = list_remove l cnt (av ! 3);
                                st = put_value (av ! 1) (VList l) st;
                                st = delete_if_empty E (av ! 1) st
                            in (st, of_int_reply removed)))))"

definition cmd_ltrim :: "env \<Rightarrow> bytes \<Rightarrow> bytes list \<Rightarrow> store \<Rightarrow> store \<times> reply" where
  "cmd_ltrim E name av st =
     (if \<not> exact_args av 3 then (st, wrong_arity name)
      else case (parse_i64 (av ! 2), parse_i64 (av ! 3)) of
        (Some start, Some stop) \<Rightarrow>
          (let (st, good) = check_type E (av ! 1) TList st
           in if \<not> good then (st, wrongtype)
              else (let (st, l) = write_list E (av ! 1) st
                    in case l of
                         None \<Rightarrow> (let st = delete_if_empty E (av ! 1) st in (st, reply_ok))
                       | Some l \<Rightarrow>
                           (let st = put_value (av ! 1) (VList (list_trim l start stop)) st;
                                st = delete_if_empty E (av ! 1) st
                            in (st, reply_ok))))
      | _ \<Rightarrow> (st, not_an_integer))"

definition cmd_lmove :: "env \<Rightarrow> bytes \<Rightarrow> bytes list \<Rightarrow> store \<Rightarrow> (store \<times> reply) outcome" where
  "cmd_lmove E name av st =
     (case (if name = ''RPOPLPUSH'' then
              (if \<not> exact_args av 2 then Inl (wrong_arity name) else Inr (RightEnd, LeftEnd))
            else if \<not> exact_args av 4 then Inl (wrong_arity name)
            else (case (side_parse (av ! 3), side_parse (av ! 4)) of
                    (Some f, Some t) \<Rightarrow> Inr (f, t)
                  | _ \<Rightarrow> Inl syntax_error)) of
        Inl e \<Rightarrow> Done (st, e)
      | Inr (f, t) \<Rightarrow>
          (let (st, good) = check_type E (av ! 1) TList st
           in if \<not> good then Done (st, wrongtype)
              else (let (st, good) = check_type E (av ! 2) TList st
                    in if \<not> good then Done (st, wrongtype)
                       else (case move_one E (av ! 1) (av ! 2) f t st of
                               Panicked \<Rightarrow> Panicked
                             | Done (st, v) \<Rightarrow> Done (st, bulk_or_nil v)))))"

definition list_cmd :: "env \<Rightarrow> bytes \<Rightarrow> bytes list \<Rightarrow> store \<Rightarrow> (store \<times> reply) outcome" where
  "list_cmd E name av st =
     (if name \<in> {''LPUSH'', ''RPUSH'', ''LPUSHX'', ''RPUSHX''} then cmd_push E name av st
      else if name \<in> {''LPOP'', ''RPOP''} then Done (cmd_pop E name av st)
      else if name = ''LLEN'' then Done (cmd_llen E name av st)
      else if name = ''LRANGE'' then Done (cmd_lrange E name av st)
      else if name = ''LINDEX'' then Done (cmd_lindex E name av st)
      else if name = ''LSET'' then Done (cmd_lset E name av st)
      else if name = ''LINSERT'' then Done (cmd_linsert E name av st)
      else if name = ''LREM'' then Done (cmd_lrem E name av st)
      else if name = ''LTRIM'' then Done (cmd_ltrim E name av st)
      else if name \<in> {''RPOPLPUSH'', ''LMOVE''} then cmd_lmove E name av st
      else Done (st, unknown_in_family))"

subsection \<open>Every command touches only its keys\<close>

lemma push_to_nonempty [simp]: "push_to s v l \<noteq> []"
  by (cases s) (simp_all add: push_to_def)

lemma fold_push_nonempty: "vs \<noteq> [] \<or> l \<noteq> [] \<Longrightarrow> fold (push_to s) vs l \<noteq> []"
  by (induction vs arbitrary: l) auto

lemma list_insert_nonempty: "list_insert l b p v = Some (l', n) \<Longrightarrow> l' \<noteq> []"
  by (auto simp: list_insert_def insert_at_def Let_def split: option.splits)

lemma push_sounds: "sounds E {av ! 1} st (cmd_push E name av st)"
  unfolding cmd_push_def
  by (rule soundsI) ((rule wp | assumption | rule wp_let | (simp add: fold_push_nonempty min_args_def; fail))+)

lemma pop_sound: "sound E {av ! 1} st (cmd_pop E name av st)"
  unfolding cmd_pop_def
  by (rule soundI) ((rule wp | assumption | rule wp_let | (simp split: option.split list.split; fail) | (auto dest: list_insert_nonempty; fail))+)

lemma llen_sound: "sound E {} st (cmd_llen E name av st)"
  unfolding cmd_llen_def
  by (rule soundI) ((rule wp | assumption | rule wp_let | (simp split: option.split list.split; fail) | (auto dest: list_insert_nonempty; fail))+)

lemma lrange_sound: "sound E {} st (cmd_lrange E name av st)"
  unfolding cmd_lrange_def
  by (rule soundI) ((rule wp | assumption | rule wp_let | (simp split: option.split list.split; fail) | (auto dest: list_insert_nonempty; fail))+)

lemma lindex_sound: "sound E {} st (cmd_lindex E name av st)"
  unfolding cmd_lindex_def
  by (rule soundI) ((rule wp | assumption | rule wp_let | (simp split: option.split list.split; fail) | (auto dest: list_insert_nonempty; fail))+)

lemma lset_sound: "sound E {av ! 1} st (cmd_lset E name av st)"
  unfolding cmd_lset_def
  by (rule soundI) ((rule wp | assumption | rule wp_let | (simp split: option.split list.split; fail) | (auto dest: list_insert_nonempty; fail))+)

lemma linsert_sound: "sound E {av ! 1} st (cmd_linsert E name av st)"
  unfolding cmd_linsert_def
  by (rule soundI) ((rule wp | assumption | rule wp_let | (simp split: option.split list.split; fail) | (auto dest: list_insert_nonempty; fail))+)

lemma lrem_sound: "sound E {av ! 1} st (cmd_lrem E name av st)"
  unfolding cmd_lrem_def
  by (rule soundI) ((rule wp | assumption | rule wp_let | (simp split: option.split list.split; fail) | (auto dest: list_insert_nonempty; fail))+)

lemma ltrim_sound: "sound E {av ! 1} st (cmd_ltrim E name av st)"
  unfolding cmd_ltrim_def
  by (rule soundI) ((rule wp | assumption | rule wp_let | (simp split: option.split list.split; fail) | (auto dest: list_insert_nonempty; fail))+)

lemma step_pop_one:
  assumes "tidy E st"
    and "\<And>s. tidy E s \<Longrightarrow> live E s = live E st \<Longrightarrow> P (f s None)"
    and "\<And>s l t v l'. tidy E s \<Longrightarrow> live E st k = Some (VList l, t) \<Longrightarrow> pop_from sd l = (Some v, l') \<Longrightarrow>
      live E s = drop_empty k ((live E st)(k \<mapsto> (VList l', t))) \<Longrightarrow> P (f s (Some v))"
  shows "P (let (s, r) = pop_one E k sd st in f s r)"
proof -
  have "wp E (\<lambda>M r. case r of None \<Rightarrow> M = live E st | Some v \<Rightarrow>
      \<exists>l t l'. live E st k = Some (VList l, t) \<and> pop_from sd l = (Some v, l') \<and>
        M = drop_empty k ((live E st)(k \<mapsto> (VList l', t)))) (pop_one E k sd st)"
    unfolding pop_one_def by ((rule wp assms(1) | assumption | (simp; fail))+)
  then show ?thesis
    using assms(2,3) by (cases "pop_one E k sd st") (auto simp: wp_def split: option.splits)
qed

lemmas pop_one_steps [wp] =
  step_pop_one [where P = "wp E Q" for E Q] step_pop_one [where P = "wpo E Q" for E Q]

lemma wpo_move_one:
  assumes "tidy E st" and "vals_ok (live E st)" and "has_type TList (live E st dest)"
  shows "wpo E (\<lambda>M r. vals_ok M \<and> (\<forall>k. k \<noteq> src \<longrightarrow> k \<noteq> dest \<longrightarrow> M k = live E st k)) (move_one E src dest a b st)"
  unfolding move_one_def
  by ((rule wp assms(1) | assumption | rule wp_let | (cases "src = dest"; use assms in auto; fail))+)

lemma lmove_sounds: "sounds E {av ! 1, av ! 2} st (cmd_lmove E name av st)"
  unfolding cmd_lmove_def
  by (rule soundsI) ((rule wp | assumption | rule wp_let wpo_bind [OF wpo_move_one] | (simp; fail))+)

definition list_keys :: "bytes \<Rightarrow> bytes list \<Rightarrow> bytes set" where
  "list_keys name av =
     (if name \<in> {''RPOPLPUSH'', ''LMOVE''} then {av ! 1, av ! 2}
      else if name \<in> {''LPUSH'', ''RPUSH'', ''LPUSHX'', ''RPUSHX'', ''LPOP'', ''RPOP'', ''LSET'',
                       ''LINSERT'', ''LREM'', ''LTRIM''} then {av ! 1}
      else {})"

lemma list_sounds: "sounds E (list_keys name av) st (list_cmd E name av st)"
  unfolding list_cmd_def list_keys_def
  by (simp add: push_sounds pop_sound llen_sound lrange_sound lindex_sound lset_sound linsert_sound
      lrem_sound ltrim_sound lmove_sounds sound_same del: One_nat_def)

end
