(* ===== verification/CmdHash.thy ===== *)
theory CmdHash
  imports CmdBase
begin

text \<open>
  \<^verbatim>\<open>src/commands/hash.rs\<close>. A hash is an association list with distinct fields; its order stands
  for the iteration order of the \<open>HashMap\<close>, on which no lemma depends.
\<close>

text \<open>HSET's loop: the hash after the pairs, and how many fields were new.\<close>

fun hash_insert_all :: "(bytes \<times> bytes) list \<Rightarrow> (bytes, bytes) hmap \<Rightarrow> (bytes, bytes) hmap \<times> nat" where
  "hash_insert_all [] h = (h, 0)"
| "hash_insert_all ((f, v) # fvs) h =
     (let (h', n) = hash_insert_all fvs (hm_insert f v h)
      in (h', if hm_get h f = None then n + 1 else n))"

fun hash_remove_all :: "bytes list \<Rightarrow> (bytes, bytes) hmap \<Rightarrow> (bytes, bytes) hmap \<times> nat" where
  "hash_remove_all [] h = (h, 0)"
| "hash_remove_all (f # fs) h =
     (let (h', n) = hash_remove_all fs (hm_remove f h)
      in (h', if hm_get h f = None then n else n + 1))"

definition cmd_hset :: "env \<Rightarrow> bytes \<Rightarrow> bytes list \<Rightarrow> store \<Rightarrow> (store \<times> reply) outcome" where
  "cmd_hset E name av st =
     (if \<not> min_args av 3 then Done (st, wrong_arity name)
      else if odd (length (drop 2 av)) then Done (st, wrong_arity name)
      else
        (let (st, good) = check_type E (av ! 1) THash st
         in if \<not> good then Done (st, wrongtype)
            else (let (st, h) = get_or_create_hash E (av ! 1) st
                  in case h of
                       None \<Rightarrow> Panicked
                     | Some h \<Rightarrow>
                         (let (h, added) = hash_insert_all (chunks2 (drop 2 av)) h;
                              st = put_value (av ! 1) (VHash h) st
                          in Done (st, if name = ''HMSET'' then reply_ok else of_int_reply added)))))"

definition cmd_hsetnx :: "env \<Rightarrow> bytes \<Rightarrow> bytes list \<Rightarrow> store \<Rightarrow> (store \<times> reply) outcome" where
  "cmd_hsetnx E name av st =
     (if \<not> exact_args av 3 then Done (st, wrong_arity name)
      else
        (let (st, good) = check_type E (av ! 1) THash st
         in if \<not> good then Done (st, wrongtype)
            else (let (st, h) = get_or_create_hash E (av ! 1) st
                  in case h of
                       None \<Rightarrow> Panicked
                     | Some h \<Rightarrow>
                         if hm_get h (av ! 2) \<noteq> None
                         then (let st = delete_if_empty E (av ! 1) st in Done (st, reply_bool False))
                         else (let st = put_value (av ! 1) (VHash (hm_insert (av ! 2) (av ! 3) h)) st
                               in Done (st, reply_bool True)))))"

definition field_of :: "(bytes, bytes) hmap option \<Rightarrow> bytes \<Rightarrow> bytes option" where
  "field_of h f = (case h of None \<Rightarrow> None | Some h \<Rightarrow> hm_get h f)"

definition cmd_hget :: "env \<Rightarrow> bytes \<Rightarrow> bytes list \<Rightarrow> store \<Rightarrow> store \<times> reply" where
  "cmd_hget E name av st =
     (if \<not> exact_args av 2 then (st, wrong_arity name)
      else (let (st, good) = check_type E (av ! 1) THash st
            in if \<not> good then (st, wrongtype)
               else (let (st, h) = read_hash E (av ! 1) st in (st, bulk_or_nil (field_of h (av ! 2))))))"

definition cmd_hmget :: "env \<Rightarrow> bytes \<Rightarrow> bytes list \<Rightarrow> store \<Rightarrow> store \<times> reply" where
  "cmd_hmget E name av st =
     (if \<not> min_args av 2 then (st, wrong_arity name)
      else (let (st, good) = check_type E (av ! 1) THash st
            in if \<not> good then (st, wrongtype)
               else (let (st, h) = read_hash E (av ! 1) st
                     in (st, Array (map (\<lambda>f. bulk_or_nil (field_of h f)) (drop 2 av))))))"

definition cmd_hdel :: "env \<Rightarrow> bytes \<Rightarrow> bytes list \<Rightarrow> store \<Rightarrow> store \<times> reply" where
  "cmd_hdel E name av st =
     (if \<not> min_args av 2 then (st, wrong_arity name)
      else (let (st, good) = check_type E (av ! 1) THash st
            in if \<not> good then (st, wrongtype)
               else (let (st, h) = write_hash E (av ! 1) st
                     in case h of
                          None \<Rightarrow> (let st = delete_if_empty E (av ! 1) st in (st, of_int_reply 0))
                        | Some h \<Rightarrow>
                            (let (h, removed) = hash_remove_all (drop 2 av) h;
                                 st = put_value (av ! 1) (VHash h) st;
                                 st = delete_if_empty E (av ! 1) st
                             in (st, of_int_reply removed)))))"

definition cmd_hlen :: "env \<Rightarrow> bytes \<Rightarrow> bytes list \<Rightarrow> store \<Rightarrow> store \<times> reply" where
  "cmd_hlen E name av st =
     (if \<not> exact_args av 1 then (st, wrong_arity name)
      else (let (st, good) = check_type E (av ! 1) THash st
            in if \<not> good then (st, wrongtype)
               else (let (st, h) = read_hash E (av ! 1) st
                     in (st, of_int_reply (case h of None \<Rightarrow> 0 | Some h \<Rightarrow> length h)))))"

definition cmd_hexists :: "env \<Rightarrow> bytes \<Rightarrow> bytes list \<Rightarrow> store \<Rightarrow> store \<times> reply" where
  "cmd_hexists E name av st =
     (if \<not> exact_args av 2 then (st, wrong_arity name)
      else (let (st, good) = check_type E (av ! 1) THash st
            in if \<not> good then (st, wrongtype)
               else (let (st, h) = read_hash E (av ! 1) st
                     in (st, reply_bool (field_of h (av ! 2) \<noteq> None)))))"

definition cmd_hstrlen :: "env \<Rightarrow> bytes \<Rightarrow> bytes list \<Rightarrow> store \<Rightarrow> store \<times> reply" where
  "cmd_hstrlen E name av st =
     (if \<not> exact_args av 2 then (st, wrong_arity name)
      else (let (st, good) = check_type E (av ! 1) THash st
            in if \<not> good then (st, wrongtype)
               else (let (st, h) = read_hash E (av ! 1) st
                     in (st, of_int_reply (case field_of h (av ! 2) of None \<Rightarrow> 0 | Some v \<Rightarrow> length v)))))"

definition cmd_hkeys :: "env \<Rightarrow> bytes \<Rightarrow> bytes list \<Rightarrow> store \<Rightarrow> store \<times> reply" where
  "cmd_hkeys E name av st =
     (if \<not> exact_args av 1 then (st, wrong_arity name)
      else (let (st, good) = check_type E (av ! 1) THash st
            in if \<not> good then (st, wrongtype)
               else (let (st, h) = read_hash E (av ! 1) st
                     in (st, bulk_array (case h of None \<Rightarrow> []
                           | Some h \<Rightarrow> map (if name = ''HKEYS'' then fst else snd) h)))))"

definition cmd_hgetall :: "env \<Rightarrow> bytes \<Rightarrow> bytes list \<Rightarrow> store \<Rightarrow> store \<times> reply" where
  "cmd_hgetall E name av st =
     (if \<not> exact_args av 1 then (st, wrong_arity name)
      else (let (st, good) = check_type E (av ! 1) THash st
            in if \<not> good then (st, wrongtype)
               else (let (st, h) = read_hash E (av ! 1) st
                     in (st, Map (case h of None \<Rightarrow> []
                           | Some h \<Rightarrow> map (\<lambda>(f, v). (Bulk f, Bulk v)) h)))))"

definition cmd_hincrby :: "env \<Rightarrow> bytes \<Rightarrow> bytes list \<Rightarrow> store \<Rightarrow> (store \<times> reply) outcome" where
  "cmd_hincrby E name av st =
     (if \<not> exact_args av 3 then Done (st, wrong_arity name)
      else case parse_i64 (av ! 3) of
        None \<Rightarrow> Done (st, not_an_integer)
      | Some d \<Rightarrow>
          (let (st, good) = check_type E (av ! 1) THash st
           in if \<not> good then Done (st, wrongtype)
              else (let (st, h) = read_hash E (av ! 1) st
                    in case (case field_of h (av ! 2) of None \<Rightarrow> Some 0 | Some v \<Rightarrow> parse_i64 v) of
                         None \<Rightarrow> Done (st, Error ''ERR hash value is not an integer'')
                       | Some base \<Rightarrow>
                           (case checked_add base d of
                              None \<Rightarrow> Done (st, Error ''ERR increment or decrement would overflow'')
                            | Some updated \<Rightarrow>
                                (let (st, h) = get_or_create_hash E (av ! 1) st
                                 in case h of
                                      None \<Rightarrow> Panicked
                                    | Some h \<Rightarrow>
                                        (let st = put_value (av ! 1)
                                               (VHash (hm_insert (av ! 2) (int_str updated) h)) st
                                         in Done (st, Integer updated)))))))"

definition cmd_hincrbyfloat :: "env \<Rightarrow> bytes \<Rightarrow> bytes list \<Rightarrow> store \<Rightarrow> (store \<times> reply) outcome" where
  "cmd_hincrbyfloat E name av st =
     (if \<not> exact_args av 3 then Done (st, wrong_arity name)
      else case parse_f64 (av ! 3) of
        None \<Rightarrow> Done (st, not_a_float)
      | Some d \<Rightarrow>
          (let (st, good) = check_type E (av ! 1) THash st
           in if \<not> good then Done (st, wrongtype)
              else (let (st, h) = read_hash E (av ! 1) st
                    in case (case field_of h (av ! 2) of None \<Rightarrow> Some (Fin 0) | Some v \<Rightarrow> parse_f64 v) of
                         None \<Rightarrow> Done (st, not_a_float)
                       | Some base \<Rightarrow>
                           (let sum = fadd F64 base d
                            in if \<not> is_finite sum
                               then Done (st, Error ''ERR increment would produce NaN or Infinity'')
                               else
                                 (let shown = format_f64 sum;
                                      (st, h) = get_or_create_hash E (av ! 1) st
                                  in case h of
                                       None \<Rightarrow> Panicked
                                     | Some h \<Rightarrow>
                                         (let st = put_value (av ! 1)
                                                (VHash (hm_insert (av ! 2) shown h)) st
                                          in Done (st, Bulk shown)))))))"

definition hash_cmd :: "env \<Rightarrow> bytes \<Rightarrow> bytes list \<Rightarrow> store \<Rightarrow> (store \<times> reply) outcome" where
  "hash_cmd E name av st =
     (if name \<in> {''HSET'', ''HMSET''} then cmd_hset E name av st
      else if name = ''HSETNX'' then cmd_hsetnx E name av st
      else if name = ''HGET'' then Done (cmd_hget E name av st)
      else if name = ''HMGET'' then Done (cmd_hmget E name av st)
      else if name = ''HDEL'' then Done (cmd_hdel E name av st)
      else if name = ''HLEN'' then Done (cmd_hlen E name av st)
      else if name = ''HEXISTS'' then Done (cmd_hexists E name av st)
      else if name = ''HSTRLEN'' then Done (cmd_hstrlen E name av st)
      else if name \<in> {''HKEYS'', ''HVALS''} then Done (cmd_hkeys E name av st)
      else if name = ''HGETALL'' then Done (cmd_hgetall E name av st)
      else if name = ''HINCRBY'' then cmd_hincrby E name av st
      else if name = ''HINCRBYFLOAT'' then cmd_hincrbyfloat E name av st
      else Done (st, unknown_in_family))"

subsection \<open>Every command touches only its keys\<close>

lemma hm_insert_nonempty [simp]: "hm_insert f v h \<noteq> []"
  by (cases h) auto

lemma hm_wf_single [simp]: "hm_wf [x]"
  by (simp add: hm_wf_def)

lemma hash_insert_all_spec:
  "hm_wf h \<Longrightarrow> hm_wf (fst (hash_insert_all fvs h)) \<and> (fvs \<noteq> [] \<or> h \<noteq> [] \<longrightarrow> fst (hash_insert_all fvs h) \<noteq> [])"
  by (induction fvs h rule: hash_insert_all.induct) (auto simp: case_prod_beta)

lemma hash_remove_all_wf: "hm_wf h \<Longrightarrow> hm_wf (fst (hash_remove_all fs h))"
  by (induction fs h rule: hash_remove_all.induct) (auto simp: case_prod_beta)

lemma hash_insert_all_pair:
  assumes "hash_insert_all fvs h = (h', n)" and "hm_wf h" and "fvs \<noteq> []"
  shows "h' \<noteq> []" and "hm_wf h'"
  using hash_insert_all_spec [OF assms(2), of fvs] assms(1,3) by simp_all

lemma hash_remove_all_pair: "hash_remove_all fs h = (h', n) \<Longrightarrow> hm_wf h \<Longrightarrow> hm_wf h'"
  using hash_remove_all_wf [of h fs] by simp

lemma hset_sounds: "sounds E {av ! 1} st (cmd_hset E name av st)"
  unfolding cmd_hset_def
  by (rule soundsI)
    ((rule wp | assumption | rule wp_let
      | (simp add: hash_insert_all_pair chunks2_nonempty min_args_def split: if_splits; fail))+)

lemma hsetnx_sounds: "sounds E {av ! 1} st (cmd_hsetnx E name av st)"
  unfolding cmd_hsetnx_def
  by (rule soundsI) ((rule wp | assumption | rule wp_let | (simp; fail) | (auto; fail))+)

lemma hincrby_sounds: "sounds E {av ! 1} st (cmd_hincrby E name av st)"
  unfolding cmd_hincrby_def
  by (rule soundsI) ((rule wp | assumption | rule wp_let | (simp; fail) | (auto; fail))+)

lemma hincrbyfloat_sounds: "sounds E {av ! 1} st (cmd_hincrbyfloat E name av st)"
  unfolding cmd_hincrbyfloat_def
  by (rule soundsI) ((rule wp | assumption | rule wp_let | (simp; fail) | (auto; fail))+)

lemma hget_sound: "sound E {} st (cmd_hget E name av st)"
  unfolding cmd_hget_def
  by (rule soundI) ((rule wp | assumption | rule wp_let | (simp; fail) | (auto; fail))+)

lemma hmget_sound: "sound E {} st (cmd_hmget E name av st)"
  unfolding cmd_hmget_def
  by (rule soundI) ((rule wp | assumption | rule wp_let | (simp; fail) | (auto; fail))+)

lemma hlen_sound: "sound E {} st (cmd_hlen E name av st)"
  unfolding cmd_hlen_def
  by (rule soundI) ((rule wp | assumption | rule wp_let | (simp; fail) | (auto; fail))+)

lemma hexists_sound: "sound E {} st (cmd_hexists E name av st)"
  unfolding cmd_hexists_def
  by (rule soundI) ((rule wp | assumption | rule wp_let | (simp; fail) | (auto; fail))+)

lemma hstrlen_sound: "sound E {} st (cmd_hstrlen E name av st)"
  unfolding cmd_hstrlen_def
  by (rule soundI) ((rule wp | assumption | rule wp_let | (simp; fail) | (auto; fail))+)

lemma hkeys_sound: "sound E {} st (cmd_hkeys E name av st)"
  unfolding cmd_hkeys_def
  by (rule soundI) ((rule wp | assumption | rule wp_let | (simp; fail) | (auto; fail))+)

lemma hgetall_sound: "sound E {} st (cmd_hgetall E name av st)"
  unfolding cmd_hgetall_def
  by (rule soundI) ((rule wp | assumption | rule wp_let | (simp; fail) | (auto; fail))+)

lemma hdel_sound: "sound E {av ! 1} st (cmd_hdel E name av st)"
  unfolding cmd_hdel_def
  by (rule soundI) ((rule wp | assumption | rule wp_let | (simp add: hash_remove_all_pair; fail))+)

definition hash_keys :: "bytes \<Rightarrow> bytes list \<Rightarrow> bytes set" where
  "hash_keys name av =
     (if name \<in> {''HSET'', ''HMSET'', ''HSETNX'', ''HDEL'', ''HINCRBY'', ''HINCRBYFLOAT''} then {av ! 1}
      else {})"

lemma hash_sounds: "sounds E (hash_keys name av) st (hash_cmd E name av st)"
  unfolding hash_cmd_def hash_keys_def
  by (simp add: hset_sounds hsetnx_sounds hget_sound hmget_sound hdel_sound hlen_sound hexists_sound
      hstrlen_sound hkeys_sound hgetall_sound hincrby_sounds hincrbyfloat_sounds sound_same
      del: One_nat_def)

end
