(* ===== verification/CmdSet.thy ===== *)
theory CmdSet
  imports CmdBase
begin

text \<open>
  \<^verbatim>\<open>src/commands/set.rs\<close>. A set is a distinct list whose order stands for the iteration order of
  the \<open>HashSet\<close>. Random picks draw from the generator the store carries, the code's thread-local.
\<close>

subsection \<open>Members\<close>

definition set_insert :: "'a \<Rightarrow> 'a list \<Rightarrow> 'a list" where
  "set_insert m s = (if m \<in> set s then s else s @ [m])"

text \<open>SADD and SREM: the set after the arguments, and how many made a difference.\<close>

fun set_insert_all :: "'a list \<Rightarrow> 'a list \<Rightarrow> 'a list \<times> nat" where
  "set_insert_all [] s = (s, 0)"
| "set_insert_all (m # ms) s =
     (let (s', n) = set_insert_all ms (set_insert m s) in (s', if m \<in> set s then n else n + 1))"

fun set_remove_all :: "'a list \<Rightarrow> 'a list \<Rightarrow> 'a list \<times> nat" where
  "set_remove_all [] s = (s, 0)"
| "set_remove_all (m # ms) s =
     (let (s', n) = set_remove_all ms (remove1 m s) in (s', if m \<in> set s then n + 1 else n))"

text \<open>\<open>take_random\<close>: the generator, what is left of the set, and what was taken.\<close>

fun take_random_loop ::
    "nat \<Rightarrow> env \<Rightarrow> 'a list \<Rightarrow> 'a list \<Rightarrow> 64 word \<Rightarrow> 64 word \<times> 'a list \<times> 'a list" where
  "take_random_loop 0 E members s g = (g, s, [])"
| "take_random_loop (Suc n) E members s g =
     (let (g, i) = below E (length members) g;
          picked = members ! i;
          (g, s, taken) = take_random_loop n E (swap_remove i members) (remove1 picked s) g
      in (g, s, picked # taken))"

definition take_random :: "env \<Rightarrow> 'a list \<Rightarrow> nat \<Rightarrow> 64 word \<Rightarrow> 64 word \<times> 'a list \<times> 'a list" where
  "take_random E s cnt g = take_random_loop (min cnt (length s)) E s s g"

fun draw_members :: "nat \<Rightarrow> env \<Rightarrow> 'a list \<Rightarrow> 64 word \<Rightarrow> 64 word \<times> 'a list" where
  "draw_members 0 E members g = (g, [])"
| "draw_members (Suc n) E members g =
     (let (g, i) = below E (length members) g;
          (g, ms) = draw_members n E members g
      in (g, if i < length members then (members ! i) # ms else ms))"

subsection \<open>The algebra\<close>

fun check_sets :: "env \<Rightarrow> bytes list \<Rightarrow> store \<Rightarrow> store \<times> bool" where
  "check_sets E [] st = (st, True)"
| "check_sets E (k # ks) st =
     (let (st, good) = check_type E k TSet st in if \<not> good then (st, False) else check_sets E ks st)"

fun read_sets :: "env \<Rightarrow> bytes list \<Rightarrow> store \<Rightarrow> store \<times> bytes list list" where
  "read_sets E [] st = (st, [])"
| "read_sets E (k # ks) st =
     (let (st, s) = read_set E k st; (st, ss) = read_sets E ks st
      in (st, (case s of None \<Rightarrow> [] | Some s \<Rightarrow> s) # ss))"

definition combine_with :: "bytes \<Rightarrow> 'a list \<Rightarrow> 'a list \<Rightarrow> 'a list" where
  "combine_with op other accum =
     (if op = ''SINTER'' then filter (\<lambda>m. m \<in> set other) accum
      else if op = ''SUNION'' then fold set_insert other accum
      else filter (\<lambda>m. m \<notin> set other) accum)"

definition combine :: "bytes \<Rightarrow> 'a list list \<Rightarrow> 'a list outcome" where
  "combine op ss =
     (case ss of [] \<Rightarrow> Panicked | first # others \<Rightarrow> Done (fold (combine_with op) others first))"

definition trim_store :: "bytes \<Rightarrow> bytes" where
  "trim_store name =
     (if name = ''SINTERSTORE'' then ''SINTER''
      else if name = ''SUNIONSTORE'' then ''SUNION''
      else if name = ''SDIFFSTORE'' then ''SDIFF'' else name)"

subsection \<open>Commands\<close>

definition cmd_sadd :: "env \<Rightarrow> bytes \<Rightarrow> bytes list \<Rightarrow> store \<Rightarrow> (store \<times> reply) outcome" where
  "cmd_sadd E name av st =
     (if \<not> min_args av 2 then Done (st, wrong_arity name)
      else
        (let (st, good) = check_type E (av ! 1) TSet st
         in if \<not> good then Done (st, wrongtype)
            else (let (st, s) = get_or_create_set E (av ! 1) st
                  in case s of
                       None \<Rightarrow> Panicked
                     | Some s \<Rightarrow>
                         (let (s, added) = set_insert_all (drop 2 av) s;
                              st = put_value (av ! 1) (VSet s) st
                          in Done (st, of_int_reply added)))))"

definition cmd_srem :: "env \<Rightarrow> bytes \<Rightarrow> bytes list \<Rightarrow> store \<Rightarrow> store \<times> reply" where
  "cmd_srem E name av st =
     (if \<not> min_args av 2 then (st, wrong_arity name)
      else (let (st, good) = check_type E (av ! 1) TSet st
            in if \<not> good then (st, wrongtype)
               else (let (st, s) = write_set E (av ! 1) st
                     in case s of
                          None \<Rightarrow> (let st = delete_if_empty E (av ! 1) st in (st, of_int_reply 0))
                        | Some s \<Rightarrow>
                            (let (s, removed) = set_remove_all (drop 2 av) s;
                                 st = put_value (av ! 1) (VSet s) st;
                                 st = delete_if_empty E (av ! 1) st
                             in (st, of_int_reply removed)))))"

definition members_of :: "bytes list option \<Rightarrow> bytes list" where
  "members_of s = (case s of None \<Rightarrow> [] | Some s \<Rightarrow> s)"

definition cmd_sismember :: "env \<Rightarrow> bytes \<Rightarrow> bytes list \<Rightarrow> store \<Rightarrow> store \<times> reply" where
  "cmd_sismember E name av st =
     (if \<not> exact_args av 2 then (st, wrong_arity name)
      else (let (st, good) = check_type E (av ! 1) TSet st
            in if \<not> good then (st, wrongtype)
               else (let (st, s) = read_set E (av ! 1) st
                     in (st, reply_bool (av ! 2 \<in> set (members_of s))))))"

definition cmd_smismember :: "env \<Rightarrow> bytes \<Rightarrow> bytes list \<Rightarrow> store \<Rightarrow> store \<times> reply" where
  "cmd_smismember E name av st =
     (if \<not> min_args av 2 then (st, wrong_arity name)
      else (let (st, good) = check_type E (av ! 1) TSet st
            in if \<not> good then (st, wrongtype)
               else (let (st, s) = read_set E (av ! 1) st
                     in (st, Array (map (\<lambda>m. reply_bool (m \<in> set (members_of s))) (drop 2 av))))))"

definition cmd_scard :: "env \<Rightarrow> bytes \<Rightarrow> bytes list \<Rightarrow> store \<Rightarrow> store \<times> reply" where
  "cmd_scard E name av st =
     (if \<not> exact_args av 1 then (st, wrong_arity name)
      else (let (st, good) = check_type E (av ! 1) TSet st
            in if \<not> good then (st, wrongtype)
               else (let (st, s) = read_set E (av ! 1) st in (st, of_int_reply (length (members_of s))))))"

definition cmd_smembers :: "env \<Rightarrow> bytes \<Rightarrow> bytes list \<Rightarrow> store \<Rightarrow> store \<times> reply" where
  "cmd_smembers E name av st =
     (if \<not> exact_args av 1 then (st, wrong_arity name)
      else (let (st, good) = check_type E (av ! 1) TSet st
            in if \<not> good then (st, wrongtype)
               else (let (st, s) = read_set E (av ! 1) st in (st, RSet (map Bulk (members_of s))))))"

definition picked_reply :: "bytes \<Rightarrow> int option \<Rightarrow> bytes list \<Rightarrow> reply" where
  "picked_reply name cnt picked =
     (case cnt of
        None \<Rightarrow> (case picked of [] \<Rightarrow> RNil | m # _ \<Rightarrow> Bulk m)
      | Some _ \<Rightarrow> if name = ''SPOP'' then RSet (map Bulk picked) else bulk_array picked)"

text \<open>The number of members a count asks for: \<open>count.unwrap_or(1).max(0)\<close>.\<close>

definition wanted :: "int option \<Rightarrow> nat" where
  "wanted cnt = nat (case cnt of None \<Rightarrow> 1 | Some n \<Rightarrow> n)"

definition cmd_spop :: "env \<Rightarrow> bytes \<Rightarrow> bytes list \<Rightarrow> store \<Rightarrow> store \<times> reply" where
  "cmd_spop E name av st =
     (if \<not> min_args av 1 then (st, wrong_arity name)
      else case
          (if length av = 2 then Inr None
           else if length av = 3 then
             (case parse_i64 (av ! 2) of None \<Rightarrow> Inl not_an_integer | Some n \<Rightarrow> Inr (Some n))
           else Inl (wrong_arity name)) of
        Inl e \<Rightarrow> (st, e)
      | Inr cnt \<Rightarrow>
          if name = ''SPOP'' \<and> (case cnt of None \<Rightarrow> False | Some n \<Rightarrow> n < 0)
          then (st, Error ''ERR value is out of range, must be positive'')
          else
            (let (st, good) = check_type E (av ! 1) TSet st
             in if \<not> good then (st, wrongtype)
                else if name = ''SPOP'' then
                  (let (st, s) = write_set E (av ! 1) st
                   in case s of
                        None \<Rightarrow>
                          (let st = delete_if_empty E (av ! 1) st in (st, picked_reply name cnt []))
                      | Some s \<Rightarrow>
                          (let (g, s, taken) = take_random E s (wanted cnt) (rng st);
                               st = put_value (av ! 1) (VSet s) (st\<lparr>rng := g\<rparr>);
                               st = delete_if_empty E (av ! 1) st
                           in (st, picked_reply name cnt taken)))
                else
                  (let (st, s) = read_set E (av ! 1) st;
                       (g, picked) =
                         (if (case cnt of None \<Rightarrow> False | Some n \<Rightarrow> n < 0)
                          then draw_members (nat \<bar>the cnt\<bar>) E (members_of s) (rng st)
                          else (let (g, _, taken) = take_random E (members_of s) (wanted cnt) (rng st)
                                in (g, taken)))
                   in (st\<lparr>rng := g\<rparr>, picked_reply name cnt picked))))"

definition cmd_smove :: "env \<Rightarrow> bytes \<Rightarrow> bytes list \<Rightarrow> store \<Rightarrow> (store \<times> reply) outcome" where
  "cmd_smove E name av st =
     (if \<not> exact_args av 3 then Done (st, wrong_arity name)
      else
        (let (st, good) = check_type E (av ! 1) TSet st
         in if \<not> good then Done (st, wrongtype)
            else (let (st, good) = check_type E (av ! 2) TSet st
                  in if \<not> good then Done (st, wrongtype)
                     else (let (st, s) = write_set E (av ! 1) st
                           in if av ! 3 \<notin> set (members_of s) then Done (st, reply_bool False)
                              else
                                (let st = put_value (av ! 1) (VSet (remove1 (av ! 3) (members_of s))) st;
                                     (st, d) = get_or_create_set E (av ! 2) st
                                 in case d of
                                      None \<Rightarrow> Panicked
                                    | Some d \<Rightarrow>
                                        (let st = put_value (av ! 2) (VSet (set_insert (av ! 3) d)) st;
                                             st = delete_if_empty E (av ! 1) st
                                         in Done (st, reply_bool True)))))))"

definition cmd_sinter :: "env \<Rightarrow> bytes \<Rightarrow> bytes list \<Rightarrow> store \<Rightarrow> (store \<times> reply) outcome" where
  "cmd_sinter E name av st =
     (if \<not> min_args av 1 then Done (st, wrong_arity name)
      else
        (let (st, good) = check_sets E (drop 1 av) st
         in if \<not> good then Done (st, wrongtype)
            else (let (st, ss) = read_sets E (drop 1 av) st
                  in case combine name ss of
                       Panicked \<Rightarrow> Panicked
                     | Done result \<Rightarrow> Done (st, RSet (map Bulk result)))))"

definition cmd_sinterstore :: "env \<Rightarrow> bytes \<Rightarrow> bytes list \<Rightarrow> store \<Rightarrow> (store \<times> reply) outcome" where
  "cmd_sinterstore E name av st =
     (if \<not> min_args av 2 then Done (st, wrong_arity name)
      else
        (let (st, good) = check_type E (av ! 1) TSet st
         in if \<not> good then Done (st, wrongtype)
            else (let (st, good) = check_sets E (drop 2 av) st
                  in if \<not> good then Done (st, wrongtype)
                     else (let (st, ss) = read_sets E (drop 2 av) st
                           in case combine (trim_store name) ss of
                                Panicked \<Rightarrow> Panicked
                              | Done result \<Rightarrow>
                                  (let (st, _) = del E (av ! 1) st
                                   in if result = [] then Done (st, of_int_reply 0)
                                      else
                                        (let (st, d) = get_or_create_set E (av ! 1) st
                                         in case d of
                                              None \<Rightarrow> Panicked
                                            | Some d \<Rightarrow>
                                                (let st = put_value (av ! 1)
                                                       (VSet (fold set_insert result d)) st
                                                 in Done (st, of_int_reply (length result)))))))))"

definition set_cmd :: "env \<Rightarrow> bytes \<Rightarrow> bytes list \<Rightarrow> store \<Rightarrow> (store \<times> reply) outcome" where
  "set_cmd E name av st =
     (if name = ''SADD'' then cmd_sadd E name av st
      else if name = ''SREM'' then Done (cmd_srem E name av st)
      else if name = ''SISMEMBER'' then Done (cmd_sismember E name av st)
      else if name = ''SMISMEMBER'' then Done (cmd_smismember E name av st)
      else if name = ''SCARD'' then Done (cmd_scard E name av st)
      else if name = ''SMEMBERS'' then Done (cmd_smembers E name av st)
      else if name \<in> {''SPOP'', ''SRANDMEMBER''} then Done (cmd_spop E name av st)
      else if name = ''SMOVE'' then cmd_smove E name av st
      else if name \<in> {''SINTER'', ''SUNION'', ''SDIFF''} then cmd_sinter E name av st
      else if name \<in> {''SINTERSTORE'', ''SUNIONSTORE'', ''SDIFFSTORE''}
      then cmd_sinterstore E name av st
      else Done (st, unknown_in_family))"

subsection \<open>Members and random picks\<close>

lemma set_insert_simps [simp]:
  "set (set_insert m s) = insert m (set s)" "distinct (set_insert m s) = distinct s"
  "set_insert m s \<noteq> []"
  by (auto simp: set_insert_def)

lemma fold_set_insert [simp]:
  "set (fold set_insert ms s) = set ms \<union> set s" "distinct (fold set_insert ms s) = distinct s"
  by (induction ms arbitrary: s) auto

lemma fold_set_insert_nonempty: "ms \<noteq> [] \<or> s \<noteq> [] \<Longrightarrow> fold set_insert ms s \<noteq> []"
  by (induction ms arbitrary: s) auto

text \<open>SADD is set union, its reply the growth of the set; SREM is difference.\<close>

lemma set_insert_all_spec:
  "distinct s \<Longrightarrow> set (fst (set_insert_all ms s)) = set s \<union> set ms \<and> distinct (fst (set_insert_all ms s)) \<and>
     snd (set_insert_all ms s) = card (set ms - set s)"
proof (induction ms s rule: set_insert_all.induct)
  case (2 m ms s)
  have "card (set (m # ms) - set s) = card (set ms - insert m (set s)) + (if m \<in> set s then 0 else 1)"
  proof (cases "m \<in> set s")
    case False
    have "set (m # ms) - set s = insert m (set ms - insert m (set s))" using False by auto
    then show ?thesis using False by simp
  qed (simp add: insert_absorb)
  with 2 show ?case by (auto simp: case_prod_beta)
qed simp

lemma set_remove_all_spec:
  "distinct s \<Longrightarrow> set (fst (set_remove_all ms s)) = set s - set ms \<and> distinct (fst (set_remove_all ms s)) \<and>
     snd (set_remove_all ms s) = card (set s \<inter> set ms)"
proof (induction ms s rule: set_remove_all.induct)
  case (2 m ms s)
  have "card (set s \<inter> set (m # ms)) = card ((set s - {m}) \<inter> set ms) + (if m \<in> set s then 1 else 0)"
  proof (cases "m \<in> set s")
    case True
    have "set s \<inter> set (m # ms) = insert m ((set s - {m}) \<inter> set ms)" using True by auto
    then show ?thesis using True by simp
  next
    case False
    then have "set s \<inter> set (m # ms) = (set s - {m}) \<inter> set ms" by auto
    then show ?thesis using False by simp
  qed
  with 2 show ?case by (auto simp: case_prod_beta)
qed simp

text \<open>SPOP: what is taken and what stays partition the set.\<close>

lemma take_random_loop_spec:
  "take_random_loop n E members s g = (g', s', taken) \<Longrightarrow> n \<le> length members \<Longrightarrow> distinct members \<Longrightarrow>
   distinct s \<Longrightarrow> set members \<subseteq> set s \<Longrightarrow>
   distinct taken \<and> distinct s' \<and> length taken = n \<and> set taken \<subseteq> set members \<and>
   set s' = set s - set taken"
proof (induction n arbitrary: members s g g' s' taken)
  case (Suc n)
  obtain g1 i where i: "below E (length members) g = (g1, i)" by (meson surj_pair)
  have "members \<noteq> []" using Suc.prems(2) by auto
  then have l: "i < length members" using below_less [of "length members" E g] i by simp
  let ?p = "members ! i" and ?ms = "swap_remove i members"
  obtain g2 s2 t2 where r: "take_random_loop n E ?ms (remove1 ?p s) g1 = (g2, s2, t2)" by (rule prod_cases3)
  have ms: "set ?ms = set members - {?p}" "distinct ?ms" "length ?ms = length members - 1"
    using l Suc.prems(3) by (simp_all add: set_swap_remove distinct_swap_remove length_swap_remove)
  have "distinct t2 \<and> distinct s2 \<and> length t2 = n \<and> set t2 \<subseteq> set ?ms \<and> set s2 = set (remove1 ?p s) - set t2"
    by (rule Suc.IH [OF r]) (use ms Suc.prems in auto)
  moreover have "s' = s2" "taken = ?p # t2" using Suc.prems(1) i r by simp_all
  ultimately show ?case using ms l Suc.prems by auto
qed auto

lemma take_random_spec:
  assumes "take_random E s cnt g = (g', s', taken)" and "distinct s"
  shows "distinct taken" and "distinct s'" and "length taken = min cnt (length s)"
    and "set taken \<subseteq> set s" and "set s' = set s - set taken"
  using take_random_loop_spec [OF assms(1) [unfolded take_random_def]] assms(2) by simp_all

lemma draw_members_spec:
  "members \<noteq> [] \<Longrightarrow> length (snd (draw_members n E members g)) = n \<and> set (snd (draw_members n E members g)) \<subseteq> set members"
proof (induction n arbitrary: g)
  case (Suc n)
  have "snd (below E (length members) g) < length members" using Suc(2) by (simp add: below_less)
  with Suc show ?case by (auto simp: case_prod_beta)
qed simp

subsection \<open>The algebra is set algebra\<close>

lemma combine_spec:
  assumes "combine op (s # ss) = Done result" and "distinct s"
  shows "distinct result" and "op = ''SINTER'' \<Longrightarrow> set result = set s \<inter> (\<Inter>x \<in> set ss. set x)"
    and "op = ''SUNION'' \<Longrightarrow> set result = set s \<union> (\<Union>x \<in> set ss. set x)"
    and "op = ''SDIFF'' \<Longrightarrow> set result = set s - (\<Union>x \<in> set ss. set x)"
proof -
  have r: "result = fold (combine_with op) ss s" using assms(1) by (simp add: combine_def)
  show "distinct result"
    unfolding r using assms(2) by (induction ss arbitrary: s) (auto simp: combine_with_def)
  show "op = ''SINTER'' \<Longrightarrow> set result = set s \<inter> (\<Inter>x \<in> set ss. set x)"
    unfolding r by (induction ss arbitrary: s) (auto simp: combine_with_def)
  show "op = ''SUNION'' \<Longrightarrow> set result = set s \<union> (\<Union>x \<in> set ss. set x)"
    unfolding r by (induction ss arbitrary: s) (auto simp: combine_with_def)
  show "op = ''SDIFF'' \<Longrightarrow> set result = set s - (\<Union>x \<in> set ss. set x)"
    unfolding r by (induction ss arbitrary: s) (auto simp: combine_with_def)
qed

subsection \<open>Every command touches only its keys\<close>

definition set_at :: "(bytes \<Rightarrow> datum option) \<Rightarrow> bytes \<Rightarrow> bytes list" where
  "set_at M k = members_of (Option.bind (M k) (\<lambda>d. as_set (fst d)))"

lemma step_check_sets:
  assumes "tidy E st" and "\<And>s. tidy E s \<Longrightarrow> live E s = live E st \<Longrightarrow>
    P (f s (\<forall>k \<in> set ks. has_type TSet (live E st k)))"
  shows "P (let (s, r) = check_sets E ks st in f s r)"
proof -
  have "wp E (\<lambda>M r. M = live E st \<and> r = (\<forall>k \<in> set ks. has_type TSet (live E st k))) (check_sets E ks st)"
    using assms(1)
  proof (induction ks arbitrary: st)
    case (Cons k ks)
    show ?case
      unfolding check_sets.simps
      by ((rule wp Cons.prems wp_weaken [OF Cons.IH] | assumption | (auto; fail))+)
  qed (simp add: wp_def)
  then show ?thesis using assms(2) by (cases "check_sets E ks st") (auto simp: wp_def)
qed

lemma step_read_sets:
  assumes "tidy E st" and "\<And>s. tidy E s \<Longrightarrow> live E s = live E st \<Longrightarrow> P (f s (map (set_at (live E st)) ks))"
  shows "P (let (s, r) = read_sets E ks st in f s r)"
proof -
  have "wp E (\<lambda>M r. M = live E st \<and> r = map (set_at (live E st)) ks) (read_sets E ks st)"
    using assms(1)
  proof (induction ks arbitrary: st)
    case (Cons k ks)
    show ?case
      unfolding read_sets.simps
      by ((rule wp Cons.prems wp_bind [OF Cons.IH] | assumption
          | (auto simp: set_at_def members_of_def; fail))+)
  qed (simp add: wp_def)
  then show ?thesis using assms(2) by (cases "read_sets E ks st") (auto simp: wp_def)
qed

lemmas set_steps [wp] =
  step_check_sets [where P = "wp E Q" for E Q] step_check_sets [where P = "wpo E Q" for E Q]
  step_read_sets [where P = "wp E Q" for E Q] step_read_sets [where P = "wpo E Q" for E Q]

lemma members_of_simps [simp]: "members_of None = []" "members_of (Some s) = s"
  by (simp_all add: members_of_def)

lemma picked_reply_ok [simp]: "\<not> is_error (picked_reply name cnt picked)"
  by (simp add: picked_reply_def split: option.split list.split)

lemma set_insert_all_pair:
  assumes "set_insert_all ms s = (s', n)" and "distinct s" and "ms \<noteq> []"
  shows "s' \<noteq> []" and "distinct s'"
  using set_insert_all_spec [OF assms(2), of ms] assms(1,3) by auto

lemma set_remove_all_pair: "set_remove_all ms s = (s', n) \<Longrightarrow> distinct s \<Longrightarrow> distinct s'"
  using set_remove_all_spec [of s ms] by simp

lemma distinct_set_at: "vals_ok M \<Longrightarrow> distinct (set_at M k)"
  by (auto simp: set_at_def members_of_def bind_eq_Some_conv dest: vals_okD split: option.split)

lemma combine_total: "ss \<noteq> [] \<Longrightarrow> combine op ss \<noteq> Panicked"
  by (cases ss) (simp_all add: combine_def)

lemma combine_distinct: "combine op ss = Done r \<Longrightarrow> \<forall>s \<in> set ss. distinct s \<Longrightarrow> distinct r"
  using combine_spec(1) [of op "hd ss" "tl ss" r] by (cases ss) (simp_all add: combine_def)

lemma sadd_sounds: "sounds E {av ! 1} st (cmd_sadd E name av st)"
  unfolding cmd_sadd_def
  by (rule soundsI) ((rule wp | assumption | rule wp_let | (simp add: set_insert_all_pair min_args_def; fail) | (auto simp: set_insert_all_pair min_args_def; fail))+)

lemma srem_sound: "sound E {av ! 1} st (cmd_srem E name av st)"
  unfolding cmd_srem_def
  by (rule soundI) ((rule wp | assumption | rule wp_let | (simp add: set_remove_all_pair; fail) | (auto; fail))+)

lemma sismember_sound: "sound E {} st (cmd_sismember E name av st)"
  unfolding cmd_sismember_def
  by (rule soundI) ((rule wp | assumption | rule wp_let | (simp; fail) | (auto; fail))+)

lemma smismember_sound: "sound E {} st (cmd_smismember E name av st)"
  unfolding cmd_smismember_def
  by (rule soundI) ((rule wp | assumption | rule wp_let | (simp; fail) | (auto; fail))+)

lemma scard_sound: "sound E {} st (cmd_scard E name av st)"
  unfolding cmd_scard_def
  by (rule soundI) ((rule wp | assumption | rule wp_let | (simp; fail) | (auto; fail))+)

lemma smembers_sound: "sound E {} st (cmd_smembers E name av st)"
  unfolding cmd_smembers_def
  by (rule soundI) ((rule wp | assumption | rule wp_let | (simp; fail) | (auto; fail))+)

lemma spop_sound: "sound E (if name = ''SPOP'' then {av ! 1} else {}) st (cmd_spop E name av st)"
  unfolding cmd_spop_def
  by (rule soundI) ((rule wp | assumption | rule wp_let | (simp add: take_random_spec(2) del: One_nat_def; fail) | (auto; fail))+)

lemma sinter_sounds: "sounds E {} st (cmd_sinter E name av st)"
  unfolding cmd_sinter_def
  by (rule soundsI)
    ((rule wp wpo_case | assumption | rule wp_let | (simp add: combine_total min_args_def; fail))+)

lemma vals_ok_set: "vals_ok M \<Longrightarrow> M k = Some (VSet s, t) \<Longrightarrow> distinct s \<and> s \<noteq> []"
  by (drule (1) vals_okD) simp

lemma smove_neq:
  assumes ne: "av ! 1 \<noteq> av ! 2" shows "sounds E {av ! 1, av ! 2} st (cmd_smove E name av st)"
  unfolding cmd_smove_def using ne
  by (intro soundsI)
    (rule wp | assumption | rule wp_let | (simp del: One_nat_def; fail)
      | (fastforce dest: vals_ok_set simp del: One_nat_def))+

lemma smove_eq:
  assumes eq: "av ! 2 = av ! 1" shows "sounds E {av ! 1, av ! 2} st (cmd_smove E name av st)"
  unfolding cmd_smove_def eq
  apply (intro soundsI)
  apply ((rule wp | assumption | rule wp_let | (simp del: One_nat_def; fail))+)[1]
  subgoal by (auto simp del: One_nat_def)
  apply (rule step_put_value [where P = "wpo E Q" for E Q], assumption)
   apply (simp del: One_nat_def)
  apply (rule step_delete_if_empty [where P = "wpo E Q" for E Q], assumption)
  apply (rule wpo_Done, rule wp_return, assumption)
  apply (clarsimp simp del: One_nat_def)
  apply (frule (1) vals_ok_set)
  apply (rule effect_onI)
    apply (simp_all del: One_nat_def)
  done

lemma smove_sounds: "sounds E {av ! 1, av ! 2} st (cmd_smove E name av st)"
  using smove_neq smove_eq by metis

lemma sinterstore_sounds: "sounds E {av ! 1} st (cmd_sinterstore E name av st)"
  unfolding cmd_sinterstore_def
  by (rule soundsI)
    ((rule wp wpo_case | assumption | rule wp_let | (simp add: combine_total min_args_def; fail)
      | (clarsimp simp: fold_set_insert_nonempty; fail))+)

definition set_keys :: "bytes \<Rightarrow> bytes list \<Rightarrow> bytes set" where
  "set_keys name av =
     (if name = ''SMOVE'' then {av ! 1, av ! 2}
      else if name \<in> {''SADD'', ''SREM'', ''SPOP'', ''SINTERSTORE'', ''SUNIONSTORE'', ''SDIFFSTORE''}
      then {av ! 1}
      else {})"

lemma set_sounds: "sounds E (set_keys name av) st (set_cmd E name av st)"
  unfolding set_cmd_def set_keys_def
  using spop_sound [of _ "''SPOP''"] spop_sound [of _ "''SRANDMEMBER''"]
  by (simp add: sadd_sounds srem_sound sismember_sound smismember_sound scard_sound smembers_sound
      sinter_sounds smove_sounds sinterstore_sounds sound_same del: One_nat_def)

end
