(* ===== verification/CmdZset.thy ===== *)
theory CmdZset
  imports CmdBase
begin

text \<open>
  \<^verbatim>\<open>src/commands/zset.rs\<close>: one definition for each arm of its \<open>handle\<close>. The lemmas show that each
  arm keeps the store well formed and changes only its key; that all but ZINCRBY change nothing
  when they answer with an error; and what ZADD and a failing ZINCRBY do.
\<close>

subsection \<open>Helpers\<close>

definition pairs_reply :: "(bytes \<times> f64) list \<Rightarrow> bool \<Rightarrow> reply" where
  "pairs_reply pairs scores = (if scores then ScoredMembers pairs else bulk_array (map fst pairs))"

definition bounds_error :: reply where
  "bounds_error = Error ''ERR min or max is not a float''"

definition score_bounds :: "bytes \<Rightarrow> bytes \<Rightarrow> (score_bound \<times> score_bound) option" where
  "score_bounds lo hi =
     (case score_bound_parse lo of
        None \<Rightarrow> None
      | Some a \<Rightarrow> (case score_bound_parse hi of None \<Rightarrow> None | Some b \<Rightarrow> Some (a, b)))"

text \<open>\<open>None\<close> is the syntax error.\<close>

definition with_scores :: "bytes list \<Rightarrow> nat \<Rightarrow> bool option" where
  "with_scores av start =
     (if length av - start = 0 then Some False
      else if length av - start = 1 \<and> eq_ignore_case (av ! start) ''WITHSCORES'' then Some True
      else None)"

definition pairs_of :: "zset option \<Rightarrow> (zset \<Rightarrow> (bytes \<times> f64) list) \<Rightarrow> (bytes \<times> f64) list" where
  "pairs_of z f = (case z of None \<Rightarrow> [] | Some z \<Rightarrow> f z)"

definition opt_score :: "zset option \<Rightarrow> bytes \<Rightarrow> f64 option" where
  "opt_score z m = (case z of None \<Rightarrow> None | Some z \<Rightarrow> zset_score z m)"

definition score_reply :: "f64 option \<Rightarrow> reply" where
  "score_reply s = (case s of None \<Rightarrow> RNil | Some s \<Rightarrow> Double s)"

subsection \<open>ZADD and ZINCRBY\<close>

text \<open>Every score is parsed before the keyspace is touched.\<close>

fun parse_pairs :: "(bytes \<times> bytes) list \<Rightarrow> (f64 \<times> bytes) list option" where
  "parse_pairs [] = Some []"
| "parse_pairs ((s, m) # ps) =
     (case parse_f64 s of
        None \<Rightarrow> None
      | Some s \<Rightarrow> (case parse_pairs ps of None \<Rightarrow> None | Some r \<Rightarrow> Some ((s, m) # r)))"

fun zset_add_all :: "(f64 \<times> bytes) list \<Rightarrow> zset \<Rightarrow> zset \<times> nat" where
  "zset_add_all [] z = (z, 0)"
| "zset_add_all ((s, m) # ps) z =
     (let (z, is_new) = zset_add z m s; (z, n) = zset_add_all ps z
      in (z, if is_new then n + 1 else n))"

definition cmd_zadd :: "env \<Rightarrow> config \<Rightarrow> bytes list \<Rightarrow> store \<Rightarrow> (store \<times> reply) outcome" where
  "cmd_zadd E cfg av st =
     (if \<not> min_args av 3 then Done (st, wrong_arity ''ZADD'')
      else
        (let rest = drop 2 av
         in if odd (length rest) then Done (st, syntax_error)
            else if length rest div 2 > zadd_max_pairs cfg
            then Done (st, Error ''ERR too many score/member pairs'')
            else case parse_pairs (chunks2 rest) of
                None \<Rightarrow> Done (st, not_a_float)
              | Some pairs \<Rightarrow>
                  (let (st, good) = check_type E (av ! 1) TZset st
                   in if \<not> good then Done (st, wrongtype)
                      else
                        (let (st, z) = get_or_create_zset E (av ! 1) st
                         in case z of
                              None \<Rightarrow> Panicked
                            | Some z \<Rightarrow>
                                (let (z, added) = zset_add_all pairs z;
                                     st = put_value (av ! 1) (VZset z) st
                                 in Done (st, of_int_reply added))))))"

definition cmd_zincrby :: "env \<Rightarrow> bytes \<Rightarrow> bytes list \<Rightarrow> store \<Rightarrow> (store \<times> reply) outcome" where
  "cmd_zincrby E name av st =
     (if \<not> exact_args av 3 then Done (st, wrong_arity name)
      else case parse_f64 (av ! 2) of
          None \<Rightarrow> Done (st, not_a_float)
        | Some increment \<Rightarrow>
            (let (st, good) = check_type E (av ! 1) TZset st
             in if \<not> good then Done (st, wrongtype)
                else
                  (let (st, z) = get_or_create_zset E (av ! 1) st
                   in case z of
                        None \<Rightarrow> Panicked
                      | Some z \<Rightarrow>
                          (let (z, updated) = zset_incr_by z (av ! 3) increment;
                               st = put_value (av ! 1) (VZset z) st
                           in if \<not> is_finite updated then
                                (let (st, z) = write_zset E (av ! 1) st
                                 in case z of
                                      None \<Rightarrow> Panicked
                                    | Some z \<Rightarrow>
                                        (let st = put_value (av ! 1) (VZset (fst (zset_rem z (av ! 3)))) st;
                                             st = delete_if_empty E (av ! 1) st
                                         in Done (st, Error ''ERR resulting score is not a number (NaN)'')))
                              else Done (st, Double updated)))))"

subsection \<open>Reads\<close>

definition cmd_zscore :: "env \<Rightarrow> bytes \<Rightarrow> bytes list \<Rightarrow> store \<Rightarrow> store \<times> reply" where
  "cmd_zscore E name av st =
     (if \<not> exact_args av 2 then (st, wrong_arity name)
      else (let (st, good) = check_type E (av ! 1) TZset st
            in if \<not> good then (st, wrongtype)
               else (let (st, z) = read_zset E (av ! 1) st
                     in (st, score_reply (opt_score z (av ! 2))))))"

definition cmd_zmscore :: "env \<Rightarrow> bytes \<Rightarrow> bytes list \<Rightarrow> store \<Rightarrow> store \<times> reply" where
  "cmd_zmscore E name av st =
     (if \<not> min_args av 2 then (st, wrong_arity name)
      else (let (st, good) = check_type E (av ! 1) TZset st
            in if \<not> good then (st, wrongtype)
               else (let (st, z) = read_zset E (av ! 1) st
                     in (st, Array (map (\<lambda>m. score_reply (opt_score z m)) (drop 2 av))))))"

definition cmd_zcard :: "env \<Rightarrow> bytes \<Rightarrow> bytes list \<Rightarrow> store \<Rightarrow> store \<times> reply" where
  "cmd_zcard E name av st =
     (if \<not> exact_args av 1 then (st, wrong_arity name)
      else (let (st, good) = check_type E (av ! 1) TZset st
            in if \<not> good then (st, wrongtype)
               else (let (st, z) = read_zset E (av ! 1) st
                     in (st, of_int_reply (case z of None \<Rightarrow> 0 | Some z \<Rightarrow> length z)))))"

definition cmd_zrank :: "env \<Rightarrow> bytes \<Rightarrow> bytes list \<Rightarrow> store \<Rightarrow> store \<times> reply" where
  "cmd_zrank E name av st =
     (if \<not> exact_args av 2 then (st, wrong_arity name)
      else (let (st, good) = check_type E (av ! 1) TZset st
            in if \<not> good then (st, wrongtype)
               else (let (st, z) = read_zset E (av ! 1) st;
                         place = (case z of None \<Rightarrow> None
                                  | Some z \<Rightarrow> if name = ''ZRANK'' then zset_rank z (av ! 2)
                                             else zset_rev_rank z (av ! 2))
                     in (st, case place of None \<Rightarrow> RNil | Some r \<Rightarrow> of_int_reply r))))"

definition cmd_zrange :: "env \<Rightarrow> bytes \<Rightarrow> bytes list \<Rightarrow> store \<Rightarrow> store \<times> reply" where
  "cmd_zrange E name av st =
     (if \<not> min_args av 3 then (st, wrong_arity name)
      else case parse_i64 (av ! 2) of None \<Rightarrow> (st, not_an_integer) | Some start \<Rightarrow>
           case parse_i64 (av ! 3) of None \<Rightarrow> (st, not_an_integer) | Some stop \<Rightarrow>
           case with_scores av 4 of None \<Rightarrow> (st, syntax_error) | Some scores \<Rightarrow>
             (let (st, good) = check_type E (av ! 1) TZset st
              in if \<not> good then (st, wrongtype)
                 else (let (st, z) = read_zset E (av ! 1) st;
                           pairs = pairs_of z (\<lambda>z. if name = ''ZRANGE'' then zset_range z start stop
                                                  else zset_rev_range z start stop)
                       in (st, pairs_reply pairs scores))))"

definition cmd_zrangebyscore :: "env \<Rightarrow> bytes \<Rightarrow> bytes list \<Rightarrow> store \<Rightarrow> store \<times> reply" where
  "cmd_zrangebyscore E name av st =
     (if \<not> min_args av 3 then (st, wrong_arity name)
      else
        (let reversed = (name = ''ZREVRANGEBYSCORE'')
         in case (if reversed then score_bounds (av ! 3) (av ! 2) else score_bounds (av ! 2) (av ! 3)) of
              None \<Rightarrow> (st, bounds_error)
            | Some (lo, hi) \<Rightarrow>
                (case with_scores av 4 of None \<Rightarrow> (st, syntax_error) | Some scores \<Rightarrow>
                   (let (st, good) = check_type E (av ! 1) TZset st
                    in if \<not> good then (st, wrongtype)
                       else (let (st, z) = read_zset E (av ! 1) st;
                                 pairs = pairs_of z (\<lambda>z. range_by_score z lo hi);
                                 pairs = (if reversed then rev pairs else pairs)
                             in (st, pairs_reply pairs scores))))))"

definition cmd_zcount :: "env \<Rightarrow> bytes \<Rightarrow> bytes list \<Rightarrow> store \<Rightarrow> store \<times> reply" where
  "cmd_zcount E name av st =
     (if \<not> exact_args av 3 then (st, wrong_arity name)
      else case score_bounds (av ! 2) (av ! 3) of
          None \<Rightarrow> (st, bounds_error)
        | Some (lo, hi) \<Rightarrow>
            (let (st, good) = check_type E (av ! 1) TZset st
             in if \<not> good then (st, wrongtype)
                else (let (st, z) = read_zset E (av ! 1) st
                      in (st, of_int_reply (case z of None \<Rightarrow> 0 | Some z \<Rightarrow> count_by_score z lo hi)))))"

subsection \<open>Removals\<close>

fun zset_remove_all :: "bytes list \<Rightarrow> zset \<Rightarrow> zset \<times> nat" where
  "zset_remove_all [] z = (z, 0)"
| "zset_remove_all (m # ms) z =
     (let (z, was) = zset_rem z m; (z, n) = zset_remove_all ms z
      in (z, if was then n + 1 else n))"

text \<open>The three removals share their frame: check the type, change the set when there is one,
  drop the key when the set is empty.\<close>

definition removing :: "env \<Rightarrow> bytes \<Rightarrow> (zset \<Rightarrow> zset \<times> 'r) \<Rightarrow> 'r \<Rightarrow> ('r \<Rightarrow> reply) \<Rightarrow> store \<Rightarrow> store \<times> reply" where
  "removing E k f none reply_of st =
     (let (st, good) = check_type E k TZset st
      in if \<not> good then (st, wrongtype)
         else
           (let (st, z) = write_zset E k st
            in case z of
                 None \<Rightarrow> (let st = delete_if_empty E k st in (st, reply_of none))
               | Some z \<Rightarrow>
                   (let (z, removed) = f z;
                        st = put_value k (VZset z) st;
                        st = delete_if_empty E k st
                    in (st, reply_of removed))))"

definition cmd_zrem :: "env \<Rightarrow> bytes \<Rightarrow> bytes list \<Rightarrow> store \<Rightarrow> store \<times> reply" where
  "cmd_zrem E name av st =
     (if \<not> min_args av 2 then (st, wrong_arity name)
      else removing E (av ! 1) (zset_remove_all (drop 2 av)) 0 of_int_reply st)"

definition cmd_zremrangebyscore :: "env \<Rightarrow> bytes \<Rightarrow> bytes list \<Rightarrow> store \<Rightarrow> store \<times> reply" where
  "cmd_zremrangebyscore E name av st =
     (if \<not> exact_args av 3 then (st, wrong_arity name)
      else case score_bounds (av ! 2) (av ! 3) of
          None \<Rightarrow> (st, bounds_error)
        | Some (lo, hi) \<Rightarrow>
            removing E (av ! 1) (\<lambda>z. remove_range_by_score z lo hi) 0 of_int_reply st)"

definition cmd_zremrangebyrank :: "env \<Rightarrow> bytes \<Rightarrow> bytes list \<Rightarrow> store \<Rightarrow> store \<times> reply" where
  "cmd_zremrangebyrank E name av st =
     (if \<not> exact_args av 3 then (st, wrong_arity name)
      else case parse_i64 (av ! 2) of None \<Rightarrow> (st, not_an_integer) | Some start \<Rightarrow>
           case parse_i64 (av ! 3) of None \<Rightarrow> (st, not_an_integer) | Some stop \<Rightarrow>
             removing E (av ! 1) (\<lambda>z. remove_range_by_rank z start stop) 0 of_int_reply st)"

text \<open>The optional count of ZPOPMIN and ZPOPMAX.\<close>

definition pop_count :: "bytes \<Rightarrow> bytes list \<Rightarrow> reply + nat option" where
  "pop_count name av =
     (if length av = 2 then Inr None
      else if length av = 3 then
        (case parse_i64 (av ! 2) of
           None \<Rightarrow> Inl not_an_integer
         | Some c \<Rightarrow> if c \<ge> 0 then Inr (Some (nat c))
                     else Inl (Error ''ERR value is out of range, must be positive''))
      else Inl (wrong_arity name))"

definition cmd_zpop :: "env \<Rightarrow> bytes \<Rightarrow> bytes list \<Rightarrow> store \<Rightarrow> store \<times> reply" where
  "cmd_zpop E name av st =
     (if \<not> min_args av 1 then (st, wrong_arity name)
      else case pop_count name av of
          Inl e \<Rightarrow> (st, e)
        | Inr cnt \<Rightarrow>
            removing E (av ! 1)
              (\<lambda>z. zset_pop z (case cnt of None \<Rightarrow> 1 | Some c \<Rightarrow> c) (name = ''ZPOPMAX'')) []
              (\<lambda>popped. case cnt of
                 None \<Rightarrow> if popped = [] then Array []
                         else Array [Bulk (fst (last popped)), Double (snd (last popped))]
               | Some _ \<Rightarrow> ScoredMembers popped) st)"

definition zset_cmd :: "env \<Rightarrow> config \<Rightarrow> bytes \<Rightarrow> bytes list \<Rightarrow> store \<Rightarrow> (store \<times> reply) outcome" where
  "zset_cmd E cfg name av st =
     (if name = ''ZADD'' then cmd_zadd E cfg av st
      else if name = ''ZSCORE'' then Done (cmd_zscore E name av st)
      else if name = ''ZMSCORE'' then Done (cmd_zmscore E name av st)
      else if name = ''ZINCRBY'' then cmd_zincrby E name av st
      else if name = ''ZREM'' then Done (cmd_zrem E name av st)
      else if name = ''ZCARD'' then Done (cmd_zcard E name av st)
      else if name \<in> {''ZRANK'', ''ZREVRANK''} then Done (cmd_zrank E name av st)
      else if name \<in> {''ZRANGE'', ''ZREVRANGE''} then Done (cmd_zrange E name av st)
      else if name \<in> {''ZRANGEBYSCORE'', ''ZREVRANGEBYSCORE''}
      then Done (cmd_zrangebyscore E name av st)
      else if name = ''ZCOUNT'' then Done (cmd_zcount E name av st)
      else if name = ''ZREMRANGEBYSCORE'' then Done (cmd_zremrangebyscore E name av st)
      else if name = ''ZREMRANGEBYRANK'' then Done (cmd_zremrangebyrank E name av st)
      else if name \<in> {''ZPOPMIN'', ''ZPOPMAX''} then Done (cmd_zpop E name av st)
      else Done (st, unknown_in_family))"

subsection \<open>The sets behind the commands\<close>

lemma zset_add_nonempty [simp]: "fst (zset_add z m s) \<noteq> []"
  by (simp add: zset_add_def Let_def insert_at_def split: prod.split)

lemma parse_pairs_ok:
  "parse_pairs ps = Some r \<Longrightarrow> (\<forall>p \<in> set r. \<not> is_nan (fst p)) \<and> length r = length ps"
proof (induction ps arbitrary: r)
  case (Cons p ps)
  obtain s m where p: "p = (s, m)" by (cases p)
  with Cons.prems obtain v r' where "parse_f64 s = Some v" "parse_pairs ps = Some r'" "r = (v, m) # r'"
    by (auto split: option.splits)
  with Cons.IH show ?case using parse_f64_not_nan by simp
qed simp

text \<open>ZADD: the last score given for a member wins, and the reply counts the new members.\<close>

lemma zset_add_all_spec:
  assumes "zset_wf z" and "\<forall>p \<in> set ps. \<not> is_nan (fst p)"
  shows "zset_wf (fst (zset_add_all ps z)) \<and>
    zset_score (fst (zset_add_all ps z)) = zset_score z ++ map_of (map (\<lambda>p. (snd p, fst p)) (rev ps)) \<and>
    snd (zset_add_all ps z) = card (snd ` set ps - dom (zset_score z)) \<and>
    (z \<noteq> [] \<or> ps \<noteq> [] \<longrightarrow> fst (zset_add_all ps z) \<noteq> [])"
  using assms
proof (induction ps arbitrary: z)
  case (Cons p ps)
  obtain s m where p: "p = (s, m)" by (cases p)
  let ?z = "fst (zset_add z m s)"
  have n: "\<not> is_nan s" using Cons.prems(2) p by simp
  have z: "zset_wf ?z" "zset_score ?z = (zset_score z)(m \<mapsto> s)"
    "snd (zset_add z m s) \<longleftrightarrow> zset_score z m = None"
    using zset_add_wf [OF Cons.prems(1) n] zset_add_map [OF Cons.prems(1) n] by simp_all
  have "card (snd ` set (p # ps) - dom (zset_score z)) =
      card (snd ` set ps - dom (zset_score ?z)) + (if zset_score z m = None then 1 else 0)"
  proof (cases "zset_score z m")
    case None
    then have "snd ` set (p # ps) - dom (zset_score z) =
        insert m (snd ` set ps - dom (zset_score ?z))"
      by (auto simp: p z(2))
    then show ?thesis using None by (simp add: z(2))
  next
    case (Some t)
    then have "dom (zset_score ?z) = dom (zset_score z)" "m \<in> dom (zset_score z)"
      by (auto simp: z(2))
    with Some show ?thesis by (simp add: p)
  qed
  moreover have "zset_score z ++ map_of (map (\<lambda>p. (snd p, fst p)) (rev (p # ps))) =
      zset_score ?z ++ map_of (map (\<lambda>p. (snd p, fst p)) (rev ps))"
    by (rule ext) (simp add: p z(2) map_add_def split: option.split)
  ultimately show ?case
    using Cons.IH [OF z(1)] Cons.prems(2) z(3)
    by (simp add: p Let_def case_prod_beta del: zset_add_all.simps(1))
qed simp

lemma zset_remove_all_filter:
  "distinct (map fst z) \<Longrightarrow>
   fst (zset_remove_all ms z) = filter (\<lambda>e. fst e \<notin> set ms) z"
proof (induction ms arbitrary: z)
  case (Cons m ms)
  then show ?case
    by (simp add: zset_rem_filter distinct_map_filter Let_def case_prod_beta conj_commute)
qed simp

lemma zset_remove_all_wf: "zset_wf z \<Longrightarrow> zset_wf (fst (zset_remove_all ms z))"
  using zset_wf_filter by (simp add: zset_remove_all_filter zset_wf_def)

text \<open>Taking back what ZINCRBY inserted leaves the set without the member.\<close>

lemma filter_insert_at: "filter P (insert_at i x xs) = (if P x then insert_at (length (filter P (take i xs))) x (filter P xs) else filter P xs)"
proof -
  have "filter P xs = filter P (take i xs) @ filter P (drop i xs)"
    by (metis append_take_drop_id filter_append)
  then show ?thesis by (simp add: insert_at_def)
qed

lemma zset_undo:
  assumes "distinct (map fst z)"
  shows "fst (zset_rem (fst (zset_add z m s)) m) = filter (\<lambda>e. fst e \<noteq> m) z"
proof -
  let ?rest = "filter (\<lambda>e. fst e \<noteq> m) z"
  have "distinct (map fst (insert_at i (m, s) ?rest))" for i
    using assms by (auto simp: map_insert_at distinct_insert_at distinct_map_filter)
  then show ?thesis
    by (simp add: zset_add_filter [OF assms] Let_def zset_rem_filter filter_insert_at)
qed

subsection \<open>The effect of each command\<close>

lemma zadd_result:
  assumes "zset_add_all ps z = (z', n)" and "parse_pairs (chunks2 xs) = Some ps" and "zset_wf z"
    and "2 \<le> length xs"
  shows "zset_wf z' \<and> z' \<noteq> []"
proof -
  note ok = parse_pairs_ok [OF assms(2)]
  then have "ps \<noteq> []" using chunks2_nonempty [OF assms(4)] by auto
  with zset_add_all_spec [OF assms(3), of ps] ok assms(1) show ?thesis by simp
qed

lemma zadd_sounds: "sounds E {av ! 1} st (cmd_zadd E cfg av st)"
  unfolding cmd_zadd_def
  by (rule soundsI)
    (rule wp | assumption | rule wp_let | (simp; fail)
      | (clarsimp simp: min_args_def, drule (1) zadd_result, simp, simp, simp; fail)
      | (clarsimp; fail))+

lemma zreads_sound:
  "sound E {} st (cmd_zscore E name av st)" "sound E {} st (cmd_zmscore E name av st)"
  "sound E {} st (cmd_zcard E name av st)" "sound E {} st (cmd_zrank E name av st)"
  "sound E {} st (cmd_zrange E name av st)" "sound E {} st (cmd_zrangebyscore E name av st)"
  "sound E {} st (cmd_zcount E name av st)"
  unfolding cmd_zscore_def cmd_zmscore_def cmd_zcard_def cmd_zrank_def cmd_zrange_def
    cmd_zrangebyscore_def cmd_zcount_def
  by (rule soundI; (rule wp | assumption | rule wp_let | (simp; fail))+)+

lemma removing_sound:
  assumes f: "\<And>z z' r. f z = (z', r) \<Longrightarrow> zset_wf z \<Longrightarrow> zset_wf z'" and "\<And>r. \<not> is_error (reply_of r)"
  shows "sound E {k} st (removing E k f none reply_of st)"
  unfolding removing_def
  by (rule soundI) (rule wp | assumption | rule wp_let | (simp add: assms; fail)
    | (clarsimp simp: assms, drule f, simp, simp; fail) | (clarsimp simp: assms; fail))+

text \<open>ZINCRBY does not leave the set alone when it fails.\<close>

definition framed :: "env \<Rightarrow> bytes set \<Rightarrow> store \<Rightarrow> (store \<times> reply) outcome \<Rightarrow> bool" where
  "framed E K st x \<longleftrightarrow> (store_ok st \<longrightarrow>
     wpo E (\<lambda>M r. vals_ok M \<and> (\<forall>k. k \<notin> K \<longrightarrow> M k = live E st k)) x)"

lemma sounds_framed: "sounds E K st x \<Longrightarrow> framed E K st x"
  by (auto simp: sounds_def framed_def wpo_def wp_def effect_on_def split: outcome.splits)

lemma framed_store_ok: "framed E K st x \<Longrightarrow> store_ok st \<Longrightarrow> \<exists>st' r. x = Done (st', r) \<and> store_ok st'"
  by (cases x) (auto simp: framed_def wpo_def wp_def intro: tidy_store_ok)

lemma zincrby_wf:
  assumes "zset_incr_by z m d = (z', u)" and "zset_wf z" and "\<not> is_nan u"
  shows "zset_wf z' \<and> z' \<noteq> []"
  using assms zset_add_wf [OF assms(2)] by (auto simp: zset_incr_by_def Let_def)

lemma zincrby_undo:
  assumes "zset_incr_by z m d = (z', u)" and "zset_wf z"
  shows "fst (zset_rem z' m) = filter (\<lambda>e. fst e \<noteq> m) z \<and> zset_wf (filter (\<lambda>e. fst e \<noteq> m) z)"
  using assms zset_undo zset_wf_filter [OF assms(2)] by (auto simp: zset_incr_by_def Let_def zset_wf_def)

definition zset_at :: "(bytes \<Rightarrow> datum option) \<Rightarrow> bytes \<Rightarrow> zset" where
  "zset_at M k = (case M k of Some (VZset z, t) \<Rightarrow> z | _ \<Rightarrow> [])"

definition without_member :: "bytes \<Rightarrow> bytes \<Rightarrow> (bytes \<Rightarrow> datum option) \<Rightarrow> (bytes \<Rightarrow> datum option)" where
  "without_member k m M =
     (let z = filter (\<lambda>e. fst e \<noteq> m) (zset_at M k)
      in if z = [] then M(k := None) else M(k \<mapsto> (VZset z, deadline_of (M k))))"

lemma zset_at_simps [simp]:
  "M k = None \<Longrightarrow> zset_at M k = []" "M k = Some (VZset z, t) \<Longrightarrow> zset_at M k = z"
  by (simp_all add: zset_at_def)

lemma has_type_zset:
  "has_type TZset (M k) \<longleftrightarrow> M k = None \<or> (\<exists>z t. M k = Some (VZset z, t))"
  by (auto simp: has_type_def split: option.split) (metis as_iff(5) as_None(5) option.exhaust)

lemma zincrby_wp:
  assumes t: "tidy E st" and v: "vals_ok (live E st)" and a: "exact_args av 3"
    and d: "parse_f64 (av ! 2) = Some d" and ty: "has_type TZset (live E st (av ! 1))"
    and u: "zset_incr_by (zset_at (live E st) (av ! 1)) (av ! 3) d = (z', u)"
    and fin: "is_finite u \<Longrightarrow>
      Q ((live E st)(av ! 1 \<mapsto> (VZset z', deadline_of (live E st (av ! 1))))) (Double u)"
    and inf: "\<not> is_finite u \<Longrightarrow> Q (without_member (av ! 1) (av ! 3) (live E st))
      (Error ''ERR resulting score is not a number (NaN)'')"
  shows "wpo E Q (cmd_zincrby E name av st)"
proof (cases "live E st (av ! 1)")
  case None
  have u': "zset_incr_by [] (av ! 3) d = (z', u)" using u None by simp
  have w: "fst (zset_rem z' (av ! 3)) = []" using zincrby_undo [OF u'] by simp
  have fin': "is_finite u \<Longrightarrow> Q ((live E st)(av ! 1 \<mapsto> (VZset z', None))) (Double u)"
    and inf': "\<not> is_finite u \<Longrightarrow> Q ((live E st)(av ! 1 := None))
      (Error ''ERR resulting score is not a number (NaN)'')"
    using fin inf None by (simp_all add: without_member_def)
  show ?thesis
    unfolding cmd_zincrby_def using a d t None u' fin' inf' w
    by - (rule wp | assumption | rule wp_let | (simp; fail) | (clarsimp; fail))+
next
  case (Some p)
  then obtain z t where p: "p = (VZset z, t)" using ty by (auto simp: has_type_zset)
  have u': "zset_incr_by z (av ! 3) d = (z', u)" using u Some p by simp
  have wf: "zset_wf z" using vals_okD [OF v] Some p by fastforce
  define F where "F = filter (\<lambda>e. fst e \<noteq> av ! 3) z"
  have L: "live E st (av ! 1) = Some (VZset z, t)" using Some p by simp
  have w: "fst (zset_rem z' (av ! 3)) = F" using zincrby_undo [OF u' wf] by (simp add: F_def)
  have fin': "is_finite u \<Longrightarrow> Q ((live E st)(av ! 1 \<mapsto> (VZset z', t))) (Double u)"
    using fin L by simp
  have inf': "\<not> is_finite u \<Longrightarrow> F = [] \<Longrightarrow> Q ((live E st)(av ! 1 := None))
      (Error ''ERR resulting score is not a number (NaN)'')"
    and inf'': "\<not> is_finite u \<Longrightarrow> F \<noteq> [] \<Longrightarrow> Q ((live E st)(av ! 1 \<mapsto> (VZset F, t)))
      (Error ''ERR resulting score is not a number (NaN)'')"
    using inf L by (simp_all add: without_member_def Let_def F_def [symmetric] del: filter_empty_conv)
  show ?thesis
    unfolding cmd_zincrby_def using a d t L u' fin' inf' inf'' w
    by - (rule wp | assumption | rule wp_let | (simp; fail) | (clarsimp; fail))+
qed

lemma finite_not_nan: "is_finite u \<Longrightarrow> \<not> is_nan u"
  by (cases u) simp_all

lemma zset_at_wf: "vals_ok M \<Longrightarrow> zset_wf (zset_at M k)"
  by (fastforce simp: zset_at_def split: option.split prod.split val.split dest: vals_okD)

lemma without_member_ok: "vals_ok M \<Longrightarrow> vals_ok (without_member k m M)"
  using zset_wf_filter [OF zset_at_wf] by (simp add: without_member_def Let_def del: filter_empty_conv)

lemma without_member_other: "x \<noteq> k \<Longrightarrow> without_member k m M x = M x"
  by (simp add: without_member_def Let_def)

lemma zincrby_framed: "framed E {av ! 1} st (cmd_zincrby E name av st)"
  unfolding framed_def
proof
  assume ok: "store_ok st"
  note t = store_okD(2) [OF ok, of E] and v = store_okD(3) [OF ok, of E]
  show "wpo E (\<lambda>M r. vals_ok M \<and> (\<forall>k. k \<notin> {av ! 1} \<longrightarrow> M k = live E st k)) (cmd_zincrby E name av st)"
  proof (cases "\<exists>d. exact_args av 3 \<and> parse_f64 (av ! 2) = Some d \<and> has_type TZset (live E st (av ! 1))")
    case True
    then obtain d where d: "exact_args av 3" "parse_f64 (av ! 2) = Some d" "has_type TZset (live E st (av ! 1))"
      by blast
    obtain z' u where u: "zset_incr_by (zset_at (live E st) (av ! 1)) (av ! 3) d = (z', u)"
      by fastforce
    show ?thesis
      using zincrby_wf [OF u zset_at_wf [OF v]] v
      by (intro zincrby_wp [OF t v d u])
        (auto simp: without_member_ok without_member_other dest: finite_not_nan)
  next
    case False
    then show ?thesis
      unfolding cmd_zincrby_def using t v
      by - (rule wp | assumption | rule wp_let | (simp; fail) | (clarsimp; fail))+
  qed
qed

definition zset_keys :: "bytes \<Rightarrow> bytes list \<Rightarrow> bytes set" where
  "zset_keys name av =
     (if name \<in> {''ZADD'', ''ZINCRBY'', ''ZREM'', ''ZREMRANGEBYSCORE'', ''ZREMRANGEBYRANK'', ''ZPOPMIN'', ''ZPOPMAX''}
      then {av ! 1} else {})"

lemma zrem_sound: "sound E {av ! 1} st (cmd_zrem E name av st)"
  unfolding cmd_zrem_def
  using zset_remove_all_wf
  by (auto intro!: removing_sound sound_same) (metis fst_conv)

lemma zremrange_sound:
  "sound E {av ! 1} st (cmd_zremrangebyscore E name av st)"
  "sound E {av ! 1} st (cmd_zremrangebyrank E name av st)"
  unfolding cmd_zremrangebyscore_def cmd_zremrangebyrank_def
  using remove_range_by_score_wf remove_range_by_rank_wf
  by (auto intro!: removing_sound sound_same split: option.split) (metis fst_conv)+

lemma zpop_sound: "sound E {av ! 1} st (cmd_zpop E name av st)"
proof -
  have wf: "zset_wf z'" if "zset_pop z n b = (z', r)" "zset_wf z" for z z' n b r
    using zset_pop_wf [OF that(2), of n b] that(1) by simp
  show ?thesis
    unfolding cmd_zpop_def
    by (cases "min_args av 1"; cases "pop_count name av")
      (simp_all only: if_True if_False not_True_eq_False not_False_eq_True sum.case sound_same,
        rule removing_sound, erule (1) wf, simp split: option.split)
qed

lemma zset_sounds: "name \<noteq> ''ZINCRBY'' \<Longrightarrow> sounds E (zset_keys name av) st (zset_cmd E cfg name av st)"
  unfolding zset_cmd_def zset_keys_def
  by (simp add: zadd_sounds zreads_sound zrem_sound zremrange_sound zpop_sound sound_same
      del: One_nat_def)

lemma zset_framed: "framed E (zset_keys name av) st (zset_cmd E cfg name av st)"
proof (cases "name = ''ZINCRBY''")
  case True
  then show ?thesis using zincrby_framed by (simp add: zset_cmd_def zset_keys_def)
qed (rule sounds_framed [OF zset_sounds])

end
