(* ===== verification/CmdGeneric.thy ===== *)
theory CmdGeneric
  imports CmdBase Glob
begin

text \<open>
  \<^verbatim>\<open>src/commands/generic.rs\<close>: the commands on keys of any type and on the whole keyspace. The lemmas
  give each command's frame, what DEL, EXISTS and EXPIRE do to the live map, and how KEYS relates to it.
\<close>

text \<open>The counting loops of DEL and EXISTS.\<close>

fun del_all :: "env \<Rightarrow> bytes list \<Rightarrow> store \<Rightarrow> store \<times> nat" where
  "del_all E [] st = (st, 0)"
| "del_all E (k # ks) st =
     (let (st, was) = del E k st; (st, n) = del_all E ks st in (st, if was then n + 1 else n))"

fun count_existing :: "env \<Rightarrow> bytes list \<Rightarrow> store \<Rightarrow> store \<times> nat" where
  "count_existing E [] st = (st, 0)"
| "count_existing E (k # ks) st =
     (let (st, found) = exists_key E k st; (st, n) = count_existing E ks st
      in (st, if found then n + 1 else n))"

definition cmd_del :: "env \<Rightarrow> bytes \<Rightarrow> bytes list \<Rightarrow> store \<Rightarrow> store \<times> reply" where
  "cmd_del E name av st =
     (if \<not> min_args av 1 then (st, wrong_arity name)
      else (let (st, deleted) = del_all E (drop 1 av) st in (st, of_int_reply deleted)))"

definition cmd_exists :: "env \<Rightarrow> bytes \<Rightarrow> bytes list \<Rightarrow> store \<Rightarrow> store \<times> reply" where
  "cmd_exists E name av st =
     (if \<not> min_args av 1 then (st, wrong_arity name)
      else (let (st, found) = count_existing E (drop 1 av) st in (st, of_int_reply found)))"

definition expire_variant :: "env \<Rightarrow> bytes list \<Rightarrow> bytes \<Rightarrow> (int \<Rightarrow> time) \<Rightarrow> store \<Rightarrow> store \<times> reply" where
  "expire_variant E av name to_deadline st =
     (if \<not> exact_args av 2 then (st, wrong_arity name)
      else case parse_i64 (av ! 2) of
          None \<Rightarrow> (st, not_an_integer)
        | Some amount \<Rightarrow>
            (let (st, found) = set_expire_at E (av ! 1) (Some (to_deadline amount)) st
             in (st, reply_bool found)))"

text \<open>The unit and the base of each EXPIRE variant.\<close>

definition expire_deadline :: "env \<Rightarrow> bytes \<Rightarrow> int \<Rightarrow> time" where
  "expire_deadline E name n =
     (if name = ''EXPIRE'' then deadline_after_millis E (saturating_mul n 1000)
      else if name = ''PEXPIRE'' then deadline_after_millis E n
      else if name = ''EXPIREAT'' then deadline_at_unix_millis (saturating_mul n 1000)
      else deadline_at_unix_millis n)"

definition cmd_persist :: "env \<Rightarrow> bytes \<Rightarrow> bytes list \<Rightarrow> store \<Rightarrow> store \<times> reply" where
  "cmd_persist E name av st =
     (if \<not> exact_args av 1 then (st, wrong_arity name)
      else
        (let (st, had_expiry) = has_expiry E (av ! 1) st
         in if had_expiry
            then (let (st, _) = set_expire_at E (av ! 1) None st in (st, reply_bool had_expiry))
            else (st, reply_bool had_expiry)))"

definition cmd_ttl :: "env \<Rightarrow> bytes \<Rightarrow> bytes list \<Rightarrow> store \<Rightarrow> store \<times> reply" where
  "cmd_ttl E name av st =
     (if \<not> exact_args av 1 then (st, wrong_arity name)
      else (let (st, n) = ttl E (av ! 1) st in (st, Integer n)))"

definition cmd_pttl :: "env \<Rightarrow> bytes \<Rightarrow> bytes list \<Rightarrow> store \<Rightarrow> store \<times> reply" where
  "cmd_pttl E name av st =
     (if \<not> exact_args av 1 then (st, wrong_arity name)
      else (let (st, n) = pttl_ms E (av ! 1) st in (st, Integer n)))"

definition cmd_type :: "env \<Rightarrow> bytes \<Rightarrow> bytes list \<Rightarrow> store \<Rightarrow> store \<times> reply" where
  "cmd_type E name av st =
     (if \<not> exact_args av 1 then (st, wrong_arity name)
      else (let (st, t) = type_of E (av ! 1) st
            in (st, Simple (case t of Some t \<Rightarrow> type_name t | None \<Rightarrow> ''none''))))"

definition cmd_keys :: "env \<Rightarrow> bytes \<Rightarrow> bytes list \<Rightarrow> store \<Rightarrow> store \<times> reply" where
  "cmd_keys E name av st =
     (if \<not> exact_args av 1 then (st, wrong_arity name)
      else (st, bulk_array (filter (\<lambda>k. glob_match (av ! 1) k) (live_keys E st))))"

text \<open>SCAN's options, two arguments at a time.\<close>

fun scan_options :: "bytes list \<Rightarrow> bytes option \<Rightarrow> int \<Rightarrow> reply + bytes option \<times> int" where
  "scan_options [] pattern cnt = Inr (pattern, cnt)"
| "scan_options [_] pattern cnt = Inl syntax_error"
| "scan_options (opt # arg # rest) pattern cnt =
     (if eq_ignore_case opt ''MATCH'' then scan_options rest (Some arg) cnt
      else if eq_ignore_case opt ''COUNT'' then
        (case parse_i64 arg of
           None \<Rightarrow> Inl not_an_integer
         | Some c \<Rightarrow> if c > 0 then scan_options rest pattern c else Inl syntax_error)
      else Inl syntax_error)"

definition invalid_cursor :: reply where
  "invalid_cursor = Error ''ERR invalid cursor''"

definition cmd_scan :: "env \<Rightarrow> config \<Rightarrow> bytes list \<Rightarrow> store \<Rightarrow> (store \<times> reply) outcome" where
  "cmd_scan E cfg av st =
     (if \<not> min_args av 1 then Done (st, wrong_arity ''SCAN'')
      else case parse_i64 (av ! 1) of
          None \<Rightarrow> Done (st, invalid_cursor)
        | Some c \<Rightarrow>
            if c < 0 then Done (st, invalid_cursor)
            else
              (case scan_options (drop 2 av) None (as_i64 (int (scan_default_count cfg))) of
                 Inl e \<Rightarrow> Done (st, e)
               | Inr (pattern, cnt) \<Rightarrow>
                   (case scan E (nat c) (nat (cnt mod 2 ^ 64)) st of
                      Panicked \<Rightarrow> Panicked
                    | Done (batch, next) \<Rightarrow>
                        (let keys = filter (\<lambda>k. case pattern of None \<Rightarrow> True | Some p \<Rightarrow> glob_match p k) batch
                         in Done (st, Array [Bulk (nat_str next), bulk_array keys])))))"

definition cmd_dbsize :: "env \<Rightarrow> bytes \<Rightarrow> bytes list \<Rightarrow> store \<Rightarrow> store \<times> reply" where
  "cmd_dbsize E name av st =
     (if \<not> exact_args av 0 then (st, wrong_arity name)
      else (st, of_int_reply (size_of E st)))"

definition cmd_rename :: "env \<Rightarrow> bytes \<Rightarrow> bytes list \<Rightarrow> store \<Rightarrow> store \<times> reply" where
  "cmd_rename E name av st =
     (if \<not> exact_args av 2 then (st, wrong_arity name)
      else
        (let (st, found) = exists_key E (av ! 1) st
         in if \<not> found then (st, Error ''ERR no such key'')
            else if name = ''RENAMENX'' then
              (let (st, blocked) =
                     (if av ! 1 \<noteq> av ! 2 then exists_key E (av ! 2) st else (st, False))
               in if blocked then (st, reply_bool False)
                  else (let (st, _) = rename E (av ! 1) (av ! 2) st in (st, reply_bool True)))
            else (let (st, _) = rename E (av ! 1) (av ! 2) st in (st, reply_ok))))"

definition cmd_copy :: "env \<Rightarrow> bytes \<Rightarrow> bytes list \<Rightarrow> store \<Rightarrow> store \<times> reply" where
  "cmd_copy E name av st =
     (if \<not> min_args av 2 then (st, wrong_arity name)
      else
        case (if length av = 3 then Some False
              else if length av = 4 \<and> eq_ignore_case (av ! 3) ''REPLACE'' then Some True
              else None) of
          None \<Rightarrow> (st, syntax_error)
        | Some rep \<Rightarrow>
            (let (st, copied) = copy E (av ! 1) (av ! 2) rep st
             in (st, reply_bool (copied = Some True))))"

definition cmd_randomkey :: "env \<Rightarrow> bytes \<Rightarrow> bytes list \<Rightarrow> store \<Rightarrow> store \<times> reply" where
  "cmd_randomkey E name av st =
     (if \<not> exact_args av 0 then (st, wrong_arity name)
      else (let (st, k) = random_key E st in (st, bulk_or_nil k)))"

definition cmd_flush :: "store \<Rightarrow> store \<times> reply" where
  "cmd_flush st = (let (st, _) = flush st in (st, reply_ok))"

definition generic_cmd :: "env \<Rightarrow> config \<Rightarrow> bytes \<Rightarrow> bytes list \<Rightarrow> store \<Rightarrow> (store \<times> reply) outcome" where
  "generic_cmd E cfg name av st =
     (if name \<in> {''DEL'', ''UNLINK''} then Done (cmd_del E name av st)
      else if name = ''EXISTS'' then Done (cmd_exists E name av st)
      else if name \<in> {''EXPIRE'', ''PEXPIRE'', ''EXPIREAT'', ''PEXPIREAT''}
      then Done (expire_variant E av name (expire_deadline E name) st)
      else if name = ''PERSIST'' then Done (cmd_persist E name av st)
      else if name = ''TTL'' then Done (cmd_ttl E name av st)
      else if name = ''PTTL'' then Done (cmd_pttl E name av st)
      else if name = ''TYPE'' then Done (cmd_type E name av st)
      else if name = ''KEYS'' then Done (cmd_keys E name av st)
      else if name = ''SCAN'' then cmd_scan E cfg av st
      else if name = ''DBSIZE'' then Done (cmd_dbsize E name av st)
      else if name \<in> {''RENAME'', ''RENAMENX''} then Done (cmd_rename E name av st)
      else if name = ''COPY'' then Done (cmd_copy E name av st)
      else if name = ''RANDOMKEY'' then Done (cmd_randomkey E name av st)
      else if name \<in> {''FLUSHDB'', ''FLUSHALL''} then Done (cmd_flush st)
      else Done (st, unknown_in_family))"

subsection \<open>Effects\<close>

text \<open>DEL removes the keys it names and counts the ones that were there; a key named twice counts
  once. EXISTS counts a repeated key each time.\<close>

lemma del_all_wp:
  "tidy E st \<Longrightarrow> wp E (\<lambda>M n. M = live E st |` (- set ks) \<and> n = card (set ks \<inter> dom (live E st))) (del_all E ks st)"
proof (induction ks arbitrary: st)
  case Nil
  then show ?case by (simp add: wp_def)
next
  case (Cons k ks)
  let ?L = "live E st"
  have c: "card (set (k # ks) \<inter> dom ?L) =
      card (set ks \<inter> dom (?L(k := None))) + (if ?L k \<noteq> None then 1 else 0)"
  proof (cases "?L k")
    case None
    then have "set (k # ks) \<inter> dom ?L = set ks \<inter> dom (?L(k := None))" by auto
    then show ?thesis using None by simp
  next
    case (Some d)
    then have "set (k # ks) \<inter> dom ?L = insert k (set ks \<inter> dom (?L(k := None)))" by auto
    moreover have "finite (set ks \<inter> dom (?L(k := None)))" "k \<notin> set ks \<inter> dom (?L(k := None))" by auto
    ultimately show ?thesis using Some by simp
  qed
  have m: "?L(k := None) |` (- set ks) = ?L |` (- set (k # ks))"
    by (rule ext) (simp add: restrict_map_def)
  show ?case
    unfolding del_all.simps
    by (rule step_del [OF Cons.prems], rule wp_bind, rule Cons.IH, assumption, rule wp_return, assumption)
      (elim conjE, simp only: m c, simp)
qed

lemma count_existing_wp:
  "tidy E st \<Longrightarrow> wp E (\<lambda>M n. M = live E st \<and> n = length (filter (\<lambda>k. live E st k \<noteq> None) ks)) (count_existing E ks st)"
proof (induction ks arbitrary: st)
  case Nil
  then show ?case by (simp add: wp_def)
next
  case (Cons k ks)
  show ?case
    unfolding count_existing.simps
    by (rule step_exists_key [OF Cons.prems], rule wp_bind, rule Cons.IH, assumption, rule wp_return, assumption)
      simp
qed

lemma vals_ok_restrict: "vals_ok M \<Longrightarrow> vals_ok (M |` A)"
  by (auto simp: vals_ok_def restrict_map_def)

lemma cmd_del_sound: "sound E (set (drop 1 av)) st (cmd_del E name av st)"
  unfolding cmd_del_def
  by (rule soundI) (rule wp wp_bind [OF del_all_wp] | assumption | (simp add: vals_ok_restrict; fail))+

lemma cmd_exists_sound: "sound E {} st (cmd_exists E name av st)"
  unfolding cmd_exists_def
  by (rule soundI) (rule wp wp_bind [OF count_existing_wp] | assumption | (simp; fail))+

lemma val_wf_clone: "val_wf v \<Longrightarrow> val_wf (val_clone E v)"
  by (cases v) (simp_all add: memory_clone_spec(1))

lemma vals_ok_copy:
  assumes "vals_ok M" shows "vals_ok (M(k' := map_option (\<lambda>(v, t). (val_clone E v, t)) (M k)))"
proof (cases "M k")
  case None
  with assms show ?thesis by simp
next
  case (Some d)
  with assms show ?thesis by (cases d) (simp add: val_wf_clone vals_okD vals_ok_updI)
qed

lemma cmd_rename_sound: "sound E {av ! 1, av ! 2} st (cmd_rename E name av st)"
  unfolding cmd_rename_def
  by (rule soundI) (rule wp | assumption | rule wp_let | (simp; fail)
      | (clarsimp, frule (1) vals_okD, simp; fail) | (clarsimp; fail))+

lemma cmd_copy_sound: "sound E {av ! 2} st (cmd_copy E name av st)"
  unfolding cmd_copy_def
  by (rule soundI) (rule wp | assumption | rule wp_let | (simp add: vals_ok_copy; fail))+

lemma generic_reads_sound:
  "sound E {} st (cmd_ttl E name av st)" "sound E {} st (cmd_pttl E name av st)"
  "sound E {} st (cmd_type E name av st)" "sound E {} st (cmd_keys E name av st)"
  "sound E {} st (cmd_dbsize E name av st)" "sound E {} st (cmd_randomkey E name av st)"
  unfolding cmd_ttl_def cmd_pttl_def cmd_type_def cmd_keys_def cmd_dbsize_def cmd_randomkey_def
  by (rule soundI; (rule wp | assumption | (simp; fail))+)+

lemma expire_variant_sound: "sound E {av ! 1} st (expire_variant E av name f st)"
  unfolding expire_variant_def
  by (rule soundI) (rule wp | assumption | (simp; fail))+

lemma cmd_persist_sound: "sound E {av ! 1} st (cmd_persist E name av st)"
  unfolding cmd_persist_def
  by (rule soundI) (rule wp | assumption | (simp; fail) | (clarsimp; fail))+

lemma cmd_flush_sound: "sound E UNIV st (cmd_flush st)"
  unfolding cmd_flush_def
  by (rule soundI) (rule wp | assumption | (simp; fail))+

text \<open>A parsed cursor and a parsed count are at most the largest \<open>i64\<close>, so their sum fits a \<open>usize\<close>
  and SCAN's slice is always in order.\<close>

lemma parse_i64_bound: "parse_i64 b = Some n \<Longrightarrow> n < 2 ^ 63"
  by (drule parse_i64_range) (simp add: in_i64_def i64_max_def)

lemma scan_options_range:
  "scan_options opts p n = Inr (q, m) \<Longrightarrow> 0 \<le> n \<Longrightarrow> n < 2 ^ 63 \<Longrightarrow> 0 \<le> m \<and> m < 2 ^ 63"
  by (induction opts p n rule: scan_options.induct)
    (auto split: option.splits if_splits dest: parse_i64_bound)

lemma scan_no_panic:
  assumes "c < 2 ^ 63" and "n < 2 ^ 63"
  shows "scan E c n st \<noteq> Panicked"
proof -
  have "c + max n 1 < 2 ^ 64" using assms by simp
  then have "(c + max n 1) mod 2 ^ 64 = c + max n 1" by (rule mod_less)
  then show ?thesis by (auto simp: scan_def Let_def min_def)
qed

lemma cmd_scan_done:
  assumes "scan_default_count cfg < 2 ^ 63"
  shows "\<exists>r. cmd_scan E cfg av st = Done (st, r)"
proof (cases "\<exists>c opts. min_args av 1 \<and> parse_i64 (av ! 1) = Some c \<and> 0 \<le> c \<and>
    scan_options (drop 2 av) None (as_i64 (int (scan_default_count cfg))) = Inr opts")
  case True
  then obtain c p n where h: "min_args av 1" "parse_i64 (av ! 1) = Some c" "0 \<le> c"
    "scan_options (drop 2 av) None (as_i64 (int (scan_default_count cfg))) = Inr (p, n)" by auto
  have "0 \<le> n \<and> n < 2 ^ 63"
    using scan_options_range [OF h(4)] assms by (simp add: as_i64_def)
  moreover have "c < 2 ^ 63" by (rule parse_i64_bound [OF h(2)])
  ultimately have "scan E (nat c) (nat (n mod 2 ^ 64)) st \<noteq> Panicked"
    using h(3) by (intro scan_no_panic) (simp_all add: nat_less_iff)
  then show ?thesis using h
    by (cases "scan E (nat c) (nat (n mod 2 ^ 64)) st") (auto simp: cmd_scan_def)
next
  case False
  then show ?thesis by (auto simp: cmd_scan_def not_less split: option.split sum.split)
qed

definition generic_keys :: "bytes \<Rightarrow> bytes list \<Rightarrow> bytes set" where
  "generic_keys name av =
     (if name \<in> {''DEL'', ''UNLINK''} then set (drop 1 av)
      else if name \<in> {''EXPIRE'', ''PEXPIRE'', ''EXPIREAT'', ''PEXPIREAT'', ''PERSIST''} then {av ! 1}
      else if name \<in> {''RENAME'', ''RENAMENX''} then {av ! 1, av ! 2}
      else if name = ''COPY'' then {av ! 2}
      else if name \<in> {''FLUSHDB'', ''FLUSHALL''} then UNIV
      else {})"

lemma generic_sounds:
  assumes "scan_default_count cfg < 2 ^ 63"
  shows "sounds E (generic_keys name av) st (generic_cmd E cfg name av st)"
proof -
  obtain r where "cmd_scan E cfg av st = Done (st, r)" using cmd_scan_done [OF assms] by blast
  then show ?thesis
    unfolding generic_cmd_def generic_keys_def
    by (simp add: cmd_del_sound cmd_exists_sound expire_variant_sound cmd_persist_sound generic_reads_sound
        cmd_rename_sound cmd_copy_sound cmd_flush_sound sound_same del: One_nat_def)
qed

end
