(* ===== verification/Keyspec.thy ===== *)
theory Keyspec
  imports CmdString CmdList CmdHash CmdSet CmdZset CmdGeneric
begin

text \<open>
  \<^verbatim>\<open>src/commands/keyspec.rs\<close>, the tables that say which keys a command writes and which commands are
  refused for want of memory, and the routing of a name to its family from \<^verbatim>\<open>src/commands/mod.rs\<close>.
  The tables are data beside the handlers; the lemmas hold them against the handlers' effect.
\<close>

subsection \<open>The tables\<close>

datatype position =
    Range nat int nat
  | Numkeys nat
  | Everything

datatype written = WKeys "bytes list" | WEverything

definition first_key :: position where "first_key = Range 1 1 1"
definition two_keys :: position where "two_keys = Range 1 2 1"
definition all_keys :: position where "all_keys = Range 1 (-1) 1"
definition all_but_timeout :: position where "all_but_timeout = Range 1 (-2) 1"

definition WRITES :: "(bytes \<times> position) list" where
  "WRITES =
     [(''DEL'', all_keys), (''UNLINK'', all_keys), (''EXPIRE'', first_key), (''PEXPIRE'', first_key),
      (''EXPIREAT'', first_key), (''PEXPIREAT'', first_key), (''PERSIST'', first_key),
      (''RENAME'', two_keys), (''RENAMENX'', two_keys), (''COPY'', two_keys),
      (''FLUSHDB'', Everything), (''FLUSHALL'', Everything),
      (''SET'', first_key), (''SETNX'', first_key), (''SETEX'', first_key), (''PSETEX'', first_key),
      (''GETSET'', first_key), (''GETDEL'', first_key), (''GETEX'', first_key), (''INCR'', first_key),
      (''DECR'', first_key), (''INCRBY'', first_key), (''DECRBY'', first_key),
      (''INCRBYFLOAT'', first_key), (''APPEND'', first_key), (''SETRANGE'', first_key),
      (''MSET'', Range 1 (-1) 2), (''MSETNX'', Range 1 (-1) 2),
      (''LPUSH'', first_key), (''RPUSH'', first_key), (''LPUSHX'', first_key), (''RPUSHX'', first_key),
      (''LPOP'', first_key), (''RPOP'', first_key), (''LSET'', first_key), (''LINSERT'', first_key),
      (''LREM'', first_key), (''LTRIM'', first_key), (''RPOPLPUSH'', two_keys), (''LMOVE'', two_keys),
      (''LMPOP'', Numkeys 1), (''BLPOP'', all_but_timeout), (''BRPOP'', all_but_timeout),
      (''BLMOVE'', two_keys), (''BRPOPLPUSH'', two_keys), (''BLMPOP'', Numkeys 2),
      (''HSET'', first_key), (''HSETNX'', first_key), (''HMSET'', first_key), (''HDEL'', first_key),
      (''HINCRBY'', first_key), (''HINCRBYFLOAT'', first_key),
      (''SADD'', first_key), (''SREM'', first_key), (''SPOP'', first_key), (''SMOVE'', two_keys),
      (''SINTERSTORE'', all_keys), (''SUNIONSTORE'', all_keys), (''SDIFFSTORE'', all_keys),
      (''ZADD'', first_key), (''ZINCRBY'', first_key), (''ZREM'', first_key),
      (''ZREMRANGEBYRANK'', first_key), (''ZREMRANGEBYSCORE'', first_key), (''ZPOPMIN'', first_key),
      (''ZPOPMAX'', first_key), (''ZMPOP'', Numkeys 1), (''BZPOPMIN'', all_but_timeout),
      (''BZPOPMAX'', all_but_timeout), (''BZMPOP'', Numkeys 2),
      (''MEM.CREATE'', first_key), (''MEM.CONFIG'', first_key), (''MEM.ADD'', first_key),
      (''MEM.DEL'', first_key), (''MEM.SETMETA'', first_key), (''MEM.DELMETA'', first_key),
      (''MEM.EXPIRE'', first_key)]"

definition DENY_OOM :: "bytes list" where
  "DENY_OOM =
     [''RENAME'', ''RENAMENX'', ''COPY'', ''SET'', ''SETNX'', ''SETEX'', ''PSETEX'', ''GETSET'', ''MSET'',
      ''MSETNX'', ''APPEND'', ''SETRANGE'', ''INCR'', ''DECR'', ''INCRBY'', ''DECRBY'', ''INCRBYFLOAT'',
      ''LPUSH'', ''RPUSH'', ''LPUSHX'', ''RPUSHX'', ''LSET'', ''LINSERT'', ''RPOPLPUSH'', ''LMOVE'',
      ''BLMOVE'', ''BRPOPLPUSH'', ''HSET'', ''HSETNX'', ''HMSET'', ''HINCRBY'', ''HINCRBYFLOAT'', ''SADD'',
      ''SMOVE'', ''SINTERSTORE'', ''SUNIONSTORE'', ''SDIFFSTORE'', ''ZADD'', ''ZINCRBY'', ''MEM.CREATE'',
      ''MEM.ADD'', ''MEM.SETMETA'']"

definition denies_oom :: "bytes \<Rightarrow> bool" where
  "denies_oom name \<longleftrightarrow> name \<in> set DENY_OOM"

text \<open>The loop of a range walks the vector in steps, each at least one.\<close>

fun every :: "nat \<Rightarrow> 'a list \<Rightarrow> 'a list" where
  "every step [] = []"
| "every step (x # xs) = x # every step (drop (step - 1) xs)"

definition keys_at :: "position \<Rightarrow> bytes list \<Rightarrow> written" where
  "keys_at p av =
     (case p of
        Everything \<Rightarrow> WEverything
      | Numkeys i \<Rightarrow>
          (let cnt = (if i < length av
                      then max 0 (case parse_i64 (av ! i) of None \<Rightarrow> 0 | Some n \<Rightarrow> n) else 0)
           in WKeys (take (nat cnt) (drop (i + 1) av)))
      | Range start stop step \<Rightarrow>
          (let stop = (if stop < 0 then int (length av) + stop else stop)
           in WKeys (every step (drop start (take (nat (stop + 1)) av)))))"

definition written_keys :: "bytes \<Rightarrow> bytes list \<Rightarrow> written option" where
  "written_keys name av = map_option (\<lambda>p. keys_at p av) (map_of WRITES name)"

subsection \<open>Routing\<close>

datatype family = FServer | FGeneric | FString | FList | FHash | FSetF | FZset | FMemory
  | FTransaction | FPubSub | FBlocking

definition family_of :: "bytes \<Rightarrow> family option" where
  "family_of name =
     (if name \<in> set [''PING'', ''ECHO'', ''INFO'', ''CONFIG'', ''SAVE'', ''QUIT'', ''SHUTDOWN'', ''COMMAND'',
         ''HELLO'', ''CLIENT''] then Some FServer
      else if name \<in> set [''MULTI'', ''EXEC'', ''DISCARD'', ''WATCH'', ''UNWATCH'', ''RESET'']
      then Some FTransaction
      else if name \<in> set [''SUBSCRIBE'', ''UNSUBSCRIBE'', ''PSUBSCRIBE'', ''PUNSUBSCRIBE'', ''PUBLISH'',
         ''PUBSUB''] then Some FPubSub
      else if name \<in> set [''BLPOP'', ''BRPOP'', ''BLMOVE'', ''BRPOPLPUSH'', ''BLMPOP'', ''LMPOP'', ''BZPOPMIN'',
         ''BZPOPMAX'', ''BZMPOP'', ''ZMPOP''] then Some FBlocking
      else if name \<in> set [''DEL'', ''UNLINK'', ''EXISTS'', ''EXPIRE'', ''PEXPIRE'', ''EXPIREAT'', ''PEXPIREAT'',
         ''PERSIST'', ''TTL'', ''PTTL'', ''TYPE'', ''KEYS'', ''SCAN'', ''DBSIZE'', ''RENAME'', ''RENAMENX'',
         ''COPY'', ''RANDOMKEY'', ''FLUSHDB'', ''FLUSHALL''] then Some FGeneric
      else if name \<in> set [''SET'', ''SETNX'', ''SETEX'', ''PSETEX'', ''GET'', ''GETSET'', ''GETDEL'', ''GETEX'',
         ''MGET'', ''MSET'', ''MSETNX'', ''INCR'', ''DECR'', ''INCRBY'', ''DECRBY'', ''INCRBYFLOAT'', ''APPEND'',
         ''STRLEN'', ''GETRANGE'', ''SUBSTR'', ''SETRANGE''] then Some FString
      else if name \<in> set [''LPUSH'', ''RPUSH'', ''LPUSHX'', ''RPUSHX'', ''LPOP'', ''RPOP'', ''LLEN'', ''LRANGE'',
         ''LINDEX'', ''LSET'', ''LINSERT'', ''LREM'', ''LTRIM'', ''RPOPLPUSH'', ''LMOVE''] then Some FList
      else if name \<in> set [''HSET'', ''HSETNX'', ''HMSET'', ''HGET'', ''HMGET'', ''HDEL'', ''HLEN'', ''HEXISTS'',
         ''HKEYS'', ''HVALS'', ''HGETALL'', ''HINCRBY'', ''HINCRBYFLOAT'', ''HSTRLEN''] then Some FHash
      else if name \<in> set [''SADD'', ''SREM'', ''SISMEMBER'', ''SMISMEMBER'', ''SCARD'', ''SMEMBERS'', ''SPOP'',
         ''SRANDMEMBER'', ''SMOVE'', ''SINTER'', ''SINTERSTORE'', ''SUNION'', ''SUNIONSTORE'', ''SDIFF'',
         ''SDIFFSTORE''] then Some FSetF
      else if name \<in> set [''ZADD'', ''ZSCORE'', ''ZMSCORE'', ''ZINCRBY'', ''ZREM'', ''ZCARD'', ''ZCOUNT'', ''ZRANGE'',
         ''ZREVRANGE'', ''ZRANGEBYSCORE'', ''ZREVRANGEBYSCORE'', ''ZRANK'', ''ZREVRANK'', ''ZREMRANGEBYRANK'',
         ''ZREMRANGEBYSCORE'', ''ZPOPMIN'', ''ZPOPMAX''] then Some FZset
      else if take 4 name = ''MEM.'' then Some FMemory
      else None)"

definition READ_COMMANDS :: "bytes list" where
  "READ_COMMANDS =
     [''EXISTS'', ''TYPE'', ''TTL'', ''PTTL'', ''GET'', ''MGET'', ''GETRANGE'', ''SUBSTR'', ''STRLEN'', ''LINDEX'',
      ''LLEN'', ''LRANGE'', ''HGET'', ''HMGET'', ''HLEN'', ''HEXISTS'', ''HKEYS'', ''HVALS'', ''HGETALL'',
      ''HSTRLEN'', ''SISMEMBER'', ''SMISMEMBER'', ''SCARD'', ''SMEMBERS'', ''SRANDMEMBER'', ''SINTER'', ''SUNION'',
      ''SDIFF'', ''ZSCORE'', ''ZMSCORE'', ''ZCARD'', ''ZCOUNT'', ''ZRANGE'', ''ZREVRANGE'', ''ZRANGEBYSCORE'',
      ''ZREVRANGEBYSCORE'', ''ZRANK'', ''ZREVRANK'', ''MEM.GET'', ''MEM.MGET'', ''MEM.CARD'', ''MEM.INFO'',
      ''MEM.SEARCH'', ''MEM.VSEARCH'', ''MEM.QUERY'', ''MEM.SCAN'']"

text \<open>The families whose handlers see only the store.\<close>

definition data_cmd ::
    "env \<Rightarrow> config \<Rightarrow> family \<Rightarrow> bytes \<Rightarrow> bytes list \<Rightarrow> store \<Rightarrow> (store \<times> reply) outcome" where
  "data_cmd E cfg fam name av st =
     (case fam of
        FGeneric \<Rightarrow> generic_cmd E cfg name av st
      | FString \<Rightarrow> Done (string_cmd E cfg name av st)
      | FList \<Rightarrow> list_cmd E name av st
      | FHash \<Rightarrow> hash_cmd E name av st
      | FSetF \<Rightarrow> set_cmd E name av st
      | FZset \<Rightarrow> zset_cmd E cfg name av st
      | _ \<Rightarrow> Done (st, unknown_in_family))"

definition data_keys :: "family \<Rightarrow> bytes \<Rightarrow> bytes list \<Rightarrow> bytes set" where
  "data_keys fam name av =
     (case fam of
        FGeneric \<Rightarrow> generic_keys name av
      | FString \<Rightarrow> string_keys name av
      | FList \<Rightarrow> list_keys name av
      | FHash \<Rightarrow> hash_keys name av
      | FSetF \<Rightarrow> set_keys name av
      | FZset \<Rightarrow> zset_keys name av
      | _ \<Rightarrow> {})"

lemma data_sounds:
  assumes "scan_default_count cfg < 2 ^ 63" and "name \<noteq> ''ZINCRBY''"
  shows "sounds E (data_keys fam name av) st (data_cmd E cfg fam name av st)"
  by (cases fam) (simp_all add: data_keys_def data_cmd_def generic_sounds [OF assms(1)] string_sound list_sounds
      hash_sounds set_sounds zset_sounds [OF assms(2)] sound_same)

lemma data_framed:
  assumes "scan_default_count cfg < 2 ^ 63"
  shows "framed E (data_keys fam name av) st (data_cmd E cfg fam name av st)"
proof (cases "name = ''ZINCRBY''")
  case True
  then have "fam = FZset \<or> sounds E (data_keys fam name av) st (data_cmd E cfg fam name av st)"
    by (cases fam) (simp_all add: data_keys_def data_cmd_def generic_sounds [OF assms] string_sound list_sounds
      hash_sounds set_sounds sound_same)
  then show ?thesis
  proof
    assume "fam = FZset"
    then show ?thesis using zset_framed by (simp add: data_keys_def data_cmd_def)
  qed (rule sounds_framed)
next
  case False
  then show ?thesis by (intro sounds_framed data_sounds assms)
qed

subsection \<open>The tables agree with the handlers\<close>

definition written_set :: "bytes \<Rightarrow> bytes list \<Rightarrow> bytes set" where
  "written_set name av =
     (case written_keys name av of
        None \<Rightarrow> {} | Some WEverything \<Rightarrow> UNIV | Some (WKeys ks) \<Rightarrow> set ks)"

lemma every_1 [simp]: "every (Suc 0) xs = xs"
  by (induction xs) simp_all

lemma every_2_chunks: "even (length xs) \<Longrightarrow> every 2 xs = map fst (chunks2 xs)"
  by (induction xs rule: chunks2.induct) simp_all

lemma args_two: "Suc 0 < length av \<Longrightarrow> drop (Suc 0) (take 2 av) = [av ! 1]"
  by (cases av; cases "tl av") (auto simp: numeral_2_eq_2)

lemma args_three: "2 < length av \<Longrightarrow> drop (Suc 0) (take 3 av) = [av ! 1, av ! 2]"
  by (cases av; cases "tl av"; cases "tl (tl av)") (auto simp: numeral_2_eq_2 numeral_3_eq_3)

lemma keys_at_simps:
  "Suc 0 < length av \<Longrightarrow> keys_at first_key av = WKeys [av ! 1]"
  "2 < length av \<Longrightarrow> keys_at two_keys av = WKeys [av ! 1, av ! 2]"
  "keys_at all_keys av = WKeys (drop 1 av)"
  "keys_at (Range 1 (-1) 2) av = WKeys (every 2 (drop 1 av))"
  "keys_at Everything av = WEverything"
  by (simp_all add: keys_at_def first_key_def two_keys_def all_keys_def args_two args_three)

definition names_at :: "position \<Rightarrow> bytes list" where
  "names_at p = map fst (filter (\<lambda>(_, q). q = p) WRITES)"

lemma writes_distinct: "distinct (map fst WRITES)"
  by code_simp

lemma written_at: "(name, p) \<in> set WRITES \<Longrightarrow> written_keys name av = Some (keys_at p av)"
  using writes_distinct by (simp add: written_keys_def)

lemma writes_names:
  "(name, first_key) \<in> set WRITES \<longleftrightarrow> name \<in> set (names_at first_key)"
  "(name, two_keys) \<in> set WRITES \<longleftrightarrow> name \<in> set (names_at two_keys)"
  "(name, all_keys) \<in> set WRITES \<longleftrightarrow> name \<in> set (names_at all_keys)"
  "(name, Range 1 (-1) 2) \<in> set WRITES \<longleftrightarrow> name \<in> set (names_at (Range 1 (-1) 2))"
  "(name, Everything) \<in> set WRITES \<longleftrightarrow> name \<in> set (names_at Everything)"
  by (auto simp: names_at_def image_iff)

text \<open>Too few arguments are answered with an error by every handler that needs a key.\<close>

definition errs :: "(store \<times> reply) outcome \<Rightarrow> bool" where
  "errs x \<longleftrightarrow> (\<forall>st r. x = Done (st, r) \<longrightarrow> is_error r)"

lemma errs_Done [simp]: "errs (Done (st, r)) \<longleftrightarrow> is_error r"
  by (simp add: errs_def)

lemma short_args:
  "length av \<le> 1 \<Longrightarrow> 0 < n \<Longrightarrow> \<not> exact_args av n" "length av \<le> 1 \<Longrightarrow> 0 < n \<Longrightarrow> \<not> min_args av n"
  "length av \<le> 2 \<Longrightarrow> 1 < n \<Longrightarrow> \<not> exact_args av n" "length av \<le> 2 \<Longrightarrow> 1 < n \<Longrightarrow> \<not> min_args av n"
  by (auto simp: exact_args_def min_args_def)

lemma string_short: "length av \<le> 1 \<Longrightarrow> errs (Done (string_cmd E cfg name av st))"
  by (simp add: string_cmd_def cmd_set_def cmd_setnx_def cmd_setex_def cmd_get_def cmd_getset_def
      cmd_getdel_def cmd_getex_def cmd_mget_def cmd_mset_def cmd_incr_def cmd_incrby_def cmd_incrbyfloat_def
      cmd_append_def cmd_strlen_def cmd_getrange_def cmd_setrange_def short_args)

lemma list_short: "length av \<le> 1 \<Longrightarrow> errs (list_cmd E name av st)"
  by (simp add: list_cmd_def cmd_push_def cmd_pop_def cmd_llen_def cmd_lrange_def cmd_lindex_def cmd_lset_def
      cmd_linsert_def cmd_lrem_def cmd_ltrim_def cmd_lmove_def short_args)

lemma hash_short: "length av \<le> 1 \<Longrightarrow> errs (hash_cmd E name av st)"
  by (simp add: hash_cmd_def cmd_hset_def cmd_hsetnx_def cmd_hget_def cmd_hmget_def cmd_hdel_def cmd_hlen_def
      cmd_hexists_def cmd_hstrlen_def cmd_hkeys_def cmd_hgetall_def cmd_hincrby_def cmd_hincrbyfloat_def short_args)

lemma set_short: "length av \<le> 1 \<Longrightarrow> errs (set_cmd E name av st)"
  by (simp add: set_cmd_def cmd_sadd_def cmd_srem_def cmd_sismember_def cmd_smismember_def cmd_scard_def
      cmd_smembers_def cmd_spop_def cmd_smove_def cmd_sinter_def cmd_sinterstore_def short_args)

lemma zset_short: "length av \<le> 1 \<Longrightarrow> errs (zset_cmd E cfg name av st)"
  by (simp add: zset_cmd_def cmd_zadd_def cmd_zincrby_def cmd_zscore_def cmd_zmscore_def cmd_zcard_def
      cmd_zrank_def cmd_zrange_def cmd_zrangebyscore_def cmd_zcount_def cmd_zrem_def cmd_zremrangebyscore_def
      cmd_zremrangebyrank_def cmd_zpop_def short_args)

lemma generic_short:
  "length av \<le> 1 \<Longrightarrow> name \<in> {''EXPIRE'', ''PEXPIRE'', ''EXPIREAT'', ''PEXPIREAT'', ''PERSIST''} \<Longrightarrow>
   errs (generic_cmd E cfg name av st)"
  by (elim insertE emptyE; simp only:; simp add: generic_cmd_def expire_variant_def cmd_persist_def short_args)

lemma rename_short:
  "length av \<le> 2 \<Longrightarrow> name \<in> {''RENAME'', ''RENAMENX'', ''COPY''} \<Longrightarrow> errs (generic_cmd E cfg name av st)"
  by (elim insertE emptyE; simp only:; simp add: generic_cmd_def cmd_rename_def cmd_copy_def short_args)

lemma lmove_short:
  "length av \<le> 2 \<Longrightarrow> name \<in> {''RPOPLPUSH'', ''LMOVE''} \<Longrightarrow> errs (list_cmd E name av st)"
  by (elim insertE emptyE; simp only:; simp add: list_cmd_def cmd_lmove_def short_args)

lemma smove_short: "length av \<le> 2 \<Longrightarrow> errs (set_cmd E ''SMOVE'' av st)"
  by (simp add: set_cmd_def cmd_smove_def short_args)

lemma mset_odd:
  "odd (length (drop 1 av)) \<Longrightarrow> name \<in> {''MSET'', ''MSETNX''} \<Longrightarrow> errs (Done (string_cmd E cfg name av st))"
  by (elim insertE emptyE; simp only:; simp add: string_cmd_def cmd_mset_def)

text \<open>Each key a handler may change stands where the table says.\<close>

lemma written_set_at:
  "map_of WRITES name = Some p \<Longrightarrow> written_set name av =
     (case keys_at p av of WEverything \<Rightarrow> UNIV | WKeys ks \<Rightarrow> set ks)"
  by (simp add: written_set_def written_keys_def)

lemma covered_first:
  "map_of WRITES name = Some first_key \<Longrightarrow> 1 < length av \<Longrightarrow> {av ! 1} \<subseteq> written_set name av"
  by (simp add: written_set_at keys_at_simps)

lemma covered_two:
  "map_of WRITES name = Some two_keys \<Longrightarrow> 2 < length av \<Longrightarrow> {av ! 1, av ! 2} \<subseteq> written_set name av"
  by (simp add: written_set_at keys_at_simps)

lemma covered_all:
  "map_of WRITES name = Some all_keys \<Longrightarrow> set (drop 1 av) \<subseteq> written_set name av"
  by (simp add: written_set_at keys_at_simps)

lemma covered_every:
  "map_of WRITES name = Some Everything \<Longrightarrow> UNIV \<subseteq> written_set name av"
  by (simp add: written_set_at keys_at_simps)

lemma covered_mset:
  "map_of WRITES name = Some (Range 1 (-1) 2) \<Longrightarrow> even (length (drop 1 av)) \<Longrightarrow>
   fst ` set (chunks2 (drop 1 av)) \<subseteq> written_set name av"
  unfolding written_set_at keys_at_simps(4) every_2_chunks by simp

lemma first_names:
  "list_all (\<lambda>n. map_of WRITES n = Some first_key)
     [''EXPIRE'', ''PEXPIRE'', ''EXPIREAT'', ''PEXPIREAT'', ''PERSIST'',
      ''SET'', ''SETNX'', ''SETEX'', ''PSETEX'', ''GETSET'', ''GETDEL'', ''GETEX'', ''INCR'',
      ''DECR'', ''INCRBY'', ''DECRBY'', ''INCRBYFLOAT'', ''APPEND'', ''SETRANGE'',
      ''LPUSH'', ''RPUSH'', ''LPUSHX'', ''RPUSHX'', ''LPOP'', ''RPOP'', ''LSET'', ''LINSERT'', ''LREM'', ''LTRIM'',
      ''HSET'', ''HMSET'', ''HSETNX'', ''HDEL'', ''HINCRBY'', ''HINCRBYFLOAT'', ''SADD'', ''SREM'', ''SPOP'',
      ''ZADD'', ''ZINCRBY'', ''ZREM'', ''ZREMRANGEBYSCORE'', ''ZREMRANGEBYRANK'', ''ZPOPMIN'', ''ZPOPMAX'']"
  by code_simp

lemma other_names:
  "list_all (\<lambda>(n, p). map_of WRITES n = Some p)
     [(''RENAME'', two_keys), (''RENAMENX'', two_keys), (''COPY'', two_keys), (''RPOPLPUSH'', two_keys),
      (''LMOVE'', two_keys), (''SMOVE'', two_keys), (''DEL'', all_keys), (''UNLINK'', all_keys),
      (''SINTERSTORE'', all_keys), (''SUNIONSTORE'', all_keys), (''SDIFFSTORE'', all_keys),
      (''FLUSHDB'', Everything), (''FLUSHALL'', Everything), (''MSET'', Range 1 (-1) 2),
      (''MSETNX'', Range 1 (-1) 2)]"
  by code_simp

lemmas table_names = first_names [simplified] other_names [simplified]

lemma long_args: "\<not> errs x \<Longrightarrow> (length av \<le> n \<Longrightarrow> errs x) \<Longrightarrow> n < length av"
  by (rule ccontr) simp

lemma string_covered:
  assumes "\<not> errs (Done (string_cmd E cfg name av st))"
  shows "string_keys name av \<subseteq> written_set name av"
proof -
  have l: "1 < length av" by (rule long_args [OF assms string_short])
  have "(string_keys name av = {}) \<or>
     (name \<in> {''MSET'', ''MSETNX''} \<and> string_keys name av = fst ` set (chunks2 (drop 1 av))) \<or>
     (map_of WRITES name = Some first_key \<and> string_keys name av = {av ! 1})"
    unfolding string_keys_def by (simp add: table_names split: if_split del: One_nat_def; blast?)
  then consider "string_keys name av = {}"
    | "name \<in> {''MSET'', ''MSETNX''}" "string_keys name av = fst ` set (chunks2 (drop 1 av))"
    | "map_of WRITES name = Some first_key" "string_keys name av = {av ! 1}"
    by blast
  then show ?thesis
  proof cases
    case 2
    have "even (length (drop 1 av))" using mset_odd [OF _ 2(1)] assms by blast
    moreover have "map_of WRITES name = Some (Range 1 (-1) 2)" using 2(1) table_names by auto
    ultimately show ?thesis using covered_mset 2(2) by metis
  next
    case 3
    then show ?thesis using covered_first l by simp
  qed simp
qed

lemma list_covered:
  assumes "\<not> errs (list_cmd E name av st)"
  shows "list_keys name av \<subseteq> written_set name av"
proof -
  have l: "1 < length av" by (rule long_args [OF assms list_short])
  have "(list_keys name av = {}) \<or>
     (name \<in> {''RPOPLPUSH'', ''LMOVE''} \<and> list_keys name av = {av ! 1, av ! 2}) \<or>
     (map_of WRITES name = Some first_key \<and> list_keys name av = {av ! 1})"
    unfolding list_keys_def by (simp add: table_names split: if_split del: One_nat_def; blast?)
  then consider "list_keys name av = {}"
    | "name \<in> {''RPOPLPUSH'', ''LMOVE''}" "list_keys name av = {av ! 1, av ! 2}"
    | "map_of WRITES name = Some first_key" "list_keys name av = {av ! 1}"
    by blast
  then show ?thesis
  proof cases
    case 2
    have "2 < length av" by (rule long_args [OF assms lmove_short [OF _ 2(1)]])
    moreover have "map_of WRITES name = Some two_keys" using 2(1) table_names by auto
    ultimately show ?thesis using covered_two 2(2) by metis
  next
    case 3
    then show ?thesis using covered_first l by simp
  qed simp
qed

lemma hash_covered:
  assumes "\<not> errs (hash_cmd E name av st)"
  shows "hash_keys name av \<subseteq> written_set name av"
proof -
  have l: "1 < length av" by (rule long_args [OF assms hash_short])
  have "(hash_keys name av = {}) \<or>
     (map_of WRITES name = Some first_key \<and> hash_keys name av = {av ! 1})"
    unfolding hash_keys_def by (simp add: table_names split: if_split del: One_nat_def; blast?)
  then consider "hash_keys name av = {}"
    | "map_of WRITES name = Some first_key" "hash_keys name av = {av ! 1}"
    by blast
  then show ?thesis using covered_first l by cases simp_all
qed

lemma zset_covered:
  assumes "\<not> errs (zset_cmd E cfg name av st)"
  shows "zset_keys name av \<subseteq> written_set name av"
proof -
  have l: "1 < length av" by (rule long_args [OF assms zset_short])
  have "(zset_keys name av = {}) \<or>
     (map_of WRITES name = Some first_key \<and> zset_keys name av = {av ! 1})"
    unfolding zset_keys_def by (simp add: table_names split: if_split del: One_nat_def; blast?)
  then consider "zset_keys name av = {}"
    | "map_of WRITES name = Some first_key" "zset_keys name av = {av ! 1}"
    by blast
  then show ?thesis using covered_first l by cases simp_all
qed

lemma head_arg: "1 < length av \<Longrightarrow> av ! 1 \<in> set (drop 1 av)"
  by (cases av; cases "tl av") auto

lemma set_covered:
  assumes "\<not> errs (set_cmd E name av st)"
  shows "set_keys name av \<subseteq> written_set name av"
proof -
  have l: "1 < length av" by (rule long_args [OF assms set_short])
  have "(set_keys name av = {}) \<or>
     (name = ''SMOVE'' \<and> set_keys name av = {av ! 1, av ! 2}) \<or>
     (map_of WRITES name = Some all_keys \<and> set_keys name av = {av ! 1}) \<or>
     (map_of WRITES name = Some first_key \<and> set_keys name av = {av ! 1})"
    unfolding set_keys_def by (simp add: table_names split: if_split del: One_nat_def; blast?)
  then consider "set_keys name av = {}"
    | "name = ''SMOVE''" "set_keys name av = {av ! 1, av ! 2}"
    | "map_of WRITES name = Some all_keys" "set_keys name av = {av ! 1}"
    | "map_of WRITES name = Some first_key" "set_keys name av = {av ! 1}"
    by blast
  then show ?thesis
  proof cases
    case 2
    have "2 < length av" by (rule long_args [OF assms]) (simp add: 2(1) smove_short)
    then show ?thesis using covered_two [of name av] 2 table_names by metis
  next
    case 3
    then show ?thesis using covered_all [of name av] head_arg [OF l] by auto
  next
    case 4
    then show ?thesis using covered_first l by simp
  qed simp
qed

lemma generic_keys_cases:
  "name \<in> {''DEL'', ''UNLINK''} \<Longrightarrow> generic_keys name av = set (drop 1 av)"
  "name \<in> {''EXPIRE'', ''PEXPIRE'', ''EXPIREAT'', ''PEXPIREAT'', ''PERSIST''} \<Longrightarrow> generic_keys name av = {av ! 1}"
  "name \<in> {''RENAME'', ''RENAMENX''} \<Longrightarrow> generic_keys name av = {av ! 1, av ! 2}"
  "name = ''COPY'' \<Longrightarrow> generic_keys name av = {av ! 2}"
  by (elim insertE emptyE; simp only:; simp add: generic_keys_def;fail)+
    (simp only: generic_keys_def; simp)

lemma generic_keys_none:
  "name \<notin> {''DEL'', ''UNLINK''} \<Longrightarrow>
   name \<notin> {''EXPIRE'', ''PEXPIRE'', ''EXPIREAT'', ''PEXPIREAT'', ''PERSIST''} \<Longrightarrow>
   name \<notin> {''RENAME'', ''RENAMENX''} \<Longrightarrow> name \<noteq> ''COPY'' \<Longrightarrow> name \<notin> {''FLUSHDB'', ''FLUSHALL''} \<Longrightarrow>
   generic_keys name av = {}"
  by (simp only: generic_keys_def if_False)

lemma generic_covered:
  assumes "\<not> errs (generic_cmd E cfg name av st)"
  shows "generic_keys name av \<subseteq> written_set name av"
proof -
  consider "name \<in> {''DEL'', ''UNLINK''}"
    | "name \<in> {''EXPIRE'', ''PEXPIRE'', ''EXPIREAT'', ''PEXPIREAT'', ''PERSIST''}"
    | "name \<in> {''RENAME'', ''RENAMENX''}" | "name = ''COPY''" | "name \<in> {''FLUSHDB'', ''FLUSHALL''}"
    | "generic_keys name av = {}"
    using generic_keys_none [of name av] by argo
  then show ?thesis
  proof cases
    case 1
    moreover have "map_of WRITES name = Some all_keys" using 1 table_names by auto
    ultimately show ?thesis using covered_all [of name av] generic_keys_cases(1) by metis
  next
    case 2
    have "1 < length av" by (rule long_args [OF assms generic_short [OF _ 2]])
    moreover have "map_of WRITES name = Some first_key" using 2 table_names by auto
    ultimately show ?thesis using covered_first generic_keys_cases(2) [OF 2] by metis
  next
    case 3
    have "2 < length av" by (rule long_args [OF assms rename_short]) (use 3 in auto)
    moreover have "map_of WRITES name = Some two_keys" using 3 table_names by auto
    ultimately show ?thesis using covered_two [of name av] generic_keys_cases(3) [OF 3] by metis
  next
    case 4
    have "2 < length av" by (rule long_args [OF assms rename_short]) (use 4 in auto)
    then show ?thesis
      using covered_two [of name av] generic_keys_cases(4) [OF 4] table_names 4 by auto
  next
    case 5
    then have "map_of WRITES name = Some Everything" using table_names by auto
    then show ?thesis using covered_every [of name av] by blast
  qed simp
qed

lemma data_covered:
  "\<not> errs (data_cmd E cfg fam name av st) \<Longrightarrow> data_keys fam name av \<subseteq> written_set name av"
  using generic_covered [of E cfg name av st] string_covered [of E cfg name av st]
    list_covered [of E name av st] hash_covered [of E name av st] set_covered [of E name av st]
    zset_covered [of E cfg name av st]
  by (cases fam; simp only: data_cmd_def data_keys_def family.case empty_subsetI not_False_eq_True)

subsection \<open>Properties\<close>


lemma sample_store_ok: "store_ok sample_store"
proof (rule tidy_store_ok [of sample_env])
  have e: "tidy sample_env (empty_store sample_env)"
    by (simp add: tidy_def empty_store_wf) (simp add: contents_def empty_store_def)
  show "vals_ok (live sample_env sample_store)"
    unfolding live_sample_store by simp
  show "tidy sample_env sample_store"
    unfolding sample_store_def using e
    by (intro put_value_tidy set_string_tidy set_expire_at_tidy)
      (simp_all add: set_string_spec set_expire_at_spec empty_store_wf live_empty_store)
qed


lemma sample_push_refused:
  "\<exists>st'. data_cmd sample_env default_config FList ''LPUSH'' [''LPUSH'', ''a'', ''x''] sample_store = Done (st', wrongtype)"
  using peek_type_view [OF store_okD(1) [OF sample_store_ok], of sample_env "''a''"]
  by (simp add: data_cmd_def list_cmd_def cmd_push_def min_args_def check_type_def case_prod_beta Let_def live_sample_store)

text \<open>
  C11. Commands are atomic with respect to errors: a data command other than ZINCRBY that answers
  with an error leaves every live key's value and deadline as it was, wherever in its arguments
  or its work the error arose.
\<close>
theorem error_changes_nothing:
  assumes "store_ok st" and "scan_default_count cfg < 2 ^ 63" and "name \<noteq> ''ZINCRBY''"
    and "data_cmd E cfg fam name av st = Done (st', r)" and "is_error r"
  shows "live E st' = live E st"
  using data_sounds [OF assms(2,3), of E fam av st] assms(1,4,5)
  by (simp add: sounds_def wpo_def wp_def effect_on_def)

lemma error_changes_nothing_witness:
  "\<exists>st' r. data_cmd sample_env default_config FList ''LPUSH'' [''LPUSH'', ''a'', ''x''] sample_store = Done (st', r) \<and>
     is_error r \<and> live sample_env st' = live sample_env sample_store"
proof -
  obtain st' where x: "data_cmd sample_env default_config FList ''LPUSH'' [''LPUSH'', ''a'', ''x''] sample_store = Done (st', wrongtype)"
    using sample_push_refused by blast
  have "is_error wrongtype" by simp
  with error_changes_nothing [OF sample_store_ok _ _ x this] x show ?thesis by (simp add: default_config_def)
qed

text \<open>
  C4. The data commands keep the keyspace well formed: the indexes stay consistent, and no
  empty collection, duplicate member or unsorted sorted set is ever stored, whichever command
  runs with whatever arguments.
\<close>
theorem store_type_invariant:
  assumes "store_ok st" and "scan_default_count cfg < 2 ^ 63"
  shows "\<exists>st' r. data_cmd E cfg fam name av st = Done (st', r) \<and> store_ok st'"
  by (rule framed_store_ok [OF data_framed [OF assms(2)] assms(1)])

lemma store_type_invariant_witness:
  "\<exists>st' r. data_cmd sample_env default_config FList ''RPOP'' [''RPOP'', ''l'', ''2''] sample_store = Done (st', r) \<and>
     store_ok st'"
  by (rule store_type_invariant [OF sample_store_ok]) (simp add: default_config_def)

text \<open>
  Every command refused for want of memory is a write, and no command whose lookups count
  towards the hit ratio is one.
\<close>
theorem tables_consistent:
  "(denies_oom name \<longrightarrow> written_keys name av \<noteq> None) \<and>
   (name \<in> set READ_COMMANDS \<longrightarrow> written_keys name av = None)"
proof -
  have "list_all (\<lambda>n. map_of WRITES n \<noteq> None) DENY_OOM" "list_all (\<lambda>n. map_of WRITES n = None) READ_COMMANDS"
    by code_simp+
  then show ?thesis
    by (simp add: denies_oom_def written_keys_def list_all_iff)
qed

lemma tables_consistent_witness:
  "written_keys ''ZADD'' [''ZADD'', ''z'', ''1'', ''m''] \<noteq> None \<and> written_keys ''ZSCORE'' [''ZSCORE'', ''z'', ''m''] = None"
proof -
  have "denies_oom ''ZADD''" "''ZSCORE'' \<in> set READ_COMMANDS" by code_simp+
  with tables_consistent [of "''ZADD''" "[''ZADD'', ''z'', ''1'', ''m'']"]
    tables_consistent [of "''ZSCORE''" "[''ZSCORE'', ''z'', ''m'']"]
  show ?thesis by blast
qed

end
