(* ===== verification/Watch.thy ===== *)
theory Watch
  imports Bytes
begin

text \<open>
  \<^verbatim>\<open>src/watch.rs\<close>: the registry of watched keys. A key has an entry exactly while some connection
  watches it; a write moves the version on. The lemmas run the registry through any interleaving
  of connections and writes and show what EXEC's comparison of versions means.
\<close>

record watched_key =
  version :: "64 word"
  watchers :: nat

type_synonym watch = "(bytes, watched_key) hmap"

definition watch_key :: "bytes \<Rightarrow> watch \<Rightarrow> watch \<times> 64 word" where
  "watch_key k w =
     (let e = (case hm_get w k of Some e \<Rightarrow> e | None \<Rightarrow> \<lparr>version = 0, watchers = 0\<rparr>);
          e = e\<lparr>watchers := watchers e + 1\<rparr>
      in (hm_insert k e w, version e))"

definition unwatch_key :: "bytes \<Rightarrow> watch \<Rightarrow> watch" where
  "unwatch_key k w =
     (case hm_get w k of
        None \<Rightarrow> w
      | Some e \<Rightarrow>
          (let e = e\<lparr>watchers := watchers e - 1\<rparr>
           in if watchers e = 0 then hm_remove k w else hm_insert k e w))"

definition watch_version :: "watch \<Rightarrow> bytes \<Rightarrow> 64 word option" where
  "watch_version w k = map_option version (hm_get w k)"

definition touch_key :: "bytes \<Rightarrow> watch \<Rightarrow> watch" where
  "touch_key k w =
     (case hm_get w k of None \<Rightarrow> w | Some e \<Rightarrow> hm_insert k (e\<lparr>version := version e + 1\<rparr>) w)"

definition touch_all :: "watch \<Rightarrow> watch" where
  "touch_all w = map (\<lambda>(k, e). (k, e\<lparr>version := version e + 1\<rparr>)) w"

definition tracked :: "watch \<Rightarrow> nat" where
  "tracked w = length w"

subsection \<open>The registry as a state machine\<close>

text \<open>Who watches what, beside the registry: a connection joins a key once and leaves what it
  holds, and writes come from anywhere.\<close>

datatype watch_event = Join nat bytes | Leave nat bytes | Touched bytes | TouchedAll

type_synonym watch_state = "watch \<times> (nat \<times> bytes) set"

inductive watch_step :: "watch_state \<Rightarrow> watch_event \<Rightarrow> watch_state \<Rightarrow> bool" where
  join: "(c, k) \<notin> H \<Longrightarrow> watch_step (w, H) (Join c k) (fst (watch_key k w), insert (c, k) H)"
| leave: "(c, k) \<in> H \<Longrightarrow> watch_step (w, H) (Leave c k) (unwatch_key k w, H - {(c, k)})"
| touched: "watch_step (w, H) (Touched k) (touch_key k w, H)"
| touched_all: "watch_step (w, H) TouchedAll (touch_all w, H)"

inductive_cases watch_stepE: "watch_step s e s'"

inductive watch_run :: "watch_state \<Rightarrow> watch_event list \<Rightarrow> watch_state \<Rightarrow> bool" where
  stop: "watch_run s [] s"
| go: "watch_step s e t \<Longrightarrow> watch_run t es u \<Longrightarrow> watch_run s (e # es) u"

inductive_simps watch_run_simps [simp]: "watch_run s [] t" "watch_run s (e # es) t"

definition watch_inv :: "watch_state \<Rightarrow> bool" where
  "watch_inv s \<longleftrightarrow> finite (snd s) \<and>
     (\<forall>k. case hm_get (fst s) k of
            None \<Rightarrow> {c. (c, k) \<in> snd s} = {}
          | Some e \<Rightarrow> watchers e = card {c. (c, k) \<in> snd s} \<and> 0 < watchers e)"

lemma watch_inv_empty: "watch_inv ([], {})"
  by (simp add: watch_inv_def)

lemma get_touch_all: "hm_get (touch_all w) k = map_option (\<lambda>e. e\<lparr>version := version e + 1\<rparr>) (hm_get w k)"
  by (induction w) (auto simp: touch_all_def)

lemma holders_finite: "finite H \<Longrightarrow> finite {c. (c, k) \<in> H}"
  by (rule finite_subset [of _ "fst ` H"]) force+

lemma watch_invI:
  assumes "finite H" and "\<And>k. hm_get w k = None \<Longrightarrow> {c. (c, k) \<in> H} = {}"
    and "\<And>k e. hm_get w k = Some e \<Longrightarrow> watchers e = card {c. (c, k) \<in> H} \<and> 0 < watchers e"
  shows "watch_inv (w, H)"
proof -
  have "case hm_get w k of None \<Rightarrow> {c. (c, k) \<in> H} = {}
      | Some e \<Rightarrow> watchers e = card {c. (c, k) \<in> H} \<and> 0 < watchers e" for k
    using assms(2,3) [of k] by (cases "hm_get w k") simp_all
  with assms(1) show ?thesis unfolding watch_inv_def fst_conv snd_conv by blast
qed

lemma watch_inv_get:
  assumes "watch_inv (w, H)"
  shows "hm_get w k = None \<Longrightarrow> (c, k) \<notin> H"
    and "hm_get w k = Some e \<Longrightarrow> watchers e = card {c. (c, k) \<in> H} \<and> 0 < watchers e"
  using assms unfolding watch_inv_def by (auto dest!: spec [of _ k])

lemma watch_inv_at:
  assumes "watch_inv (w, H)"
  shows "(hm_get w k = None \<longleftrightarrow> {c. (c, k) \<in> H} = {}) \<and>
    (\<forall>e. hm_get w k = Some e \<longrightarrow> watchers e = card {c. (c, k) \<in> H})"
proof (cases "hm_get w k")
  case None
  then show ?thesis using watch_inv_get(1) [OF assms] by simp
next
  case (Some e)
  then have "{c. (c, k) \<in> H} \<noteq> {}" using watch_inv_get(2) [OF assms Some] by force
  then show ?thesis using watch_inv_get(2) [OF assms Some] Some by simp
qed

lemma watch_step_inv:
  assumes "watch_step s e t" and "watch_inv s"
  shows "watch_inv t"
  using assms
proof (induction rule: watch_step.induct)
  case (join c k H w)
  note get = watch_inv_get [OF join.prems]
  have fin: "finite H" using join.prems by (simp add: watch_inv_def)
  have same: "{c'. (c', k') \<in> insert (c, k) H} = {c'. (c', k') \<in> H}" if "k' \<noteq> k" for k'
    using that by auto
  have new: "card {c'. (c', k) \<in> insert (c, k) H} = Suc (card {c'. (c', k) \<in> H})"
  proof -
    have "{c'. (c', k) \<in> insert (c, k) H} = insert c {c'. (c', k) \<in> H}" by auto
    with join.hyps holders_finite [OF fin] show ?thesis by simp
  qed
  show ?case
  proof (rule watch_invI)
    fix k' assume "hm_get (fst (watch_key k w)) k' = None"
    then show "{c'. (c', k') \<in> insert (c, k) H} = {}"
      using same get(1) by (auto simp: watch_key_def Let_def hm_get_insert split: if_splits)
  next
    fix k' e assume e: "hm_get (fst (watch_key k w)) k' = Some e"
    show "watchers e = card {c'. (c', k') \<in> insert (c, k) H} \<and> 0 < watchers e"
    proof (cases "k' = k")
      case True
      have "hm_get w k = None \<Longrightarrow> {c'. (c', k) \<in> H} = {}" using get(1) by blast
      with True e new get(2) [of k] show ?thesis
        by (auto simp: watch_key_def Let_def hm_get_insert split: option.splits)
    next
      case False
      with e get(2) [of k' e] same show ?thesis by (simp add: watch_key_def Let_def hm_get_insert)
    qed
  qed (simp add: fin)
next
  case (leave c k H w)
  note get = watch_inv_get [OF leave.prems]
  have fin: "finite H" using leave.prems by (simp add: watch_inv_def)
  have same: "{c'. (c', k') \<in> H - {(c, k)}} = {c'. (c', k') \<in> H}" if "k' \<noteq> k" for k'
    using that by auto
  have less: "card {c'. (c', k) \<in> H - {(c, k)}} = card {c'. (c', k) \<in> H} - 1"
  proof -
    have "{c'. (c', k) \<in> H - {(c, k)}} = {c'. (c', k) \<in> H} - {c}" by auto
    with leave.hyps holders_finite [OF fin] show ?thesis by simp
  qed
  obtain e where e: "hm_get w k = Some e" using get(1) leave.hyps by (cases "hm_get w k") auto
  note n = get(2) [OF e]
  show ?case
  proof (rule watch_invI)
    fix k' assume none: "hm_get (unwatch_key k w) k' = None"
    show "{c'. (c', k') \<in> H - {(c, k)}} = {}"
    proof (cases "k' = k")
      case True
      with none e n have "card {c'. (c', k) \<in> H} = 1"
        by (auto simp: unwatch_key_def Let_def hm_get_insert split: if_splits)
      with less holders_finite [of "H - {(c, k)}" k] fin True show ?thesis by simp
    next
      case False
      with none e have "hm_get w k' = None"
        by (auto simp: unwatch_key_def Let_def hm_get_insert hm_get_remove split: if_splits)
      with get(1) show ?thesis by blast
    qed
  next
    fix k' e' assume some: "hm_get (unwatch_key k w) k' = Some e'"
    show "watchers e' = card {c'. (c', k') \<in> H - {(c, k)}} \<and> 0 < watchers e'"
    proof (cases "k' = k")
      case True
      with some e n less show ?thesis
        by (auto simp: unwatch_key_def Let_def hm_get_insert hm_get_remove split: if_splits)
    next
      case False
      with some e have "hm_get w k' = Some e'"
        by (auto simp: unwatch_key_def Let_def hm_get_insert hm_get_remove split: if_splits)
      then show ?thesis unfolding same [OF False] by (rule get(2))
    qed
  qed (simp add: fin)
next
  case (touched w H k)
  note get = watch_inv_get [OF touched.prems]
  show ?case
  proof (cases "hm_get w k")
    case None
    then show ?thesis using touched.prems by (simp add: touch_key_def)
  next
    case (Some e)
    then have t: "hm_get (touch_key k w) k' =
        (if k' = k then Some (e\<lparr>version := version e + 1\<rparr>) else hm_get w k')" for k'
      by (simp add: touch_key_def hm_get_insert)
    show ?thesis
    proof (rule watch_invI)
      show "finite H" using touched.prems by (simp add: watch_inv_def)
      show "{c. (c, k') \<in> H} = {}" if "hm_get (touch_key k w) k' = None" for k'
        using that get(1) [of k'] by (simp add: t split: if_splits)
      show "watchers e' = card {c. (c, k') \<in> H} \<and> 0 < watchers e'"
        if "hm_get (touch_key k w) k' = Some e'" for k' e'
        using that get(2) [of k'] Some by (auto simp: t split: if_splits)
    qed
  qed
next
  case (touched_all w H)
  note get = watch_inv_get [OF touched_all.prems]
  show ?case
  proof (rule watch_invI)
    show "finite H" using touched_all.prems by (simp add: watch_inv_def)
    show "{c. (c, k) \<in> H} = {}" if "hm_get (touch_all w) k = None" for k
      using that get(1) [of k] by (simp add: get_touch_all)
    show "watchers e = card {c. (c, k) \<in> H} \<and> 0 < watchers e" if "hm_get (touch_all w) k = Some e" for k e
      using that get(2) [of k] by (cases "hm_get w k") (auto simp: get_touch_all)
  qed
qed

lemma watch_run_inv: "watch_run s es t \<Longrightarrow> watch_inv s \<Longrightarrow> watch_inv t"
  by (induction rule: watch_run.induct) (auto intro: watch_step_inv)

subsection \<open>What a version tells\<close>

definition touches :: "bytes \<Rightarrow> watch_event list \<Rightarrow> nat" where
  "touches k es = length (filter (\<lambda>e. e = Touched k \<or> e = TouchedAll) es)"

lemma touches_simps [simp]:
  "touches k [] = 0"
  "touches k (e # es) = (if e = Touched k \<or> e = TouchedAll then Suc (touches k es) else touches k es)"
  by (simp_all add: touches_def)

lemma watch_step_version:
  assumes "watch_step s e t" and "watch_inv s" and "(c, k) \<in> snd s" and "e \<noteq> Leave c k"
    and "watch_version (fst s) k = Some v"
  shows "(c, k) \<in> snd t \<and> watch_version (fst t) k = Some (v + of_nat (touches k [e]))"
  using assms
proof (induction rule: watch_step.induct)
  case (leave c' k' H w)
  show ?case
  proof (cases "k' = k")
    case True
    obtain e where e: "hm_get w k = Some e" "version e = v"
      using leave.prems by (auto simp: watch_version_def)
    have "c' \<noteq> c" using leave.prems True by auto
    then have "card {c', c} \<le> card {c. (c, k) \<in> H}"
      using leave True holders_finite [of H k] by (intro card_mono) (auto simp: watch_inv_def)
    then have "2 \<le> watchers e"
      using watch_inv_get(2) [OF leave.prems(1) e(1)] \<open>c' \<noteq> c\<close> by simp
    with leave True e show ?thesis
      by (auto simp: watch_version_def unwatch_key_def Let_def hm_get_insert)
  next
    case False
    with leave show ?thesis
      by (auto simp: watch_version_def unwatch_key_def Let_def hm_get_insert hm_get_remove split: option.split)
  qed
next
  case (join c' k' H w)
  then show ?case
    by (auto simp: watch_version_def watch_key_def Let_def hm_get_insert split: option.splits)
next
  case (touched w H k')
  then show ?case
    by (auto simp: watch_version_def touch_key_def hm_get_insert split: option.split)
next
  case (touched_all w H)
  then show ?case by (auto simp: watch_version_def get_touch_all)
qed

lemma watch_run_version:
  assumes "watch_run s es t" and "watch_inv s" and "(c, k) \<in> snd s" and "Leave c k \<notin> set es"
    and "watch_version (fst s) k = Some v"
  shows "watch_version (fst t) k = Some (v + of_nat (touches k es))"
  using assms
proof (induction arbitrary: v rule: watch_run.induct)
  case (go s e t es u)
  then have "(c, k) \<in> snd t \<and> watch_version (fst t) k = Some (v + of_nat (touches k [e]))"
    by (intro watch_step_version) auto
  with go show ?case by (auto simp: watch_step_inv algebra_simps)
qed simp

lemma held_version:
  "watch_inv s \<Longrightarrow> (c, k) \<in> snd s \<Longrightarrow> \<exists>v. watch_version (fst s) k = Some v"
  using watch_inv_get(1) [of "fst s" "snd s" k c] by (cases "hm_get (fst s) k") (auto simp: watch_version_def)

subsection \<open>Properties\<close>

text \<open>
  C12. EXEC's check is exact. While a connection holds a watch on a key, whatever other
  connections join, leave or write in between, the registry reports the version the
  connection read at WATCH time exactly when nothing has touched the key since (counters
  being 64 bits wide, for fewer than \<open>2^64\<close> touches).
\<close>
theorem watch_detects_writes:
  assumes "watch_run s es t" and "watch_inv s" and "(c, k) \<in> snd s" and "Leave c k \<notin> set es"
    and "watch_version (fst s) k = Some v" and "touches k es < 2 ^ 64"
  shows "watch_version (fst t) k = Some v \<longleftrightarrow> touches k es = 0"
proof -
  have "(of_nat (touches k es) :: 64 word) = 0 \<longleftrightarrow> touches k es = 0"
    using assms(6) by (auto simp: word_of_nat_eq_0_iff dest: dvd_imp_le)
  then show ?thesis using watch_run_version [OF assms(1-5)] by simp
qed

lemma watch_detects_writes_witness:
  "watch_version (touch_key ''k'' (fst (watch_key ''k'' []))) ''k'' = Some 0 \<longleftrightarrow> touches ''k'' [Touched ''k''] = 0"
proof -
  have s: "watch_step ([], {}) (Join 1 ''k'') (fst (watch_key ''k'' []), {(1, ''k'')})"
    using watch_step.join [of 1 "''k''" "{}" "[]"] by simp
  show ?thesis
    using watch_detects_writes [of "(fst (watch_key ''k'' []), {(1, ''k'')})" "[Touched ''k'']"
        "(touch_key ''k'' (fst (watch_key ''k'' [])), {(1, ''k'')})" 1 "''k''" 0]
      watch_step_inv [OF s watch_inv_empty] watch_step.touched
    by (auto simp: watch_version_def watch_key_def Let_def)
qed

text \<open>
  C31. The registry tracks a key exactly while some connection watches it, with the number of
  its watchers, after any history: it grows with no write and forgets a key when its last
  watcher leaves.
\<close>
theorem watch_registry_exact:
  assumes "watch_run ([], {}) es (w, H)"
  shows "(watch_version w k \<noteq> None \<longleftrightarrow> (\<exists>c. (c, k) \<in> H)) \<and>
    (\<forall>e. hm_get w k = Some e \<longrightarrow> watchers e = card {c. (c, k) \<in> H})"
  using watch_inv_at [OF watch_run_inv [OF assms watch_inv_empty], of k] by (auto simp: watch_version_def)

lemma watch_registry_exact_witness:
  "map_option watchers (hm_get (fst (watch_key ''k'' [])) ''k'') = Some (card {c. (c, ''k'') \<in> {(1 :: nat, ''k'')}})"
proof -
  have "watch_run ([], {}) [Join 1 ''k''] (fst (watch_key ''k'' []), {(1, ''k'')})"
    using watch_step.join [of 1 "''k''" "{}" "[]"] by simp
  from watch_registry_exact [OF this, of "''k''"] show ?thesis
    by (cases "hm_get (fst (watch_key ''k'' [])) ''k''") (auto simp: watch_version_def)
qed

end
