(* ===== verification/PubSub.thy ===== *)
theory PubSub
  imports Resp Glob
begin

text \<open>
  \<^verbatim>\<open>src/pubsub.rs\<close>: who is subscribed to which channels and patterns, and what a published message
  turns into. Both tables keep the same contract, stated as the locale \<open>registry\<close> and used through its
  interpretation.
\<close>

subsection \<open>The contract of a table\<close>

text \<open>A table of subscriptions stands for a relation between names and connections.\<close>

locale registry =
  fixes wf :: "'t \<Rightarrow> bool" and rel :: "'t \<Rightarrow> ('n \<times> 'i) set" and empty :: 't
    and add :: "'n \<Rightarrow> 'i \<Rightarrow> 't \<Rightarrow> 't" and remove :: "'n \<Rightarrow> 'i \<Rightarrow> 't \<Rightarrow> 't" and drop_all :: "'i \<Rightarrow> 't \<Rightarrow> 't"
  assumes wf_empty: "wf empty" and rel_empty: "rel empty = {}"
    and wf_add: "wf t \<Longrightarrow> wf (add n i t)" and rel_add: "wf t \<Longrightarrow> rel (add n i t) = insert (n, i) (rel t)"
    and wf_remove: "wf t \<Longrightarrow> wf (remove n i t)" and rel_remove: "wf t \<Longrightarrow> rel (remove n i t) = rel t - {(n, i)}"
    and wf_drop: "wf t \<Longrightarrow> wf (drop_all i t)" and rel_drop: "wf t \<Longrightarrow> rel (drop_all i t) = rel t - UNIV \<times> {i}"
begin

definition held :: "'i \<Rightarrow> 't \<Rightarrow> 'n set" where
  "held i t = {n. (n, i) \<in> rel t}"

lemma held_add: "wf t \<Longrightarrow> held j (add n i t) = (if j = i then insert n (held j t) else held j t)"
  by (auto simp: held_def rel_add)

lemma held_remove: "wf t \<Longrightarrow> held j (remove n i t) = (if j = i then held j t - {n} else held j t)"
  by (auto simp: held_def rel_remove)

lemma held_drop: "wf t \<Longrightarrow> held j (drop_all i t) = (if j = i then {} else held j t)"
  by (auto simp: held_def rel_drop)

lemma held_empty: "held i empty = {}"
  by (simp add: held_def rel_empty)

lemma remove_list:
  "wf t \<Longrightarrow> wf (fold (\<lambda>n. remove n i) ns t) \<and>
     held j (fold (\<lambda>n. remove n i) ns t) = (if j = i then held j t - set ns else held j t)"
proof (induction ns arbitrary: t)
  case (Cons n ns)
  from Cons.IH [OF wf_remove [OF Cons.prems, of n i]] show ?case
    by (auto simp: held_remove [OF Cons.prems])
qed simp

text \<open>Giving up every name one holds is leaving.\<close>

lemma remove_held:
  "wf t \<Longrightarrow> held i t \<subseteq> set ns \<Longrightarrow> held j (fold (\<lambda>n. remove n i) ns t) = held j (drop_all i t)"
  by (auto simp: remove_list held_drop)

end

subsection \<open>The tables\<close>

type_synonym subs = "(bytes, nat list) hmap"

record pubsub =
  chans :: subs
  pats :: subs

definition table_add :: "bytes \<Rightarrow> nat \<Rightarrow> subs \<Rightarrow> subs" where
  "table_add n i t =
     hm_insert n (insort_insert i (case hm_get t n of None \<Rightarrow> [] | Some s \<Rightarrow> s)) t"

definition table_remove :: "bytes \<Rightarrow> nat \<Rightarrow> subs \<Rightarrow> subs" where
  "table_remove n i t =
     (case hm_get t n of
        None \<Rightarrow> t
      | Some s \<Rightarrow> (let s = remove1 i s in if s = [] then hm_remove n t else hm_insert n s t))"

definition table_drop :: "nat \<Rightarrow> subs \<Rightarrow> subs" where
  "table_drop i t = filter (\<lambda>(n, s). s \<noteq> []) (map (\<lambda>(n, s). (n, remove1 i s)) t)"

definition new_pubsub :: pubsub where
  "new_pubsub = \<lparr>chans = [], pats = []\<rparr>"

definition subscribe :: "bytes \<Rightarrow> nat \<Rightarrow> pubsub \<Rightarrow> pubsub" where
  "subscribe channel i p = p\<lparr>chans := table_add channel i (chans p)\<rparr>"

definition unsubscribe :: "bytes \<Rightarrow> nat \<Rightarrow> pubsub \<Rightarrow> pubsub" where
  "unsubscribe channel i p = p\<lparr>chans := table_remove channel i (chans p)\<rparr>"

definition psubscribe :: "bytes \<Rightarrow> nat \<Rightarrow> pubsub \<Rightarrow> pubsub" where
  "psubscribe pattern i p = p\<lparr>pats := table_add pattern i (pats p)\<rparr>"

definition punsubscribe :: "bytes \<Rightarrow> nat \<Rightarrow> pubsub \<Rightarrow> pubsub" where
  "punsubscribe pattern i p = p\<lparr>pats := table_remove pattern i (pats p)\<rparr>"

definition drop_client :: "nat \<Rightarrow> pubsub \<Rightarrow> pubsub" where
  "drop_client i p = p\<lparr>chans := table_drop i (chans p), pats := table_drop i (pats p)\<rparr>"

definition active_channels :: "bytes option \<Rightarrow> pubsub \<Rightarrow> bytes list" where
  "active_channels pattern p =
     sort (filter (\<lambda>n. case pattern of None \<Rightarrow> True | Some q \<Rightarrow> glob_match q n) (hm_keys (chans p)))"

definition subscriber_count :: "bytes \<Rightarrow> pubsub \<Rightarrow> nat" where
  "subscriber_count channel p = (case hm_get (chans p) channel of None \<Rightarrow> 0 | Some s \<Rightarrow> length s)"

definition pattern_count :: "pubsub \<Rightarrow> nat" where
  "pattern_count p = length (pats p)"

definition subscription_total :: "pubsub \<Rightarrow> nat" where
  "subscription_total p =
     sum_list (map (length \<circ> snd) (chans p)) + sum_list (map (length \<circ> snd) (pats p))"

definition message_frame :: "bytes \<Rightarrow> bytes \<Rightarrow> reply" where
  "message_frame channel payload = reply_push ''message'' [Bulk channel, Bulk payload]"

definition pmessage_frame :: "bytes \<Rightarrow> bytes \<Rightarrow> bytes \<Rightarrow> reply" where
  "pmessage_frame pattern channel payload =
     reply_push ''pmessage'' [Bulk pattern, Bulk channel, Bulk payload]"

definition publish :: "bytes \<Rightarrow> bytes \<Rightarrow> pubsub \<Rightarrow> (nat \<times> reply) list" where
  "publish channel payload p =
     (case hm_get (chans p) channel of
        None \<Rightarrow> [] | Some s \<Rightarrow> map (\<lambda>i. (i, message_frame channel payload)) s) @
     concat (map (\<lambda>(pattern, s).
       if glob_match pattern channel then map (\<lambda>i. (i, pmessage_frame pattern channel payload)) s
       else []) (pats p))"

subsection \<open>The tables keep the contract\<close>

definition subs_wf :: "subs \<Rightarrow> bool" where
  "subs_wf t \<longleftrightarrow> hm_wf t \<and> (\<forall>(n, s) \<in> set t. sorted s \<and> distinct s \<and> s \<noteq> [])"

definition subs_rel :: "subs \<Rightarrow> (bytes \<times> nat) set" where
  "subs_rel t = {(n, i). \<exists>s. hm_get t n = Some s \<and> i \<in> set s}"

lemma subs_wf_get: "subs_wf t \<Longrightarrow> hm_get t n = Some s \<Longrightarrow> sorted s \<and> distinct s \<and> s \<noteq> []"
  by (auto simp: subs_wf_def dest: map_of_SomeD)

lemma subs_wfI: "hm_wf t \<Longrightarrow> (\<And>n s. hm_get t n = Some s \<Longrightarrow> sorted s \<and> distinct s \<and> s \<noteq> []) \<Longrightarrow> subs_wf t"
  unfolding subs_wf_def using hm_get_mem [of t] by blast

lemma table_drop_get:
  assumes "hm_wf t"
  shows "hm_wf (table_drop i t)"
    and "hm_get (table_drop i t) n =
      (case hm_get t n of None \<Rightarrow> None | Some s \<Rightarrow> if remove1 i s = [] then None else Some (remove1 i s))"
proof -
  let ?m = "map (\<lambda>(n, s). (n, remove1 i s)) t"
  have k: "hm_keys ?m = hm_keys t" by (simp add: case_prod_beta)
  have w: "hm_wf ?m" using assms unfolding hm_wf_def k .
  show "hm_wf (table_drop i t)" using w unfolding table_drop_def by (rule hm_wf_filter)
  have "hm_get ?m n = map_option (remove1 i) (hm_get t n)"
    by (simp add: map_of_map)
  then show "hm_get (table_drop i t) n =
      (case hm_get t n of None \<Rightarrow> None | Some s \<Rightarrow> if remove1 i s = [] then None else Some (remove1 i s))"
    using hm_get_filter [OF w, of "\<lambda>n s. s \<noteq> []" n] by (cases "hm_get t n") (simp_all add: table_drop_def)
qed

lemma subs_wf_add:
  assumes "subs_wf t" shows "subs_wf (table_add n i t)"
  unfolding table_add_def
proof (rule subs_wfI)
  show "hm_wf (hm_insert n (insort_insert i (case hm_get t n of None \<Rightarrow> [] | Some s \<Rightarrow> s)) t)"
    using assms by (simp add: subs_wf_def)
next
  fix m s
  assume m: "hm_get (hm_insert n (insort_insert i (case hm_get t n of None \<Rightarrow> [] | Some s \<Rightarrow> s)) t) m = Some s"
  have "sorted s' \<and> distinct s'" if "s' = (case hm_get t n of None \<Rightarrow> [] | Some s \<Rightarrow> s)" for s'
    using that subs_wf_get [OF assms, of n] by (cases "hm_get t n") auto
  moreover have "insort_insert i s' \<noteq> []" for s' :: "nat list"
    using set_insort_insert [of i s'] by (metis empty_iff insertI1 list.set(1))
  ultimately show "sorted s \<and> distinct s \<and> s \<noteq> []"
    using m subs_wf_get [OF assms, of m]
    by (auto simp: hm_get_insert sorted_insort_insert distinct_insort_insert split: if_splits)
qed

lemma subs_wf_remove:
  assumes "subs_wf t" shows "subs_wf (table_remove n i t)"
proof (cases "hm_get t n")
  case None
  with assms show ?thesis by (simp add: table_remove_def)
next
  case (Some s)
  have w: "hm_wf t" using assms by (simp add: subs_wf_def)
  note s = subs_wf_get [OF assms Some]
  show ?thesis
    using w s subs_wf_get [OF assms] Some
    by (intro subs_wfI)
      (auto simp: table_remove_def Let_def hm_get_insert hm_get_remove sorted_remove1 split: if_splits)
qed

lemma subs_rel_add: "subs_rel (table_add n i t) = insert (n, i) (subs_rel t)"
proof -
  have "(m, j) \<in> subs_rel (table_add n i t) \<longleftrightarrow> (m, j) = (n, i) \<or> (m, j) \<in> subs_rel t" for m j
    by (cases "hm_get t n") (simp_all add: subs_rel_def table_add_def hm_get_insert set_insort_insert)
  then show ?thesis by auto
qed

lemma remove1_subs:
  assumes "subs_wf t" and "hm_get t n = Some s"
  shows "set (remove1 i s) = set s - {i}" and "remove1 i s = [] \<longleftrightarrow> set s - {i} = {}"
proof -
  show r: "set (remove1 i s) = set s - {i}" using subs_wf_get [OF assms] by simp
  show "remove1 i s = [] \<longleftrightarrow> set s - {i} = {}" unfolding r [symmetric] by simp
qed

lemma subs_rel_remove:
  assumes wf: "subs_wf t" shows "subs_rel (table_remove n i t) = subs_rel t - {(n, i)}"
proof (cases "hm_get t n")
  case None
  then show ?thesis by (auto simp: subs_rel_def table_remove_def)
next
  case (Some s)
  note r = remove1_subs [OF wf Some, of i]
  have "(m, j) \<in> subs_rel (table_remove n i t) \<longleftrightarrow> (m, j) \<in> subs_rel t - {(n, i)}" for m j
  proof (cases "remove1 i s = []")
    case True
    with r(2) Some show ?thesis
      by (simp add: subs_rel_def table_remove_def hm_get_remove) blast
  next
    case False
    with r(1) Some show ?thesis
      by (simp add: subs_rel_def table_remove_def Let_def hm_get_insert)
  qed
  then show ?thesis by auto
qed

lemma subs_wf_drop:
  assumes wf: "subs_wf t" shows "subs_wf (table_drop i t)"
proof (rule subs_wfI)
  have w: "hm_wf t" using wf by (simp add: subs_wf_def)
  then show "hm_wf (table_drop i t)" by (rule table_drop_get(1))
  fix n s assume "hm_get (table_drop i t) n = Some s"
  then obtain s' where "hm_get t n = Some s'" "s = remove1 i s'" "s \<noteq> []"
    by (auto simp: table_drop_get(2) [OF w] split: option.splits if_splits)
  with subs_wf_get [OF wf] show "sorted s \<and> distinct s \<and> s \<noteq> []"
    by (simp add: sorted_remove1)
qed

lemma subs_rel_drop:
  assumes wf: "subs_wf t" shows "subs_rel (table_drop i t) = subs_rel t - UNIV \<times> {i}"
proof -
  have w: "hm_wf t" using wf by (simp add: subs_wf_def)
  have "(m, j) \<in> subs_rel (table_drop i t) \<longleftrightarrow> (m, j) \<in> subs_rel t - UNIV \<times> {i}" for m j
  proof (cases "hm_get t m")
    case None
    then show ?thesis by (simp add: subs_rel_def table_drop_get(2) [OF w])
  next
    case (Some s)
    note r = remove1_subs [OF wf Some, of i]
    show ?thesis
    proof (cases "remove1 i s = []")
      case True
      with r(2) Some show ?thesis by (simp add: subs_rel_def table_drop_get(2) [OF w]) blast
    next
      case False
      with r(1) Some show ?thesis by (simp add: subs_rel_def table_drop_get(2) [OF w])
    qed
  qed
  then show ?thesis by auto
qed

interpretation subs: registry subs_wf subs_rel "[]" table_add table_remove table_drop
  by unfold_locales (simp_all add: subs_wf_add subs_rel_add subs_wf_remove subs_rel_remove subs_wf_drop
      subs_rel_drop, simp_all add: subs_wf_def subs_rel_def)

subsection \<open>Deliveries\<close>

definition pubsub_wf :: "pubsub \<Rightarrow> bool" where
  "pubsub_wf p \<longleftrightarrow> subs_wf (chans p) \<and> subs_wf (pats p)"

lemma pubsub_wf_ops [simp]:
  "pubsub_wf new_pubsub" "pubsub_wf p \<Longrightarrow> pubsub_wf (subscribe n i p)"
  "pubsub_wf p \<Longrightarrow> pubsub_wf (unsubscribe n i p)" "pubsub_wf p \<Longrightarrow> pubsub_wf (psubscribe n i p)"
  "pubsub_wf p \<Longrightarrow> pubsub_wf (punsubscribe n i p)" "pubsub_wf p \<Longrightarrow> pubsub_wf (drop_client i p)"
  by (simp_all add: pubsub_wf_def new_pubsub_def subscribe_def unsubscribe_def psubscribe_def
      punsubscribe_def drop_client_def subs.wf_empty subs.wf_add subs.wf_remove subs.wf_drop)

definition deliver_pattern :: "bytes \<Rightarrow> bytes \<Rightarrow> bytes \<times> nat list \<Rightarrow> (nat \<times> reply) list" where
  "deliver_pattern channel payload ps =
     (if glob_match (fst ps) channel
      then map (\<lambda>i. (i, pmessage_frame (fst ps) channel payload)) (snd ps) else [])"

lemma publish_alt:
  "publish channel payload p =
     map (\<lambda>i. (i, message_frame channel payload))
       (case hm_get (chans p) channel of None \<Rightarrow> [] | Some s \<Rightarrow> s) @
     concat (map (deliver_pattern channel payload) (pats p))"
proof -
  have "deliver_pattern channel payload = (\<lambda>(pattern, s).
      if glob_match pattern channel then map (\<lambda>i. (i, pmessage_frame pattern channel payload)) s else [])"
    by (rule ext) (simp add: deliver_pattern_def case_prod_beta)
  then show ?thesis by (cases "hm_get (chans p) channel") (simp_all add: publish_def)
qed

lemma frames_differ:
  "message_frame c m \<noteq> pmessage_frame q c m" "pmessage_frame q c m = pmessage_frame q' c m \<longleftrightarrow> q = q'"
  by (simp_all add: message_frame_def pmessage_frame_def reply_push_def)

lemma distinct_deliver_patterns:
  assumes "distinct (map fst t)" and "\<forall>(n, s) \<in> set t. distinct s"
  shows "distinct (concat (map (deliver_pattern channel payload) t)) \<and>
    set (concat (map (deliver_pattern channel payload) t)) =
      {(i, pmessage_frame q channel payload) | q i s. (q, s) \<in> set t \<and> i \<in> set s \<and> glob_match q channel}"
  using assms
proof (induction t)
  case (Cons x t)
  obtain n s where x: "x = (n, s)" by (cases x)
  have "distinct (deliver_pattern channel payload x)"
    using Cons.prems by (simp add: x deliver_pattern_def distinct_map inj_on_def)
  moreover have "set (deliver_pattern channel payload x) \<inter>
      set (concat (map (deliver_pattern channel payload) t)) = {}"
    using Cons.prems(1) by (auto simp: x deliver_pattern_def frames_differ image_iff split: if_splits)
  moreover have "set (deliver_pattern channel payload x) =
      {(i, pmessage_frame n channel payload) | i. i \<in> set s \<and> glob_match n channel}"
    by (auto simp: x deliver_pattern_def)
  ultimately show ?case using Cons by (auto simp: x)
qed simp

lemma subs_rel_mem:
  "subs_wf t \<Longrightarrow> (n, i) \<in> subs_rel t \<longleftrightarrow> (\<exists>s. (n, s) \<in> set t \<and> i \<in> set s)"
  by (auto simp: subs_rel_def subs_wf_def hm_get_mem)

text \<open>
  C13. PUBLISH sends one message frame to each subscriber of the channel and one pattern frame for
  each subscription to a matching pattern, and nothing else: the deliveries are distinct and
  are exactly those frames, so a client subscribed both ways receives, and is counted, twice.
\<close>
theorem publish_exact:
  assumes "pubsub_wf p"
  shows "distinct (publish channel payload p) \<and>
    set (publish channel payload p) =
      {(i, message_frame channel payload) | i. (channel, i) \<in> subs_rel (chans p)} \<union>
      {(i, pmessage_frame q channel payload) | q i. (q, i) \<in> subs_rel (pats p) \<and> glob_match q channel}"
proof -
  let ?c = "case hm_get (chans p) channel of None \<Rightarrow> [] | Some s \<Rightarrow> s"
  have w: "subs_wf (chans p)" "subs_wf (pats p)" using assms by (simp_all add: pubsub_wf_def)
  have c: "distinct ?c" "set ?c = {i. (channel, i) \<in> subs_rel (chans p)}"
    using subs_wf_get [OF w(1), of channel]
    by (cases "hm_get (chans p) channel"; simp add: subs_rel_def)+
  have "distinct (map fst (pats p))" "\<forall>(n, s) \<in> set (pats p). distinct s"
    using w(2) by (auto simp: subs_wf_def hm_wf_def)
  note d = distinct_deliver_patterns [OF this, of channel payload]
  have "{(i, pmessage_frame q channel payload) | q i s. (q, s) \<in> set (pats p) \<and> i \<in> set s \<and> glob_match q channel} =
      {(i, pmessage_frame q channel payload) | q i. (q, i) \<in> subs_rel (pats p) \<and> glob_match q channel}"
    using subs_rel_mem [OF w(2)] by blast
  with d have d: "distinct (concat (map (deliver_pattern channel payload) (pats p)))"
    "set (concat (map (deliver_pattern channel payload) (pats p))) =
      {(i, pmessage_frame q channel payload) | q i. (q, i) \<in> subs_rel (pats p) \<and> glob_match q channel}"
    by simp_all
  show ?thesis
    unfolding publish_alt distinct_append set_append d(2)
    using c d(1) frames_differ(1) by (auto simp: distinct_map inj_on_def)
qed

lemma publish_exact_witness:
  "publish ''news'' ''hi'' (psubscribe ''ne*'' 1 (subscribe ''news'' 1 new_pubsub)) =
     [(1, message_frame ''news'' ''hi''), (1, pmessage_frame ''ne*'' ''news'' ''hi'')] \<and>
   distinct (publish ''news'' ''hi'' (psubscribe ''ne*'' 1 (subscribe ''news'' 1 new_pubsub)))"
proof
  show "publish ''news'' ''hi'' (psubscribe ''ne*'' 1 (subscribe ''news'' 1 new_pubsub)) =
     [(1, message_frame ''news'' ''hi''), (1, pmessage_frame ''ne*'' ''news'' ''hi'')]"
    by code_simp
  show "distinct (publish ''news'' ''hi'' (psubscribe ''ne*'' 1 (subscribe ''news'' 1 new_pubsub)))"
    by (rule conjunct1 [OF publish_exact]) simp
qed

end
