(* ===== verification/App.thy ===== *)
theory App
  imports Keyspec Watch PubSub
begin

text \<open>
  The state commands run on: \<^verbatim>\<open>src/app.rs\<close> (everything shared), \<^verbatim>\<open>src/client.rs\<close> (one connection's own)
  and \<^verbatim>\<open>src/stats.rs\<close> (the counters), with the operations that connect the keyspace to the watch and
  blocking registries.
\<close>

subsection \<open>Counters\<close>

record stats =
  started_at :: time
  total_connections :: nat
  rejected_connections :: nat
  connected_clients :: nat
  total_commands :: nat
  keyspace_hits :: nat
  keyspace_misses :: nat
  memory_records_expired :: nat
  evicted_keys :: nat
  messages_published :: nat
  transactions :: nat
  last_save_at :: "time option"
  last_save_ok :: bool
  save_count :: nat

definition new_stats :: "env \<Rightarrow> stats" where
  "new_stats E =
     \<lparr>started_at = mono E, total_connections = 0, rejected_connections = 0, connected_clients = 0,
      total_commands = 0, keyspace_hits = 0, keyspace_misses = 0, memory_records_expired = 0,
      evicted_keys = 0, messages_published = 0, transactions = 0, last_save_at = None,
      last_save_ok = True, save_count = 0\<rparr>"

definition uptime :: "env \<Rightarrow> stats \<Rightarrow> time" where
  "uptime E s = max 0 (mono E - started_at s)"

definition reset_stats :: "stats \<Rightarrow> stats" where
  "reset_stats s =
     s\<lparr>total_connections := 0, rejected_connections := 0, total_commands := 0, keyspace_hits := 0,
       keyspace_misses := 0, evicted_keys := 0, messages_published := 0, transactions := 0\<rparr>"

subsection \<open>Connections\<close>

record transaction =
  queued :: "bytes list list"
  failed :: bool

record client =
  cl_id :: nat
  cl_protocol :: protocol
  cl_addr :: bytes
  cl_name :: bytes
  cl_created :: time
  cl_tx :: "transaction option"
  cl_watched :: "(bytes \<times> 64 word) list"
  cl_channels :: "bytes list"
  cl_patterns :: "bytes list"
  cl_in_exec :: bool
  cl_blocked :: bool

definition new_client :: "env \<Rightarrow> nat \<Rightarrow> bytes \<Rightarrow> client" where
  "new_client E i addr =
     \<lparr>cl_id = i, cl_protocol = Resp2, cl_addr = addr, cl_name = [], cl_created = mono E, cl_tx = None,
      cl_watched = [], cl_channels = [], cl_patterns = [], cl_in_exec = False, cl_blocked = False\<rparr>"

definition begin_transaction :: "client \<Rightarrow> client" where
  "begin_transaction c = c\<lparr>cl_tx := Some \<lparr>queued = [], failed = False\<rparr>\<rparr>"

definition in_transaction :: "client \<Rightarrow> bool" where
  "in_transaction c \<longleftrightarrow> cl_tx c \<noteq> None"

definition subscription_count :: "client \<Rightarrow> nat" where
  "subscription_count c = length (cl_channels c) + length (cl_patterns c)"

definition is_subscriber :: "client \<Rightarrow> bool" where
  "is_subscriber c \<longleftrightarrow> subscription_count c > 0"

record parked =
  pk_id :: nat
  pk_keys :: "bytes list"
  pk_deadline :: "time option"
  pk_argv :: "bytes list"
  pk_on_timeout :: reply

subsection \<open>The shared state\<close>

record app =
  store :: store
  persist :: persist
  config :: config
  stats :: stats
  running :: bool
  pubsub :: pubsub
  watch :: watch
  waiting :: "parked list"
  ready_keys :: "bytes list"
  outbox :: "(nat \<times> reply) list"
  next_client_id :: nat
  last_sweep :: "time option"

definition new_app :: "env \<Rightarrow> config \<Rightarrow> app" where
  "new_app E cfg =
     \<lparr>store = empty_store E, persist = \<lparr>dump_path = dbfilename cfg, last_check = None\<rparr>, config = cfg,
      stats = new_stats E, running = True, pubsub = new_pubsub, watch = [], waiting = [],
      ready_keys = [], outbox = [], next_client_id = 0, last_sweep = None\<rparr>"

definition take_client_id :: "app \<Rightarrow> app \<times> nat" where
  "take_client_id a = (a\<lparr>next_client_id := next_client_id a + 1\<rparr>, next_client_id a + 1)"

definition signal_modified :: "env \<Rightarrow> bytes \<Rightarrow> app \<Rightarrow> app" where
  "signal_modified E k a =
     (let a = a\<lparr>watch := touch_key k (watch a)\<rparr>
      in if waiting a = [] then a
         else (let (st, t) = peek_type E k (store a); a = a\<lparr>store := st\<rparr>
               in if t = Some TList \<or> t = Some TZset then a\<lparr>ready_keys := ready_keys a @ [k]\<rparr> else a))"

definition signal_flushed :: "app \<Rightarrow> app" where
  "signal_flushed a =
     a\<lparr>watch := touch_all (watch a), ready_keys := ready_keys a @ concat (map pk_keys (waiting a))\<rparr>"

definition unwatch_all :: "app \<Rightarrow> client \<Rightarrow> app \<times> client" where
  "unwatch_all a c =
     (a\<lparr>watch := fold unwatch_key (map fst (cl_watched c)) (watch a)\<rparr>, c\<lparr>cl_watched := []\<rparr>)"

definition forget_client :: "app \<Rightarrow> client \<Rightarrow> app \<times> client" where
  "forget_client a c =
     (let a = a\<lparr>pubsub := drop_client (cl_id c) (pubsub a)\<rparr>;
          a = a\<lparr>waiting := filter (\<lambda>w. pk_id w \<noteq> cl_id c) (waiting a)\<rparr>
      in (a\<lparr>watch := fold unwatch_key (map fst (cl_watched c)) (watch a)\<rparr>, c\<lparr>cl_watched := []\<rparr>))"

definition next_block_deadline :: "app \<Rightarrow> time option" where
  "next_block_deadline a =
     (case List.map_filter pk_deadline (waiting a) of [] \<Rightarrow> None | t # ts \<Rightarrow> Some (fold min ts t))"

text \<open>The loop that removes the waiters whose deadline has passed, in order.\<close>

definition timed_out :: "env \<Rightarrow> parked \<Rightarrow> bool" where
  "timed_out E w \<longleftrightarrow> (case pk_deadline w of None \<Rightarrow> False | Some t \<Rightarrow> t \<le> mono E)"

fun split_timed_out :: "env \<Rightarrow> parked list \<Rightarrow> parked list \<times> parked list" where
  "split_timed_out E [] = ([], [])"
| "split_timed_out E (w # ws) =
     (let (out, keep) = split_timed_out E ws
      in if timed_out E w then (w # out, keep) else (out, w # keep))"

definition take_timed_out :: "env \<Rightarrow> app \<Rightarrow> app \<times> parked list" where
  "take_timed_out E a =
     (let (out, keep) = split_timed_out E (waiting a) in (a\<lparr>waiting := keep\<rparr>, out))"

subsection \<open>Housekeeping\<close>

fun sweep_memories :: "env \<Rightarrow> bytes list \<Rightarrow> app \<Rightarrow> app" where
  "sweep_memories E [] a = a"
| "sweep_memories E (k # ks) a =
     (let (st, m) = get_existing_memory E k (store a); a = a\<lparr>store := st\<rparr>
      in case m of
           None \<Rightarrow> sweep_memories E ks a
         | Some m \<Rightarrow>
             (let (m, dropped) = memory_sweep E (Some (mem_max_terms_per_doc (config a))) m;
                  a = a\<lparr>store := put_value k (VMemory m) (store a)\<rparr>;
                  a = (if dropped > 0
                       then a\<lparr>stats := (stats a)\<lparr>memory_records_expired :=
                                memory_records_expired (stats a) + dropped\<rparr>,
                              store := mark_dirty (store a)\<rparr>
                       else a)
              in sweep_memories E ks a))"

definition sweep_memory_records :: "env \<Rightarrow> app \<Rightarrow> app" where
  "sweep_memory_records E a = sweep_memories E (memory_keys E (store a)) a"

definition app_save :: "env \<Rightarrow> app \<Rightarrow> app \<times> bool" where
  "app_save E a =
     (let (p, st, ok) = save_to E (dbfilename (config a)) (persist a) (store a);
          s = (stats a)\<lparr>last_save_at := Some (now E), last_save_ok := ok\<rparr>;
          s = (if ok then s\<lparr>save_count := save_count s + 1\<rparr> else s)
      in (a\<lparr>persist := p, store := st, stats := s\<rparr>, ok))"

definition tick :: "env \<Rightarrow> app \<Rightarrow> app" where
  "tick E a =
     (let due = (case last_sweep a of None \<Rightarrow> True
                 | Some t \<Rightarrow> max 0 (mono E - t) \<ge> int (sweep_interval (config a)));
          a = (if due
               then (let a = a\<lparr>store := sweep_expired E (store a)\<rparr>;
                         a = sweep_memory_records E a
                     in a\<lparr>last_sweep := Some (mono E)\<rparr>)
               else a);
          (p, save) = autosave_due E (save_interval (config a)) (store a) (persist a);
          a = a\<lparr>persist := p\<rparr>
      in if save then fst (app_save E a) else a)"

subsection \<open>Housekeeping is not observable\<close>

lemma get_existing_memory_value:
  "store_wf st \<Longrightarrow> snd (get_existing_memory E k st) = Some m \<Longrightarrow> \<exists>t. live E st k = Some (VMemory m, t)"
  by (cases rule: find_cases [of st E k])
    (auto simp: get_existing_memory_def datum_of_def split: val.splits)

lemma get_existing_memory_cases:
  assumes "tidy E st" and "get_existing_memory E k st = (s, m)"
  shows "tidy E s" and "live E s = live E st"
    and "m = Some x \<Longrightarrow> \<exists>t. live E st k = Some (VMemory x, t)"
  using reads_tidy(9) [OF assms(1), of k] get_existing_memory_spec [OF tidy_wf [OF assms(1)], of E k]
    get_existing_memory_value [OF tidy_wf [OF assms(1)], of E k x] assms(2) by simp_all

text \<open>
  How two readings of a key may differ across the housekeeping: an index may lose records that no
  client could read any more.
\<close>

definition same_reading :: "env \<Rightarrow> datum option \<Rightarrow> datum option \<Rightarrow> bool" where
  "same_reading E d d' \<longleftrightarrow> d = d' \<or>
     (\<exists>m m' t. d = Some (VMemory m, t) \<and> d' = Some (VMemory m', t) \<and> mem_config m' = mem_config m \<and>
        memory_get E m' = memory_get E m \<and>
        (\<forall>i. memory_get E m i \<noteq> None \<longrightarrow> vector_at m' i = vector_at m i))"

lemma same_reading_refl [simp]: "same_reading E d d"
  by (simp add: same_reading_def)

lemma same_reading_trans: "same_reading E d d' \<Longrightarrow> same_reading E d' d'' \<Longrightarrow> same_reading E d d''"
  unfolding same_reading_def by (elim disjE exE conjE) (simp_all, (blast | fastforce)+)

lemma fold_del_config: "mem_config (fold (\<lambda>(i :: bytes) m. fst (memory_del i n m)) ds m) = mem_config m"
  by (induction ds arbitrary: m) (simp_all add: memory_del_def Let_def split: option.split)

lemma memory_sweep_reading:
  assumes "memory_wf m" and "memory_sweep E n m = (m', c)"
  shows "memory_wf m'" and "same_reading E (Some (VMemory m, t)) (Some (VMemory m', t))"
proof -
  note s = memory_sweep_spec [OF assms]
  show "memory_wf m'" by (rule s(1))
  have "mem_config m' = mem_config m"
    using assms(2) fold_del_config by (auto simp: memory_sweep_def Let_def)
  moreover have "memory_get E m' = memory_get E m"
    by (rule ext) (simp add: memory_get_def [of _ m'] s(2), simp add: memory_get_def split: option.split)
  ultimately show "same_reading E (Some (VMemory m, t)) (Some (VMemory m', t))"
    using s(3) by (simp add: same_reading_def)
qed

lemma sweep_memories_view:
  "store_ok (store a) \<Longrightarrow> store_ok (store (sweep_memories E ks a)) \<and>
     (\<forall>k. same_reading E (live E (store a) k) (live E (store (sweep_memories E ks a)) k)) \<and>
     config (sweep_memories E ks a) = config a \<and> persist (sweep_memories E ks a) = persist a"
proof (induction ks arbitrary: a)
  case (Cons k ks)
  note ok = store_okD [OF Cons.prems]
  obtain s m where g: "get_existing_memory E k (store a) = (s, m)" by fastforce
  note gm = get_existing_memory_cases [OF ok(2) g]
  have sok: "store_ok s" using tidy_store_ok [OF gm(1)] gm(2) ok(3) by simp
  show ?case
  proof (cases m)
    case None
    with Cons.IH [of "a\<lparr>store := s\<rparr>"] gm g sok show ?thesis by simp
  next
    case (Some x)
    obtain t where l: "live E (store a) k = Some (VMemory x, t)" using gm(3) [OF Some] by blast
    have x: "memory_wf x" using vals_okD [OF ok(3) l] by simp
    obtain y n where y: "memory_sweep E (Some (mem_max_terms_per_doc (config a))) x = (y, n)" by fastforce
    note sr = memory_sweep_reading [OF x y]
    define b where "b = (let b = a\<lparr>store := put_value k (VMemory y) s\<rparr>
       in if n > 0 then b\<lparr>stats := (stats b)\<lparr>memory_records_expired := memory_records_expired (stats b) + n\<rparr>,
            store := mark_dirty (store b)\<rparr> else b)"
    have b: "tidy E (store b)" "live E (store b) = (live E (store a))(k \<mapsto> (VMemory y, t))"
      "config b = config a" "persist b = persist a"
      using put_value_tidy [OF gm(1), of k "VMemory y"] put_value_spec(2) [OF tidy_wf [OF gm(1)], of E k "VMemory y"]
        l gm(2) sr(1) by (simp_all add: b_def Let_def)
    have bok: "store_ok (store b)"
      using tidy_store_ok [OF b(1)] ok(3) sr(1) by (simp add: b(2) vals_ok_updI)
    have e: "sweep_memories E (k # ks) a = sweep_memories E ks b"
      using g y Some by (simp add: b_def Let_def)
    have "same_reading E (live E (store a) j) (live E (store b) j)" for j
      unfolding b(2) using l sr(2) by simp
    with Cons.IH [OF bok] b(3,4) show ?thesis
      unfolding e by (metis same_reading_trans)
  qed
qed simp

lemma dump_entry_tidy: "tidy E st \<Longrightarrow> tidy E (fst (dump_entry E kt st))"
  by (cases kt; cases "snd kt")
    (simp_all add: dump_entry_def case_prod_beta reads_tidy)

lemma dump_entries_tidy: "tidy E st \<Longrightarrow> tidy E (fst (dump_entries E kts st))"
  by (induction kts arbitrary: st) (simp_all add: case_prod_beta dump_entry_tidy)

lemma app_save_view:
  assumes "store_ok (store a)"
  shows "store_ok (store (fst (app_save E a)))" and "live E (store (fst (app_save E a))) = live E (store a)"
    and "config (fst (app_save E a)) = config a"
proof -
  note ok = store_okD [OF assms]
  have t: "tidy E (fst (save_inner E (store a)))"
    using dump_entries_tidy [OF ok(2)]
    by (cases "disk_fails E") (simp_all add: save_inner_def case_prod_beta reset_dirty_tidy Let_def)
  have s: "store (fst (app_save E a)) = fst (save_inner E (store a))"
    by (simp add: app_save_def save_to_def case_prod_beta Let_def)
  show l: "live E (store (fst (app_save E a))) = live E (store a)"
    using save_inner_view [OF ok(1), of E] by (simp add: s)
  with t ok(3) show "store_ok (store (fst (app_save E a)))"
    using tidy_store_ok by (simp add: s)
  show "config (fst (app_save E a)) = config a"
    by (simp add: app_save_def save_to_def case_prod_beta Let_def)
qed

lemma sweep_expired_ok:
  assumes "store_ok st"
  shows "store_ok (sweep_expired E st)" and "live E (sweep_expired E st) = live E st"
proof -
  note ok = store_okD [OF assms]
  show l: "live E (sweep_expired E st) = live E st"
    using sweep_expired_spec(2) [OF ok(1), of E] by (auto simp: live_def fun_eq_iff split: option.split)
  show "store_ok (sweep_expired E st)"
    using tidy_store_ok [OF sweep_expired_tidy [OF ok(2)]] ok(3) l by simp
qed

lemma tick_view:
  assumes "store_ok (store a)"
  shows "store_ok (store (tick E a)) \<and> config (tick E a) = config a \<and>
    (\<forall>k. same_reading E (live E (store a) k) (live E (store (tick E a)) k))"
proof -
  define due where "due = (case last_sweep a of None \<Rightarrow> True
    | Some t \<Rightarrow> max 0 (mono E - t) \<ge> int (sweep_interval (config a)))"
  define b where "b = (if due then (sweep_memory_records E (a\<lparr>store := sweep_expired E (store a)\<rparr>))\<lparr>last_sweep := Some (mono E)\<rparr>
    else a)"
  note s = sweep_expired_ok [OF assms, of E]
  have b: "store_ok (store b)" "config b = config a"
    "\<forall>k. same_reading E (live E (store a) k) (live E (store b) k)"
    using assms s sweep_memories_view [of "a\<lparr>store := sweep_expired E (store a)\<rparr>" E
        "memory_keys E (sweep_expired E (store a))"]
    by (cases due; simp add: b_def sweep_memory_records_def)+
  obtain p sv where p: "autosave_due E (save_interval (config b)) (store b) (persist b) = (p, sv)" by fastforce
  have t: "tick E a = (if sv then fst (app_save E (b\<lparr>persist := p\<rparr>)) else b\<lparr>persist := p\<rparr>)"
    using p unfolding tick_def due_def [symmetric] by (cases due) (simp_all add: b_def Let_def)
  show ?thesis
    unfolding t using b app_save_view [of "b\<lparr>persist := p\<rparr>" E] by (cases sv) simp_all
qed


definition sample_app :: app where
  "sample_app = (new_app sample_env default_config)\<lparr>store := sample_store\<rparr>"


end
