(* ===== verification/Evict.thy ===== *)
theory Evict
  imports App
begin

text \<open>
  The loop of \<^verbatim>\<open>src/evict.rs\<close> that brings the process back under \<open>maxmemory\<close>. What the counting
  allocator reports is a parameter of the model, a function of the state.
\<close>

definition MAX_EVICTIONS_PER_PASS :: nat where
  "MAX_EVICTIONS_PER_PASS = 10000"

definition within_limit :: "(app \<Rightarrow> nat) \<Rightarrow> app \<Rightarrow> bool" where
  "within_limit heap a \<longleftrightarrow> maxmemory (config a) = 0 \<or> heap a \<le> maxmemory (config a)"

text \<open>The \<open>for\<close> loop, with the number of rounds left.\<close>

fun evict_loop :: "(app \<Rightarrow> nat) \<Rightarrow> env \<Rightarrow> nat \<Rightarrow> app \<Rightarrow> app \<times> bool" where
  "evict_loop heap E 0 a = (a, False)"
| "evict_loop heap E (Suc n) a =
     (let p = maxmemory_policy (config a)
      in if volatile_only p \<and> volatile (store a) = [] then (a, False)
         else
           (let (st, candidates) = sample E (volatile_only p) (maxmemory_samples (config a)) (store a);
                a = a\<lparr>store := st\<rparr>
            in case choose_victim p candidates of
                 None \<Rightarrow> (a, False)
               | Some victim \<Rightarrow>
                   (let (st, gone) = evict (cand_key victim) (store a);
                        a = a\<lparr>store := st\<rparr>
                    in if \<not> gone then evict_loop heap E n a
                       else
                         (let a = a\<lparr>stats := (stats a)\<lparr>evicted_keys := evicted_keys (stats a) + 1\<rparr>\<rparr>;
                              a = signal_modified E (cand_key victim) a
                          in if within_limit heap a then (a, True) else evict_loop heap E n a))))"

definition make_room :: "(app \<Rightarrow> nat) \<Rightarrow> env \<Rightarrow> app \<Rightarrow> app \<times> bool" where
  "make_room heap E a =
     (if within_limit heap a then (a, True)
      else if \<not> evicts (maxmemory_policy (config a)) then (a, False)
      else evict_loop heap E MAX_EVICTIONS_PER_PASS a)"

subsection \<open>What signalling a key leaves alone\<close>

lemma peek_view:
  assumes "store_ok st"
  shows "store_ok (fst (peek_type E k st))" and "live E (fst (peek_type E k st)) = live E st"
proof -
  note ok = store_okD [OF assms]
  show l: "live E (fst (peek_type E k st)) = live E st"
    using peek_type_view [OF ok(1)] by simp
  show "store_ok (fst (peek_type E k st))"
    using tidy_store_ok [OF peek_type_tidy [OF ok(2)]] ok(3) l by simp
qed

lemma signal_modified_view:
  assumes "store_ok (store a)"
  shows "store_ok (store (signal_modified E k a))" and "live E (store (signal_modified E k a)) = live E (store a)"
  using assms peek_view [OF assms] by (simp_all add: signal_modified_def Let_def case_prod_beta)

lemma signal_modified_frame [simp]:
  "config (signal_modified E k a) = config a" "watch (signal_modified E k a) = touch_key k (watch a)"
  "stats (signal_modified E k a) = stats a" "pubsub (signal_modified E k a) = pubsub a"
  "waiting (signal_modified E k a) = waiting a" "persist (signal_modified E k a) = persist a"
  "outbox (signal_modified E k a) = outbox a" "next_client_id (signal_modified E k a) = next_client_id a"
  "running (signal_modified E k a) = running a" "last_sweep (signal_modified E k a) = last_sweep a"
  by (simp_all add: signal_modified_def Let_def case_prod_beta)

lemma signal_modified_gone:
  assumes "store_ok (store a)" and "live E (store a) k = None"
  shows "ready_keys (signal_modified E k a) = ready_keys a"
  using peek_type_view(3) [OF store_okD(1) [OF assms(1)], where E = E and k = k] assms(2)
  by (simp add: signal_modified_def Let_def case_prod_beta)

subsection \<open>What a pass of evictions does\<close>

text \<open>\<open>a'\<close> is \<open>a\<close> after the keys \<open>ks\<close> were evicted, each of them announced and counted.\<close>

definition evicted :: "env \<Rightarrow> app \<Rightarrow> bytes list \<Rightarrow> app \<Rightarrow> bool" where
  "evicted E a ks a' \<longleftrightarrow> store_ok (store a') \<and> config a' = config a \<and>
     live E (store a') = live E (store a) |` (- set ks) \<and> distinct ks \<and> set ks \<subseteq> dom (live E (store a)) \<and>
     (volatile_only (maxmemory_policy (config a)) \<longrightarrow> (\<forall>k \<in> set ks. \<exists>v t. live E (store a) k = Some (v, Some t))) \<and>
     evicted_keys (stats a') = evicted_keys (stats a) + length ks \<and> watch a' = fold touch_key ks (watch a) \<and>
     pubsub a' = pubsub a \<and> waiting a' = waiting a \<and> outbox a' = outbox a \<and> next_client_id a' = next_client_id a \<and>
     ready_keys a' = ready_keys a"

lemma restrict_UNIV [simp]: "M |` UNIV = M"
  by (simp add: restrict_map_def)

lemma evicted_refl: "store_ok (store a) \<Longrightarrow> evicted E a [] a"
  by (simp add: evicted_def)

lemma evicted_trans:
  assumes "evicted E a ks b" and "evicted E b ls c"
  shows "evicted E a (ks @ ls) c"
proof -
  note a = assms(1) [unfolded evicted_def] and b = assms(2) [unfolded evicted_def]
  have l: "live E (store b) = live E (store a) |` (- set ks)" using a by blast
  have m: "live E (store c) = live E (store b) |` (- set ls)" using b by blast
  have "live E (store c) = live E (store a) |` (- set (ks @ ls))"
    unfolding m l by (simp add: Int_commute)
  moreover have s: "set ls \<subseteq> dom (live E (store a)) - set ks"
    using b unfolding l dom_restrict by blast
  moreover have "\<exists>v t. live E (store a) k = Some (v, Some t)"
    if "volatile_only (maxmemory_policy (config a))" "k \<in> set (ks @ ls)" for k
  proof (cases "k \<in> set ks")
    case True
    with a that(1) show ?thesis by blast
  next
    case False
    with that b a have "\<exists>v t. live E (store b) k = Some (v, Some t)" by auto
    with False show ?thesis by (simp add: l)
  qed
  moreover have "set (ks @ ls) \<subseteq> dom (live E (store a))" "distinct (ks @ ls)"
    using a b s by auto
  ultimately show ?thesis using a b unfolding evicted_def by simp
qed

lemma sample_ok:
  assumes "store_ok st"
  shows "store_ok (fst (sample E vol n st))" and "live E (fst (sample E vol n st)) = live E st"
  using assms by (simp add: store_ok_def sample_view) (rule live_contents [OF sample_view(2)])

lemma evict_ok:
  assumes "store_ok st" and "evict k st = (s, gone)" and "live E st k \<noteq> None"
  shows "gone" and "store_ok s" and "live E s = (live E st)(k := None)"
proof -
  note ok = store_okD [OF assms(1)]
  have s: "store_wf s" "contents s = (contents st)(k := None)" "gone \<longleftrightarrow> contents st k \<noteq> None"
    using evict_spec [OF ok(1), of k] assms(2) by simp_all
  show "gone" using s(3) assms(3) by (auto simp: live_def split: option.splits)
  show "store_ok s" using s(1,2) assms(1) by (simp add: store_ok_def)
  show "live E s = (live E st)(k := None)" by (rule ext) (simp add: live_def s(2))
qed

lemma choose_mem: "choose_victim p cs = Some c \<Longrightarrow> c \<in> set cs"
  using choose_minimal by blast

lemma evict_one:
  assumes ok: "store_ok (store a)" and p: "p = maxmemory_policy (config a)"
    and s: "sample E (volatile_only p) n (store a) = (st, cs)" and c: "choose_victim p cs = Some c"
    and e: "evict (cand_key c) st = (st', gone)"
  shows "gone" and "evicted E a [cand_key c] (signal_modified E (cand_key c)
    (a\<lparr>store := st', stats := (stats a)\<lparr>evicted_keys := evicted_keys (stats a) + 1\<rparr>\<rparr>))"
proof -
  have sw: "store_wf (store a)" using ok by (simp add: store_ok_def)
  have st: "store_ok st" "live E st = live E (store a)"
    using sample_ok [OF ok, of E "volatile_only p" n] s by simp_all
  have "c \<in> set (snd (sample E (volatile_only p) n (store a)))" using choose_mem [OF c] s by simp
  note cl = sample_live [OF sw this]
  obtain v where v: "live E (store a) (cand_key c) = Some (v, cand_expire_at c)" using cl(1) by blast
  have "live E st (cand_key c) \<noteq> None" using st(2) v by simp
  note ev = evict_ok [OF st(1) e this]
  show "gone" by (rule ev(1))
  let ?b = "a\<lparr>store := st', stats := (stats a)\<lparr>evicted_keys := evicted_keys (stats a) + 1\<rparr>\<rparr>"
  have b: "store_ok (store ?b)" using ev(2) by simp
  note sm = signal_modified_view [OF b, of E "cand_key c"]
  have "live E (store ?b) = live E (store a) |` (- set [cand_key c])"
    using ev(3) st(2) by (auto simp: restrict_map_def fun_eq_iff)
  moreover have "ready_keys (signal_modified E (cand_key c) ?b) = ready_keys a"
    using signal_modified_gone [OF b, of E "cand_key c"] ev(3) by simp
  ultimately show "evicted E a [cand_key c] (signal_modified E (cand_key c) ?b)"
    using sm cl(2) v p by (auto simp: evicted_def)
qed

lemma evicted_sample:
  assumes "store_ok (store a)"
  shows "evicted E a [] (a\<lparr>store := fst (sample E vol n (store a))\<rparr>)"
  using sample_ok [OF assms] by (simp add: evicted_def)

lemma evict_loop_spec:
  assumes "store_ok (store a)"
  shows "\<exists>ks. length ks \<le> n \<and> evicted E a ks (fst (evict_loop heap E n a)) \<and>
    (snd (evict_loop heap E n a) \<longrightarrow> ks \<noteq> [] \<and> within_limit heap (fst (evict_loop heap E n a)))"
  using assms
proof (induction n arbitrary: a)
  case 0
  then show ?case using evicted_refl by auto
next
  case (Suc n)
  define p where "p = maxmemory_policy (config a)"
  obtain st cs where s: "sample E (volatile_only p) (maxmemory_samples (config a)) (store a) = (st, cs)"
    by fastforce
  have stop: ?case if "snd (evict_loop heap E (Suc n) a) = False" "evicted E a [] (fst (evict_loop heap E (Suc n) a))"
    using that by (intro exI [of _ "[]"]) simp
  show ?case
  proof (cases "volatile_only p \<and> volatile (store a) = []")
    case True
    then show ?thesis using evicted_refl [OF Suc.prems] by (intro stop) (simp_all add: p_def [symmetric] Let_def)
  next
    case False
    note go = this
    show ?thesis
    proof (cases "choose_victim p cs")
      case None
      then show ?thesis
        using evicted_sample [OF Suc.prems, of E "volatile_only p" "maxmemory_samples (config a)"] go s
        by (intro stop) (simp_all add: p_def [symmetric] Let_def del: de_Morgan_conj)
    next
      case (Some c)
      obtain st' gone where e: "evict (cand_key c) st = (st', gone)" by fastforce
      let ?b = "signal_modified E (cand_key c)
        (a\<lparr>store := st', stats := (stats a)\<lparr>evicted_keys := evicted_keys (stats a) + 1\<rparr>\<rparr>)"
      note one = evict_one [OF Suc.prems p_def s Some e]
      have x: "evict_loop heap E (Suc n) a =
          (if within_limit heap ?b then (?b, True) else evict_loop heap E n ?b)"
        using go s Some e one(1) by (simp add: p_def [symmetric] Let_def del: de_Morgan_conj)
      show ?thesis
      proof (cases "within_limit heap ?b")
        case True
        with one(2) x show ?thesis by (intro exI [of _ "[cand_key c]"]) simp
      next
        case False
        have "store_ok (store ?b)" using one(2) by (simp add: evicted_def)
        from Suc.IH [OF this] obtain ks where "length ks \<le> n" "evicted E ?b ks (fst (evict_loop heap E n ?b))"
          "snd (evict_loop heap E n ?b) \<longrightarrow> ks \<noteq> [] \<and> within_limit heap (fst (evict_loop heap E n ?b))" by blast
        with evicted_trans [OF one(2)] x False show ?thesis
          by (intro exI [of _ "cand_key c # ks"]) fastforce
      qed
    qed
  qed
qed

lemma make_room_spec:
  assumes "store_ok (store a)" and "make_room heap E a = (a', ok)"
  shows "(ok \<longrightarrow> within_limit heap a') \<and>
    (within_limit heap a \<or> maxmemory_policy (config a) = NoEviction \<longrightarrow> a' = a \<and> ok = within_limit heap a) \<and>
    (\<exists>ks. length ks \<le> 10000 \<and> evicted E a ks a')"
proof (cases "within_limit heap a \<or> maxmemory_policy (config a) = NoEviction")
  case True
  then show ?thesis
    using assms(2) evicted_refl [OF assms(1), of E]
    by (auto simp: make_room_def evicts_def split: if_splits intro!: exI [of _ "[]"])
next
  case False
  with evict_loop_spec [OF assms(1), of MAX_EVICTIONS_PER_PASS E heap] assms(2) show ?thesis
    by (auto simp: make_room_def MAX_EVICTIONS_PER_PASS_def evicts_def)
qed



end
