(* ===== verification/Response.thy ===== *)
theory Response
  imports App
begin

text \<open>
  What dispatch hands back to the event loop (\<^verbatim>\<open>Response\<close> of \<^verbatim>\<open>src/commands/mod.rs\<close>), and the
  effect of a handler that may park its client instead of answering.
\<close>

record response =
  rs_replies :: "reply list"
  rs_close :: bool
  rs_protocol :: "protocol option"
  rs_block :: "parked option"

definition resp_frames :: "reply list \<Rightarrow> response" where
  "resp_frames rs = \<lparr>rs_replies = rs, rs_close = False, rs_protocol = None, rs_block = None\<rparr>"

definition resp_new :: "reply \<Rightarrow> response" where
  "resp_new r = resp_frames [r]"

definition resp_parked :: "parked \<Rightarrow> response" where
  "resp_parked b = \<lparr>rs_replies = [], rs_close = False, rs_protocol = None, rs_block = Some b\<rparr>"

definition resp_single :: "response \<Rightarrow> reply" where
  "resp_single r = (case rs_replies r of [] \<Rightarrow> RNil | x # _ \<Rightarrow> x)"

text \<open>A response after which no write is signalled: an error, or a client that parked.\<close>

definition silent :: "response \<Rightarrow> bool" where
  "silent r \<longleftrightarrow> rs_block r \<noteq> None \<or> (case rs_replies r of x # _ \<Rightarrow> is_error x | [] \<Rightarrow> False)"

lemma resp_simps [simp]:
  "rs_block (resp_new r) = None" "rs_replies (resp_new r) = [r]" "rs_close (resp_new r) = False"
  "rs_protocol (resp_new r) = None" "rs_block (resp_parked b) = Some b" "rs_replies (resp_parked b) = []"
  "rs_replies (resp_frames rs) = rs" "rs_block (resp_frames rs) = None" "rs_close (resp_frames rs) = False"
  "rs_protocol (resp_frames rs) = None" "resp_single (resp_new r) = r"
  by (simp_all add: resp_new_def resp_frames_def resp_parked_def resp_single_def)

lemma silent_simps [simp]: "silent (resp_new r) = is_error r" "silent (resp_parked b)"
  by (simp_all add: silent_def)

definition effect_resp ::
    "bytes set \<Rightarrow> (bytes \<Rightarrow> datum option) \<Rightarrow> (bytes \<Rightarrow> datum option) \<Rightarrow> response \<Rightarrow> bool" where
  "effect_resp K L M r \<longleftrightarrow> vals_ok M \<and> (\<forall>k. k \<notin> K \<longrightarrow> M k = L k) \<and> (silent r \<longrightarrow> M = L)"

lemma effect_respI [wp]:
  "vals_ok M \<Longrightarrow> (\<And>k. k \<notin> K \<Longrightarrow> M k = L k) \<Longrightarrow> (silent r \<Longrightarrow> M = L) \<Longrightarrow> effect_resp K L M r"
  by (simp add: effect_resp_def)

definition responds :: "env \<Rightarrow> bytes set \<Rightarrow> store \<Rightarrow> (store \<times> response) outcome \<Rightarrow> bool" where
  "responds E K st x \<longleftrightarrow> (store_ok st \<longrightarrow> wpo E (effect_resp K (live E st)) x)"

lemma respondsI:
  "(tidy E st \<Longrightarrow> vals_ok (live E st) \<Longrightarrow> wpo E (effect_resp K (live E st)) x) \<Longrightarrow> responds E K st x"
  using store_okD [of st] by (auto simp: responds_def)

end
