(* ===== verification/CmdBlocking.thy ===== *)
theory CmdBlocking
  imports Response
begin

text \<open>
  \<^verbatim>\<open>src/commands/blocking.rs\<close>: the blocking pops, and LMPOP and ZMPOP, which share their arguments.
  A handler answers with what it found or parks its client; the event loop runs it again
  through the same code when a key it waits for is written.
\<close>

subsection \<open>Arguments\<close>

datatype edge = MinEdge | MaxEdge

definition edge_parse :: "bytes \<Rightarrow> edge option" where
  "edge_parse token =
     (if eq_ignore_case token ''MIN'' then Some MinEdge
      else if eq_ignore_case token ''MAX'' then Some MaxEdge
      else None)"

text \<open>
  \<open>Instant::now() + Duration::from_secs_f64(seconds)\<close>: the duration is rounded to the nanosecond, and an
  instant whose seconds do not fit an \<open>i64\<close> is a panic (so is a duration of \<open>2^64\<close> seconds, which never fits).
\<close>

definition instant_after :: "env \<Rightarrow> rat \<Rightarrow> time outcome" where
  "instant_after E q =
     (let t = mono E + round_half_even (q * 1000000000)
      in if t div 1000000000 > i64_max then Panicked else Done t)"

definition parse_timeout :: "env \<Rightarrow> bytes \<Rightarrow> (reply + time option) outcome" where
  "parse_timeout E arg =
     (case parse_f64 arg of
        None \<Rightarrow> Done (Inl (Error ''ERR timeout is not a float or out of range''))
      | Some seconds \<Rightarrow>
          if fless seconds (Fin 0) then Done (Inl (Error ''ERR timeout is negative''))
          else if \<not> is_finite seconds then Done (Inl (Error ''ERR timeout is out of range''))
          else if feq seconds (Fin 0) then Done (Inr None)
          else (case instant_after E (fval seconds) of
                  Panicked \<Rightarrow> Panicked
                | Done t \<Rightarrow> Done (Inr (Some t))))"

record multi_key =
  mk_keys :: "bytes list"
  mk_direction :: bytes
  mk_count :: nat

definition parse_multi_key :: "bytes list \<Rightarrow> nat \<Rightarrow> bytes \<Rightarrow> reply + multi_key" where
  "parse_multi_key av i name =
     (case parse_i64 (av ! i) of
        None \<Rightarrow> Inl not_an_integer
      | Some numkeys \<Rightarrow>
          if numkeys \<le> 0 then Inl (Error ''ERR numkeys should be greater than 0'')
          else
            (let direction_at = i + 1 + nat numkeys
             in if direction_at \<ge> length av then Inl (wrong_arity name)
                else
                  (let ks = take (nat numkeys) (drop (i + 1) av);
                       extra = length av - direction_at - 1
                   in if extra = 0
                      then Inr \<lparr>mk_keys = ks, mk_direction = av ! direction_at, mk_count = 1\<rparr>
                      else if extra = 2 \<and> eq_ignore_case (av ! (direction_at + 1)) ''COUNT''
                      then (case parse_i64 (av ! (direction_at + 2)) of
                              None \<Rightarrow> Inl not_an_integer
                            | Some n \<Rightarrow>
                                if n > 0
                                then Inr \<lparr>mk_keys = ks, mk_direction = av ! direction_at, mk_count = nat n\<rparr>
                                else Inl (Error ''ERR count should be greater than 0''))
                      else Inl syntax_error)))"

subsection \<open>Popping from the first key that has something\<close>

fun pop_first_list :: "env \<Rightarrow> bytes list \<Rightarrow> side \<Rightarrow> store \<Rightarrow> store \<times> (reply + reply option)" where
  "pop_first_list E [] s st = (st, Inr None)"
| "pop_first_list E (k # ks) s st =
     (let (st, good) = check_type E k TList st
      in if \<not> good then (st, Inl wrongtype)
         else
           (let (st, popped) = pop_one E k s st
            in case popped of
                 Some v \<Rightarrow> (st, Inr (Some (Array [Bulk k, Bulk v])))
               | None \<Rightarrow> pop_first_list E ks s st))"

text \<open>The inner loop of LMPOP, which pops one value at a time.\<close>

fun pop_up_to :: "env \<Rightarrow> bytes \<Rightarrow> side \<Rightarrow> nat \<Rightarrow> store \<Rightarrow> store \<times> bytes list" where
  "pop_up_to E k s 0 st = (st, [])"
| "pop_up_to E k s (Suc n) st =
     (let (st, popped) = pop_one E k s st
      in case popped of
           None \<Rightarrow> (st, [])
         | Some v \<Rightarrow> (let (st, vs) = pop_up_to E k s n st in (st, v # vs)))"

fun mpop_lists :: "env \<Rightarrow> bytes list \<Rightarrow> side \<Rightarrow> nat \<Rightarrow> store \<Rightarrow> store \<times> (reply + reply option)" where
  "mpop_lists E [] s cnt st = (st, Inr None)"
| "mpop_lists E (k # ks) s cnt st =
     (let (st, good) = check_type E k TList st
      in if \<not> good then (st, Inl wrongtype)
         else
           (let (st, popped) = pop_up_to E k s cnt st
            in if popped \<noteq> [] then (st, Inr (Some (Array [Bulk k, bulk_array popped])))
               else mpop_lists E ks s cnt st))"

definition pop_one_scored :: "env \<Rightarrow> bytes \<Rightarrow> edge \<Rightarrow> nat \<Rightarrow> store \<Rightarrow> store \<times> (bytes \<times> f64) list" where
  "pop_one_scored E k e cnt st =
     (let (st, z) = write_zset E k st
      in case z of
           None \<Rightarrow> (st, [])
         | Some z \<Rightarrow>
             (let (z, popped) = zset_pop z cnt (e = MaxEdge);
                  st = put_value k (VZset z) st;
                  st = (if popped \<noteq> [] then delete_if_empty E k st else st)
              in (st, popped)))"

fun pop_first_zset :: "env \<Rightarrow> bytes list \<Rightarrow> edge \<Rightarrow> store \<Rightarrow> store \<times> (reply + reply option)" where
  "pop_first_zset E [] e st = (st, Inr None)"
| "pop_first_zset E (k # ks) e st =
     (let (st, good) = check_type E k TZset st
      in if \<not> good then (st, Inl wrongtype)
         else
           (let (st, popped) = pop_one_scored E k e 1 st
            in case popped of
                 (m, sc) # _ \<Rightarrow> (st, Inr (Some (Array [Bulk k, Bulk m, Double sc])))
               | [] \<Rightarrow> pop_first_zset E ks e st))"

fun mpop_zsets :: "env \<Rightarrow> bytes list \<Rightarrow> edge \<Rightarrow> nat \<Rightarrow> store \<Rightarrow> store \<times> (reply + reply option)" where
  "mpop_zsets E [] e cnt st = (st, Inr None)"
| "mpop_zsets E (k # ks) e cnt st =
     (let (st, good) = check_type E k TZset st
      in if \<not> good then (st, Inl wrongtype)
         else
           (let (st, popped) = pop_one_scored E k e cnt st
            in if popped \<noteq> []
               then (st, Inr (Some (Array [Bulk k, Array (map (\<lambda>(m, sc). Array [Bulk m, Double sc]) popped)])))
               else mpop_zsets E ks e cnt st))"

subsection \<open>Commands\<close>

definition answer ::
    "client \<Rightarrow> bytes list \<Rightarrow> reply option \<Rightarrow> bytes list \<Rightarrow> time option \<Rightarrow> reply \<Rightarrow> response" where
  "answer c av found ks due on_timeout =
     (case found of
        Some r \<Rightarrow> resp_new r
      | None \<Rightarrow>
          if cl_in_exec c then resp_new on_timeout
          else resp_parked \<lparr>pk_id = cl_id c, pk_keys = ks, pk_deadline = due, pk_argv = av,
                            pk_on_timeout = on_timeout\<rparr>)"

text \<open>What follows the arguments of every blocking command: search, then answer or park.\<close>

definition found_or_park ::
    "client \<Rightarrow> bytes list \<Rightarrow> bytes list \<Rightarrow> time option \<Rightarrow> store \<times> (reply + reply option) \<Rightarrow> store \<times> response" where
  "found_or_park c av ks due x =
     (case x of
        (st, Inl e) \<Rightarrow> (st, resp_new e)
      | (st, Inr found) \<Rightarrow> (st, answer c av found ks due NilArray))"

definition blocking_first ::
    "env \<Rightarrow> client \<Rightarrow> bytes \<Rightarrow> bytes list \<Rightarrow> (bytes list \<Rightarrow> store \<Rightarrow> store \<times> (reply + reply option)) \<Rightarrow>
     store \<Rightarrow> (store \<times> response) outcome" where
  "blocking_first E c name av pop st =
     (if \<not> min_args av 2 then Done (st, resp_new (wrong_arity name))
      else
        (let ks = take (length av - 2) (drop 1 av)
         in case parse_timeout E (last av) of
              Panicked \<Rightarrow> Panicked
            | Done (Inl e) \<Rightarrow> Done (st, resp_new e)
            | Done (Inr due) \<Rightarrow> Done (found_or_park c av ks due (pop ks st))))"

definition cmd_blmove :: "env \<Rightarrow> client \<Rightarrow> bytes \<Rightarrow> bytes list \<Rightarrow> store \<Rightarrow> (store \<times> response) outcome" where
  "cmd_blmove E c name av st =
     (case
        (if name = ''BRPOPLPUSH''
         then if exact_args av 3 then Inr (RightEnd, LeftEnd, av ! 3) else Inl (wrong_arity name)
         else if \<not> exact_args av 5 then Inl (wrong_arity name)
         else (case (side_parse (av ! 3), side_parse (av ! 4)) of
                 (Some frm, Some dst) \<Rightarrow> Inr (frm, dst, av ! 5)
               | _ \<Rightarrow> Inl syntax_error)) of
        Inl e \<Rightarrow> Done (st, resp_new e)
      | Inr (frm, dst, timeout) \<Rightarrow>
          (case parse_timeout E timeout of
             Panicked \<Rightarrow> Panicked
           | Done (Inl e) \<Rightarrow> Done (st, resp_new e)
           | Done (Inr due) \<Rightarrow>
               (let (st, good) = check_type E (av ! 1) TList st
                in if \<not> good then Done (st, resp_new wrongtype)
                   else
                     (let (st, good) = check_type E (av ! 2) TList st
                      in if \<not> good then Done (st, resp_new wrongtype)
                         else (case move_one E (av ! 1) (av ! 2) frm dst st of
                                 Panicked \<Rightarrow> Panicked
                               | Done (st, found) \<Rightarrow>
                                   Done (st, answer c av (map_option Bulk found) [av ! 1] due RNil))))))"

text \<open>LMPOP and ZMPOP and their blocking spellings, over the parser of the direction and the pop.\<close>

definition cmd_mpop ::
    "env \<Rightarrow> client \<Rightarrow> bool \<Rightarrow> bytes \<Rightarrow> bytes list \<Rightarrow> (bytes \<Rightarrow> 'd option) \<Rightarrow>
     (bytes list \<Rightarrow> 'd \<Rightarrow> nat \<Rightarrow> store \<Rightarrow> store \<times> (reply + reply option)) \<Rightarrow> store \<Rightarrow> (store \<times> response) outcome" where
  "cmd_mpop E c blocking name av parse pop st =
     (if \<not> min_args av (if blocking then 4 else 3) then Done (st, resp_new (wrong_arity name))
      else
        (case (if blocking then parse_timeout E (av ! 1) else Done (Inr None)) of
           Panicked \<Rightarrow> Panicked
         | Done (Inl e) \<Rightarrow> Done (st, resp_new e)
         | Done (Inr due) \<Rightarrow>
             (case parse_multi_key av (if blocking then 2 else 1) name of
                Inl e \<Rightarrow> Done (st, resp_new e)
              | Inr q \<Rightarrow>
                  (case parse (mk_direction q) of
                     None \<Rightarrow> Done (st, resp_new syntax_error)
                   | Some d \<Rightarrow>
                       if blocking
                       then Done (found_or_park c av (mk_keys q) due (pop (mk_keys q) d (mk_count q) st))
                       else Done (case pop (mk_keys q) d (mk_count q) st of
                                    (st, Inl e) \<Rightarrow> (st, resp_new e)
                                  | (st, Inr found) \<Rightarrow>
                                      (st, resp_new (case found of None \<Rightarrow> NilArray | Some r \<Rightarrow> r)))))))"

definition blocking_cmd :: "env \<Rightarrow> client \<Rightarrow> bytes \<Rightarrow> bytes list \<Rightarrow> store \<Rightarrow> (store \<times> response) outcome" where
  "blocking_cmd E c name av st =
     (if name \<in> {''BLPOP'', ''BRPOP''}
      then blocking_first E c name av
             (\<lambda>ks. pop_first_list E ks (if name = ''BLPOP'' then LeftEnd else RightEnd)) st
      else if name \<in> {''BLMOVE'', ''BRPOPLPUSH''} then cmd_blmove E c name av st
      else if name \<in> {''LMPOP'', ''BLMPOP''}
      then cmd_mpop E c (name = ''BLMPOP'') name av side_parse (mpop_lists E) st
      else if name \<in> {''BZPOPMIN'', ''BZPOPMAX''}
      then blocking_first E c name av
             (\<lambda>ks. pop_first_zset E ks (if name = ''BZPOPMIN'' then MinEdge else MaxEdge)) st
      else if name \<in> {''ZMPOP'', ''BZMPOP''}
      then cmd_mpop E c (name = ''BZMPOP'') name av edge_parse (mpop_zsets E) st
      else Done (st, resp_new unknown_in_family))"


subsection \<open>What a search does\<close>

definition pops :: "bytes set \<Rightarrow> (bytes \<Rightarrow> datum option) \<Rightarrow> (bytes \<Rightarrow> datum option) \<Rightarrow> reply + reply option \<Rightarrow> bool" where
  "pops K L M r \<longleftrightarrow> vals_ok M \<and> (\<forall>k. k \<notin> K \<longrightarrow> M k = L k) \<and>
     (case r of Inl e \<Rightarrow> is_error e \<and> M = L | Inr None \<Rightarrow> M = L | Inr (Some x) \<Rightarrow> \<not> is_error x)"

lemma pops_simps [simp]:
  "pops K L M (Inl e) \<longleftrightarrow> vals_ok M \<and> is_error e \<and> M = L"
  "pops K L M (Inr None) \<longleftrightarrow> vals_ok M \<and> M = L"
  "pops K L M (Inr (Some x)) \<longleftrightarrow> vals_ok M \<and> (\<forall>k. k \<notin> K \<longrightarrow> M k = L k) \<and> \<not> is_error x"
  by (auto simp: pops_def)

lemma pops_mono: "pops K L M r \<Longrightarrow> K \<subseteq> K' \<Longrightarrow> pops K' L M r"
  by (auto simp: pops_def)

lemma pop_first_list_wp:
  "tidy E st \<Longrightarrow> vals_ok (live E st) \<Longrightarrow> wp E (pops (set ks) (live E st)) (pop_first_list E ks s st)"
proof (induction ks arbitrary: st)
  case Nil
  then show ?case by (simp add: wp_def)
next
  case (Cons k ks)
  have IH: "wp E (pops (set (k # ks)) (live E st)) (pop_first_list E ks s st')"
    if "tidy E st'" "live E st' = live E st" for st'
    using Cons.IH [OF that(1)] Cons.prems(2) that(2) by (auto elim!: wp_weaken pops_mono)
  show ?case
    unfolding pop_first_list.simps using Cons.prems
    by - ((rule wp IH | assumption | (simp; fail))+)
qed

lemma pop_up_to_wp:
  "tidy E st \<Longrightarrow> vals_ok (live E st) \<Longrightarrow>
   wp E (\<lambda>M vs. vals_ok M \<and> (\<forall>x. x \<noteq> k \<longrightarrow> M x = live E st x) \<and> (vs = [] \<longrightarrow> M = live E st)) (pop_up_to E k s n st)"
proof (induction n arbitrary: st)
  case 0
  then show ?case by (simp add: wp_def)
next
  case (Suc n)
  show ?case
    unfolding pop_up_to.simps using Suc.prems
    by - ((rule wp wp_bind [OF Suc.IH] | assumption | (simp; fail))+)
qed

lemma mpop_lists_wp:
  "tidy E st \<Longrightarrow> vals_ok (live E st) \<Longrightarrow> wp E (pops (set ks) (live E st)) (mpop_lists E ks s cnt st)"
proof (induction ks arbitrary: st)
  case Nil
  then show ?case by (simp add: wp_def)
next
  case (Cons k ks)
  have IH: "wp E (pops (set (k # ks)) (live E st)) (mpop_lists E ks s cnt st')"
    if "tidy E st'" "live E st' = live E st" for st'
    using Cons.IH [OF that(1)] Cons.prems(2) that(2) by (auto elim!: wp_weaken pops_mono)
  show ?case
    unfolding mpop_lists.simps using Cons.prems
    by - ((rule wp wp_bind [OF pop_up_to_wp] IH | assumption | (simp; fail))+)
qed

lemma zset_pop_nil: "zset_pop z cnt b = (z', []) \<Longrightarrow> z' = z"
  by (auto simp: zset_pop_def Let_def split: if_splits)

lemma pop_one_scored_wp:
  assumes "tidy E st" and "vals_ok (live E st)"
  shows "wp E (\<lambda>M ps. vals_ok M \<and> (\<forall>x. x \<noteq> k \<longrightarrow> M x = live E st x) \<and> (ps = [] \<longrightarrow> M = live E st))
    (pop_one_scored E k e cnt st)"
proof -
  have pop: "zset_wf z'" "r = [] \<Longrightarrow> z' = z" if "zset_pop z n b = (z', r)" "zset_wf z" for z z' n b r
    using zset_pop_wf [OF that(2), of n b] that zset_pop_nil [of z n b z'] by simp_all
  show ?thesis
    unfolding pop_one_scored_def using assms
    by - ((rule wp | assumption | rule wp_let | (simp; fail) | (clarsimp, frule (1) pop, simp add: fun_upd_idem; fail)
        | (clarsimp, drule (1) pop(2), simp, simp add: fun_upd_idem; fail))+)
qed

lemma pop_first_zset_wp:
  "tidy E st \<Longrightarrow> vals_ok (live E st) \<Longrightarrow> wp E (pops (set ks) (live E st)) (pop_first_zset E ks e st)"
proof (induction ks arbitrary: st)
  case Nil
  then show ?case by (simp add: wp_def)
next
  case (Cons k ks)
  have IH: "wp E (pops (set (k # ks)) (live E st)) (pop_first_zset E ks e st')"
    if "tidy E st'" "live E st' = live E st" for st'
    using Cons.IH [OF that(1)] Cons.prems(2) that(2) by (auto elim!: wp_weaken pops_mono)
  show ?case
    unfolding pop_first_zset.simps using Cons.prems
    by - ((rule wp wp_bind [OF pop_one_scored_wp] IH | assumption | (simp; fail))+)
qed

lemma mpop_zsets_wp:
  "tidy E st \<Longrightarrow> vals_ok (live E st) \<Longrightarrow> wp E (pops (set ks) (live E st)) (mpop_zsets E ks e cnt st)"
proof (induction ks arbitrary: st)
  case Nil
  then show ?case by (simp add: wp_def)
next
  case (Cons k ks)
  have IH: "wp E (pops (set (k # ks)) (live E st)) (mpop_zsets E ks e cnt st')"
    if "tidy E st'" "live E st' = live E st" for st'
    using Cons.IH [OF that(1)] Cons.prems(2) that(2) by (auto elim!: wp_weaken pops_mono)
  show ?case
    unfolding mpop_zsets.simps using Cons.prems
    by - ((rule wp wp_bind [OF pop_one_scored_wp] IH | assumption | (simp; fail))+)
qed

subsection \<open>Every command answers, parks or dies on its timeout\<close>

text \<open>The one panic left is the conversion of a timeout, so the effect is stated for the rest.\<close>

definition may_respond :: "env \<Rightarrow> bytes set \<Rightarrow> store \<Rightarrow> (store \<times> response) outcome \<Rightarrow> bool" where
  "may_respond E K st x \<longleftrightarrow> x = Panicked \<or> responds E K st x"

lemma responds_Done:
  "responds E K st (Done (s, r)) \<longleftrightarrow> (store_ok st \<longrightarrow> wp E (effect_resp K (live E st)) (s, r))"
  by (simp add: responds_def wpo_def)

lemma responds_same: "responds E K st (Done (st, r))"
  by (rule respondsI) ((rule wp | assumption | simp)+)

lemma answer_effect:
  assumes "pops K L M (Inr found)" and "\<not> is_error on_timeout"
  shows "effect_resp K L M (answer c av found ks due on_timeout)"
  using assms by (cases found) (auto simp: answer_def effect_resp_def)

lemma found_or_park_responds:
  assumes "store_ok st \<Longrightarrow> wp E (pops K (live E st)) x"
  shows "responds E K st (Done (found_or_park c av ks due x))"
proof -
  obtain s r where x: "x = (s, r)" by (cases x)
  show ?thesis
  proof (cases r)
    case (Inl e)
    with assms show ?thesis by (auto simp: x found_or_park_def responds_Done wp_def effect_resp_def)
  next
    case (Inr f)
    with assms show ?thesis
      by (auto simp: x found_or_park_def responds_Done wp_def intro!: answer_effect)
  qed
qed

lemma blocking_first_responds:
  assumes "\<And>ks. store_ok st \<Longrightarrow> wp E (pops (set ks) (live E st)) (pop ks st)"
  shows "may_respond E (set (take (length av - 2) (drop 1 av))) st (blocking_first E c name av pop st)"
  unfolding may_respond_def blocking_first_def
  by (auto simp: Let_def responds_same split: outcome.split sum.split intro!: found_or_park_responds assms)

lemma multi_key_keys:
  "parse_multi_key av i name = Inr q \<Longrightarrow> \<exists>n. parse_i64 (av ! i) = Some n \<and> 0 < n \<and> i < length av \<and>
     mk_keys q = take (nat n) (drop (i + 1) av)"
  by (auto simp: parse_multi_key_def Let_def split: option.splits if_splits)

definition multi_keys :: "bytes list \<Rightarrow> nat \<Rightarrow> bytes set" where
  "multi_keys av i =
     (case parse_i64 (av ! i) of None \<Rightarrow> {} | Some n \<Rightarrow> set (take (nat n) (drop (i + 1) av)))"

lemma mpop_responds:
  assumes "\<And>ks d n. store_ok st \<Longrightarrow> wp E (pops (set ks) (live E st)) (pop ks d n st)"
  shows "may_respond E (multi_keys av (if blocking then 2 else 1)) st (cmd_mpop E c blocking name av parse pop st)"
proof -
  have m: "set (mk_keys q) = multi_keys av i" if "parse_multi_key av i name = Inr q" for q i
    using multi_key_keys [OF that] by (auto simp: multi_keys_def)
  have w: "store_ok st \<Longrightarrow> wp E (pops (multi_keys av i) (live E st)) (pop (mk_keys q) d n st)"
    if "parse_multi_key av i name = Inr q" for q d n i
    using assms [of "mk_keys q" d n] m [OF that] by simp
  have plain: "responds E (multi_keys av i) st (Done (case pop (mk_keys q) d n st of
        (st, Inl e) \<Rightarrow> (st, resp_new e)
      | (st, Inr found) \<Rightarrow> (st, resp_new (case found of None \<Rightarrow> NilArray | Some r \<Rightarrow> r))))"
    if "parse_multi_key av i name = Inr q" for q d n i
    using w [OF that, of d n]
    by (auto simp: responds_Done wp_def effect_resp_def split: prod.split sum.split option.split)
  show ?thesis
    unfolding may_respond_def cmd_mpop_def
    by (auto simp: Let_def responds_same split: outcome.split sum.split option.split
        intro!: found_or_park_responds w plain)
qed

lemma wpo_move_or_none:
  assumes "tidy E st" and "vals_ok (live E st)" and "has_type TList (live E st dest)"
  shows "wpo E (\<lambda>M r. vals_ok M \<and> (\<forall>k. k \<noteq> src \<longrightarrow> k \<noteq> dest \<longrightarrow> M k = live E st k) \<and> (r = None \<longrightarrow> M = live E st))
    (move_one E src dest a b st)"
  unfolding move_one_def
  by ((rule wp assms(1) | assumption | rule wp_let | (cases "src = dest"; use assms in auto; fail))+)

lemma blmove_responds: "may_respond E {av ! 1, av ! 2} st (cmd_blmove E c name av st)"
proof -
  have "responds E {av ! 1, av ! 2} st
    (let (st, good) = check_type E (av ! 1) TList st
     in if \<not> good then Done (st, resp_new wrongtype)
        else
          (let (st, good) = check_type E (av ! 2) TList st
           in if \<not> good then Done (st, resp_new wrongtype)
              else (case move_one E (av ! 1) (av ! 2) frm dst st of
                      Panicked \<Rightarrow> Panicked
                    | Done (st, found) \<Rightarrow> Done (st, answer c av (map_option Bulk found) [av ! 1] due RNil))))"
    for frm dst due
    by (rule respondsI) ((rule wp wpo_bind [OF wpo_move_or_none] | assumption
        | (simp add: answer_def split: option.splits; fail) | (auto simp: answer_def split: option.splits; fail))+)
  then show ?thesis
    unfolding may_respond_def cmd_blmove_def
    by (auto simp: responds_same split: outcome.split sum.split option.split)
qed

definition blocking_keys :: "bytes \<Rightarrow> bytes list \<Rightarrow> bytes set" where
  "blocking_keys name av =
     (if name \<in> {''BLPOP'', ''BRPOP'', ''BZPOPMIN'', ''BZPOPMAX''} then set (take (length av - 2) (drop 1 av))
      else if name \<in> {''BLMOVE'', ''BRPOPLPUSH''} then {av ! 1, av ! 2}
      else if name \<in> {''LMPOP'', ''ZMPOP''} then multi_keys av 1
      else if name \<in> {''BLMPOP'', ''BZMPOP''} then multi_keys av 2
      else {})"

lemma blocking_responds: "may_respond E (blocking_keys name av) st (blocking_cmd E c name av st)"
proof -
  have s: "store_ok st \<Longrightarrow> tidy E st" "store_ok st \<Longrightarrow> vals_ok (live E st)" by (rule store_okD, assumption)+
  have f: "may_respond E (set (take (length av - 2) (drop 1 av))) st
      (blocking_first E c n av (\<lambda>ks. pop_first_list E ks sd) st)"
    "may_respond E (set (take (length av - 2) (drop 1 av))) st
      (blocking_first E c n av (\<lambda>ks. pop_first_zset E ks ed) st)" for sd ed n
    by (intro blocking_first_responds pop_first_list_wp pop_first_zset_wp s; assumption)+
  have m: "may_respond E (multi_keys av (if b then 2 else 1)) st (cmd_mpop E c b n av side_parse (mpop_lists E) st)"
    "may_respond E (multi_keys av (if b then 2 else 1)) st (cmd_mpop E c b n av edge_parse (mpop_zsets E) st)" for b n
    by (intro mpop_responds mpop_lists_wp mpop_zsets_wp s; assumption)+
  note r = f blmove_responds m [of True, unfolded if_True] m [of False, unfolded if_False]
  have same: "may_respond E K st (Done (st, x))" for K x by (simp add: may_respond_def responds_same)
  show ?thesis
    unfolding blocking_cmd_def blocking_keys_def
    by (simp add: same r del: One_nat_def)
qed

text \<open>The table of written keys covers what a blocking command may pop.\<close>

definition answers_error :: "(store \<times> response) outcome \<Rightarrow> bool" where
  "answers_error x \<longleftrightarrow> (\<exists>st e. x = Done (st, resp_new e) \<and> is_error e)"

lemma answers_errorI [simp]: "is_error e \<Longrightarrow> answers_error (Done (st, resp_new e))"
  by (auto simp: answers_error_def)

lemma written_range:
  "map_of WRITES name = Some all_but_timeout \<Longrightarrow> written_set name av = set (take (length av - 2) (drop 1 av))"
  by (simp add: written_set_def written_keys_def keys_at_def all_but_timeout_def drop_take nat_diff_distrib' numeral_2_eq_2)

lemma written_numkeys:
  "map_of WRITES name = Some (Numkeys i) \<Longrightarrow> i < length av \<Longrightarrow> multi_keys av i \<subseteq> written_set name av"
  by (auto simp: written_set_def written_keys_def keys_at_def multi_keys_def max_def split: option.splits)

lemma written_two:
  "map_of WRITES name = Some two_keys \<Longrightarrow> 2 < length av \<Longrightarrow> {av ! 1, av ! 2} \<subseteq> written_set name av"
  by (simp add: written_set_def written_keys_def keys_at_simps)

lemma blocking_table:
  "map_of WRITES ''BLPOP'' = Some all_but_timeout" "map_of WRITES ''BRPOP'' = Some all_but_timeout"
  "map_of WRITES ''BZPOPMIN'' = Some all_but_timeout" "map_of WRITES ''BZPOPMAX'' = Some all_but_timeout"
  "map_of WRITES ''BLMOVE'' = Some two_keys" "map_of WRITES ''BRPOPLPUSH'' = Some two_keys"
  "map_of WRITES ''LMPOP'' = Some (Numkeys 1)" "map_of WRITES ''ZMPOP'' = Some (Numkeys 1)"
  "map_of WRITES ''BLMPOP'' = Some (Numkeys 2)" "map_of WRITES ''BZMPOP'' = Some (Numkeys 2)"
  by code_simp+

lemma blocking_covered:
  "blocking_cmd E c name av st = Panicked \<or> answers_error (blocking_cmd E c name av st) \<or>
   blocking_keys name av \<subseteq> written_set name av"
proof -
  have move: "answers_error (cmd_blmove E c n av st) \<or> 2 < length av" for n
    by (auto simp: cmd_blmove_def exact_args_def split: if_splits)
  have mpop: "answers_error (cmd_mpop E c b n av parse pop st) \<or> (if b then 2 else 1) < length av"
    for b n and parse :: "bytes \<Rightarrow> 'd option" and pop
    by (auto simp: cmd_mpop_def min_args_def)
  consider "name \<in> {''BLPOP'', ''BRPOP'', ''BZPOPMIN'', ''BZPOPMAX''}" | "name \<in> {''BLMOVE'', ''BRPOPLPUSH''}"
    | "name = ''LMPOP''" | "name = ''ZMPOP''" | "name = ''BLMPOP''" | "name = ''BZMPOP''"
    | "name \<notin> {''BLPOP'', ''BRPOP'', ''BZPOPMIN'', ''BZPOPMAX'', ''BLMOVE'', ''BRPOPLPUSH'', ''LMPOP'', ''ZMPOP'',
        ''BLMPOP'', ''BZMPOP''}"
    unfolding insert_iff empty_iff by argo
  then show ?thesis
  proof cases
    case 1
    then have "map_of WRITES name = Some all_but_timeout" by (elim insertE emptyE) (simp_all only: blocking_table)
    moreover have "blocking_keys name av = set (take (length av - 2) (drop 1 av))"
      using 1 by (simp only: blocking_keys_def if_True)
    ultimately show ?thesis using written_range by simp
  next
    case 2
    then have "map_of WRITES name = Some two_keys" by (elim insertE emptyE) (simp_all only: blocking_table)
    moreover have "blocking_keys name av = {av ! 1, av ! 2}" "blocking_cmd E c name av st = cmd_blmove E c name av st"
      using 2 by (elim insertE emptyE; simp add: blocking_keys_def blocking_cmd_def)+
    ultimately show ?thesis using written_two [of name av] move [of name] by metis
  next
    case 3
    then have "blocking_cmd E c name av st = cmd_mpop E c False name av side_parse (mpop_lists E) st"
      "blocking_keys name av = multi_keys av 1" "map_of WRITES name = Some (Numkeys 1)"
      by (simp_all add: blocking_cmd_def blocking_keys_def blocking_table)
    with written_numkeys [of name 1 av] mpop [of False name side_parse "mpop_lists E"] show ?thesis
      unfolding if_True if_False by metis
  next
    case 4
    then have "blocking_cmd E c name av st = cmd_mpop E c False name av edge_parse (mpop_zsets E) st"
      "blocking_keys name av = multi_keys av 1" "map_of WRITES name = Some (Numkeys 1)"
      by (simp_all add: blocking_cmd_def blocking_keys_def blocking_table)
    with written_numkeys [of name 1 av] mpop [of False name edge_parse "mpop_zsets E"] show ?thesis
      unfolding if_True if_False by metis
  next
    case 5
    then have "blocking_cmd E c name av st = cmd_mpop E c True name av side_parse (mpop_lists E) st"
      "blocking_keys name av = multi_keys av 2" "map_of WRITES name = Some (Numkeys 2)"
      by (simp_all add: blocking_cmd_def blocking_keys_def blocking_table)
    with written_numkeys [of name 2 av] mpop [of True name side_parse "mpop_lists E"] show ?thesis
      unfolding if_True if_False by metis
  next
    case 6
    then have "blocking_cmd E c name av st = cmd_mpop E c True name av edge_parse (mpop_zsets E) st"
      "blocking_keys name av = multi_keys av 2" "map_of WRITES name = Some (Numkeys 2)"
      by (simp_all add: blocking_cmd_def blocking_keys_def blocking_table)
    with written_numkeys [of name 2 av] mpop [of True name edge_parse "mpop_zsets E"] show ?thesis
      unfolding if_True if_False by metis
  next
    case 7
    then show ?thesis by (simp add: blocking_keys_def)
  qed
qed

subsection \<open>The first key that has something is served\<close>

definition serves_first ::
    "side \<Rightarrow> bytes list \<Rightarrow> (bytes \<Rightarrow> datum option) \<Rightarrow> (bytes \<Rightarrow> datum option) \<Rightarrow> reply option \<Rightarrow> bool" where
  "serves_first s ks L M r \<longleftrightarrow>
     (case List.find (\<lambda>k. L k \<noteq> None) ks of
        None \<Rightarrow> r = None \<and> M = L
      | Some k \<Rightarrow> \<exists>l t v l'. L k = Some (VList l, t) \<and> pop_from s l = (Some v, l') \<and>
          r = Some (Array [Bulk k, Bulk v]) \<and> M = L(k := if l' = [] then None else Some (VList l', t)))"

lemma pop_one_exact:
  assumes "store_ok st" and "has_type TList (live E st k)"
  shows "wp E (\<lambda>M r. case live E st k of None \<Rightarrow> r = None \<and> M = live E st
     | Some d \<Rightarrow> \<exists>l t v l'. d = (VList l, t) \<and> pop_from s l = (Some v, l') \<and> r = Some v \<and>
         M = (live E st)(k := if l' = [] then None else Some (VList l', t))) (pop_one E k s st)"
proof -
  note ok = store_okD [OF assms(1)]
  show ?thesis
  proof (cases "live E st k")
    case None
    with ok(2) show ?thesis
      unfolding pop_one_def by - ((rule wp | assumption | (simp; fail))+)
  next
    case (Some d)
    then obtain l t where l: "live E st k = Some (VList l, t)"
      using assms(2) by (cases d; cases "fst d") (auto simp: has_type_def)
    moreover obtain v l' where "pop_from s l = (Some v, l')"
      using vals_okD [OF ok(3) l] by (cases l; cases s) (auto simp: pop_from_def)
    ultimately show ?thesis
      unfolding pop_one_def using ok(2)
      by - ((rule wp | assumption | rule wp_let | (simp; fail) | (simp split: if_splits; fail))+)
  qed
qed

lemma pop_first_list_exact:
  assumes "store_ok st" and "\<forall>k \<in> set ks. has_type TList (live E st k)"
  shows "wp E (\<lambda>M r. \<exists>x. r = Inr x \<and> serves_first s ks (live E st) M x) (pop_first_list E ks s st)"
  using assms
proof (induction ks arbitrary: st)
  case Nil
  then show ?case using store_okD(2) by (simp add: wp_def serves_first_def)
next
  case (Cons k ks)
  note ok = store_okD [OF Cons.prems(1)]
  have IH: "wp E (\<lambda>M r. \<exists>x. r = Inr x \<and> serves_first s ks (live E st) M x) (pop_first_list E ks s st')"
    if "tidy E st'" "live E st' = live E st" for st'
    using Cons.IH [of st'] tidy_store_ok [OF that(1)] ok(3) Cons.prems(2) that(2) by simp
  have skip: "serves_first s (k # ks) L M x = serves_first s ks L M x" if "L k = None" for L M x
    using that by (simp add: serves_first_def)
  obtain st1 g where c: "check_type E k TList st = (st1, g)" by fastforce
  have c1: "tidy E st1" "live E st1 = live E st" g
    using step_check_type [OF ok(2) [of E], where P = "\<lambda>x. tidy E (fst x) \<and> live E (fst x) = live E st \<and> snd x" and f = Pair and T = TList and k = k]
      Cons.prems(2) c by auto
  obtain st2 p where p: "pop_one E k s st1 = (st2, p)" by fastforce
  have s1: "store_ok st1" using tidy_store_ok [OF c1(1)] c1(2) ok(3) by simp
  have t1: "has_type TList (live E st1 k)" using c1(2) Cons.prems(2) by simp
  note w = pop_one_exact [OF s1 t1, where s = s, unfolded p wp_def fst_conv snd_conv c1(2)]
  note p1 = w [THEN conjunct1] w [THEN conjunct2]
  have x: "pop_first_list E (k # ks) s st =
      (case p of Some v \<Rightarrow> (st2, Inr (Some (Array [Bulk k, Bulk v]))) | None \<Rightarrow> pop_first_list E ks s st2)"
    using c c1(3) p by simp
  show ?case
  proof (cases "live E st k")
    case None
    with p1 IH [of st2] show ?thesis unfolding x by (simp add: skip)
  next
    case (Some d)
    then have f: "List.find (\<lambda>k. live E st k \<noteq> None) (k # ks) = Some k" by simp
    obtain l t v l' where e: "d = (VList l, t)" "pop_from s l = (Some v, l')" "p = Some v"
      "live E st2 = (live E st)(k := if l' = [] then None else Some (VList l', t))"
      using p1(2) unfolding Some option.case by blast
    have "serves_first s (k # ks) (live E st) (live E st2) (Some (Array [Bulk k, Bulk v]))"
      unfolding serves_first_def f option.case using Some e by blast
    with p1(1) show ?thesis unfolding x e(3) by (simp add: wp_def)
  qed
qed

subsection \<open>Properties\<close>



text \<open>
  C32. The exact condition under which BLPOP takes the server down: a finite timeout so large
  that the clock plus it does not fit an instant panics, before any key is looked at; nothing
  else in the command can.
\<close>
theorem blpop_panics_on_huge_timeout:
  "blocking_cmd E c ''BLPOP'' av st = Panicked \<longleftrightarrow>
     length av > 2 \<and> (\<exists>q. parse_f64 (last av) = Some (Fin q) \<and> q > 0 \<and>
       (mono E + round_half_even (q * 1000000000)) div 1000000000 > 9223372036854775807)"
proof -
  have p: "parse_timeout E arg = Panicked \<longleftrightarrow> (\<exists>q. parse_f64 arg = Some (Fin q) \<and> q > 0 \<and>
       (mono E + round_half_even (q * 1000000000)) div 1000000000 > 9223372036854775807)" for arg
    by (cases "parse_f64 arg"; cases "the (parse_f64 arg)")
      (auto simp: parse_timeout_def instant_after_def Let_def fless_def feq_def i64_max_def
        split: if_splits outcome.splits)
  show ?thesis
    unfolding p [symmetric] blocking_cmd_def blocking_first_def min_args_def
    by (simp add: Let_def split: outcome.split sum.split)
qed

end
