(* ===== verification/CmdPubSub.thy ===== *)
theory CmdPubSub
  imports Response
begin

text \<open>
  \<^verbatim>\<open>src/commands/pubsub.rs\<close>: subscribing, which changes the connection and the registry together, and
  publishing, which sends frames to other connections through the outbox.
\<close>

definition confirmation :: "bytes \<Rightarrow> reply \<Rightarrow> client \<Rightarrow> reply" where
  "confirmation kind name c = reply_push kind [name, of_int_reply (subscription_count c)]"

subsection \<open>Subscribing\<close>

text \<open>One name: the connection's own set decides whether the registry has to hear of it.\<close>

definition subscribe_one :: "bool \<Rightarrow> bytes \<Rightarrow> app \<times> client \<Rightarrow> app \<times> client" where
  "subscribe_one patterns n ac =
     (let (a, c) = ac
      in if patterns then
           (if n \<in> set (cl_patterns c) then (a, c)
            else (a\<lparr>pubsub := psubscribe n (cl_id c) (pubsub a)\<rparr>,
                  c\<lparr>cl_patterns := insort_insert n (cl_patterns c)\<rparr>))
         else
           (if n \<in> set (cl_channels c) then (a, c)
            else (a\<lparr>pubsub := subscribe n (cl_id c) (pubsub a)\<rparr>,
                  c\<lparr>cl_channels := insort_insert n (cl_channels c)\<rparr>)))"

fun subscribe_all :: "bool \<Rightarrow> bytes list \<Rightarrow> app \<times> client \<Rightarrow> (app \<times> client) \<times> reply list" where
  "subscribe_all patterns [] ac = (ac, [])"
| "subscribe_all patterns (n # ns) ac =
     (let ac = subscribe_one patterns n ac;
          frame = confirmation (if patterns then ''psubscribe'' else ''subscribe'') (Bulk n) (snd ac);
          (ac, frames) = subscribe_all patterns ns ac
      in (ac, frame # frames))"

definition unsubscribe_one :: "bool \<Rightarrow> bytes \<Rightarrow> app \<times> client \<Rightarrow> app \<times> client" where
  "unsubscribe_one patterns n ac =
     (let (a, c) = ac
      in if patterns then
           (if n \<in> set (cl_patterns c)
            then (a\<lparr>pubsub := punsubscribe n (cl_id c) (pubsub a)\<rparr>, c\<lparr>cl_patterns := remove1 n (cl_patterns c)\<rparr>)
            else (a, c))
         else
           (if n \<in> set (cl_channels c)
            then (a\<lparr>pubsub := unsubscribe n (cl_id c) (pubsub a)\<rparr>, c\<lparr>cl_channels := remove1 n (cl_channels c)\<rparr>)
            else (a, c)))"

fun unsubscribe_each :: "bool \<Rightarrow> bytes list \<Rightarrow> app \<times> client \<Rightarrow> (app \<times> client) \<times> reply list" where
  "unsubscribe_each patterns [] ac = (ac, [])"
| "unsubscribe_each patterns (n # ns) ac =
     (let ac = unsubscribe_one patterns n ac;
          frame = confirmation (if patterns then ''punsubscribe'' else ''unsubscribe'') (Bulk n) (snd ac);
          (ac, frames) = unsubscribe_each patterns ns ac
      in (ac, frame # frames))"

definition unsubscribe_all :: "bool \<Rightarrow> bytes list \<Rightarrow> app \<times> client \<Rightarrow> (app \<times> client) \<times> reply list" where
  "unsubscribe_all patterns names ac =
     (let targets = (if names \<noteq> [] then names
                     else if patterns then cl_patterns (snd ac) else cl_channels (snd ac))
      in if targets = []
         then (ac, [confirmation (if patterns then ''punsubscribe'' else ''unsubscribe'') RNil (snd ac)])
         else unsubscribe_each patterns targets ac)"

subsection \<open>Publishing and introspection\<close>

definition cmd_publish :: "bytes \<Rightarrow> bytes \<Rightarrow> app \<Rightarrow> client \<Rightarrow> app \<times> response" where
  "cmd_publish channel payload a c =
     (let deliveries = publish channel payload (pubsub a);
          a = a\<lparr>stats := (stats a)\<lparr>messages_published := messages_published (stats a) + 1\<rparr>\<rparr>;
          a = a\<lparr>outbox := outbox a @ filter (\<lambda>(i, _). i \<noteq> cl_id c) deliveries\<rparr>
      in (a, resp_frames (map snd (filter (\<lambda>(i, _). i = cl_id c) deliveries)
                          @ [of_int_reply (length deliveries)])))"

definition introspect :: "bytes list \<Rightarrow> app \<Rightarrow> reply" where
  "introspect av a =
     (let sub = to_upper (av ! 1)
      in if sub = ''CHANNELS'' then
           (if length av = 2 then bulk_array (active_channels None (pubsub a))
            else if length av = 3 then bulk_array (active_channels (Some (av ! 2)) (pubsub a))
            else wrong_arity ''pubsub|channels'')
         else if sub = ''NUMSUB'' then
           Map (map (\<lambda>ch. (Bulk ch, of_int_reply (subscriber_count ch (pubsub a)))) (drop 2 av))
         else if sub = ''NUMPAT'' then of_int_reply (pattern_count (pubsub a))
         else Error (''ERR Unknown PUBSUB subcommand or wrong number of arguments for '' @ [CHR 0x27] @ sub
                     @ [CHR 0x27]))"

definition pubsub_cmd :: "bytes \<Rightarrow> bytes list \<Rightarrow> app \<Rightarrow> client \<Rightarrow> (app \<times> client) \<times> response" where
  "pubsub_cmd name av a c =
     (if name \<in> {''SUBSCRIBE'', ''PSUBSCRIBE''} then
        (if \<not> min_args av 1 then ((a, c), resp_new (wrong_arity name))
         else (let (ac, frames) = subscribe_all (name = ''PSUBSCRIBE'') (drop 1 av) (a, c)
               in (ac, resp_frames frames)))
      else if name \<in> {''UNSUBSCRIBE'', ''PUNSUBSCRIBE''} then
        (let (ac, frames) = unsubscribe_all (name = ''PUNSUBSCRIBE'') (drop 1 av) (a, c)
         in (ac, resp_frames frames))
      else if name = ''PUBLISH'' then
        (if \<not> exact_args av 2 then ((a, c), resp_new (wrong_arity name))
         else (let (a, r) = cmd_publish (av ! 1) (av ! 2) a c in ((a, c), r)))
      else if name = ''PUBSUB'' then
        (if \<not> min_args av 1 then ((a, c), resp_new (wrong_arity name))
         else ((a, c), resp_new (introspect av a)))
      else ((a, c), resp_new unknown_in_family))"

subsection \<open>Connections and registry agree\<close>

text \<open>What a connection believes it is subscribed to is what the registry delivers to it.\<close>

definition agrees :: "pubsub \<Rightarrow> client \<Rightarrow> bool" where
  "agrees p c \<longleftrightarrow> set (cl_channels c) = subs.held (cl_id c) (chans p) \<and>
     set (cl_patterns c) = subs.held (cl_id c) (pats p) \<and> distinct (cl_channels c) \<and> distinct (cl_patterns c)"

text \<open>What an operation of one connection may do to the registry.\<close>

definition own_change :: "app \<times> client \<Rightarrow> app \<times> client \<Rightarrow> bool" where
  "own_change x y \<longleftrightarrow>
     cl_id (snd y) = cl_id (snd x) \<and> pubsub_wf (pubsub (fst y)) \<and> agrees (pubsub (fst y)) (snd y) \<and>
     (\<forall>d. cl_id d \<noteq> cl_id (snd x) \<longrightarrow> agrees (pubsub (fst y)) d = agrees (pubsub (fst x)) d) \<and>
     (fst y)\<lparr>pubsub := pubsub (fst x)\<rparr> = fst x \<and>
     (snd y)\<lparr>cl_channels := cl_channels (snd x), cl_patterns := cl_patterns (snd x)\<rparr> = snd x"

lemma own_change_refl: "pubsub_wf (pubsub a) \<Longrightarrow> agrees (pubsub a) c \<Longrightarrow> own_change (a, c) (a, c)"
  by (simp add: own_change_def)

lemma own_change_trans:
  assumes "own_change x y" and "own_change y z"
  shows "own_change x z"
proof -
  have "(fst z)\<lparr>pubsub := pubsub (fst x)\<rparr> = ((fst z)\<lparr>pubsub := pubsub (fst y)\<rparr>)\<lparr>pubsub := pubsub (fst x)\<rparr>"
    by simp
  also have "\<dots> = fst x" using assms by (simp only: own_change_def)
  finally have a: "(fst z)\<lparr>pubsub := pubsub (fst x)\<rparr> = fst x" .
  have "(snd z)\<lparr>cl_channels := cl_channels (snd x), cl_patterns := cl_patterns (snd x)\<rparr> =
      ((snd z)\<lparr>cl_channels := cl_channels (snd y), cl_patterns := cl_patterns (snd y)\<rparr>)
        \<lparr>cl_channels := cl_channels (snd x), cl_patterns := cl_patterns (snd x)\<rparr>"
    by simp
  also have "\<dots> = snd x" using assms by (simp only: own_change_def)
  finally show ?thesis using a assms by (simp add: own_change_def)
qed

lemma own_change_wf: "own_change x y \<Longrightarrow> pubsub_wf (pubsub (fst y)) \<and> agrees (pubsub (fst y)) (snd y)"
  by (simp add: own_change_def)

lemma registry_ops [simp]:
  "chans (subscribe n i p) = table_add n i (chans p)" "pats (subscribe n i p) = pats p"
  "chans (unsubscribe n i p) = table_remove n i (chans p)" "pats (unsubscribe n i p) = pats p"
  "pats (psubscribe n i p) = table_add n i (pats p)" "chans (psubscribe n i p) = chans p"
  "pats (punsubscribe n i p) = table_remove n i (pats p)" "chans (punsubscribe n i p) = chans p"
  by (simp_all add: subscribe_def unsubscribe_def psubscribe_def punsubscribe_def)

lemma subscribe_one_change:
  assumes "pubsub_wf (pubsub a)" and "agrees (pubsub a) c"
  shows "own_change (a, c) (subscribe_one pt n (a, c))"
proof -
  have w: "subs_wf (chans (pubsub a))" "subs_wf (pats (pubsub a))" using assms(1) by (simp_all add: pubsub_wf_def)
  note h = subs.held_add [OF w(1)] subs.held_add [OF w(2)]
  have "agrees (psubscribe n (cl_id c) (pubsub a)) (c\<lparr>cl_patterns := insort_insert n (cl_patterns c)\<rparr>)"
    "agrees (subscribe n (cl_id c) (pubsub a)) (c\<lparr>cl_channels := insort_insert n (cl_channels c)\<rparr>)"
    using assms(2) by (simp_all add: agrees_def h set_insort_insert distinct_insort_insert)
  moreover have "cl_id d \<noteq> cl_id c \<Longrightarrow> agrees (psubscribe n (cl_id c) (pubsub a)) d = agrees (pubsub a) d"
    "cl_id d \<noteq> cl_id c \<Longrightarrow> agrees (subscribe n (cl_id c) (pubsub a)) d = agrees (pubsub a) d" for d
    by (simp_all add: agrees_def h)
  ultimately show ?thesis
    using assms own_change_refl [OF assms] by (simp add: subscribe_one_def own_change_def)
qed

lemma unsubscribe_one_change:
  assumes "pubsub_wf (pubsub a)" and "agrees (pubsub a) c"
  shows "own_change (a, c) (unsubscribe_one pt n (a, c))"
proof -
  have w: "subs_wf (chans (pubsub a))" "subs_wf (pats (pubsub a))" using assms(1) by (simp_all add: pubsub_wf_def)
  note h = subs.held_remove [OF w(1)] subs.held_remove [OF w(2)]
  have "agrees (punsubscribe n (cl_id c) (pubsub a)) (c\<lparr>cl_patterns := remove1 n (cl_patterns c)\<rparr>)"
    "agrees (unsubscribe n (cl_id c) (pubsub a)) (c\<lparr>cl_channels := remove1 n (cl_channels c)\<rparr>)"
    using assms(2) by (simp_all add: agrees_def h)
  moreover have "cl_id d \<noteq> cl_id c \<Longrightarrow> agrees (punsubscribe n (cl_id c) (pubsub a)) d = agrees (pubsub a) d"
    "cl_id d \<noteq> cl_id c \<Longrightarrow> agrees (unsubscribe n (cl_id c) (pubsub a)) d = agrees (pubsub a) d" for d
    by (simp_all add: agrees_def h)
  ultimately show ?thesis
    using assms own_change_refl [OF assms] by (simp add: unsubscribe_one_def own_change_def)
qed

lemma subscribe_all_change:
  "pubsub_wf (pubsub (fst x)) \<Longrightarrow> agrees (pubsub (fst x)) (snd x) \<Longrightarrow> own_change x (fst (subscribe_all pt ns x))"
proof (induction ns arbitrary: x)
  case Nil
  then show ?case using own_change_refl by (cases x) simp
next
  case (Cons n ns)
  have s: "own_change x (subscribe_one pt n x)" using Cons.prems subscribe_one_change by (cases x) simp
  note own_change_trans [OF s Cons.IH [OF own_change_wf [OF s, THEN conjunct1] own_change_wf [OF s, THEN conjunct2]]]
  then show ?case by (simp add: Let_def case_prod_beta)
qed

lemma unsubscribe_each_change:
  "pubsub_wf (pubsub (fst x)) \<Longrightarrow> agrees (pubsub (fst x)) (snd x) \<Longrightarrow> own_change x (fst (unsubscribe_each pt ns x))"
proof (induction ns arbitrary: x)
  case Nil
  then show ?case using own_change_refl by (cases x) simp
next
  case (Cons n ns)
  have s: "own_change x (unsubscribe_one pt n x)" using Cons.prems unsubscribe_one_change by (cases x) simp
  note own_change_trans [OF s Cons.IH [OF own_change_wf [OF s, THEN conjunct1] own_change_wf [OF s, THEN conjunct2]]]
  then show ?case by (simp add: Let_def case_prod_beta)
qed

text \<open>A pub/sub command touches the registry, the outbox and the message counter, nothing else shared.\<close>

lemma pubsub_cmd_spec:
  assumes "pubsub_wf (pubsub a)" and "agrees (pubsub a) c" and "pubsub_cmd name av a c = ((a', c'), r)"
  shows "pubsub_wf (pubsub a')" and "agrees (pubsub a') c'"
    and "\<And>d. cl_id d \<noteq> cl_id c \<Longrightarrow> agrees (pubsub a') d = agrees (pubsub a) d"
    and "store a' = store a" "config a' = config a" "watch a' = watch a" "waiting a' = waiting a"
      "ready_keys a' = ready_keys a" "next_client_id a' = next_client_id a"
    and "c'\<lparr>cl_channels := cl_channels c, cl_patterns := cl_patterns c\<rparr> = c"
proof -
  have o: "own_change (a, c) (a, c)" using own_change_refl assms(1,2) .
  note s = subscribe_all_change [of "(a, c)", simplified, OF assms(1,2)]
    unsubscribe_each_change [of "(a, c)", simplified, OF assms(1,2)]
  have u: "own_change (a, c) (fst (unsubscribe_all pt ns (a, c)))" for pt ns
    using s(2) o by (simp add: unsubscribe_all_def Let_def)
  have "own_change (a, c) (a', c') \<or> name = ''PUBLISH'' \<and> c' = c \<and>
      a' = fst (cmd_publish (av ! 1) (av ! 2) a c)"
  proof (cases "name = ''PUBLISH''")
    case True
    with assms(3) o show ?thesis
      by (cases "exact_args av 2") (auto simp: pubsub_cmd_def case_prod_beta)
  next
    case False
    have "fst (pubsub_cmd name av a c) \<in>
        {(a, c), fst (subscribe_all (name = ''PSUBSCRIBE'') (drop 1 av) (a, c)),
         fst (unsubscribe_all (name = ''PUNSUBSCRIBE'') (drop 1 av) (a, c))}"
      using False by (simp add: pubsub_cmd_def case_prod_beta)
    with o s(1) u assms(3) show ?thesis by (metis empty_iff fst_conv insertE)
  qed
  then have "\<exists>b. own_change (a, c) (b, c') \<and> store a' = store b \<and> config a' = config b \<and> watch a' = watch b \<and>
      waiting a' = waiting b \<and> ready_keys a' = ready_keys b \<and> next_client_id a' = next_client_id b \<and> pubsub a' = pubsub b"
    using o by (elim disjE conjE exE) (blast, rule exI [of _ a], simp add: cmd_publish_def Let_def)
  then obtain b where b: "own_change (a, c) (b, c')" "store a' = store b" "config a' = config b" "watch a' = watch b"
    "waiting a' = waiting b" "ready_keys a' = ready_keys b" "next_client_id a' = next_client_id b"
    "pubsub a' = pubsub b" by blast
  have e: "b\<lparr>pubsub := pubsub a\<rparr> = a" using b(1) by (simp add: own_change_def)
  have "store b = store (b\<lparr>pubsub := pubsub a\<rparr>)" "config b = config (b\<lparr>pubsub := pubsub a\<rparr>)"
    "watch b = watch (b\<lparr>pubsub := pubsub a\<rparr>)" "waiting b = waiting (b\<lparr>pubsub := pubsub a\<rparr>)"
    "ready_keys b = ready_keys (b\<lparr>pubsub := pubsub a\<rparr>)"
    "next_client_id b = next_client_id (b\<lparr>pubsub := pubsub a\<rparr>)" by simp_all
  then show "store a' = store a" "config a' = config a" "watch a' = watch a" "waiting a' = waiting a"
      "ready_keys a' = ready_keys a" "next_client_id a' = next_client_id a" using b unfolding e by simp_all
  show "pubsub_wf (pubsub a')" "agrees (pubsub a') c'"
    "\<And>d. cl_id d \<noteq> cl_id c \<Longrightarrow> agrees (pubsub a') d = agrees (pubsub a) d"
    "c'\<lparr>cl_channels := cl_channels c, cl_patterns := cl_patterns c\<rparr> = c"
    using b(1,8) by (simp_all add: own_change_def)
qed

end
