(* ===== verification/CmdServer.thy ===== *)
theory CmdServer
  imports Response
begin

text \<open>
  \<^verbatim>\<open>src/commands/server.rs\<close>: connection and lifecycle commands, INFO and CONFIG. The heap size of a
  memory index depends on the capacity of its vectors, which is a parameter; the allocator's
  figures are part of the environment.
\<close>

subsection \<open>Connections\<close>

definition KLYRO_VERSION :: bytes where "KLYRO_VERSION = ''0.1.1''"
definition REDIS_COMPAT_VERSION :: bytes where "REDIS_COMPAT_VERSION = ''7.0.0''"

definition negotiated_protocol :: "bytes list \<Rightarrow> protocol" where
  "negotiated_protocol av =
     (if length av \<le> 1 then Resp2
      else case Option.bind (parse_i64 (av ! 1)) protocol_from_version of
             None \<Rightarrow> Resp2 | Some p \<Rightarrow> p)"

definition hello :: "client \<Rightarrow> bytes list \<Rightarrow> reply" where
  "hello c av =
     (case (if length av \<le> 1 then Some Resp2
            else Option.bind (parse_i64 (av ! 1)) protocol_from_version) of
        None \<Rightarrow> Error ''NOPROTO unsupported protocol version''
      | Some p \<Rightarrow>
          Map [(Bulk ''server'', Bulk ''klyro''), (Bulk ''version'', Bulk KLYRO_VERSION),
               (Bulk ''proto'', Integer (protocol_version p)), (Bulk ''id'', of_int_reply (cl_id c)),
               (Bulk ''mode'', Bulk ''standalone''), (Bulk ''role'', Bulk ''master''),
               (Bulk ''modules'', Array [])])"

definition client_line :: "env \<Rightarrow> client \<Rightarrow> bytes" where
  "client_line E c =
     ''id='' @ nat_str (cl_id c) @ '' addr='' @ cl_addr c @ '' name='' @ to_display (cl_name c)
     @ '' age='' @ int_str (max 0 (mono E - cl_created c) div 1000000000)
     @ '' resp='' @ int_str (protocol_version (cl_protocol c))
     @ '' db=0 sub='' @ nat_str (length (cl_channels c)) @ '' psub='' @ nat_str (length (cl_patterns c))
     @ '' multi='' @ (case cl_tx c of None \<Rightarrow> ''-1'' | Some t \<Rightarrow> nat_str (length (queued t)))
     @ '' watch='' @ nat_str (length (cl_watched c)) @ '' cmd=client|info''"

definition client_command :: "env \<Rightarrow> bytes list \<Rightarrow> client \<Rightarrow> client \<times> reply" where
  "client_command E av c =
     (if \<not> min_args av 1 then (c, wrong_arity ''CLIENT'')
      else
        (let sub = to_upper (av ! 1)
         in if sub = ''ID'' then (c, of_int_reply (cl_id c))
            else if sub = ''GETNAME'' then (c, if cl_name c = [] then RNil else Bulk (cl_name c))
            else if sub = ''SETNAME'' then
              (if \<not> exact_args av 2 then (c, wrong_arity ''CLIENT|SETNAME'')
               else if list_ex is_ascii_whitespace (av ! 2)
               then (c, Error ''ERR Client names cannot contain spaces, newlines or special characters.'')
               else (c\<lparr>cl_name := av ! 2\<rparr>, reply_ok))
            else if sub = ''SETINFO'' then
              (if \<not> exact_args av 3 then (c, wrong_arity ''CLIENT|SETINFO'') else (c, reply_ok))
            else if sub = ''INFO'' then (c, Bulk (client_line E c))
            else (c, Error (''ERR Unknown CLIENT subcommand or wrong number of arguments for '' @ [CHR 0x27] @ sub
                            @ [CHR 0x27]))))"

subsection \<open>INFO\<close>

definition SECTIONS :: "bytes list" where
  "SECTIONS = [''server'', ''clients'', ''memory'', ''persistence'', ''stats'', ''keyspace'', ''memorydb'']"

definition crlf :: bytes where "crlf = [CHR 0x0D, CHR 0x0A]"

definition info_line :: "bytes \<times> bytes \<Rightarrow> bytes" where
  "info_line kv = fst kv @ '':'' @ snd kv @ crlf"

definition title_case :: "bytes \<Rightarrow> bytes" where
  "title_case word = (case word of [] \<Rightarrow> [] | c # cs \<Rightarrow> upper c # cs)"

text \<open>\<open>{:.2}\<close>: two decimals of the exact value, ties to even.\<close>

definition two_decimals :: "rat \<Rightarrow> bytes" where
  "two_decimals q =
     (let c = nat (round_half_even (q * 100))
      in nat_str (c div 100) @ ''.'' @ nat_str (c mod 100 div 10) @ nat_str (c mod 10))"

definition human_bytes :: "nat \<Rightarrow> bytes" where
  "human_bytes n =
     (let v = fval (of_nat_flt F64 n)
      in if v \<ge> 1073741824 then two_decimals (v / 1073741824) @ ''G''
         else if v \<ge> 1048576 then two_decimals (v / 1048576) @ ''M''
         else if v \<ge> 1024 then two_decimals (v / 1024) @ ''K''
         else nat_str n @ ''B'')"

definition secs :: "time \<Rightarrow> bytes" where
  "secs t = int_str (t div 1000000000)"

text \<open>The totals over the memory indexes, which are looked up one by one.\<close>

fun memorydb_totals ::
    "(memory \<Rightarrow> nat) \<Rightarrow> env \<Rightarrow> bytes list \<Rightarrow> store \<Rightarrow> store \<times> (nat \<times> nat \<times> nat \<times> nat)" where
  "memorydb_totals heap_of E [] st = (st, (0, 0, 0, 0))"
| "memorydb_totals heap_of E (k # ks) st =
     (let (st, m) = get_existing_memory E k st;
          (st, (records, vectors, terms, size)) = memorydb_totals heap_of E ks st
      in case m of
           None \<Rightarrow> (st, (records, vectors, terms, size))
         | Some m \<Rightarrow> (st, (memory_len m + records, vi_live (mem_vectors m) + vectors,
                           length (postings (mem_text m)) + terms, heap_of m + size)))"

definition section_lines ::
    "(memory \<Rightarrow> nat) \<Rightarrow> env \<Rightarrow> bytes \<Rightarrow> app \<Rightarrow> app \<times> bytes" where
  "section_lines heap_of E section a =
     (if section = ''server'' then
        (a, concat (map info_line
          [(''klyro_version'', KLYRO_VERSION), (''redis_version'', REDIS_COMPAT_VERSION),
           (''process_id'', int_str (int (pid E))), (''tcp_bind'', utf8_encode (bind (config a))),
           (''tcp_port'', nat_str (port (config a))), (''uptime_in_seconds'', secs (uptime E (stats a))),
           (''uptime_in_days'', int_str (uptime E (stats a) div 1000000000 div 86400))]))
      else if section = ''clients'' then
        (a, concat (map info_line
          [(''connected_clients'', nat_str (connected_clients (stats a))),
           (''maxclients'', nat_str (maxclients (config a))),
           (''rejected_connections'', nat_str (rejected_connections (stats a))),
           (''blocked_clients'', nat_str (length (waiting a))),
           (''watching_clients'', nat_str (tracked (watch a))),
           (''pubsub_clients'', nat_str (subscription_total (pubsub a)))]))
      else if section = ''memory'' then
        (a, concat (map info_line
          [(''used_memory'', nat_str (used_bytes E)), (''used_memory_human'', human_bytes (used_bytes E)),
           (''used_memory_peak'', nat_str (peak_bytes E)),
           (''used_memory_peak_human'', human_bytes (peak_bytes E)),
           (''maxmemory'', nat_str (maxmemory (config a))),
           (''maxmemory_human'',
              if maxmemory (config a) = 0 then ''unlimited'' else human_bytes (maxmemory (config a))),
           (''maxmemory_policy'', policy_name (maxmemory_policy (config a)))]))
      else if section = ''persistence'' then
        (a, concat (map info_line
          [(''dbfilename'', utf8_encode (dbfilename (config a))),
           (''changes_since_last_save'', nat_str (dirty (store a))),
           (''last_save_time'',
              case last_save_at (stats a) of None \<Rightarrow> ''0'' | Some t \<Rightarrow> secs (max 0 t)),
           (''last_save_status'', if last_save_ok (stats a) then ''ok'' else ''err''),
           (''total_saves'', nat_str (save_count (stats a))),
           (''save_interval_seconds'', nat_str (save_interval (config a) div 1000000000))]))
      else if section = ''stats'' then
        (a, concat (map info_line
          [(''total_connections_received'', nat_str (total_connections (stats a))),
           (''total_commands_processed'', nat_str (total_commands (stats a))),
           (''keyspace_hits'', nat_str (keyspace_hits (stats a))),
           (''keyspace_misses'', nat_str (keyspace_misses (stats a))),
           (''expired_keys'', nat_str (expired (store a))),
           (''evicted_keys'', nat_str (evicted_keys (stats a))),
           (''pubsub_channels'', nat_str (length (active_channels None (pubsub a)))),
           (''pubsub_patterns'', nat_str (pattern_count (pubsub a))),
           (''total_messages_published'', nat_str (messages_published (stats a))),
           (''total_transactions'', nat_str (transactions (stats a)))]))
      else if section = ''memorydb'' then
        (let ks = memory_keys E (store a);
             (st, (records, vectors, terms, size)) = memorydb_totals heap_of E ks (store a);
             a = a\<lparr>store := st\<rparr>
         in (a, concat (map info_line
              [(''memory_indexes'', nat_str (length ks)), (''memory_records'', nat_str records),
               (''memory_vectors'', nat_str vectors), (''memory_terms'', nat_str terms),
               (''memory_index_bytes'', nat_str size),
               (''memory_records_expired'', nat_str (memory_records_expired (stats a)))])))
      else if section = ''keyspace'' then
        (a, ''db0:keys='' @ nat_str (size_of E (store a)) @ '',expires='' @ nat_str (volatile_size E (store a)) @ crlf
            @ concat (map (\<lambda>(kind, n). info_line (type_name kind, nat_str n)) (type_breakdown E (store a))))
      else (a, []))"

definition append_section ::
    "(memory \<Rightarrow> nat) \<Rightarrow> env \<Rightarrow> bytes \<Rightarrow> app \<times> bytes \<Rightarrow> app \<times> bytes" where
  "append_section heap_of E section x =
     (let (a, out) = x;
          out = (if out = [] then out else out @ crlf);
          (a, body) = section_lines heap_of E section a
      in (a, out @ ''# '' @ title_case section @ crlf @ body))"

definition info :: "(memory \<Rightarrow> nat) \<Rightarrow> env \<Rightarrow> bytes list \<Rightarrow> app \<Rightarrow> app \<times> reply" where
  "info heap_of E av a =
     (if length av > 2 then (a, wrong_arity ''INFO'')
      else
        (let requested = (if length av = 1 then ''all'' else to_lower (to_display (av ! 1)));
             sections = (if requested \<in> {''all'', ''default'', ''everything''} then SECTIONS
                         else if requested \<in> set SECTIONS then [requested] else []);
             (a, out) = fold (append_section heap_of E) sections (a, [])
         in (a, Bulk out)))"

subsection \<open>CONFIG and the rest\<close>

definition config_command :: "bytes list \<Rightarrow> app \<Rightarrow> app \<times> reply" where
  "config_command av a =
     (if \<not> min_args av 1 then (a, wrong_arity ''CONFIG'')
      else
        (let sub = to_upper (av ! 1)
         in if sub = ''GET'' then
              (if \<not> min_args av 2 then (a, wrong_arity ''CONFIG|GET'')
               else (a, Map (map (\<lambda>(name, v). (Bulk name, Bulk (utf8_encode v)))
                      (List.map_filter (\<lambda>name.
                         if list_ex (\<lambda>pattern. glob_match pattern name) (drop 2 av)
                         then map_option (\<lambda>v. (name, v)) (config_get (config a) name) else None) PARAMETERS))))
            else if sub = ''SET'' then
              (if \<not> exact_args av 3 then (a, wrong_arity ''CONFIG|SET'')
               else
                 (let name = to_lower (to_display (av ! 2));
                      (cfg, err) = config_set (config a) name (display_chars (av ! 3)) False;
                      a = a\<lparr>config := cfg\<rparr>
                  in (a, case err of
                           None \<Rightarrow> reply_ok
                         | Some Unknown \<Rightarrow>
                             Error (''ERR Unknown option or number of arguments for CONFIG SET - '' @ [CHR 0x27]
                                    @ name @ [CHR 0x27])
                         | Some e \<Rightarrow>
                             Error (''ERR CONFIG SET failed - '' @ set_error_text e @ '' '' @ [CHR 0x27] @ name
                                    @ [CHR 0x27]))))
            else if sub = ''RESETSTAT'' then (a\<lparr>stats := reset_stats (stats a)\<rparr>, reply_ok)
            else (a, Error (''ERR Unknown CONFIG subcommand: '' @ sub))))"

definition server_handle ::
    "(memory \<Rightarrow> nat) \<Rightarrow> env \<Rightarrow> bytes \<Rightarrow> bytes list \<Rightarrow> app \<Rightarrow> client \<Rightarrow> (app \<times> client) \<times> reply" where
  "server_handle heap_of E name av a c =
     (if name = ''PING'' then
        ((a, c), if length av = 1 then Simple ''PONG'' else if length av = 2 then Bulk (av ! 1)
                 else wrong_arity name)
      else if name = ''ECHO'' then
        ((a, c), if \<not> exact_args av 1 then wrong_arity name else Bulk (av ! 1))
      else if name = ''HELLO'' then ((a, c), hello c av)
      else if name = ''CLIENT'' then (let (c, r) = client_command E av c in ((a, c), r))
      else if name = ''COMMAND'' then ((a, c), Array [])
      else if name = ''INFO'' then (let (a, r) = info heap_of E av a in ((a, c), r))
      else if name = ''CONFIG'' then (let (a, r) = config_command av a in ((a, c), r))
      else if name = ''SAVE'' then
        (let (a, saved) = app_save E a
         in ((a, c), if saved then reply_ok else Error ''ERR the save failed; see the server log''))
      else if name = ''QUIT'' then ((a, c), reply_ok)
      else if name = ''SHUTDOWN'' then ((a\<lparr>running := False\<rparr>, c), reply_ok)
      else ((a, c), unknown_in_family))"

definition is_map_reply :: "reply \<Rightarrow> bool" where
  "is_map_reply r \<longleftrightarrow> (case r of Map _ \<Rightarrow> True | _ \<Rightarrow> False)"

definition server_cmd ::
    "(memory \<Rightarrow> nat) \<Rightarrow> env \<Rightarrow> bytes \<Rightarrow> bytes list \<Rightarrow> app \<Rightarrow> client \<Rightarrow> (app \<times> client) \<times> response" where
  "server_cmd heap_of E name av a c =
     (let (ac, r) = server_handle heap_of E name av a c
      in (ac, \<lparr>rs_replies = [r], rs_close = (name \<in> {''QUIT'', ''SHUTDOWN''}),
               rs_protocol = (if name = ''HELLO'' \<and> is_map_reply r then Some (negotiated_protocol av) else None),
               rs_block = None\<rparr>))"

subsection \<open>What the family leaves alone\<close>

lemma memorydb_totals_view:
  "store_ok st \<Longrightarrow> store_ok (fst (memorydb_totals heap_of E ks st)) \<and>
     live E (fst (memorydb_totals heap_of E ks st)) = live E st"
proof (induction ks arbitrary: st)
  case (Cons k ks)
  note ok = store_okD [OF Cons.prems]
  obtain s m where g: "get_existing_memory E k st = (s, m)" by fastforce
  note gm = get_existing_memory_cases [OF ok(2) g]
  have "store_ok s" using tidy_store_ok [OF gm(1)] gm(2) ok(3) by simp
  from Cons.IH [OF this] gm(2) g show ?case
    by (simp add: case_prod_beta split: option.split)
qed simp

lemma section_lines_view:
  assumes "store_ok (store a)"
  shows "\<exists>st. fst (section_lines heap_of E s a) = a\<lparr>store := st\<rparr> \<and> store_ok st \<and> live E st = live E (store a)"
proof (cases "s = ''memorydb''")
  case True
  then show ?thesis
    using memorydb_totals_view [OF assms, of heap_of E "memory_keys E (store a)"]
    by (simp add: section_lines_def Let_def case_prod_beta) blast
next
  case False
  have "fst (section_lines heap_of E s a) = a"
    by (simp only: section_lines_def if_distrib [of fst] fst_conv False if_False if_cancel)
  then show ?thesis using assms by (intro exI [of _ "store a"]) simp
qed

lemma info_view:
  assumes "store_ok (store a)"
  shows "\<exists>st. fst (info heap_of E av a) = a\<lparr>store := st\<rparr> \<and> store_ok st \<and> live E st = live E (store a)"
proof -
  have f: "\<exists>st. fst (fold (append_section heap_of E) ss (a, out)) = a\<lparr>store := st\<rparr> \<and> store_ok st \<and> live E st = live E (store a)"
    if "store_ok (store a)" for ss a out
    using that
  proof (induction ss arbitrary: a out)
    case Nil
    then show ?case by (intro exI [of _ "store a"]) simp
  next
    case (Cons s ss)
    obtain st where st: "fst (section_lines heap_of E s a) = a\<lparr>store := st\<rparr>" "store_ok st" "live E st = live E (store a)"
      using section_lines_view [OF Cons.prems] by blast
    obtain b o' where b: "append_section heap_of E s (a, out) = (b, o')" by fastforce
    have e: "b = a\<lparr>store := st\<rparr>" using b st(1) by (auto simp: append_section_def Let_def case_prod_beta)
    have "store_ok (store b)" using e st(2) by simp
    from Cons.IH [OF this, of o'] show ?case using b e st(3) by auto
  qed
  show ?thesis
  proof (cases "length av > 2")
    case True
    with assms show ?thesis by (intro exI [of _ "store a"]) (simp add: info_def)
  next
    case False
    with f [OF assms] show ?thesis by (simp add: info_def Let_def case_prod_beta)
  qed
qed

lemma server_handle_spec:
  assumes "store_ok (store a)" and "server_handle heap_of E name av a c = ((a', c'), r)"
  shows "store_ok (store a') \<and> live E (store a') = live E (store a) \<and> pubsub a' = pubsub a \<and> watch a' = watch a \<and>
    waiting a' = waiting a \<and> ready_keys a' = ready_keys a \<and> outbox a' = outbox a \<and>
    next_client_id a' = next_client_id a \<and> (\<exists>n. c' = c\<lparr>cl_name := n\<rparr>) \<and>
    (config a' = config a \<or> (\<exists>n v. config a' = fst (config_set (config a) n v False)))"
proof -
  have c0: "\<exists>n. c = c\<lparr>cl_name := n\<rparr>" by (rule exI [of _ "cl_name c"]) simp
  consider "name = ''CLIENT''" | "name = ''INFO''" | "name = ''CONFIG''" | "name = ''SAVE''" | "name = ''SHUTDOWN''"
    | "name \<notin> {''CLIENT'', ''INFO'', ''CONFIG'', ''SAVE'', ''SHUTDOWN''}"
    unfolding insert_iff empty_iff by argo
  then show ?thesis
  proof cases
    case 1
    have "fst (client_command E av c) = c \<or> (\<exists>n. fst (client_command E av c) = c\<lparr>cl_name := n\<rparr>)"
      unfolding client_command_def Let_def if_distrib [of fst] fst_conv by (simp only: split: if_split) blast
    with 1 assms c0 show ?thesis by (auto simp: server_handle_def case_prod_beta)
  next
    case 2
    with info_view [OF assms(1), of heap_of E av] assms(2) c0 show ?thesis
      by (auto simp: server_handle_def case_prod_beta)
  next
    case 3
    have "fst (config_command av a) = a \<or> (\<exists>s. fst (config_command av a) = a\<lparr>stats := s\<rparr>) \<or>
        (\<exists>n v. fst (config_command av a) = a\<lparr>config := fst (config_set (config a) n v False)\<rparr>)"
      unfolding config_command_def Let_def case_prod_beta if_distrib [of fst] fst_conv
      by (simp only: split: if_split) blast
    moreover have "a' = fst (config_command av a)" "c' = c"
      using 3 assms(2) by (simp_all add: server_handle_def case_prod_beta)
    ultimately show ?thesis using assms(1) c0 by (elim disjE exE; simp; blast)
  next
    case 4
    have "pubsub (fst (app_save E a)) = pubsub a \<and> watch (fst (app_save E a)) = watch a \<and>
        waiting (fst (app_save E a)) = waiting a \<and> ready_keys (fst (app_save E a)) = ready_keys a \<and>
        outbox (fst (app_save E a)) = outbox a \<and> next_client_id (fst (app_save E a)) = next_client_id a"
      by (simp add: app_save_def case_prod_beta Let_def)
    with 4 assms(2) app_save_view [OF assms(1), of E] c0 show ?thesis
      by (auto simp: server_handle_def case_prod_beta)
  next
    case 5
    with assms c0 show ?thesis by (auto simp: server_handle_def)
  next
    case 6
    then have "fst (server_handle heap_of E name av a c) = (a, c)"
      by (simp add: server_handle_def)
    with assms c0 show ?thesis by simp
  qed
qed

end
