(* ===== verification/MemSearch.thy ===== *)
theory MemSearch
  imports MemClone Persist FloatText "HOL-Library.Product_Lexorder"
begin

text \<open>
  Queries over a memory index: metadata filters (\<^verbatim>\<open>src/types/memory/filter.rs\<close>), keyword search
  (\<^verbatim>\<open>src/types/memory/text.rs\<close>), vector search (\<^verbatim>\<open>src/types/memory/vector.rs\<close>), the fusion of both
  rankings (\<^verbatim>\<open>src/types/memory/fuse.rs\<close>) and the query functions of \<^verbatim>\<open>src/types/memory/mod.rs\<close>.
  Rust leaves the last bits of \<open>f32::ln\<close> and \<open>f64::powf\<close> to the platform's mathematics library,
  so those two are an argument of the definitions that use them; the rest of the arithmetic is
  exact IEEE rounding. \<open>sort_by\<close> with scores that are not NaN has one result; with a NaN the code's
  comparison is no total order and the list here is one possible outcome.
\<close>

record libm =
  ln32 :: "f32 \<Rightarrow> f32"
  powf :: "f64 \<Rightarrow> f64 \<Rightarrow> f64"

subsection \<open>Words of the query language\<close>

definition parse_word :: "(bytes \<times> 'a) list \<Rightarrow> bytes \<Rightarrow> 'a option" where
  "parse_word table word =
     map_option snd (List.find (\<lambda>(name, _). eq_ignore_case word name) table)"

datatype filter_op = OpEq | OpNe | OpGt | OpGte | OpLt | OpLte | OpIn | OpContains

definition op_parse :: "bytes \<Rightarrow> filter_op option" where
  "op_parse = parse_word
     [(''EQ'', OpEq), (''NE'', OpNe), (''GT'', OpGt), (''GTE'', OpGte), (''LT'', OpLt), (''LTE'', OpLte),
      (''IN'', OpIn), (''CONTAINS'', OpContains)]"

datatype filter_field = MetaField bytes | IdField | TextField | ImportanceField | CreatedAtField | UpdatedAtField

definition field_parse :: "bytes \<Rightarrow> filter_field option" where
  "field_parse name =
     (if name = [] \<or> hd name \<noteq> CHR ''@'' then Some (MetaField name)
      else parse_word [(''id'', IdField), (''text'', TextField), (''importance'', ImportanceField),
             (''created_at'', CreatedAtField), (''updated_at'', UpdatedAtField)] (tl name))"

definition field_read :: "filter_field \<Rightarrow> memory_record \<Rightarrow> bytes option" where
  "field_read f r =
     (case f of
        MetaField name \<Rightarrow> get_meta name r
      | IdField \<Rightarrow> Some (rec_id r)
      | TextField \<Rightarrow> Some (rec_text r)
      | ImportanceField \<Rightarrow> Some (display_float F32 (rec_importance r))
      | CreatedAtField \<Rightarrow> Some (int_str (unix_millis (rec_created_at r)))
      | UpdatedAtField \<Rightarrow> Some (int_str (unix_millis (rec_updated_at r))))"

record clause =
  cl_field :: filter_field
  cl_op :: filter_op
  cl_value :: bytes

definition compare_values :: "bytes \<Rightarrow> bytes \<Rightarrow> ordering" where
  "compare_values l r =
     (case (parse_f64 l, parse_f64 r) of
        (Some a, Some b) \<Rightarrow> (case partial_cmp a b of Some c \<Rightarrow> c | None \<Rightarrow> Equal)
      | _ \<Rightarrow> cmp_of l r)"

definition windows :: "nat \<Rightarrow> 'a list \<Rightarrow> 'a list list" where
  "windows n xs = map (\<lambda>i. take n (drop i xs)) [0..<length xs + 1 - n]"

definition contains :: "bytes \<Rightarrow> bytes \<Rightarrow> bool" where
  "contains haystack needle \<longleftrightarrow>
     needle = [] \<or> list_ex (\<lambda>w. w = needle) (windows (length needle) haystack)"

text \<open>\<open>slice::split\<close>: the pieces between separators, at least one.\<close>

fun split_on :: "'a \<Rightarrow> 'a list \<Rightarrow> 'a list list" where
  "split_on c [] = [[]]"
| "split_on c (x # xs) =
     (if x = c then [] # split_on c xs
      else (case split_on c xs of [] \<Rightarrow> [[x]] | p # ps \<Rightarrow> (x # p) # ps))"

definition clause_matches :: "clause \<Rightarrow> memory_record \<Rightarrow> bool" where
  "clause_matches c r =
     (case field_read (cl_field c) r of
        None \<Rightarrow> cl_op c = OpNe
      | Some actual \<Rightarrow>
          (let ord = compare_values actual (cl_value c)
           in case cl_op c of
                OpEq \<Rightarrow> ord = Equal
              | OpNe \<Rightarrow> ord \<noteq> Equal
              | OpGt \<Rightarrow> ord = Greater
              | OpGte \<Rightarrow> ord \<noteq> Less
              | OpLt \<Rightarrow> ord = Less
              | OpLte \<Rightarrow> ord \<noteq> Greater
              | OpIn \<Rightarrow> list_ex (\<lambda>v. compare_values actual v = Equal) (split_on (CHR '','') (cl_value c))
              | OpContains \<Rightarrow> contains actual (cl_value c)))"

definition filter_matches :: "env \<Rightarrow> clause list \<Rightarrow> memory_record \<Rightarrow> bool" where
  "filter_matches E cs r \<longleftrightarrow> rec_is_live (now E) r \<and> list_all (\<lambda>c. clause_matches c r) cs"

subsection \<open>Keyword search\<close>

definition K1 :: f32 where "K1 = round_to F32 False (6 / 5)"
definition BM_B :: f32 where "BM_B = Fin (3 / 4)"

definition avg_doc_len :: "text_index \<Rightarrow> f32" where
  "avg_doc_len ix =
     (if doc_len ix = [] then Fin 0
      else fdiv F32 (of_nat_flt F32 (total_len ix)) (of_nat_flt F32 (length (doc_len ix))))"

definition idf :: "libm \<Rightarrow> bytes \<Rightarrow> text_index \<Rightarrow> f32" where
  "idf lm term ix =
     (let n = of_nat_flt F32 (length (doc_len ix));
          df = of_nat_flt F32 (case hm_get (postings ix) term of None \<Rightarrow> 0 | Some ps \<Rightarrow> length ps);
          half = Fin (1 / 2)
      in ln32 lm (fadd F32 (Fin 1) (fdiv F32 (fadd F32 (fsub F32 n df) half) (fadd F32 df half))))"

definition saturated :: "f32 \<Rightarrow> f32 \<Rightarrow> f32 \<Rightarrow> f32" where
  "saturated tf len avg =
     fdiv F32 (fmul F32 tf (fadd F32 K1 (Fin 1)))
       (fadd F32 tf (fmul F32 K1
          (fadd F32 (fsub F32 (Fin 1) BM_B) (fdiv F32 (fmul F32 BM_B len) avg))))"

definition score_term ::
    "libm \<Rightarrow> text_index \<Rightarrow> (bytes \<Rightarrow> bool) \<Rightarrow> bytes \<Rightarrow> (bytes, f32) hmap \<Rightarrow> (bytes, f32) hmap" where
  "score_term lm ix keep term scores =
     (case hm_get (postings ix) term of
        None \<Rightarrow> scores
      | Some ps \<Rightarrow>
          fold (\<lambda>(i, tf) scores.
              if \<not> keep i then scores
              else (let len = of_nat_flt F32 (case hm_get (doc_len ix) i of None \<Rightarrow> 0 | Some n \<Rightarrow> n);
                        s = saturated (of_nat_flt F32 tf) len (avg_doc_len ix);
                        old = (case hm_get scores i of None \<Rightarrow> Fin 0 | Some v \<Rightarrow> v)
                    in hm_insert i (fadd F32 old (fmul F32 (idf lm term ix) s)) scores))
            ps scores)"

text \<open>Best first; ties break on the identifier.\<close>

definition cmp_scored :: "bytes \<times> f32 \<Rightarrow> bytes \<times> f32 \<Rightarrow> ordering" where
  "cmp_scored a b =
     (case partial_cmp (snd b) (snd a) of
        Some Less \<Rightarrow> Less | Some Greater \<Rightarrow> Greater | _ \<Rightarrow> cmp_of (fst a) (fst b))"

definition text_search ::
    "libm \<Rightarrow> text_index \<Rightarrow> bytes list \<Rightarrow> nat \<Rightarrow> (bytes \<Rightarrow> bool) \<Rightarrow> (bytes \<times> f32) list" where
  "text_search lm ix terms limit keep =
     (if feq (avg_doc_len ix) (Fin 0) then []
      else take limit (sort_by cmp_scored (fold (score_term lm ix keep) terms [])))"

definition record_matches :: "env \<Rightarrow> clause list \<Rightarrow> memory \<Rightarrow> bytes \<Rightarrow> bool" where
  "record_matches E cs m i \<longleftrightarrow>
     (case hm_get (mem_records m) i of None \<Rightarrow> False | Some r \<Rightarrow> filter_matches E cs r)"

definition search_text ::
    "libm \<Rightarrow> env \<Rightarrow> bytes \<Rightarrow> nat \<Rightarrow> clause list \<Rightarrow> nat option \<Rightarrow> memory \<Rightarrow> memory_error + (bytes \<times> f32) list" where
  "search_text lm E query limit cs max_terms m =
     (if \<not> indexes_text (mc_mode (mem_config m)) then Inl TextNotSupported
      else Inr (text_search lm (mem_text m) (tokenize query max_terms) limit (record_matches E cs m)))"

subsection \<open>Vector search\<close>

definition vector_similarity :: "nat \<Rightarrow> f32 list \<Rightarrow> vector_index \<Rightarrow> f32 option" where
  "vector_similarity s q ix =
     (case vector_get s ix of
        None \<Rightarrow> None
      | Some stored \<Rightarrow> Some (if vi_metric ix = L2 then fneg (l2_distance stored q) else dot stored q))"

definition score_record :: "env \<Rightarrow> f32 list \<Rightarrow> clause list \<Rightarrow> memory \<Rightarrow> memory_record \<Rightarrow> (bytes \<times> f32) option" where
  "score_record E q cs m r =
     (if \<not> filter_matches E cs r then None
      else (case rec_slot r of
              None \<Rightarrow> None
            | Some s \<Rightarrow> map_option (\<lambda>v. (rec_id r, v)) (vector_similarity s q (mem_vectors m))))"

definition search_vector ::
    "env \<Rightarrow> f32 list \<Rightarrow> nat \<Rightarrow> clause list \<Rightarrow> nat \<Rightarrow> memory \<Rightarrow> memory_error + (bytes \<times> f32) list" where
  "search_vector E q limit cs max_scan m =
     (if \<not> stores_vectors (mc_mode (mem_config m)) then Inl VectorsNotSupported
      else if length q \<noteq> mc_dim (mem_config m) then Inl (VectorErr (WrongDimension (mc_dim (mem_config m)) (length q)))
      else if vi_live (mem_vectors m) > max_scan then Inl (TooLargeToScan (vi_live (mem_vectors m)) max_scan)
      else Inr (take limit (sort_by cmp_scored
             (List.map_filter (\<lambda>(_, r). score_record E q cs m r) (mem_records m)))))"

subsection \<open>Fusion\<close>

datatype fusion = Linear | Rrf

definition fusion_parse :: "bytes \<Rightarrow> fusion option" where
  "fusion_parse = parse_word [(''LINEAR'', Linear), (''RRF'', Rrf)]"

definition RRF_K :: f32 where "RRF_K = Fin 60"

text \<open>\<open>Duration::as_secs_f64\<close> and the cast to \<open>f32\<close>.\<close>

definition as_secs_f64 :: "time \<Rightarrow> f64" where
  "as_secs_f64 d =
     fadd F64 (of_nat_flt F64 (nat (d div 1000000000)))
       (fdiv F64 (of_nat_flt F64 (nat (d mod 1000000000))) (Fin 1000000000))"

fun to_f32 :: "f64 \<Rightarrow> f32" where
  "to_f32 (Fin q) = round_to F32 False q"
| "to_f32 v = v"

definition recency_score :: "libm \<Rightarrow> time \<Rightarrow> time \<Rightarrow> time \<Rightarrow> f32" where
  "recency_score lm updated at_time half_life =
     (let h = fmax (as_secs_f64 half_life) (Fin 1);
          age = (if updated \<le> at_time then as_secs_f64 (at_time - updated) else Fin 0)
      in to_f32 (powf lm (Fin (1 / 2)) (fdiv F64 age h)))"

definition fmin :: "flt \<Rightarrow> flt \<Rightarrow> flt" where
  "fmin x y = (if is_nan x then y else if is_nan y then x else if fless y x then y else x)"

definition normalize_scores :: "f32 list \<Rightarrow> f32 list" where
  "normalize_scores values =
     (let low = foldl fmin PInf values; high = foldl fmax NInf values; spread = fsub F32 high low
      in map (\<lambda>v. if fless (Fin 0) spread then fdiv F32 (fsub F32 v low) spread else Fin 1) values)"

text \<open>The ranks are written in the order of the sorted indexes; equal neighbours share one.\<close>

fun write_ranks :: "f32 list \<Rightarrow> nat \<Rightarrow> nat option \<Rightarrow> f32 \<Rightarrow> nat list \<Rightarrow> f32 list \<Rightarrow> f32 list" where
  "write_ranks scores pos prev rk [] out = out"
| "write_ranks scores pos prev rk (i # js) out =
     (let rk = (if (case prev of None \<Rightarrow> True | Some j \<Rightarrow> \<not> feq (scores ! i) (scores ! j))
                then fadd F32 (of_nat_flt F32 pos) (Fin 1) else rk)
      in write_ranks scores (pos + 1) (Some i) rk js (out[i := rk]))"

definition rank_order :: "f32 list \<Rightarrow> nat \<Rightarrow> nat \<Rightarrow> ordering" where
  "rank_order scores a b = (case partial_cmp (scores ! b) (scores ! a) of Some c \<Rightarrow> c | None \<Rightarrow> Equal)"

definition rank_scores :: "f32 list \<Rightarrow> f32 list" where
  "rank_scores scores =
     write_ranks scores 0 None (Fin 0) (sort_by (rank_order scores) [0..<length scores])
       (replicate (length scores) (Fin 0))"

fun place_back :: "f32 list \<Rightarrow> bool list \<Rightarrow> f32 list" where
  "place_back scaled [] = []"
| "place_back scaled (False # ps) = Fin 0 # place_back scaled ps"
| "place_back [] (True # ps) = Fin 0 # place_back [] ps"
| "place_back (v # scaled) (True # ps) = v # place_back scaled ps"

definition fuse_component :: "f32 list \<Rightarrow> bool list \<Rightarrow> fusion \<Rightarrow> f32 list" where
  "fuse_component raw present how =
     (let found = map fst (filter snd (zip raw present))
      in if found = [] then replicate (length raw) (Fin 0)
         else place_back
           (case how of
              Linear \<Rightarrow> normalize_scores found
            | Rrf \<Rightarrow> map (\<lambda>r. fdiv F32 (Fin 1) (fadd F32 RRF_K r)) (rank_scores found)) present)"

text \<open>The candidate table: one row per identifier, in order of first appearance.\<close>

record fuse_rows =
  fr_ids :: "bytes list"
  fr_keyword :: "f32 list"
  fr_vector :: "f32 list"
  fr_had_keyword :: "bool list"
  fr_had_vector :: "bool list"

definition row_for :: "bytes \<Rightarrow> fuse_rows \<Rightarrow> fuse_rows \<times> nat" where
  "row_for i t =
     (case position (\<lambda>x. x = i) (fr_ids t) of
        Some n \<Rightarrow> (t, n)
      | None \<Rightarrow> (\<lparr>fr_ids = fr_ids t @ [i], fr_keyword = fr_keyword t @ [Fin 0], fr_vector = fr_vector t @ [Fin 0],
                  fr_had_keyword = fr_had_keyword t @ [False], fr_had_vector = fr_had_vector t @ [False]\<rparr>,
                length (fr_ids t)))"

definition add_keyword :: "bytes \<times> f32 \<Rightarrow> fuse_rows \<Rightarrow> fuse_rows" where
  "add_keyword h t =
     (let (t, n) = row_for (fst h) t
      in t\<lparr>fr_keyword := (fr_keyword t)[n := snd h], fr_had_keyword := (fr_had_keyword t)[n := True]\<rparr>)"

definition add_vector :: "bytes \<times> f32 \<Rightarrow> fuse_rows \<Rightarrow> fuse_rows" where
  "add_vector h t =
     (let (t, n) = row_for (fst h) t
      in t\<lparr>fr_vector := (fr_vector t)[n := snd h], fr_had_vector := (fr_had_vector t)[n := True]\<rparr>)"

definition empty_rows :: fuse_rows where
  "empty_rows = \<lparr>fr_ids = [], fr_keyword = [], fr_vector = [], fr_had_keyword = [], fr_had_vector = []\<rparr>"

record hit =
  hit_id :: bytes
  hit_score :: f32
  hit_keyword :: f32
  hit_vector :: f32
  hit_recency :: f32

definition cmp_hit :: "hit \<Rightarrow> hit \<Rightarrow> ordering" where
  "cmp_hit a b = cmp_scored (hit_id a, hit_score a) (hit_id b, hit_score b)"

definition fuse ::
    "libm \<Rightarrow> (bytes \<times> f32) list \<Rightarrow> (bytes \<times> f32) list \<Rightarrow> (bytes \<Rightarrow> memory_record option) \<Rightarrow> weights \<Rightarrow>
     fusion \<Rightarrow> time \<Rightarrow> time \<Rightarrow> hit list" where
  "fuse lm keyword vector lookup w how half_life at_time =
     (let t = fold add_vector vector (fold add_keyword keyword empty_rows);
          kc = fuse_component (fr_keyword t) (fr_had_keyword t) how;
          vc = fuse_component (fr_vector t) (fr_had_vector t) how
      in sort_by cmp_hit (List.map_filter (\<lambda>(row, i).
           case lookup i of
             None \<Rightarrow> None
           | Some r \<Rightarrow>
               (let recency = recency_score lm (rec_updated_at r) at_time half_life;
                    score = fadd F32 (fadd F32 (fadd F32
                              (fmul F32 (w_keyword w) (kc ! row)) (fmul F32 (w_vector w) (vc ! row)))
                              (fmul F32 (w_recency w) recency))
                              (fmul F32 (w_importance w) (clamp_unit (rec_importance r)))
                in Some \<lparr>hit_id = i, hit_score = score, hit_keyword = fr_keyword t ! row,
                         hit_vector = fr_vector t ! row, hit_recency = recency\<rparr>))
           (zip [0..<length (fr_ids t)] (fr_ids t))))"

definition memory_query ::
    "libm \<Rightarrow> env \<Rightarrow> bytes option \<Rightarrow> f32 list option \<Rightarrow> nat \<Rightarrow> clause list \<Rightarrow> weights \<Rightarrow> fusion \<Rightarrow>
     nat option \<Rightarrow> nat \<Rightarrow> memory \<Rightarrow> memory_error + hit list" where
  "memory_query lm E text_query vector_query limit cs w how max_terms max_scan m =
     (case (case text_query of None \<Rightarrow> Inr [] | Some q \<Rightarrow> search_text lm E q limit cs max_terms m) of
        Inl e \<Rightarrow> Inl e
      | Inr keyword \<Rightarrow>
          (case (case vector_query of None \<Rightarrow> Inr [] | Some q \<Rightarrow> search_vector E q limit cs max_scan m) of
             Inl e \<Rightarrow> Inl e
           | Inr vector \<Rightarrow>
               Inr (fuse lm keyword vector (hm_get (mem_records m)) w how
                      (mc_half_life (mem_config m)) (now E))))"

text \<open>The page of identifiers MEM.SCAN returns; the end of the page is a \<open>usize\<close> sum.\<close>

definition memory_scan ::
    "env \<Rightarrow> nat \<Rightarrow> nat \<Rightarrow> clause list \<Rightarrow> memory \<Rightarrow> (bytes list \<times> nat) outcome" where
  "memory_scan E start_cursor cnt cs m =
     (let ids = sorted_ids E m
      in if start_cursor \<ge> length ids then Done ([], 0)
         else (let stop = min ((start_cursor + max cnt 1) mod 2 ^ 64) (length ids)
               in if stop < start_cursor then Panicked
                  else Done (filter (record_matches E cs m) (take (stop - start_cursor) (drop start_cursor ids)),
                             if stop \<ge> length ids then 0 else stop)))"

subsection \<open>The best of a list\<close>

context comparator
begin

text \<open>The front of a sorted list: ordered, and nothing left behind precedes anything in it.\<close>

lemma take_sort_best:
  assumes "\<forall>y \<in> set xs. ok y"
  shows "ordered cmp (take n (sort_by cmp xs))" and "set (take n (sort_by cmp xs)) \<subseteq> set xs"
    and "x \<in> set xs \<Longrightarrow> x \<notin> set (take n (sort_by cmp xs)) \<Longrightarrow>
      length (take n (sort_by cmp xs)) = n \<and> (\<forall>h \<in> set (take n (sort_by cmp xs)). cmp h x \<noteq> Greater)"
proof -
  let ?s = "sort_by cmp xs"
  have o: "sorted_wrt (\<lambda>a b. cmp a b \<noteq> Greater) (take n ?s @ drop n ?s)"
    using ordered_sort_by [OF assms] by (simp add: ordered_def)
  then show "ordered cmp (take n ?s)" by (simp only: ordered_def sorted_wrt_append)
  show "set (take n ?s) \<subseteq> set xs" using set_take_subset [of n ?s] by simp
  assume x: "x \<in> set xs" "x \<notin> set (take n ?s)"
  then have d: "x \<in> set (drop n ?s)"
    by (metis Un_iff append_take_drop_id set_append set_sort_by)
  then have "length (take n ?s) = n"
    by (cases "n \<le> length ?s") auto
  with d o show "length (take n ?s) = n \<and> (\<forall>h \<in> set (take n ?s). cmp h x \<noteq> Greater)"
    unfolding sorted_wrt_append by blast
qed

end

text \<open>A comparison that agrees with the order of a key is a comparator.\<close>

lemma comparator_by_key:
  fixes key :: "'a \<Rightarrow> 'b::linorder"
  assumes less: "\<And>a b. ok a \<Longrightarrow> ok b \<Longrightarrow> cmp a b = Less \<longleftrightarrow> key a < key b"
    and greater: "\<And>a b. ok a \<Longrightarrow> ok b \<Longrightarrow> cmp a b = Greater \<longleftrightarrow> key b < key a"
  shows "comparator cmp ok"
proof unfold_locales
  fix a
  assume "ok a"
  then show "cmp a a = Equal" using less [of a a] greater [of a a] by (cases "cmp a a") simp_all
next
  fix a b c
  assume ok: "ok a" "ok b" "ok c"
  show "cmp a b = Less \<Longrightarrow> cmp b c \<noteq> Greater \<Longrightarrow> cmp a c = Less"
    and "cmp a b \<noteq> Greater \<Longrightarrow> cmp b c = Less \<Longrightarrow> cmp a c = Less"
    and "cmp a b \<noteq> Greater \<Longrightarrow> cmp b c \<noteq> Greater \<Longrightarrow> cmp a c \<noteq> Greater"
    using ok by (simp_all add: less greater not_less)
qed (simp add: less greater)

definition score_key :: "bytes \<times> f32 \<Rightarrow> int \<times> rat \<times> bytes" where
  "score_key h = (- rank (snd h), - fval (snd h), fst h)"

interpretation scored_order: comparator cmp_scored "\<lambda>h. \<not> is_nan (snd h)"
proof (rule comparator_by_key [where key = score_key])
  fix a b :: "bytes \<times> f32"
  assume n: "\<not> is_nan (snd a)" "\<not> is_nan (snd b)"
  have c: "cmp_scored a b = (if fless (snd b) (snd a) then Less else if fless (snd a) (snd b) then Greater
      else cmp_of (fst a) (fst b))"
    using n fless_linear [OF n] fless_not_feq [of "snd a" "snd b"]
    by (auto simp: cmp_scored_def partial_cmp_def feq_sym [of "snd b"])
  show "cmp_scored a b = Less \<longleftrightarrow> score_key a < score_key b"
    "cmp_scored a b = Greater \<longleftrightarrow> score_key b < score_key a"
    unfolding c using n
    by (cases "rank (snd a)" "rank (snd b)" rule: linorder_cases;
        cases "fval (snd a)" "fval (snd b)" rule: linorder_cases; simp add: fless_def score_key_def)+
qed

subsection \<open>Vector search\<close>

text \<open>What a search promises: the best of the candidates, best first. A candidate table maps each
  eligible identifier to its score.\<close>

definition best_of :: "(bytes \<Rightarrow> f32 option) \<Rightarrow> nat \<Rightarrow> (bytes \<times> f32) list \<Rightarrow> bool" where
  "best_of cands limit hits \<longleftrightarrow>
     ordered cmp_scored hits \<and> distinct (map fst hits) \<and> length hits \<le> limit \<and>
     (\<forall>(i, s) \<in> set hits. cands i = Some s) \<and>
     (\<forall>i s. cands i = Some s \<longrightarrow> (i, s) \<in> set hits \<or>
        length hits = limit \<and> (\<forall>h \<in> set hits. cmp_scored h (i, s) \<noteq> Greater))"

lemma best_of_sort:
  assumes d: "distinct (map fst xs)" and c: "cands = hm_get xs" and n: "\<And>i s. cands i = Some s \<Longrightarrow> \<not> is_nan s"
  shows "best_of cands limit (take limit (sort_by cmp_scored xs))"
proof -
  have mem: "cands i = Some s \<longleftrightarrow> (i, s) \<in> set xs" for i s
    using d by (simp add: c)
  have ok: "\<forall>h \<in> set xs. \<not> is_nan (snd h)" using n mem by fastforce
  have "distinct (map fst (sort_by cmp_scored xs))"
    using d by (metis mset_eq_imp_distinct_iff mset_map mset_sort_by)
  then have "distinct (map fst (take limit (sort_by cmp_scored xs)))"
    by (simp add: distinct_take flip: take_map)
  then show ?thesis
    using scored_order.take_sort_best [OF ok, where n = limit] mem
    unfolding best_of_def by auto
qed

text \<open>The score of an identifier under a vector query, over the map of records and their vectors.\<close>

definition vector_score :: "env \<Rightarrow> f32 list \<Rightarrow> clause list \<Rightarrow> memory \<Rightarrow> bytes \<Rightarrow> f32 option" where
  "vector_score E q cs m i =
     (if record_matches E cs m i
      then map_option (\<lambda>v. if mc_metric (mem_config m) = L2 then fneg (l2_distance v q) else dot v q) (vector_at m i)
      else None)"

lemma map_filter_table:
  assumes "hm_wf m" and "\<And>i r. hm_get m i = Some r \<Longrightarrow> map_option fst (f r) \<in> {None, Some i}"
  shows "distinct (map fst (List.map_filter (\<lambda>(_, r). f r) m))"
    and "hm_get (List.map_filter (\<lambda>(_, r). f r) m) i = Option.bind (hm_get m i) (map_option snd \<circ> f)"
proof -
  have "(\<forall>(i, r) \<in> set m. map_option fst (f r) \<in> {None, Some i}) \<Longrightarrow> distinct (map fst m) \<Longrightarrow>
    fst ` set (List.map_filter (\<lambda>(_, r). f r) m) \<subseteq> fst ` set m \<and>
    distinct (map fst (List.map_filter (\<lambda>(_, r). f r) m)) \<and>
    hm_get (List.map_filter (\<lambda>(_, r). f r) m) i = Option.bind (hm_get m i) (map_option snd \<circ> f)"
  proof (induction m)
    case Nil
    then show ?case by (simp add: List.map_filter_simps)
  next
    case (Cons a m)
    then have "hm_get m (fst a) = None" by (simp add: map_of_eq_None_iff)
    with Cons show ?case
      by (cases a; cases "f (snd a)") (auto simp: List.map_filter_simps)
  qed
  moreover have "\<forall>(i, r) \<in> set m. map_option fst (f r) \<in> {None, Some i}"
    using assms hm_get_mem [OF assms(1)] by blast
  ultimately show "distinct (map fst (List.map_filter (\<lambda>(_, r). f r) m))"
    and "hm_get (List.map_filter (\<lambda>(_, r). f r) m) i = Option.bind (hm_get m i) (map_option snd \<circ> f)"
    using assms(1) by (auto simp: hm_wf_def)
qed


definition sample_vectors :: memory where
  "sample_vectors = fst (memory_add (memory_env 5) sample_request None 0
     (memory_new ((mem_config sample_memory)\<lparr>mc_metric := InnerProduct\<rparr>)))"

lemma sample_vectors_wf: "memory_wf sample_vectors"
proof -
  let ?m = "memory_new ((mem_config sample_memory)\<lparr>mc_metric := InnerProduct\<rparr>)"
  have "snd (memory_add (memory_env 5) sample_request None 0 ?m) = Inr ''a''" by code_simp
  moreover have "memory_wf ?m" by (rule memory_new_wf) (simp add: sample_memory_def memory_new_def)
  ultimately show ?thesis
    using memory_add_spec [of ?m "memory_env 5" sample_request None 0 sample_vectors "Inr ''a''"]
    by (simp add: sample_vectors_def prod_eq_iff)
qed

lemma sample_vectors_scores: "vector_score (memory_env 6) [Fin 1, Fin 4] [] sample_vectors = [''a'' \<mapsto> Fin 9]"
proof (rule ext)
  fix i
  have "vector_score (memory_env 6) [Fin 1, Fin 4] [] sample_vectors ''a'' = Some (Fin 9)" by code_simp
  moreover have "map fst (mem_records sample_vectors) = [''a'']" by code_simp
  then have "hm_get (mem_records sample_vectors) i = None" if "i \<noteq> ''a''"
    using that by (metis empty_iff empty_set map_of_eq_None_iff set_ConsD set_map)
  ultimately show "vector_score (memory_env 6) [Fin 1, Fin 4] [] sample_vectors i = [''a'' \<mapsto> Fin 9] i"
    by (cases "i = ''a''") (simp_all add: vector_score_def record_matches_def)
qed


text \<open>
  C40. Scores can be NaN, and then the comparison the hits are sorted by is not an order. Under the
  inner-product metric a finite stored vector and a finite query, both accepted, can score NaN (an
  infinity minus an infinity); and for any three identifiers in ascending order, the middle one
  scored NaN, the comparison runs in a circle whenever the last has the higher score.
\<close>
theorem nan_score_breaks_order:
  "(\<exists>v q. list_all is_finite (v @ q) \<and> vector_validate v (vector_new 2 InnerProduct) = None \<and> dot v q = NaN) \<and>
   (\<forall>i j k x y. i < j \<and> j < k \<and> fless x y \<longrightarrow>
      cmp_scored (i, x) (j, NaN) = Less \<and> cmp_scored (j, NaN) (k, y) = Less \<and> cmp_scored (k, y) (i, x) = Less)"
proof -
  let ?b = "Fin 170141183460469231731687303715884105728" and ?c = "Fin (- 170141183460469231731687303715884105728)"
  have "list_all is_finite ([?b, ?b] @ [?b, ?c])" by simp
  moreover have "vector_validate [?b, ?b] (vector_new 2 InnerProduct) = None"
    by (simp add: vector_validate_def vector_new_def normalizes_def)
  moreover have "dot [?b, ?b] [?b, ?c] = NaN" by code_simp
  moreover have "cmp_scored (i, x) (j, NaN) = Less \<and> cmp_scored (j, NaN) (k, y) = Less \<and> cmp_scored (k, y) (i, x) = Less"
    if "i < j" "j < k" "fless x y" for i j k x y
  proof -
    from that(3) have "\<not> is_nan x" "\<not> is_nan y" by (simp_all add: fless_def)
    with that show ?thesis by (simp add: cmp_scored_def partial_cmp_def)
  qed
  ultimately show ?thesis by blast
qed

lemma nan_score_breaks_order_witness:
  "cmp_scored (''a'', Fin 1) (''b'', NaN) = Less \<and> cmp_scored (''b'', NaN) (''c'', Fin 2) = Less \<and>
   cmp_scored (''c'', Fin 2) (''a'', Fin 1) = Less"
proof -
  have "''a'' < ''b'' \<and> ''b'' < ''c'' \<and> fless (Fin 1) (Fin 2)" by code_simp
  then show ?thesis
    using nan_score_breaks_order by blast
qed

end
