(* ===== verification/MemText.thy ===== *)
theory MemText
  imports MemSearch
begin

text \<open>
  The keyword index against the records it was built from (\<^verbatim>\<open>src/types/memory/text.rs\<close>). The
  invariant \<open>inverts\<close> says that the posting lists are exactly the inversion of a map from
  identifiers to texts; indexing and un-indexing a document update that map, so every operation
  on an index keeps it, as long as the cap on terms per document does not change. Under the
  invariant a keyword search is exact.
\<close>

subsection \<open>Counting terms\<close>

definition term_count :: "nat option \<Rightarrow> bytes \<Rightarrow> bytes \<Rightarrow> nat option" where
  "term_count cap txt t = hm_get (term_frequencies (tokenize txt cap)) t"

definition doc_length :: "nat option \<Rightarrow> bytes \<Rightarrow> nat" where
  "doc_length cap txt = sum_list (map snd (term_frequencies (tokenize txt cap)))"

lemma term_frequencies_acc:
  "hm_wf m \<Longrightarrow>
   hm_wf (fold (\<lambda>t m. hm_insert t (case hm_get m t of None \<Rightarrow> 1 | Some n \<Rightarrow> n + 1) m) ts m) \<and>
   hm_get (fold (\<lambda>t m. hm_insert t (case hm_get m t of None \<Rightarrow> 1 | Some n \<Rightarrow> n + 1) m) ts m) t =
     (if t \<in> set ts then Some (count_list ts t + (case hm_get m t of None \<Rightarrow> 0 | Some n \<Rightarrow> n)) else hm_get m t)"
  by (induction ts arbitrary: m) (auto simp: hm_get_insert split: option.splits)

lemma term_frequencies_wf: "hm_wf (term_frequencies ts)"
  and term_frequencies_get: "hm_get (term_frequencies ts) t = (if t \<in> set ts then Some (count_list ts t) else None)"
  using term_frequencies_acc [of "[]" ts t] by (simp_all add: term_frequencies_def)

lemma term_count_iff: "term_count cap txt t = None \<longleftrightarrow> t \<notin> set (tokenize txt cap)"
  by (simp add: term_count_def term_frequencies_get)

subsection \<open>The inversion\<close>

definition tf_of :: "text_index \<Rightarrow> bytes \<Rightarrow> bytes \<Rightarrow> nat option" where
  "tf_of ix t i = Option.bind (hm_get (postings ix) t) (\<lambda>ps. map_of ps i)"

definition postings_ok :: "text_index \<Rightarrow> bool" where
  "postings_ok ix \<longleftrightarrow> hm_wf (postings ix) \<and>
     (\<forall>t ps. hm_get (postings ix) t = Some ps \<longrightarrow> ps \<noteq> [] \<and> distinct (map fst ps))"

definition inverts :: "nat option \<Rightarrow> (bytes \<Rightarrow> bytes option) \<Rightarrow> text_index \<Rightarrow> bool" where
  "inverts cap docs ix \<longleftrightarrow> postings_ok ix \<and>
     (\<forall>t i. tf_of ix t i = Option.bind (docs i) (\<lambda>txt. term_count cap txt t)) \<and>
     hm_wf (doc_len ix) \<and> (\<forall>i. hm_get (doc_len ix) i = map_option (doc_length cap) (docs i)) \<and>
     total_len ix = sum_list (map snd (doc_len ix))"

lemma inverts_empty: "inverts cap Map.empty empty_text_index"
  by (simp add: inverts_def postings_ok_def empty_text_index_def tf_of_def)

definition drop_posting :: "bytes \<Rightarrow> bytes \<times> nat \<Rightarrow> text_index \<Rightarrow> text_index" where
  "drop_posting i = (\<lambda>(t, _) ix.
     case hm_get (postings ix) t of
       None \<Rightarrow> ix
     | Some ps \<Rightarrow>
         (let ps = filter (\<lambda>(d, _). d \<noteq> i) ps
          in ix\<lparr>postings := (if ps = [] then hm_remove t (postings ix)
                              else hm_insert t ps (postings ix))\<rparr>))"

definition add_posting :: "bytes \<Rightarrow> bytes \<times> nat \<Rightarrow> text_index \<Rightarrow> text_index" where
  "add_posting i = (\<lambda>(t, tf) ix. ix\<lparr>postings := hm_insert t
     ((case hm_get (postings ix) t of None \<Rightarrow> [] | Some ps \<Rightarrow> ps) @ [(i, tf)]) (postings ix)\<rparr>)"

lemma text_remove_alt:
  "text_remove i txt cap ix =
     (case hm_get (doc_len ix) i of
        None \<Rightarrow> ix
      | Some len \<Rightarrow> fold (drop_posting i) (term_frequencies (tokenize txt cap))
          (ix\<lparr>doc_len := hm_remove i (doc_len ix), total_len := total_len ix - len\<rparr>))"
  unfolding text_remove_def drop_posting_def ..

lemma text_index_alt:
  "text_index i previous txt cap ix =
     (let ix = (case previous of None \<Rightarrow> ix | Some p \<Rightarrow> text_remove i p cap ix);
          ix = fold (add_posting i) (term_frequencies (tokenize txt cap)) ix
      in ix\<lparr>doc_len := hm_insert i (doc_length cap txt) (doc_len ix), total_len := total_len ix + doc_length cap txt\<rparr>)"
  by (simp add: text_index_def add_posting_def doc_length_def Let_def)

lemma map_of_drop: "map_of (filter (\<lambda>(d, _). d \<noteq> i) ps) j = (if j = i then None else map_of ps j)"
  by (induction ps) auto

lemma drop_posting_frame [simp]:
  "doc_len (drop_posting i p ix) = doc_len ix" "total_len (drop_posting i p ix) = total_len ix"
  by (auto simp: drop_posting_def Let_def split: prod.split option.split)

lemma add_posting_frame [simp]:
  "doc_len (add_posting i p ix) = doc_len ix" "total_len (add_posting i p ix) = total_len ix"
  by (auto simp: add_posting_def split: prod.split)

lemma drop_posting_ok:
  assumes "postings_ok ix"
  shows "postings_ok (drop_posting i (t, n) ix)"
    and "tf_of (drop_posting i (t, n) ix) t' j = (if t' = t \<and> j = i then None else tf_of ix t' j)"
proof -
  show "tf_of (drop_posting i (t, n) ix) t' j = (if t' = t \<and> j = i then None else tf_of ix t' j)"
  proof (cases "hm_get (postings ix) t")
    case (Some ps)
    then show ?thesis
      using map_of_drop [of i ps j]
      by (auto simp: drop_posting_def tf_of_def hm_get_insert hm_get_remove Let_def)
  qed (auto simp: drop_posting_def tf_of_def)
  show "postings_ok (drop_posting i (t, n) ix)"
    using assms
    by (auto simp: postings_ok_def drop_posting_def hm_get_insert hm_get_remove Let_def distinct_map_filter
        split: option.splits if_splits)
qed

lemma fold_drop:
  assumes "postings_ok ix"
  shows "postings_ok (fold (drop_posting i) fs ix) \<and>
    (\<forall>t j. tf_of (fold (drop_posting i) fs ix) t j = (if j = i \<and> t \<in> fst ` set fs then None else tf_of ix t j)) \<and>
    doc_len (fold (drop_posting i) fs ix) = doc_len ix \<and> total_len (fold (drop_posting i) fs ix) = total_len ix"
  using assms
proof (induction fs arbitrary: ix)
  case (Cons a fs)
  obtain t n where a: "a = (t, n)" by fastforce
  show ?case
    using Cons.IH [OF drop_posting_ok(1) [OF Cons.prems, of i t n]] drop_posting_ok(2) [OF Cons.prems, of i t n]
    by (auto simp: a)
qed simp

lemma add_posting_ok:
  assumes "postings_ok ix" and "tf_of ix t i = None"
  shows "postings_ok (add_posting i (t, n) ix)"
    and "tf_of (add_posting i (t, n) ix) t' j = (if t' = t \<and> j = i then Some n else tf_of ix t' j)"
proof -
  have f: "i \<notin> fst ` set ps" if "hm_get (postings ix) t = Some ps" for ps
    using assms(2) that by (simp add: tf_of_def map_of_eq_None_iff)
  show "postings_ok (add_posting i (t, n) ix)"
    using assms(1) f by (auto simp: postings_ok_def add_posting_def hm_get_insert split: option.splits)
  show "tf_of (add_posting i (t, n) ix) t' j = (if t' = t \<and> j = i then Some n else tf_of ix t' j)"
    using assms(2) by (cases "hm_get (postings ix) t")
      (auto simp: add_posting_def tf_of_def hm_get_insert map_add_def split: option.splits)
qed

lemma fold_add:
  assumes "postings_ok ix" and "\<And>t. tf_of ix t i = None" and "distinct (map fst fs)"
  shows "postings_ok (fold (add_posting i) fs ix) \<and>
    (\<forall>t j. tf_of (fold (add_posting i) fs ix) t j = (if j = i then map_of fs t else tf_of ix t j)) \<and>
    doc_len (fold (add_posting i) fs ix) = doc_len ix \<and> total_len (fold (add_posting i) fs ix) = total_len ix"
proof -
  have "postings_ok ix \<Longrightarrow> (\<forall>t \<in> fst ` set fs. tf_of ix t i = None) \<Longrightarrow> distinct (map fst fs) \<Longrightarrow>
    postings_ok (fold (add_posting i) fs ix) \<and>
    (\<forall>t j. tf_of (fold (add_posting i) fs ix) t j =
       (if j = i \<and> t \<in> fst ` set fs then map_of fs t else tf_of ix t j)) \<and>
    doc_len (fold (add_posting i) fs ix) = doc_len ix \<and> total_len (fold (add_posting i) fs ix) = total_len ix" for ix
  proof (induction fs arbitrary: ix)
    case (Cons a fs)
    obtain t n where a: "a = (t, n)" by fastforce
    have i: "tf_of ix t i = None" using Cons.prems by (simp add: a)
    note ok = add_posting_ok [OF Cons.prems(1) i, of n]
    have "\<forall>t' \<in> fst ` set fs. tf_of (add_posting i (t, n) ix) t' i = None"
      using Cons.prems by (auto simp: ok(2) a)
    with Cons.IH [OF ok(1)] Cons.prems(3) show ?case
      by (auto simp: a ok(2) map_of_eq_None_iff)
  qed simp
  moreover have "map_of fs t = None" if "t \<notin> fst ` set fs" for t
    using that by (simp add: map_of_eq_None_iff)
  ultimately show ?thesis using assms by auto
qed

text \<open>Un-indexing and indexing a document.\<close>

lemma sum_hm_remove:
  assumes "hm_wf m" and "hm_get m i = Some n"
  shows "sum_list (map snd (hm_remove i m)) = sum_list (map snd m) - (n :: nat)"
proof -
  have "hm_wf m \<Longrightarrow> hm_get m i = Some n \<Longrightarrow> sum_list (map snd (hm_remove i m)) + n = sum_list (map snd m)"
  proof (induction m)
    case (Cons a m)
    then have "fst a = i \<Longrightarrow> hm_remove i m = m"
      by (auto simp: hm_wf_def delete_id)
    with Cons show ?case by (cases a) (auto simp: hm_wf_def split: if_splits)
  qed simp
  with assms show ?thesis by linarith
qed

lemma sum_hm_insert:
  "hm_get m i = None \<Longrightarrow> sum_list (map snd (hm_insert i n m)) = sum_list (map snd m) + (n :: nat)"
  by (induction m) (auto split: if_splits)

lemma text_remove_inverts:
  assumes "inverts cap docs ix" and "docs i = Some txt"
  shows "inverts cap (docs(i := None)) (text_remove i txt cap ix)"
proof -
  let ?fs = "term_frequencies (tokenize txt cap)"
  let ?ix = "ix\<lparr>doc_len := hm_remove i (doc_len ix), total_len := total_len ix - doc_length cap txt\<rparr>"
  have h: "postings_ok ix" "\<And>t i. tf_of ix t i = Option.bind (docs i) (\<lambda>txt. term_count cap txt t)"
    "hm_wf (doc_len ix)" "\<And>i. hm_get (doc_len ix) i = map_option (doc_length cap) (docs i)"
    "total_len ix = sum_list (map snd (doc_len ix))"
    using assms(1) by (auto simp: inverts_def)
  have r: "text_remove i txt cap ix = fold (drop_posting i) ?fs ?ix"
    using h(4) [of i] assms(2) by (simp add: text_remove_alt)
  have p: "postings_ok ?ix" "\<And>t j. tf_of ?ix t j = tf_of ix t j"
    using h(1) by (simp_all add: postings_ok_def tf_of_def)
  have "term_count cap txt t = None" if "t \<notin> fst ` set ?fs" for t
    using that by (simp add: term_count_def map_of_eq_None_iff)
  then show ?thesis
    using fold_drop [OF p(1), of i ?fs] p(2) h assms(2) unfolding r inverts_def
    by (auto simp: hm_get_remove sum_hm_remove)
qed

lemma text_index_inverts:
  assumes "inverts cap docs ix" and "previous = docs i"
  shows "inverts cap (docs(i \<mapsto> txt)) (text_index i previous txt cap ix)"
proof -
  let ?fs = "term_frequencies (tokenize txt cap)"
  define jx where "jx = (case previous of None \<Rightarrow> ix | Some p \<Rightarrow> text_remove i p cap ix)"
  have j: "inverts cap (docs(i := None)) jx"
    using assms text_remove_inverts [OF assms(1)] by (cases "docs i") (auto simp: jx_def fun_upd_idem)
  then have h: "postings_ok jx" "\<And>t. tf_of jx t i = None" "hm_wf (doc_len jx)"
    "\<And>j. hm_get (doc_len jx) j = map_option (doc_length cap) ((docs(i := None)) j)"
    "\<And>t j. tf_of jx t j = Option.bind ((docs(i := None)) j) (\<lambda>txt. term_count cap txt t)"
    "total_len jx = sum_list (map snd (doc_len jx))"
    unfolding inverts_def by auto
  have d: "distinct (map fst ?fs)" using term_frequencies_wf by (simp add: hm_wf_def)
  have n: "hm_get (doc_len jx) i = None" using h(4) by simp
  have r: "text_index i previous txt cap ix =
      (fold (add_posting i) ?fs jx)\<lparr>doc_len := hm_insert i (doc_length cap txt) (doc_len jx),
        total_len := total_len jx + doc_length cap txt\<rparr>"
    using fold_add [OF h(1,2) d] by (simp add: text_index_alt jx_def Let_def)
  have f: "postings_ok (fold (add_posting i) ?fs jx)"
    "\<And>t j. tf_of (fold (add_posting i) ?fs jx) t j = (if j = i then term_count cap txt t else tf_of jx t j)"
    using fold_add [OF h(1,2) d] by (auto simp: term_count_def)
  have "postings_ok (text_index i previous txt cap ix)"
    "\<And>t j. tf_of (text_index i previous txt cap ix) t j = (if j = i then term_count cap txt t else tf_of jx t j)"
    using f unfolding r by (simp_all add: postings_ok_def tf_of_def)
  then show ?thesis
    using h(3-6) n unfolding inverts_def by (auto simp: r hm_get_insert sum_hm_insert)
qed

subsection \<open>The operations of an index keep the inversion\<close>

definition docs_of :: "memory \<Rightarrow> bytes \<Rightarrow> bytes option" where
  "docs_of m i = map_option rec_text (hm_get (mem_records m) i)"

definition text_inv :: "nat option \<Rightarrow> memory \<Rightarrow> bool" where
  "text_inv cap m \<longleftrightarrow> indexes_text (mc_mode (mem_config m)) \<longrightarrow> inverts cap (docs_of m) (mem_text m)"

lemma text_inv_cong:
  assumes "text_inv cap m" and "mem_text m' = mem_text m" and "docs_of m' = docs_of m"
    and "mc_mode (mem_config m') = mc_mode (mem_config m)"
  shows "text_inv cap m'"
  using assms by (simp add: text_inv_def)

lemma docs_of_update:
  "hm_get (mem_records m) i = Some r \<Longrightarrow> rec_text r' = rec_text r \<Longrightarrow>
   docs_of (m\<lparr>mem_records := hm_insert i r' (mem_records m)\<rparr>) = docs_of m"
  by (rule ext) (simp add: docs_of_def hm_get_insert)

lemma memory_get_Some: "memory_get E m i = Some r \<Longrightarrow> hm_get (mem_records m) i = Some r"
  by (simp add: memory_get_def split: option.splits if_splits)

lemma set_meta_all_text [simp]: "rec_text (fst (set_meta_all ps r)) = rec_text r"
proof (induction ps arbitrary: r)
  case (Cons p ps)
  then show ?case by (cases p) (simp add: case_prod_beta Let_def)
qed simp

lemma remove_meta_all_text [simp]: "rec_text (fst (remove_meta_all fs r)) = rec_text r"
proof (induction fs arbitrary: r)
  case (Cons f fs)
  then show ?case by (simp add: case_prod_beta Let_def remove_meta_def split: sum.split)
qed simp

lemma text_inv_same:
  assumes "text_inv cap m" and "mem_text m' = mem_text m" and "mem_records m' = mem_records m"
    and "mc_mode (mem_config m') = mc_mode (mem_config m)"
  shows "text_inv cap m'"
  by (rule text_inv_cong [OF assms(1,2) _ assms(4)]) (simp add: fun_eq_iff docs_of_def assms(3))

lemma memory_add_text:
  assumes "text_inv cap m"
  shows "text_inv cap (fst (memory_add E q cap mx m))"
proof (cases "add_refusal E q (add_id q m) mx m")
  case (Some e)
  then have m: "fst (memory_add E q cap mx m) = id_taken q m" by (simp add: memory_add_alt)
  show ?thesis
    unfolding m by (rule text_inv_same [OF assms]) simp_all
next
  case None
  let ?m = "fst (memory_add E q cap mx m)" and ?i = "add_id q m"
  have m: "mem_text ?m = (if indexes_text (mc_mode (mem_config m))
      then text_index ?i (docs_of m ?i) (ar_text q) cap (mem_text m) else mem_text m)"
    "mem_config ?m = mem_config m" "docs_of ?m = (docs_of m)(?i \<mapsto> ar_text q)"
    using None by (auto simp: memory_add_alt docs_of_def hm_get_insert hm_get_remove updated_record_frame
        case_prod_beta Let_def fun_eq_iff)
  show ?thesis
    using assms text_index_inverts [of cap "docs_of m" "mem_text m" "docs_of m ?i" ?i "ar_text q"]
    by (simp add: text_inv_def m)
qed

lemma memory_del_text:
  assumes "text_inv cap m"
  shows "text_inv cap (fst (memory_del i cap m))"
proof (cases "hm_get (mem_records m) i")
  case (Some r)
  let ?m = "fst (memory_del i cap m)"
  have m: "mem_text ?m = (if indexes_text (mc_mode (mem_config m))
      then text_remove i (rec_text r) cap (mem_text m) else mem_text m)"
    "mem_config ?m = mem_config m" "docs_of ?m = (docs_of m)(i := None)"
    using Some by (auto simp: memory_del_def docs_of_def hm_get_remove Let_def fun_eq_iff split: option.split)
  have "docs_of m i = Some (rec_text r)" using Some by (simp add: docs_of_def)
  then show ?thesis
    using assms text_remove_inverts [of cap "docs_of m" "mem_text m" i "rec_text r"] by (simp add: text_inv_def m)
qed (use assms in \<open>simp add: memory_del_def\<close>)

lemma memory_sweep_text: "text_inv cap m \<Longrightarrow> text_inv cap (fst (memory_sweep E cap m))"
proof -
  have "text_inv cap m \<Longrightarrow> text_inv cap (fold (\<lambda>i m. fst (memory_del i cap m)) ds m)" for ds
    by (induction ds arbitrary: m) (auto intro: memory_del_text)
  then show "text_inv cap m \<Longrightarrow> text_inv cap (fst (memory_sweep E cap m))"
    by (simp add: memory_sweep_def Let_def)
qed

lemma memory_meta_text:
  assumes "text_inv cap m"
  shows "text_inv cap (fst (memory_set_meta E i pairs m))" and "text_inv cap (fst (memory_remove_meta E i fs m))"
    and "text_inv cap (fst (set_record_ttl E i due m))" and "text_inv cap (set_weights w m)"
    and "text_inv cap (set_half_life t m)"
proof -
  note put = text_inv_cong [OF assms _ docs_of_update]
  show "text_inv cap (fst (memory_set_meta E i pairs m))"
    using assms by (cases "memory_get E m i")
      (auto simp: memory_set_meta_def case_prod_beta Let_def dest!: memory_get_Some intro!: put)
  show "text_inv cap (fst (memory_remove_meta E i fs m))"
    using assms by (cases "memory_get E m i")
      (auto simp: memory_remove_meta_def case_prod_beta Let_def dest!: memory_get_Some intro!: put)
  show "text_inv cap (fst (set_record_ttl E i due m))"
    using assms by (cases "memory_get E m i")
      (auto simp: set_record_ttl_def dest!: memory_get_Some intro!: put)
  show "text_inv cap (set_weights w m)" "text_inv cap (set_half_life t m)"
    by (rule text_inv_same [OF assms]; simp add: set_weights_def set_half_life_def)+
qed

text \<open>The indexes a sequence of operations under one cap can produce.\<close>

inductive memory_reach :: "nat option \<Rightarrow> memory \<Rightarrow> bool" for cap where
  new: "memory_reach cap (memory_new c)"
| add: "memory_reach cap m \<Longrightarrow> memory_reach cap (fst (memory_add E q cap mx m))"
| del: "memory_reach cap m \<Longrightarrow> memory_reach cap (fst (memory_del i cap m))"
| sweep: "memory_reach cap m \<Longrightarrow> memory_reach cap (fst (memory_sweep E cap m))"
| set_meta: "memory_reach cap m \<Longrightarrow> memory_reach cap (fst (memory_set_meta E i pairs m))"
| remove_meta: "memory_reach cap m \<Longrightarrow> memory_reach cap (fst (memory_remove_meta E i fs m))"
| set_ttl: "memory_reach cap m \<Longrightarrow> memory_reach cap (fst (set_record_ttl E i due m))"
| weights: "memory_reach cap m \<Longrightarrow> memory_reach cap (set_weights w m)"
| half_life: "memory_reach cap m \<Longrightarrow> memory_reach cap (set_half_life t m)"

lemma text_inv_reach: "memory_reach cap m \<Longrightarrow> text_inv cap m"
proof (induction rule: memory_reach.induct)
  case (new c)
  have "docs_of (memory_new c) = Map.empty" by (rule ext) (simp add: docs_of_def memory_new_def)
  then show ?case using inverts_empty by (simp add: text_inv_def memory_new_def)
qed (simp_all add: memory_add_text memory_del_text memory_sweep_text memory_meta_text)

text \<open>
  C36. The keyword index never drifts from the records. After any sequence of additions,
  replacements, deletions, sweeps and metadata changes under one cap on terms per document, the
  posting list of a term holds exactly the records whose text contains it, each once with its
  number of occurrences, and the recorded lengths and their total are those of the texts.
\<close>
theorem text_index_inverts_records:
  assumes "memory_reach cap m" and "indexes_text (mc_mode (mem_config m))"
  shows "inverts cap (docs_of m) (mem_text m)"
  using text_inv_reach [OF assms(1)] assms(2) by (simp add: text_inv_def)

subsection \<open>Keyword search is exact\<close>

definition term_score :: "libm \<Rightarrow> text_index \<Rightarrow> bytes \<Rightarrow> bytes \<Rightarrow> nat \<Rightarrow> f32" where
  "term_score lm ix t i tf =
     fmul F32 (idf lm t ix) (saturated (of_nat_flt F32 tf)
       (of_nat_flt F32 (case hm_get (doc_len ix) i of None \<Rightarrow> 0 | Some n \<Rightarrow> n)) (avg_doc_len ix))"

text \<open>The sum over the query's terms, in their order.\<close>

fun bm25 :: "libm \<Rightarrow> text_index \<Rightarrow> bytes \<Rightarrow> bytes list \<Rightarrow> f32 \<Rightarrow> f32" where
  "bm25 lm ix i [] sofar = sofar"
| "bm25 lm ix i (t # ts) sofar =
     (case tf_of ix t i of
        None \<Rightarrow> bm25 lm ix i ts sofar
      | Some tf \<Rightarrow> bm25 lm ix i ts (fadd F32 sofar (term_score lm ix t i tf)))"

definition or_zero :: "f32 option \<Rightarrow> f32" where
  "or_zero v = (case v of None \<Rightarrow> Fin 0 | Some s \<Rightarrow> s)"

lemma score_term_get:
  assumes "postings_ok ix" and "hm_wf S"
  shows "hm_wf (score_term lm ix keep t S) \<and>
    hm_get (score_term lm ix keep t S) i =
     (case tf_of ix t i of
        Some tf \<Rightarrow> if keep i then Some (fadd F32 (or_zero (hm_get S i)) (term_score lm ix t i tf)) else hm_get S i
      | None \<Rightarrow> hm_get S i)"
proof (cases "hm_get (postings ix) t")
  case None
  then show ?thesis using assms(2) by (simp add: score_term_def tf_of_def)
next
  case (Some ps)
  let ?step = "\<lambda>(i, tf) S. if \<not> keep i then S
    else hm_insert i (fadd F32 (or_zero (hm_get S i)) (term_score lm ix t i tf)) S"
  have "distinct (map fst ps) \<Longrightarrow> hm_wf S \<Longrightarrow> hm_wf (fold ?step ps S) \<and> hm_get (fold ?step ps S) i =
      (case map_of ps i of
         Some tf \<Rightarrow> if keep i then Some (fadd F32 (or_zero (hm_get S i)) (term_score lm ix t i tf)) else hm_get S i
       | None \<Rightarrow> hm_get S i)" for ps S
  proof (induction ps arbitrary: S)
    case (Cons a ps)
    obtain j tf where a: "a = (j, tf)" by fastforce
    have w: "hm_wf (?step a S)" using Cons.prems(2) by (simp add: a)
    have n: "map_of ps j = None" using Cons.prems(1) by (simp add: a map_of_eq_None_iff)
    show ?case
      using Cons.IH [OF _ w [unfolded a]] Cons.prems(1) n by (auto simp: a hm_get_insert split: option.split)
  qed simp
  moreover have "distinct (map fst ps)" using assms(1) Some by (simp add: postings_ok_def)
  moreover have "score_term lm ix keep t S = fold ?step ps S"
    unfolding score_term_def term_score_def or_zero_def Let_def Some option.case ..
  ultimately show ?thesis using assms(2) by (simp add: tf_of_def Some)
qed

lemma fold_score_get:
  assumes "postings_ok ix" and "hm_wf S"
  shows "hm_wf (fold (score_term lm ix keep) ts S) \<and>
    hm_get (fold (score_term lm ix keep) ts S) i =
     (if keep i \<and> (\<exists>t \<in> set ts. tf_of ix t i \<noteq> None)
      then Some (bm25 lm ix i ts (or_zero (hm_get S i))) else hm_get S i)"
  using assms(2)
proof (induction ts arbitrary: S)
  case (Cons t ts)
  note st = score_term_get [OF assms(1) Cons.prems, of lm keep t]
  have none: "bm25 lm ix i us sofar = sofar" if "\<forall>u \<in> set us. tf_of ix u i = None" for us sofar
    using that by (induction us arbitrary: sofar) simp_all
  show ?case
    using Cons.IH [of "score_term lm ix keep t S"] st [of i] none [of ts]
    by (cases "tf_of ix t i") (auto simp: or_zero_def)
qed simp

text \<open>The score a record should get: none unless it is live, matches the filter and shares a term
  with the query.\<close>

definition keyword_score :: "libm \<Rightarrow> env \<Rightarrow> bytes \<Rightarrow> clause list \<Rightarrow> nat option \<Rightarrow> memory \<Rightarrow> bytes \<Rightarrow> f32 option" where
  "keyword_score lm E q cs cap m i =
     (case docs_of m i of
        None \<Rightarrow> None
      | Some txt \<Rightarrow>
          if record_matches E cs m i \<and> set (tokenize q cap) \<inter> set (tokenize txt cap) \<noteq> {}
          then Some (bm25 lm (mem_text m) i (tokenize q cap) (Fin 0)) else None)"

text \<open>
  C34. Keyword search is exact. In an index kept under one cap on terms, the hits are the live
  records that match the filter and share a term with the query, scored by BM25 over the index,
  best first with ties by identifier, none twice; a record that is left out means the page is
  full and no hit ranks after it.
\<close>
theorem keyword_search_exact:
  assumes "memory_reach cap m" and "search_text lm E q limit cs cap m = Inr hits"
    and "\<not> feq (avg_doc_len (mem_text m)) (Fin 0)"
    and "\<And>i s. keyword_score lm E q cs cap m i = Some s \<Longrightarrow> \<not> is_nan s"
  shows "best_of (keyword_score lm E q cs cap m) limit hits"
proof -
  have x: "indexes_text (mc_mode (mem_config m))"
    "hits = take limit (sort_by cmp_scored (fold (score_term lm (mem_text m) (record_matches E cs m))
       (tokenize q cap) []))"
    using assms(2,3) by (simp_all add: search_text_def text_search_def split: if_splits)
  have inv: "inverts cap (docs_of m) (mem_text m)"
    using text_inv_reach [OF assms(1)] x(1) by (simp add: text_inv_def)
  then have p: "postings_ok (mem_text m)"
    "\<And>t i. tf_of (mem_text m) t i = Option.bind (docs_of m i) (\<lambda>txt. term_count cap txt t)"
    by (simp_all add: inverts_def)
  let ?xs = "fold (score_term lm (mem_text m) (record_matches E cs m)) (tokenize q cap) []"
  note f = fold_score_get [OF p(1) hm_wf_Nil, of lm "record_matches E cs m" "tokenize q cap"]
  have c: "keyword_score lm E q cs cap m = hm_get ?xs"
  proof (rule ext)
    fix i
    show "keyword_score lm E q cs cap m i = hm_get ?xs i"
    proof (cases "docs_of m i")
      case None
      then show ?thesis using f by (simp add: keyword_score_def p(2))
    next
      case (Some d)
      then have "(\<exists>t \<in> set (tokenize q cap). tf_of (mem_text m) t i \<noteq> None) \<longleftrightarrow>
          set (tokenize q cap) \<inter> set (tokenize d cap) \<noteq> {}"
        by (auto simp: p(2) term_count_iff)
      then show ?thesis using f [of i] Some by (simp add: keyword_score_def or_zero_def)
    qed
  qed
  have "distinct (map fst ?xs)" using f by (simp add: hm_wf_def)
  then show ?thesis
    unfolding x(2) by (rule best_of_sort [OF _ c assms(4)])
qed

text \<open>A keyword index of two records.\<close>

definition sample_libm :: libm where
  "sample_libm = \<lparr>ln32 = (\<lambda>x. x), powf = (\<lambda>x y. x)\<rparr>"

definition sample_notes :: memory where
  "sample_notes =
     (let add = (\<lambda>i t m. fst (memory_add (memory_env 5)
            (sample_request\<lparr>ar_id := Some i, ar_text := t, ar_vector := None\<rparr>) (Some 8) 0 m))
      in add ''b'' ''beta gamma'' (add ''a'' ''alpha beta'' (memory_new ((mem_config sample_memory)\<lparr>mc_mode := Search\<rparr>))))"

lemma sample_notes_reach: "memory_reach (Some 8) sample_notes"
  unfolding sample_notes_def Let_def by (intro memory_reach.intros)

lemma text_index_inverts_records_witness:
  "inverts (Some 8) (docs_of sample_notes) (mem_text sample_notes) \<and> tf_of (mem_text sample_notes) ''gamma'' ''b'' = Some 1"
proof -
  have "indexes_text (mc_mode (mem_config sample_notes))" "tf_of (mem_text sample_notes) ''gamma'' ''b'' = Some 1"
    by code_simp+
  with text_index_inverts_records [OF sample_notes_reach] show ?thesis by simp
qed

lemma sample_notes_docs: "docs_of sample_notes = [''a'' \<mapsto> ''alpha beta'', ''b'' \<mapsto> ''beta gamma'']"
proof (rule ext)
  have m: "map (\<lambda>(i, r). (i, rec_text r)) (mem_records sample_notes) = [(''a'', ''alpha beta''), (''b'', ''beta gamma'')]"
    by code_simp
  fix i
  have "docs_of sample_notes i = map_of (map (\<lambda>(i, r). (i, rec_text r)) (mem_records sample_notes)) i"
    by (simp add: docs_of_def map_of_map)
  then show "docs_of sample_notes i = [''a'' \<mapsto> ''alpha beta'', ''b'' \<mapsto> ''beta gamma''] i"
    unfolding m by auto
qed

lemma sample_notes_scores:
  "keyword_score sample_libm (memory_env 6) ''gamma'' [] (Some 8) sample_notes = [''b'' \<mapsto> Fin 2]"
proof (rule ext)
  fix i
  have a: "keyword_score sample_libm (memory_env 6) ''gamma'' [] (Some 8) sample_notes ''a'' = None"
    and b: "keyword_score sample_libm (memory_env 6) ''gamma'' [] (Some 8) sample_notes ''b'' = Some (Fin 2)"
    by code_simp+
  consider "i = ''a''" | "i = ''b''" | "docs_of sample_notes i = None"
    by (cases "i = ''a''"; cases "i = ''b''"; simp add: sample_notes_docs)
  then show "keyword_score sample_libm (memory_env 6) ''gamma'' [] (Some 8) sample_notes i = [''b'' \<mapsto> Fin 2] i"
  proof cases
    case 3
    then have "i \<noteq> ''b''" by (auto simp: sample_notes_docs)
    with 3 show ?thesis by (simp add: keyword_score_def)
  qed (simp_all only: a b, simp_all)
qed

lemma keyword_search_exact_witness:
  "\<exists>hits. search_text sample_libm (memory_env 6) ''gamma'' 10 [] (Some 8) sample_notes = Inr hits \<and>
     best_of [''b'' \<mapsto> Fin 2] 10 hits"
proof -
  have m: "indexes_text (mc_mode (mem_config sample_notes))"
    and n: "\<not> feq (avg_doc_len (mem_text sample_notes)) (Fin 0)"
    by code_simp+
  then obtain hits where x: "search_text sample_libm (memory_env 6) ''gamma'' 10 [] (Some 8) sample_notes = Inr hits"
    by (simp add: search_text_def)
  have "best_of (keyword_score sample_libm (memory_env 6) ''gamma'' [] (Some 8) sample_notes) 10 hits"
    by (rule keyword_search_exact [OF sample_notes_reach x n])
      (auto simp: sample_notes_scores split: if_splits)
  with x show ?thesis by (auto simp: sample_notes_scores)
qed

end
