(* ===== verification/MemArgs.thy ===== *)
theory MemArgs
  imports MemText CmdBase
begin

text \<open>
  What the MEM commands of \<^verbatim>\<open>src/commands/memory.rs\<close> share: the text of the errors, the option
  cursor with its loop, the options of every retrieval command, and the replies.
\<close>

subsection \<open>Errors\<close>

definition no_such_index :: reply where
  "no_such_index = Error ''ERR no such memory index''"

definition already_exists :: reply where
  "already_exists = Error ''ERR memory index already exists''"

definition describe :: "memory_error \<Rightarrow> reply" where
  "describe e = Error
     (case e of
        VectorsNotSupported \<Rightarrow>
          ''ERR this memory index stores no vectors; create it with MODE VECTOR or MODE HYBRID''
      | TextNotSupported \<Rightarrow>
          ''ERR this memory index does not index text; create it with MODE SEARCH or MODE HYBRID''
      | VectorRequired \<Rightarrow> ''ERR a VECTOR-mode index needs a vector on every record''
      | NoSuchRecord \<Rightarrow> ''ERR no such record''
      | TooLargeToScan n limit \<Rightarrow>
          ''ERR a scan of '' @ nat_str n @ '' vectors exceeds mem-max-scan ('' @ nat_str limit
          @ ''); raise it or narrow the query with FILTER''
      | ExistenceUnmet \<Rightarrow> ''ERR record existence condition not met''
      | FullErr limit \<Rightarrow> ''ERR memory index is full at mem-max-records ('' @ nat_str limit @ '')''
      | VectorErr v \<Rightarrow>
          (case v of
             NotFloats \<Rightarrow> ''ERR vector is not float32 bytes; its length must be a multiple of 4''
           | WrongDimension want got \<Rightarrow>
               ''ERR wrong vector dimension, expected '' @ nat_str want @ '' got '' @ nat_str got
           | NotFinite \<Rightarrow> ''ERR vector contains NaN or infinity''
           | ZeroVector \<Rightarrow> ''ERR a zero vector has no direction to compare under COSINE''))"

subsection \<open>The option cursor\<close>

text \<open>The words not yet read stand for the cursor.\<close>

definition take_word :: "bytes \<Rightarrow> bytes list \<Rightarrow> bytes list option" where
  "take_word word rest =
     (case rest of [] \<Rightarrow> None | w # ws \<Rightarrow> if eq_ignore_case w word then Some ws else None)"

definition take_values :: "nat \<Rightarrow> bytes list \<Rightarrow> reply + (bytes list \<times> bytes list)" where
  "take_values n rest =
     (if n > length rest then Inl syntax_error else Inr (take n rest, drop n rest))"

definition take_value :: "bytes list \<Rightarrow> reply + (bytes \<times> bytes list)" where
  "take_value rest = and_then (take_values 1 rest) (\<lambda>(ws, rest). Inr (ws ! 0, rest))"

definition unexpected :: "bytes list \<Rightarrow> reply" where
  "unexpected rest =
     Error (''ERR unexpected argument '' @ [CHR 0x27] @ to_display (hd rest) @ [CHR 0x27])"

definition parse_int :: "bytes \<Rightarrow> reply + int" where
  "parse_int w = (case parse_i64 w of None \<Rightarrow> Inl not_an_integer | Some n \<Rightarrow> Inr n)"

definition parse_float :: "bytes \<Rightarrow> reply + f64" where
  "parse_float w = (case parse_f64 w of None \<Rightarrow> Inl not_a_float | Some v \<Rightarrow> Inr v)"

text \<open>\<open>while !args.done()\<close>, over the step that reads one option. Every step here consumes at least
  one word (\<open>consumes\<close> below), so the second test never fails.\<close>

function read_options ::
    "('o \<Rightarrow> bytes list \<Rightarrow> reply + (bytes list \<times> 'o)) \<Rightarrow> 'o \<Rightarrow> bytes list \<Rightarrow> reply + 'o" where
  "read_options step opts rest =
     (if rest = [] then Inr opts
      else and_then (step opts rest) (\<lambda>(rest', opts).
        if length rest' < length rest then read_options step opts rest' else Inl (unexpected rest)))"
  by pat_completeness auto
termination by (relation "measure (\<lambda>(_, _, rest). length rest)") auto

declare read_options.simps [simp del]

definition consumes :: "('o \<Rightarrow> bytes list \<Rightarrow> reply + (bytes list \<times> 'o)) \<Rightarrow> bool" where
  "consumes step \<longleftrightarrow> (\<forall>opts rest rest' opts'. rest \<noteq> [] \<longrightarrow> step opts rest = Inr (rest', opts') \<longrightarrow>
     length rest' < length rest)"

lemma read_options_loop:
  "consumes step \<Longrightarrow> read_options step opts rest =
     (if rest = [] then Inr opts
      else and_then (step opts rest) (\<lambda>(rest', opts). read_options step opts rest'))"
  by (subst read_options.simps) (auto simp: and_then_def consumes_def split: sum.split)

subsection \<open>Reading vectors, filters and weights\<close>

fun read_floats :: "bytes list \<Rightarrow> reply + f32 list" where
  "read_floats [] = Inr []"
| "read_floats (w # ws) =
     and_then (parse_float w) (\<lambda>v.
       if \<not> is_finite (to_f32 v) then Inl (describe (VectorErr NotFinite))
       else and_then (read_floats ws) (\<lambda>vs. Inr (to_f32 v # vs)))"

definition read_vector :: "bytes list \<Rightarrow> reply + (bytes list \<times> f32 list option)" where
  "read_vector rest =
     (case take_word ''VEC'' rest of
        Some rest \<Rightarrow>
          and_then (take_value rest) (\<lambda>(blob, rest).
            case parse_le_f32 blob of
              Inr vs \<Rightarrow> Inr (rest, Some vs)
            | Inl e \<Rightarrow> Inl (describe (VectorErr e)))
      | None \<Rightarrow>
          (case take_word ''FVEC'' rest of
             Some rest \<Rightarrow>
               and_then (take_value rest) (\<lambda>(w, rest).
                 and_then (parse_int w) (\<lambda>n.
                   if n < 0 then Inl syntax_error
                   else and_then (take_values (nat n) rest) (\<lambda>(ws, rest).
                     and_then (read_floats ws) (\<lambda>vs. Inr (rest, Some vs)))))
           | None \<Rightarrow> Inr (rest, None)))"

definition read_filter_clause :: "clause list \<Rightarrow> bytes list \<Rightarrow> reply + (bytes list \<times> clause list) option" where
  "read_filter_clause cs rest =
     (case take_word ''FILTER'' rest of
        None \<Rightarrow> Inr None
      | Some rest \<Rightarrow>
          and_then (take_values 3 rest) (\<lambda>(ws, rest).
            case (field_parse (ws ! 0), op_parse (ws ! 1)) of
              (Some f, Some op) \<Rightarrow>
                Inr (Some (rest, cs @ [\<lparr>cl_field = f, cl_op = op, cl_value = ws ! 2\<rparr>]))
            | _ \<Rightarrow> Inl (Error (''ERR bad filter clause '' @ [CHR 0x27] @ to_display (ws ! 0) @ '' ''
                             @ to_display (ws ! 1) @ [CHR 0x27]))))"

fun parse_floats :: "bytes list \<Rightarrow> reply + f32 list" where
  "parse_floats [] = Inr []"
| "parse_floats (w # ws) =
     and_then (parse_float w) (\<lambda>v. and_then (parse_floats ws) (\<lambda>vs. Inr (to_f32 v # vs)))"

definition read_weights :: "bytes list \<Rightarrow> reply + (weights \<times> bytes list)" where
  "read_weights rest =
     and_then (take_values 4 rest) (\<lambda>(ws, rest).
       and_then (parse_floats ws) (\<lambda>vs.
         Inr (\<lparr>w_keyword = vs ! 0, w_vector = vs ! 1, w_recency = vs ! 2, w_importance = vs ! 3\<rparr>, rest)))"

definition weights_valid :: "weights \<Rightarrow> bool" where
  "weights_valid w \<longleftrightarrow>
     list_all (\<lambda>v. is_finite v \<and> fle (Fin 0) v) [w_keyword w, w_vector w, w_recency w, w_importance w]"

definition bad_weights :: reply where
  "bad_weights = Error ''ERR WEIGHTS must be finite and non-negative''"

subsection \<open>What a reply carries\<close>

record returns =
  rn_no_text :: bool
  rn_meta :: bool
  rn_vector :: bool
  rn_scores :: bool

definition no_returns :: returns where
  "no_returns = \<lparr>rn_no_text = False, rn_meta = False, rn_vector = False, rn_scores = False\<rparr>"

definition returns_read :: "returns \<Rightarrow> bytes list \<Rightarrow> (bytes list \<times> returns) option" where
  "returns_read rn rest =
     (case take_word ''NOTEXT'' rest of Some ws \<Rightarrow> Some (ws, rn\<lparr>rn_no_text := True\<rparr>)
      | None \<Rightarrow> (case take_word ''WITHMETA'' rest of Some ws \<Rightarrow> Some (ws, rn\<lparr>rn_meta := True\<rparr>)
      | None \<Rightarrow> (case take_word ''WITHVEC'' rest of Some ws \<Rightarrow> Some (ws, rn\<lparr>rn_vector := True\<rparr>)
      | None \<Rightarrow> (case take_word ''WITHSCORES'' rest of Some ws \<Rightarrow> Some (ws, rn\<lparr>rn_scores := True\<rparr>)
      | None \<Rightarrow> None))))"

record retrieval =
  rt_topk :: nat
  rt_candidates :: nat
  rt_filter :: "clause list"
  rt_returns :: returns

definition retrieval_new :: "config \<Rightarrow> retrieval" where
  "retrieval_new cfg =
     \<lparr>rt_topk = 10, rt_candidates = max (mem_max_candidates cfg) 10, rt_filter = [], rt_returns = no_returns\<rparr>"

definition retrieval_read :: "config \<Rightarrow> retrieval \<Rightarrow> bytes list \<Rightarrow> reply + (bytes list \<times> retrieval)" where
  "retrieval_read cfg rt rest =
     (case take_word ''TOPK'' rest of
        Some rest \<Rightarrow>
          and_then (take_value rest) (\<lambda>(w, rest).
            and_then (parse_int w) (\<lambda>n.
              if n < 1 \<or> nat n > mem_max_topk cfg then
                Inl (Error (''ERR TOPK must be between 1 and mem-max-topk ('' @ nat_str (mem_max_topk cfg) @ '')''))
              else Inr (rest, rt\<lparr>rt_topk := nat n, rt_candidates := max (mem_max_candidates cfg) (nat n)\<rparr>)))
      | None \<Rightarrow>
          (case returns_read (rt_returns rt) rest of
             Some (rest, rn) \<Rightarrow> Inr (rest, rt\<lparr>rt_returns := rn\<rparr>)
           | None \<Rightarrow>
               and_then (read_filter_clause (rt_filter rt) rest) (\<lambda>r.
                 case r of
                   Some (rest, cs) \<Rightarrow> Inr (rest, rt\<lparr>rt_filter := cs\<rparr>)
                 | None \<Rightarrow> Inl (unexpected rest))))"

text \<open>An \<open>f32\<close> reaches the client through its shortest decimal text.\<close>

definition double :: "f32 \<Rightarrow> reply" where
  "double v = Double (case str_parse_float F64 (map ord_of (display_float F32 v)) of Some d \<Rightarrow> d | None \<Rightarrow> v)"

definition meta_reply :: "memory_record \<Rightarrow> reply" where
  "meta_reply r = Map (map (\<lambda>(f, v). (Bulk f, Bulk v)) (rec_meta r))"

definition record_fields :: "env \<Rightarrow> memory \<Rightarrow> memory_record \<Rightarrow> returns \<Rightarrow> (reply \<times> reply) list" where
  "record_fields E m r rn =
     [(Bulk ''id'', Bulk (rec_id r))]
     @ (if rn_no_text rn then [] else [(Bulk ''text'', Bulk (rec_text r))])
     @ [(Bulk ''importance'', double (rec_importance r)),
        (Bulk ''created_at'', Integer (unix_millis (rec_created_at r))),
        (Bulk ''updated_at'', Integer (unix_millis (rec_updated_at r))),
        (Bulk ''pttl'', Integer (record_pttl E (rec_id r) m))]
     @ (if rn_meta rn then [(Bulk ''meta'', meta_reply r)] else [])
     @ (if rn_vector rn
        then [(Bulk ''vector'', case Option.bind (rec_slot r) (\<lambda>s. vector_get s (mem_vectors m)) of
                 None \<Rightarrow> RNil | Some vs \<Rightarrow> Bulk (encode_le_f32 vs))]
        else [])"

definition record_reply :: "env \<Rightarrow> memory \<Rightarrow> memory_record \<Rightarrow> returns \<Rightarrow> reply" where
  "record_reply E m r rn = Map (record_fields E m r rn)"

definition hits_reply :: "env \<Rightarrow> memory \<Rightarrow> hit list \<Rightarrow> nat \<Rightarrow> returns \<Rightarrow> reply" where
  "hits_reply E m hits topk rn =
     Array (List.map_filter (\<lambda>h.
       case memory_get E m (hit_id h) of
         None \<Rightarrow> None
       | Some r \<Rightarrow>
           Some (Map (insert_at 1 (Bulk ''score'', double (hit_score h)) (record_fields E m r rn)
             @ (if rn_scores rn
                then [(Bulk ''keyword_score'', double (hit_keyword h)), (Bulk ''vector_score'', double (hit_vector h)),
                      (Bulk ''recency_score'', double (hit_recency h))]
                else [])))) (take topk hits))"

subsection \<open>Names\<close>

definition mode_parse :: "bytes \<Rightarrow> mode option" where
  "mode_parse = parse_word [(''SEARCH'', Search), (''VECTOR'', Vector), (''HYBRID'', Hybrid)]"

definition metric_parse :: "bytes \<Rightarrow> metric option" where
  "metric_parse = parse_word
     [(''COSINE'', Cosine), (''L2'', L2), (''IP'', InnerProduct), (''INNERPRODUCT'', InnerProduct)]"

text \<open>\<open>Weights::default\<close>, as the nearest \<open>f32\<close> values, and \<open>MemoryConfig::new\<close>.\<close>

definition default_weights :: weights where
  "default_weights =
     \<lparr>w_keyword = round_to F32 False (35 / 100), w_vector = Fin (1 / 2), w_recency = round_to F32 False (1 / 10),
      w_importance = round_to F32 False (5 / 100)\<rparr>"

definition memory_config_new :: "mode \<Rightarrow> nat \<Rightarrow> metric \<Rightarrow> memory_config" where
  "memory_config_new mode width metric =
     \<lparr>mc_mode = mode, mc_dim = (if stores_vectors mode then width else 0), mc_metric = metric,
      mc_weights = default_weights, mc_half_life = 7 * 24 * 3600 * 1000000000\<rparr>"

subsection \<open>The readers consume words\<close>

lemma and_then_Inr: "and_then x f = Inr b \<longleftrightarrow> (\<exists>a. x = Inr a \<and> f a = Inr b)"
  by (cases x) (simp_all add: and_then_def)

lemma map_Inr:
  "(case x of Inl e \<Rightarrow> Inl (f e) | Inr a \<Rightarrow> Inr (g a)) = Inr b \<longleftrightarrow> (\<exists>a. x = Inr a \<and> g a = b)"
  by (cases x) simp_all

lemma take_word_less: "take_word w rest = Some ws \<Longrightarrow> length ws < length rest"
  by (auto simp: take_word_def split: list.splits if_splits)

lemma take_value_le: "take_value rest = Inr (w, ws) \<Longrightarrow> length ws \<le> length rest"
  by (auto simp: take_value_def take_values_def and_then_Inr split: if_splits)

lemma take_values_le: "take_values n rest = Inr (w, ws) \<Longrightarrow> length ws \<le> length rest"
  by (auto simp: take_values_def split: if_splits)

lemma read_weights_le: "read_weights rest = Inr (w, ws) \<Longrightarrow> length ws \<le> length rest"
  by (auto simp: read_weights_def and_then_Inr dest: take_values_le)

lemma read_vector_less:
  assumes "read_vector rest = Inr (ws, Some vs)"
  shows "length ws < length rest"
proof (cases "take_word ''VEC'' rest")
  case None
  with assms show ?thesis
    by (fastforce simp: read_vector_def and_then_Inr split: option.splits if_splits
        dest: take_word_less take_value_le take_values_le)
next
  case (Some us)
  with assms obtain blob where v: "take_value us = Inr (blob, ws)"
    by (auto simp: read_vector_def and_then_Inr map_Inr)
  from take_word_less [OF Some] take_value_le [OF v] show ?thesis by linarith
qed

lemma read_vector_none: "read_vector rest = Inr (ws, None) \<Longrightarrow> ws = rest"
  by (cases "take_word ''VEC'' rest")
    (auto simp: read_vector_def and_then_Inr map_Inr split: option.splits if_splits)

lemma read_filter_less: "read_filter_clause cs rest = Inr (Some (ws, cs')) \<Longrightarrow> length ws < length rest"
  by (fastforce simp: read_filter_clause_def and_then_Inr split: option.splits
      dest: take_word_less take_values_le)

lemma returns_read_less: "returns_read rn rest = Some (ws, rn') \<Longrightarrow> length ws < length rest"
  by (auto simp: returns_read_def split: option.splits dest: take_word_less)

lemma retrieval_read_less: "retrieval_read cfg rt rest = Inr (ws, rt') \<Longrightarrow> length ws < length rest"
  by (fastforce simp: retrieval_read_def and_then_Inr split: option.splits if_splits
      dest: take_word_less take_value_le returns_read_less read_filter_less)

end
