(* ===== verification/CmdMemory.thy ===== *)
theory CmdMemory
  imports MemArgs App
begin

text \<open>
  The MEM commands (\<^verbatim>\<open>src/commands/memory.rs\<close>), one definition per command, and what each may
  change. The size of an index in bytes and the two functions of the mathematics library are
  arguments. The code adds a TTL to the clock without a check, and looks a key up twice; both can
  panic, and the outcome says so.
\<close>

subsection \<open>Looking an index up\<close>

text \<open>The type is peeked at first and the index fetched after; the fetch is expected to succeed.\<close>

definition with_index ::
    "env \<Rightarrow> bytes \<Rightarrow> (memory \<Rightarrow> store \<Rightarrow> (store \<times> reply) outcome) \<Rightarrow> store \<Rightarrow> (store \<times> reply) outcome" where
  "with_index E k f st =
     (let (st, found) = peek_type E k st
      in case found of
           None \<Rightarrow> Done (st, no_such_index)
         | Some T \<Rightarrow>
             if T \<noteq> TMemory then Done (st, wrongtype)
             else (let (st, m) = get_existing_memory E k st
                   in case m of None \<Rightarrow> Panicked | Some m \<Rightarrow> f m st))"

definition read_index ::
    "env \<Rightarrow> bytes \<Rightarrow> (memory \<Rightarrow> reply) \<Rightarrow> store \<Rightarrow> (store \<times> reply) outcome" where
  "read_index E k f = with_index E k (\<lambda>m st. Done (st, f m))"

text \<open>An update in place: the index changes whatever the result, the dirty mark only on success.\<close>

definition update_index ::
    "env \<Rightarrow> bytes \<Rightarrow> (memory \<Rightarrow> memory \<times> (memory_error + reply)) \<Rightarrow> store \<Rightarrow> (store \<times> reply) outcome" where
  "update_index E k f =
     with_index E k (\<lambda>m st.
       let (m, r) = f m; st = put_value k (VMemory m) st
       in Done (case r of Inl e \<Rightarrow> (st, describe e) | Inr r \<Rightarrow> (mark_dirty st, r)))"

text \<open>\<open>SystemTime + Duration\<close> panics when the seconds leave the range of an \<open>i64\<close>.\<close>

definition past_clock :: "env \<Rightarrow> time option \<Rightarrow> bool" where
  "past_clock E due = (case due of None \<Rightarrow> False | Some d \<Rightarrow> (now E + d) div 1000000000 > i64_max)"

subsection \<open>MEM.CREATE, MEM.INFO, MEM.CONFIG, MEM.CARD\<close>

record create_options =
  co_mode :: mode
  co_dim :: "nat option"
  co_metric :: metric
  co_weights :: "weights option"
  co_half_life :: time

definition read_seconds :: "bytes \<Rightarrow> bytes list \<Rightarrow> reply + (time \<times> bytes list)" where
  "read_seconds what rest =
     and_then (take_value rest) (\<lambda>(w, rest).
       and_then (parse_int w) (\<lambda>n.
         if n < 1 then Inl (Error (''ERR '' @ what @ '' must be positive''))
         else Inr (n * 1000000000, rest)))"

definition create_step :: "config \<Rightarrow> create_options \<Rightarrow> bytes list \<Rightarrow> reply + (bytes list \<times> create_options)" where
  "create_step cfg opts rest =
     (case take_word ''MODE'' rest of
        Some ws \<Rightarrow>
          and_then (take_value ws) (\<lambda>(w, ws).
            case mode_parse w of None \<Rightarrow> Inl syntax_error | Some m \<Rightarrow> Inr (ws, opts\<lparr>co_mode := m\<rparr>))
      | None \<Rightarrow> (case take_word ''DIM'' rest of
        Some ws \<Rightarrow>
          and_then (take_value ws) (\<lambda>(w, ws).
            and_then (parse_int w) (\<lambda>n.
              if n < 1 \<or> nat n > mem_max_dim cfg then
                Inl (Error (''ERR DIM must be between 1 and mem-max-dim ('' @ nat_str (mem_max_dim cfg) @ '')''))
              else Inr (ws, opts\<lparr>co_dim := Some (nat n)\<rparr>)))
      | None \<Rightarrow> (case take_word ''METRIC'' rest of
        Some ws \<Rightarrow>
          and_then (take_value ws) (\<lambda>(w, ws).
            case metric_parse w of None \<Rightarrow> Inl syntax_error | Some m \<Rightarrow> Inr (ws, opts\<lparr>co_metric := m\<rparr>))
      | None \<Rightarrow> (case take_word ''WEIGHTS'' rest of
        Some ws \<Rightarrow> and_then (read_weights ws) (\<lambda>(w, ws). Inr (ws, opts\<lparr>co_weights := Some w\<rparr>))
      | None \<Rightarrow> (case take_word ''HALFLIFE'' rest of
        Some ws \<Rightarrow> and_then (read_seconds ''HALFLIFE'' ws) (\<lambda>(d, ws). Inr (ws, opts\<lparr>co_half_life := d\<rparr>))
      | None \<Rightarrow> Inl (unexpected rest))))))"

definition create_refusal :: "create_options \<Rightarrow> reply option" where
  "create_refusal opts =
     (if stores_vectors (co_mode opts) \<and> co_dim opts = None then
        Some (Error ''ERR DIM is required for a VECTOR or HYBRID index'')
      else if \<not> stores_vectors (co_mode opts) \<and> co_dim opts \<noteq> None then
        Some (Error ''ERR a SEARCH index stores no vectors, so DIM does not apply; did you mean MODE HYBRID?'')
      else (case co_weights opts of
              Some w \<Rightarrow> if weights_valid w then None else Some bad_weights
            | None \<Rightarrow> None))"

definition created_config :: "create_options \<Rightarrow> memory_config" where
  "created_config opts =
     (let c = memory_config_new (co_mode opts) (case co_dim opts of None \<Rightarrow> 0 | Some n \<Rightarrow> n) (co_metric opts);
          c = c\<lparr>mc_half_life := co_half_life opts\<rparr>
      in case co_weights opts of None \<Rightarrow> c | Some w \<Rightarrow> c\<lparr>mc_weights := w\<rparr>)"

definition mem_create :: "env \<Rightarrow> config \<Rightarrow> bytes list \<Rightarrow> store \<Rightarrow> (store \<times> reply) outcome" where
  "mem_create E cfg av st =
     (if \<not> min_args av 1 then Done (st, wrong_arity ''MEM.CREATE'')
      else (case read_options (create_step cfg)
              \<lparr>co_mode = Hybrid, co_dim = None, co_metric = Cosine, co_weights = None,
               co_half_life = int (mem_recency_halflife cfg) * 1000000000\<rparr> (drop 2 av) of
              Inl e \<Rightarrow> Done (st, e)
            | Inr opts \<Rightarrow>
                (case create_refusal opts of
                   Some e \<Rightarrow> Done (st, e)
                 | None \<Rightarrow>
                     (let (st, found) = peek_type E (av ! 1) st
                      in if found \<noteq> None then
                           (let (st, found) = peek_type E (av ! 1) st
                            in Done (st, if found = Some TMemory then already_exists else wrongtype))
                         else (let (st, _) = create_memory E (av ! 1) (memory_new (created_config opts)) st
                               in Done (st, reply_ok))))))"

definition info_fields :: "(memory \<Rightarrow> nat) \<Rightarrow> memory \<Rightarrow> (reply \<times> reply) list" where
  "info_fields heap_of m =
     (let c = mem_config m; w = mc_weights c
      in [(Bulk ''mode'', Bulk (mode_name (mc_mode c))), (Bulk ''dim'', of_int_reply (mc_dim c)),
          (Bulk ''metric'', Bulk (metric_name (mc_metric c))),
          (Bulk ''weights'', Map
             [(Bulk ''keyword'', double (w_keyword w)), (Bulk ''vector'', double (w_vector w)),
              (Bulk ''recency'', double (w_recency w)), (Bulk ''importance'', double (w_importance w))]),
          (Bulk ''halflife'', Integer (as_i64 (mc_half_life c div 1000000000))),
          (Bulk ''records'', of_int_reply (memory_len m)), (Bulk ''vectors'', of_int_reply (vi_live (mem_vectors m))),
          (Bulk ''terms'', of_int_reply (length (postings (mem_text m)))),
          (Bulk ''avg_doc_len'', double (avg_doc_len (mem_text m))), (Bulk ''bytes'', of_int_reply (heap_of m))])"

definition mem_info :: "(memory \<Rightarrow> nat) \<Rightarrow> env \<Rightarrow> bytes list \<Rightarrow> store \<Rightarrow> (store \<times> reply) outcome" where
  "mem_info heap_of E av st =
     (if \<not> exact_args av 1 then Done (st, wrong_arity ''MEM.INFO'')
      else read_index E (av ! 1) (\<lambda>m. Map (info_fields heap_of m)) st)"

definition config_step ::
    "weights option \<times> time option \<Rightarrow> bytes list \<Rightarrow> reply + (bytes list \<times> (weights option \<times> time option))" where
  "config_step opts rest =
     (case take_word ''WEIGHTS'' rest of
        Some ws \<Rightarrow>
          and_then (read_weights ws) (\<lambda>(w, ws).
            if weights_valid w then Inr (ws, (Some w, snd opts)) else Inl bad_weights)
      | None \<Rightarrow> (case take_word ''HALFLIFE'' rest of
        Some ws \<Rightarrow> and_then (read_seconds ''HALFLIFE'' ws) (\<lambda>(d, ws). Inr (ws, (fst opts, Some d)))
      | None \<Rightarrow> Inl (unexpected rest)))"

definition mem_config_cmd :: "env \<Rightarrow> bytes list \<Rightarrow> store \<Rightarrow> (store \<times> reply) outcome" where
  "mem_config_cmd E av st =
     (if \<not> min_args av 2 then Done (st, wrong_arity ''MEM.CONFIG'')
      else (case read_options config_step (None, None) (drop 2 av) of
              Inl e \<Rightarrow> Done (st, e)
            | Inr (w, d) \<Rightarrow>
                update_index E (av ! 1) (\<lambda>m.
                  let m = (case w of None \<Rightarrow> m | Some w \<Rightarrow> set_weights w m);
                      m = (case d of None \<Rightarrow> m | Some d \<Rightarrow> set_half_life d m)
                  in (m, Inr reply_ok)) st))"

definition mem_card :: "env \<Rightarrow> bytes list \<Rightarrow> store \<Rightarrow> (store \<times> reply) outcome" where
  "mem_card E av st =
     (if \<not> exact_args av 1 then Done (st, wrong_arity ''MEM.CARD'')
      else read_index E (av ! 1) (\<lambda>m. of_int_reply (memory_len m)) st)"

subsection \<open>MEM.ADD, MEM.DEL, metadata and deadlines\<close>

definition add_step ::
    "config \<Rightarrow> add_request \<times> bool \<Rightarrow> bytes list \<Rightarrow> reply + (bytes list \<times> (add_request \<times> bool))" where
  "add_step cfg = (\<lambda>(q, has_text) rest.
     case take_word ''ID'' rest of
        Some ws \<Rightarrow> and_then (take_value ws) (\<lambda>(w, ws). Inr (ws, (q\<lparr>ar_id := Some w\<rparr>, has_text)))
      | None \<Rightarrow> (case take_word ''TEXT'' rest of
        Some ws \<Rightarrow>
          and_then (take_value ws) (\<lambda>(w, ws).
            if length w > mem_max_text_bytes cfg then
              Inl (Error (''ERR text exceeds mem-max-text-bytes ('' @ nat_str (mem_max_text_bytes cfg) @ '')''))
            else Inr (ws, (q\<lparr>ar_text := w\<rparr>, True)))
      | None \<Rightarrow> (case take_word ''META'' rest of
        Some ws \<Rightarrow>
          and_then (take_values 2 ws) (\<lambda>(p, ws). Inr (ws, (q\<lparr>ar_meta := ar_meta q @ [(p ! 0, p ! 1)]\<rparr>, has_text)))
      | None \<Rightarrow> (case take_word ''IMPORTANCE'' rest of
        Some ws \<Rightarrow>
          and_then (take_value ws) (\<lambda>(w, ws).
            and_then (parse_float w) (\<lambda>v.
              if fle (Fin 0) (to_f32 v) \<and> fle (to_f32 v) (Fin 1)
              then Inr (ws, (q\<lparr>ar_importance := Some (to_f32 v)\<rparr>, has_text))
              else Inl (Error ''ERR IMPORTANCE must be between 0 and 1'')))
      | None \<Rightarrow> (case take_word ''TTL'' rest of
        Some ws \<Rightarrow> and_then (read_seconds ''TTL'' ws) (\<lambda>(d, ws). Inr (ws, (q\<lparr>ar_ttl := Some d\<rparr>, has_text)))
      | None \<Rightarrow> (case take_word ''NX'' rest of
        Some ws \<Rightarrow> Inr (ws, (q\<lparr>ar_new := True\<rparr>, has_text))
      | None \<Rightarrow> (case take_word ''XX'' rest of
        Some ws \<Rightarrow> Inr (ws, (q\<lparr>ar_existing := True\<rparr>, has_text))
      | None \<Rightarrow>
          and_then (read_vector rest) (\<lambda>(ws, v).
            case v of
              Some vs \<Rightarrow> Inr (ws, (q\<lparr>ar_vector := Some vs\<rparr>, has_text))
            | None \<Rightarrow> Inl (unexpected rest)))))))))"

definition empty_request :: add_request where
  "empty_request =
     \<lparr>ar_id = None, ar_text = [], ar_vector = None, ar_meta = [], ar_importance = None, ar_ttl = None,
      ar_new = False, ar_existing = False\<rparr>"

text \<open>An accepted record with a TTL past the clock's range panics before anything is stored.\<close>

definition mem_add :: "env \<Rightarrow> config \<Rightarrow> bytes list \<Rightarrow> store \<Rightarrow> (store \<times> reply) outcome" where
  "mem_add E cfg av st =
     (if \<not> min_args av 1 then Done (st, wrong_arity ''MEM.ADD'')
      else (case read_options (add_step cfg) (empty_request, False) (drop 2 av) of
              Inl e \<Rightarrow> Done (st, e)
            | Inr (q, has_text) \<Rightarrow>
                if \<not> has_text then Done (st, Error ''ERR TEXT is required'')
                else if ar_new q \<and> ar_existing q then Done (st, Error ''ERR NX and XX are mutually exclusive'')
                else with_index E (av ! 1) (\<lambda>m st.
                  case memory_add E q (Some (mem_max_terms_per_doc cfg)) (mem_max_records cfg) m of
                    (m, Inr i) \<Rightarrow>
                      if past_clock E (ar_ttl q) then Panicked
                      else Done (mark_dirty (put_value (av ! 1) (VMemory m) st), Bulk i)
                  | (m, Inl e) \<Rightarrow> Done (put_value (av ! 1) (VMemory m) st, describe e)) st))"

fun del_records :: "nat option \<Rightarrow> bytes list \<Rightarrow> memory \<Rightarrow> memory \<times> nat" where
  "del_records cap [] m = (m, 0)"
| "del_records cap (i # is) m =
     (let (m, was) = memory_del i cap m; (m, n) = del_records cap is m in (m, if was then n + 1 else n))"

definition mem_del :: "env \<Rightarrow> config \<Rightarrow> bytes list \<Rightarrow> store \<Rightarrow> (store \<times> reply) outcome" where
  "mem_del E cfg av st =
     (if \<not> min_args av 2 then Done (st, wrong_arity ''MEM.DEL'')
      else update_index E (av ! 1) (\<lambda>m.
        let (m, n) = del_records (Some (mem_max_terms_per_doc cfg)) (drop 2 av) m
        in (m, Inr (of_int_reply n))) st)"

definition counted :: "memory \<times> (memory_error + nat) \<Rightarrow> memory \<times> (memory_error + reply)" where
  "counted x = (fst x, case snd x of Inl e \<Rightarrow> Inl e | Inr n \<Rightarrow> Inr (of_int_reply n))"

definition mem_setmeta :: "env \<Rightarrow> bytes list \<Rightarrow> store \<Rightarrow> (store \<times> reply) outcome" where
  "mem_setmeta E av st =
     (if \<not> min_args av 3 \<or> length (drop 3 av) mod 2 \<noteq> 0 then Done (st, wrong_arity ''MEM.SETMETA'')
      else update_index E (av ! 1) (\<lambda>m. counted (memory_set_meta E (av ! 2) (chunks2 (drop 3 av)) m)) st)"

definition mem_delmeta :: "env \<Rightarrow> bytes list \<Rightarrow> store \<Rightarrow> (store \<times> reply) outcome" where
  "mem_delmeta E av st =
     (if \<not> min_args av 3 then Done (st, wrong_arity ''MEM.DELMETA'')
      else update_index E (av ! 1) (\<lambda>m. counted (memory_remove_meta E (av ! 2) (drop 3 av) m)) st)"

definition mem_expire :: "env \<Rightarrow> bytes list \<Rightarrow> store \<Rightarrow> (store \<times> reply) outcome" where
  "mem_expire E av st =
     (if \<not> exact_args av 3 then Done (st, wrong_arity ''MEM.EXPIRE'')
      else (case parse_i64 (av ! 3) of
              None \<Rightarrow> Done (st, not_an_integer)
            | Some n \<Rightarrow>
                if n < 0 then Done (st, Error ''ERR TTL must not be negative'')
                else
                  (let due = (if n = 0 then None else Some (n * 1000000000))
                   in with_index E (av ! 1) (\<lambda>m st.
                     case set_record_ttl E (av ! 2) due m of
                       (m, Inr _) \<Rightarrow>
                         if past_clock E due then Panicked
                         else Done (mark_dirty (put_value (av ! 1) (VMemory m) st), reply_bool True)
                     | (m, Inl e) \<Rightarrow>
                         Done (put_value (av ! 1) (VMemory m) st,
                               if e = NoSuchRecord then reply_bool False else describe e)) st)))"

subsection \<open>MEM.GET, MEM.MGET, MEM.SCAN\<close>

definition flag_step :: "returns \<Rightarrow> bytes list \<Rightarrow> reply + (bytes list \<times> returns)" where
  "flag_step rn rest = (case returns_read rn rest of Some r \<Rightarrow> Inr r | None \<Rightarrow> Inl (unexpected rest))"

definition mem_get :: "env \<Rightarrow> bytes \<Rightarrow> bytes list \<Rightarrow> store \<Rightarrow> (store \<times> reply) outcome" where
  "mem_get E name av st =
     (if \<not> min_args av 2 then Done (st, wrong_arity name)
      else
        (let one = (name = ''MEM.GET'');
             (ids, flags) = (if one then ([av ! 2], drop 3 av) else (drop 2 av, []))
         in case read_options flag_step no_returns flags of
              Inl e \<Rightarrow> Done (st, e)
            | Inr rn \<Rightarrow>
                read_index E (av ! 1) (\<lambda>m.
                  let replies = map (\<lambda>i. case memory_get E m i of None \<Rightarrow> RNil | Some r \<Rightarrow> record_reply E m r rn) ids
                  in if one then hd replies else Array replies) st))"

definition mem_scan_step ::
    "nat \<times> clause list \<Rightarrow> bytes list \<Rightarrow> reply + (bytes list \<times> (nat \<times> clause list))" where
  "mem_scan_step opts rest =
     (case take_word ''COUNT'' rest of
        Some ws \<Rightarrow>
          and_then (take_value ws) (\<lambda>(w, ws).
            and_then (parse_int w) (\<lambda>n. if n < 1 then Inl syntax_error else Inr (ws, (nat n, snd opts))))
      | None \<Rightarrow>
          and_then (read_filter_clause (snd opts) rest) (\<lambda>r.
            case r of Some (ws, cs) \<Rightarrow> Inr (ws, (fst opts, cs)) | None \<Rightarrow> Inl (unexpected rest)))"

definition mem_scan :: "env \<Rightarrow> config \<Rightarrow> bytes list \<Rightarrow> store \<Rightarrow> (store \<times> reply) outcome" where
  "mem_scan E cfg av st =
     (if \<not> min_args av 2 then Done (st, wrong_arity ''MEM.SCAN'')
      else (case parse_i64 (av ! 2) of
              None \<Rightarrow> Done (st, not_an_integer)
            | Some start \<Rightarrow>
                if start < 0 then Done (st, Error ''ERR invalid cursor'')
                else (case read_options mem_scan_step (scan_default_count cfg, []) (drop 3 av) of
                        Inl e \<Rightarrow> Done (st, e)
                      | Inr (cnt, cs) \<Rightarrow>
                          with_index E (av ! 1) (\<lambda>m st.
                            case memory_scan E (nat start) cnt cs m of
                              Panicked \<Rightarrow> Panicked
                            | Done (ids, next_cursor) \<Rightarrow>
                                Done (st, Array [Bulk (nat_str next_cursor), bulk_array ids])) st)))"

subsection \<open>MEM.SEARCH, MEM.VSEARCH, MEM.QUERY\<close>

definition mem_search :: "libm \<Rightarrow> env \<Rightarrow> config \<Rightarrow> bytes list \<Rightarrow> store \<Rightarrow> (store \<times> reply) outcome" where
  "mem_search lm E cfg av st =
     (if \<not> min_args av 2 then Done (st, wrong_arity ''MEM.SEARCH'')
      else (case read_options (retrieval_read cfg) (retrieval_new cfg) (drop 3 av) of
              Inl e \<Rightarrow> Done (st, e)
            | Inr rt \<Rightarrow>
                read_index E (av ! 1) (\<lambda>m.
                  case search_text lm E (av ! 2) (rt_candidates rt) (rt_filter rt)
                         (Some (mem_max_terms_per_doc cfg)) m of
                    Inl e \<Rightarrow> describe e
                  | Inr hits \<Rightarrow>
                      hits_reply E m (map (\<lambda>(i, s). \<lparr>hit_id = i, hit_score = s, hit_keyword = s, hit_vector = Fin 0,
                                               hit_recency = Fin 0\<rparr>) hits) (rt_topk rt) (rt_returns rt)) st))"

definition vsearch_step ::
    "config \<Rightarrow> f32 list option \<times> retrieval \<Rightarrow> bytes list \<Rightarrow> reply + (bytes list \<times> (f32 list option \<times> retrieval))" where
  "vsearch_step cfg opts rest =
     and_then (read_vector rest) (\<lambda>(ws, v).
       case v of
         Some vs \<Rightarrow> Inr (ws, (Some vs, snd opts))
       | None \<Rightarrow> and_then (retrieval_read cfg (snd opts) ws) (\<lambda>(ws, rt). Inr (ws, (fst opts, rt))))"

definition mem_vsearch :: "env \<Rightarrow> config \<Rightarrow> bytes list \<Rightarrow> store \<Rightarrow> (store \<times> reply) outcome" where
  "mem_vsearch E cfg av st =
     (if \<not> min_args av 2 then Done (st, wrong_arity ''MEM.VSEARCH'')
      else (case read_options (vsearch_step cfg) (None, retrieval_new cfg) (drop 2 av) of
              Inl e \<Rightarrow> Done (st, e)
            | Inr (None, rt) \<Rightarrow> Done (st, Error ''ERR VEC or FVEC is required'')
            | Inr (Some vs, rt) \<Rightarrow>
                read_index E (av ! 1) (\<lambda>m.
                  case search_vector E (prepared (vi_metric (mem_vectors m)) vs) (rt_candidates rt) (rt_filter rt)
                         (mem_max_scan cfg) m of
                    Inl e \<Rightarrow> describe e
                  | Inr hits \<Rightarrow>
                      hits_reply E m (map (\<lambda>(i, s). \<lparr>hit_id = i, hit_score = s, hit_keyword = Fin 0, hit_vector = s,
                                               hit_recency = Fin 0\<rparr>) hits) (rt_topk rt) (rt_returns rt)) st))"

record query_options =
  qo_text :: "bytes option"
  qo_vector :: "f32 list option"
  qo_weights :: "weights option"
  qo_fusion :: fusion
  qo_retrieval :: retrieval

definition query_step :: "config \<Rightarrow> query_options \<Rightarrow> bytes list \<Rightarrow> reply + (bytes list \<times> query_options)" where
  "query_step cfg opts rest =
     (case take_word ''TEXT'' rest of
        Some ws \<Rightarrow> and_then (take_value ws) (\<lambda>(w, ws). Inr (ws, opts\<lparr>qo_text := Some w\<rparr>))
      | None \<Rightarrow> (case take_word ''WEIGHTS'' rest of
        Some ws \<Rightarrow>
          and_then (read_weights ws) (\<lambda>(w, ws).
            if weights_valid w then Inr (ws, opts\<lparr>qo_weights := Some w\<rparr>) else Inl bad_weights)
      | None \<Rightarrow> (case take_word ''FUSION'' rest of
        Some ws \<Rightarrow>
          and_then (take_value ws) (\<lambda>(w, ws).
            case fusion_parse w of None \<Rightarrow> Inl syntax_error | Some f \<Rightarrow> Inr (ws, opts\<lparr>qo_fusion := f\<rparr>))
      | None \<Rightarrow>
          and_then (read_vector rest) (\<lambda>(ws, v).
            case v of
              Some vs \<Rightarrow> Inr (ws, opts\<lparr>qo_vector := Some vs\<rparr>)
            | None \<Rightarrow>
                and_then (retrieval_read cfg (qo_retrieval opts) ws) (\<lambda>(ws, rt).
                  Inr (ws, opts\<lparr>qo_retrieval := rt\<rparr>))))))"

definition mem_query :: "libm \<Rightarrow> env \<Rightarrow> config \<Rightarrow> bytes list \<Rightarrow> store \<Rightarrow> (store \<times> reply) outcome" where
  "mem_query lm E cfg av st =
     (if \<not> min_args av 1 then Done (st, wrong_arity ''MEM.QUERY'')
      else (case read_options (query_step cfg)
              \<lparr>qo_text = None, qo_vector = None, qo_weights = None, qo_fusion = Linear, qo_retrieval = retrieval_new cfg\<rparr>
              (drop 2 av) of
              Inl e \<Rightarrow> Done (st, e)
            | Inr q \<Rightarrow>
                if qo_text q = None \<and> qo_vector q = None then Done (st, Error ''ERR TEXT, VEC, or FVEC is required'')
                else read_index E (av ! 1) (\<lambda>m.
                  let rt = qo_retrieval q
                  in case memory_query lm E (qo_text q) (map_option (prepared (vi_metric (mem_vectors m))) (qo_vector q))
                            (rt_candidates rt) (rt_filter rt)
                            (case qo_weights q of None \<Rightarrow> mc_weights (mem_config m) | Some w \<Rightarrow> w) (qo_fusion q)
                            (Some (mem_max_terms_per_doc cfg)) (mem_max_scan cfg) m of
                       Inl e \<Rightarrow> describe e
                     | Inr hits \<Rightarrow> hits_reply E m hits (rt_topk rt) (rt_returns rt)) st))"

subsection \<open>Dispatch\<close>

definition memory_cmd ::
    "libm \<Rightarrow> (memory \<Rightarrow> nat) \<Rightarrow> env \<Rightarrow> config \<Rightarrow> bytes \<Rightarrow> bytes list \<Rightarrow> store \<Rightarrow> (store \<times> reply) outcome" where
  "memory_cmd lm heap_of E cfg name av st =
     (if name = ''MEM.CREATE'' then mem_create E cfg av st
      else if name = ''MEM.INFO'' then mem_info heap_of E av st
      else if name = ''MEM.CONFIG'' then mem_config_cmd E av st
      else if name = ''MEM.CARD'' then mem_card E av st
      else if name = ''MEM.ADD'' then mem_add E cfg av st
      else if name = ''MEM.GET'' \<or> name = ''MEM.MGET'' then mem_get E name av st
      else if name = ''MEM.DEL'' then mem_del E cfg av st
      else if name = ''MEM.SETMETA'' then mem_setmeta E av st
      else if name = ''MEM.DELMETA'' then mem_delmeta E av st
      else if name = ''MEM.EXPIRE'' then mem_expire E av st
      else if name = ''MEM.SCAN'' then mem_scan E cfg av st
      else if name = ''MEM.SEARCH'' then mem_search lm E cfg av st
      else if name = ''MEM.VSEARCH'' then mem_vsearch E cfg av st
      else if name = ''MEM.QUERY'' then mem_query lm E cfg av st
      else Done (st, unknown_in_family))"

subsection \<open>What a memory command may change\<close>

text \<open>Only the index under its key, which stays well formed and keeps its deadline; an error leaves
  everything but the counter of an index's next identifier.\<close>

definition mem_effect :: "bytes \<Rightarrow> (bytes \<Rightarrow> datum option) \<Rightarrow> (bytes \<Rightarrow> datum option) \<Rightarrow> reply \<Rightarrow> bool" where
  "mem_effect k L M r \<longleftrightarrow> vals_ok M \<and> (\<forall>x. x \<noteq> k \<longrightarrow> M x = L x) \<and>
     (is_error r \<longrightarrow> M = L \<or>
       (\<exists>m t n. L k = Some (VMemory m, t) \<and> M = L(k \<mapsto> (VMemory (m\<lparr>mem_next_id := n\<rparr>), t))))"

lemma mem_effect_same: "vals_ok L \<Longrightarrow> mem_effect k L L r"
  by (simp add: mem_effect_def)

definition may :: "env \<Rightarrow> ((bytes \<Rightarrow> datum option) \<Rightarrow> reply \<Rightarrow> bool) \<Rightarrow> (store \<times> reply) outcome \<Rightarrow> bool" where
  "may E Q x \<longleftrightarrow> (case x of Panicked \<Rightarrow> True | Done y \<Rightarrow> wp E Q y)"

lemma may_simps [simp]: "may E Q Panicked" "may E Q (Done (s, r)) \<longleftrightarrow> tidy E s \<and> Q (live E s) r"
  by (simp_all add: may_def wp_def)

lemma describe_error [simp]: "is_error (describe e)" "is_error no_such_index" "is_error already_exists"
  by (simp_all add: describe_def no_such_index_def already_exists_def)

lemma with_index_may:
  assumes "tidy E st" and "vals_ok (live E st)" and "\<And>r. Q (live E st) r"
    and "\<And>m t s. tidy E s \<Longrightarrow> live E s = live E st \<Longrightarrow> live E st k = Some (VMemory m, t) \<Longrightarrow> memory_wf m \<Longrightarrow>
      may E Q (f m s)"
  shows "may E Q (with_index E k f st)"
proof -
  obtain s found where p: "peek_type E k st = (s, found)" by fastforce
  have s: "tidy E s" "live E s = live E st"
    using peek_type_tidy [OF assms(1), of k] peek_type_view [OF tidy_wf [OF assms(1)], of E k] p by simp_all
  obtain s' m where g: "get_existing_memory E k s = (s', m)" by fastforce
  note g' = get_existing_memory_cases [OF s(1) g]
  have "may E Q (f x s')" if "m = Some x" for x
  proof -
    from g'(3) [OF that] s(2) obtain t where t: "live E st k = Some (VMemory x, t)" by auto
    then have "memory_wf x" using vals_okD [OF assms(2) t] by simp
    with t show ?thesis using assms(4) [OF g'(1), of x t] g'(2) s(2) by simp
  qed
  then show ?thesis
    using assms(3) s by (simp add: with_index_def p g split: option.split)
qed

lemma read_index_may:
  assumes "tidy E st" and "vals_ok (live E st)"
  shows "may E (\<lambda>M r. M = live E st) (read_index E k f st)"
  unfolding read_index_def by (rule with_index_may [OF assms]) simp_all

text \<open>What an update does to the index it is given.\<close>

definition index_step :: "memory \<Rightarrow> memory \<times> (memory_error + 'a) \<Rightarrow> bool" where
  "index_step m x \<longleftrightarrow>
     (case x of
        (m', Inr r) \<Rightarrow> memory_wf m'
      | (m', Inl e) \<Rightarrow> \<exists>n. m' = m\<lparr>mem_next_id := n\<rparr>)"

lemma put_index:
  assumes "tidy E s" and "live E s k = Some (VMemory m, t)"
  shows "tidy E (put_value k (VMemory m') s)"
    and "live E (put_value k (VMemory m') s) = (live E s)(k \<mapsto> (VMemory m', t))"
  using assms put_value_tidy [OF assms(1), of k] put_value_spec(2) [OF tidy_wf [OF assms(1)], of E k "VMemory m'"]
  by simp_all

lemma put_index_effect:
  assumes "vals_ok L" and "L k = Some (VMemory m, t)" and "index_step m (m', x)"
    and "is_error r \<Longrightarrow> \<exists>e. x = Inl e"
  shows "mem_effect k L (L(k \<mapsto> (VMemory m', t))) r"
proof -
  have "memory_wf m" using vals_okD [OF assms(1,2)] by simp
  then have "memory_wf m'" using assms(3) by (cases x) (auto simp: index_step_def memory_wf_next)
  then show ?thesis
    using assms by (cases x) (auto simp: mem_effect_def index_step_def)
qed

lemma update_index_may:
  assumes "tidy E st" and "vals_ok (live E st)"
    and "\<And>m. memory_wf m \<Longrightarrow> index_step m (f m)" and "\<And>m m' r. f m = (m', Inr r) \<Longrightarrow> \<not> is_error r"
  shows "may E (mem_effect k (live E st)) (update_index E k f st)"
  unfolding update_index_def
proof (rule with_index_may [OF assms(1,2)])
  show "mem_effect k (live E st) (live E st) r" for r by (rule mem_effect_same [OF assms(2)])
  fix m t s
  assume s: "tidy E s" "live E s = live E st" "live E st k = Some (VMemory m, t)" "memory_wf m"
  obtain m' x where f: "f m = (m', x)" by fastforce
  have st: "index_step m (m', x)" using assms(3) [OF s(4)] f by simp
  have k: "live E s k = Some (VMemory m, t)" using s by simp
  note put = put_index [OF s(1) k, of m']
  have e: "mem_effect k (live E st) ((live E st)(k \<mapsto> (VMemory m', t))) r" if "is_error r \<Longrightarrow> \<exists>e. x = Inl e" for r
    by (rule put_index_effect [OF assms(2) s(3) st that])
  show "may E (mem_effect k (live E st))
      (let (m, r) = f m; s = put_value k (VMemory m) s
       in Done (case r of Inl e \<Rightarrow> (s, describe e) | Inr r \<Rightarrow> (mark_dirty s, r)))"
    using put assms(4) [of m m'] f s(2) by (cases x) (auto simp: f may_def wp_def intro!: e)
qed

subsection \<open>The operations of an index keep it well formed\<close>

lemma memory_wf_update:
  assumes "memory_wf m" and "hm_get (mem_records m) i = Some r" and "rec_id r' = rec_id r" and "rec_slot r' = rec_slot r"
  shows "memory_wf (m\<lparr>mem_records := hm_insert i r' (mem_records m)\<rparr>)"
proof -
  have "slot_of (m\<lparr>mem_records := hm_insert i r' (mem_records m)\<rparr>) = slot_of m"
    by (rule ext) (simp add: slot_of_def hm_get_insert assms(2,4))
  then show ?thesis
    using assms by (auto simp: memory_wf_def hm_get_insert)
qed

lemma set_meta_all_frame [simp]:
  "rec_id (fst (set_meta_all ps r)) = rec_id r" "rec_slot (fst (set_meta_all ps r)) = rec_slot r"
proof (induction ps arbitrary: r)
  case (Cons p ps)
  { case 1 with Cons show ?case by (cases p) (simp add: case_prod_beta Let_def) }
  { case 2 with Cons show ?case by (cases p) (simp add: case_prod_beta Let_def) }
qed simp_all

lemma remove_meta_all_frame [simp]:
  "rec_id (fst (remove_meta_all fs r)) = rec_id r" "rec_slot (fst (remove_meta_all fs r)) = rec_slot r"
proof (induction fs arbitrary: r)
  case (Cons f fs)
  { case 1 with Cons show ?case by (simp add: case_prod_beta Let_def remove_meta_def split: sum.split) }
  { case 2 with Cons show ?case by (simp add: case_prod_beta Let_def remove_meta_def split: sum.split) }
qed simp_all

lemma no_step [simp]: "index_step m (m, Inl e)"
  by (auto simp: index_step_def intro: exI [of _ "mem_next_id m"])

lemma meta_steps:
  assumes "memory_wf m"
  shows "index_step m (memory_set_meta E i pairs m)" and "index_step m (memory_remove_meta E i fs m)"
    and "index_step m (set_record_ttl E i due m)"
    and "memory_wf (set_weights w m)" and "memory_wf (set_half_life d m)"
proof -
  note up = memory_wf_update [OF assms]
  show "index_step m (memory_set_meta E i pairs m)"
    by (cases "memory_get E m i")
      (auto simp: memory_set_meta_def Let_def case_prod_beta index_step_def dest!: memory_get_Some intro!: up
        exI [of _ "mem_next_id m"])
  show "index_step m (memory_remove_meta E i fs m)"
    by (cases "memory_get E m i")
      (auto simp: memory_remove_meta_def Let_def case_prod_beta index_step_def dest!: memory_get_Some intro!: up
        exI [of _ "mem_next_id m"])
  show "index_step m (set_record_ttl E i due m)"
    by (cases "memory_get E m i")
      (auto simp: set_record_ttl_def index_step_def dest!: memory_get_Some intro!: up exI [of _ "mem_next_id m"])
  have c: "slot_of (m\<lparr>mem_config := c\<rparr>) = slot_of m" for c by (rule ext) (simp add: slot_of_def)
  show "memory_wf (set_weights w m)" "memory_wf (set_half_life d m)"
    using assms by (auto simp: set_weights_def set_half_life_def memory_wf_def c split: if_splits)
qed

lemma add_step_index: "memory_wf m \<Longrightarrow> index_step m (memory_add E q n mx m)"
proof -
  assume wf: "memory_wf m"
  obtain m' res where x: "memory_add E q n mx m = (m', res)" by fastforce
  show ?thesis
  proof (cases res)
    case (Inl e)
    then have "m' = id_taken q m"
      using x by (auto simp: memory_add_alt Let_def case_prod_beta split: option.splits)
    then show ?thesis
      using Inl x by (auto simp: index_step_def id_taken_def intro: exI [of _ "mem_next_id m"] split: option.split)
  next
    case (Inr i)
    then show ?thesis using memory_add_spec [OF wf x] x by (simp add: index_step_def)
  qed
qed

lemma del_records_wf: "memory_wf m \<Longrightarrow> memory_wf (fst (del_records cap is m))"
proof (induction "is" arbitrary: m)
  case (Cons i js)
  then show ?case
    using memory_del_spec(1) [OF Cons.prems, of i cap] by (simp add: case_prod_beta Let_def)
qed simp

subsection \<open>Every command\<close>

lemma may_weaken: "may E Q x \<Longrightarrow> (\<And>M r. Q M r \<Longrightarrow> R M r) \<Longrightarrow> may E R x"
  by (cases x) (auto simp: may_def wp_def)

lemma may_step:
  "(b \<Longrightarrow> may E Q x) \<Longrightarrow> (\<not> b \<Longrightarrow> may E Q y) \<Longrightarrow> may E Q (if b then x else y)"
  "(\<And>e. v = Inl e \<Longrightarrow> may E Q (f e)) \<Longrightarrow> (\<And>a. v = Inr a \<Longrightarrow> may E Q (g a)) \<Longrightarrow>
   may E Q (case v of Inl e \<Rightarrow> f e | Inr a \<Rightarrow> g a)"
  "(u = None \<Longrightarrow> may E Q x) \<Longrightarrow> (\<And>a. u = Some a \<Longrightarrow> may E Q (h a)) \<Longrightarrow>
   may E Q (case u of None \<Rightarrow> x | Some a \<Rightarrow> h a)"
  by (simp, cases v, simp, simp, cases u, simp, simp)

lemma mem_reads_may:
  assumes ok: "tidy E st" "vals_ok (live E st)"
  shows "may E (\<lambda>M r. M = live E st) (mem_info heap_of E av st)" (is ?info)
    and "may E (\<lambda>M r. M = live E st) (mem_card E av st)" (is ?card)
    and "may E (\<lambda>M r. M = live E st) (mem_get E name av st)" (is ?get)
    and "may E (\<lambda>M r. M = live E st) (mem_search lm E cfg av st)" (is ?search)
    and "may E (\<lambda>M r. M = live E st) (mem_vsearch E cfg av st)" (is ?vsearch)
    and "may E (\<lambda>M r. M = live E st) (mem_query lm E cfg av st)" (is ?query)
    and "may E (\<lambda>M r. M = live E st) (mem_scan E cfg av st)" (is ?scan)
proof -
  have return: "may E (\<lambda>M r. M = live E st) (Done (st, r))" for r by (simp add: ok)
  note reads = may_step return read_index_may [OF ok]
  show ?info unfolding mem_info_def by (intro reads)
  show ?card unfolding mem_card_def by (intro reads)
  show ?get unfolding mem_get_def Let_def case_prod_beta by (intro reads)
  show ?search unfolding mem_search_def by (intro reads)
  show ?vsearch unfolding mem_vsearch_def case_prod_beta by (intro reads)
  show ?query unfolding mem_query_def by (intro reads)
  show ?scan unfolding mem_scan_def case_prod_beta
    by (intro reads with_index_may [OF ok]) (auto split: outcome.split)
qed

text \<open>What every step of an option loop keeps holds of the result.\<close>

lemma read_options_inv:
  assumes "\<And>opts rest rest' opts'. P opts \<Longrightarrow> step opts rest = Inr (rest', opts') \<Longrightarrow> P opts'"
    and "P opts" and "read_options step opts rest = Inr res"
  shows "P res"
  using assms(2,3)
proof (induction "length rest" arbitrary: opts rest rule: less_induct)
  case less
  show ?case
  proof (cases "rest = []")
    case True
    with less.prems show ?thesis by (simp add: read_options.simps)
  next
    case False
    then obtain rest' opts' where s: "step opts rest = Inr (rest', opts')" "length rest' < length rest"
      "read_options step opts' rest' = Inr res"
      using less.prems(2) by (subst (asm) read_options.simps)
        (auto simp: and_then_def split: sum.splits prod.splits if_splits)
    show ?thesis
      by (rule less.hyps [OF s(2) assms(1) [OF less.prems(1) s(1)] s(3)])
  qed
qed

lemma create_dim_positive:
  assumes "read_options (create_step cfg) opts rest = Inr res" and "co_dim opts = None"
  shows "co_dim res \<noteq> Some 0"
proof (rule read_options_inv [where P = "\<lambda>opts. co_dim opts \<noteq> Some 0", OF _ _ assms(1)])
  fix opts rest rest' opts'
  assume "co_dim opts \<noteq> Some 0" and "create_step cfg opts rest = Inr (rest', opts')"
  then show "co_dim opts' \<noteq> Some 0"
    by (auto simp: create_step_def and_then_def split: option.splits sum.splits if_splits prod.splits)
qed (simp add: assms(2))

lemma update_tail:
  assumes "tidy E s" and "live E s = L" and "vals_ok L" and "L k = Some (VMemory m, t)" and "index_step m x"
    and "\<And>i. \<not> is_error (g i)"
  shows "may E (mem_effect k L)
    (case x of
       (m', Inr i) \<Rightarrow> if b then Panicked else Done (mark_dirty (put_value k (VMemory m') s), g i)
     | (m', Inl e) \<Rightarrow> Done (put_value k (VMemory m') s, h e))"
proof -
  obtain m' y where x: "x = (m', y)" by fastforce
  have k: "live E s k = Some (VMemory m, t)" using assms(2,4) by simp
  have e: "mem_effect k L (L(k \<mapsto> (VMemory m', t))) r" if "is_error r \<Longrightarrow> \<exists>e. y = Inl e" for r
    by (rule put_index_effect [OF assms(3,4) assms(5) [unfolded x] that])
  have g: "mem_effect k L (L(k \<mapsto> (VMemory m', t))) (g i)" for i
    by (rule e) (use assms(6) in simp)
  show ?thesis
    using g put_index [OF assms(1) k, of m'] assms(2) by (cases y) (simp_all add: x may_def wp_def e)
qed

lemma mem_updates_may:
  assumes ok: "tidy E st" "vals_ok (live E st)"
  shows "may E (mem_effect (av ! 1) (live E st)) (mem_config_cmd E av st)" (is ?config)
    and "may E (mem_effect (av ! 1) (live E st)) (mem_del E cfg av st)" (is ?del)
    and "may E (mem_effect (av ! 1) (live E st)) (mem_setmeta E av st)" (is ?setmeta)
    and "may E (mem_effect (av ! 1) (live E st)) (mem_delmeta E av st)" (is ?delmeta)
    and "may E (mem_effect (av ! 1) (live E st)) (mem_add E cfg av st)" (is ?add)
    and "may E (mem_effect (av ! 1) (live E st)) (mem_expire E av st)" (is ?expire)
    and "may E (mem_effect (av ! 1) (live E st)) (mem_create E cfg av st)" (is ?create)
proof -
  let ?Q = "mem_effect (av ! 1) (live E st)"
  have return: "may E ?Q (Done (st, r))" for r by (simp add: ok mem_effect_same)
  note steps = may_step return update_index_may [OF ok]
  have wf: "memory_wf (case d of None \<Rightarrow> m | Some d \<Rightarrow> set_half_life d m)"
    "memory_wf (case w of None \<Rightarrow> m | Some w \<Rightarrow> set_weights w m)" if "memory_wf m" for m w d
    using meta_steps(4,5) [OF that] that by (simp_all split: option.split)
  show ?config unfolding mem_config_cmd_def Let_def case_prod_beta
    by (intro steps) (auto simp: index_step_def intro!: wf)
  show ?del unfolding mem_del_def Let_def case_prod_beta
    by (intro steps) (auto simp: index_step_def intro!: del_records_wf)
  have c: "index_step m (counted x)" if "index_step m x" for m and x :: "memory \<times> (memory_error + nat)"
    using that by (cases x; cases "snd x") (auto simp: counted_def index_step_def)
  have n: "\<not> is_error r" if "counted x = (m, Inr r)" for x m r
    using that by (auto simp: counted_def split: sum.splits)
  show ?setmeta unfolding mem_setmeta_def
    by (intro steps c meta_steps) (auto dest: n)
  show ?delmeta unfolding mem_delmeta_def
    by (intro steps c meta_steps) (auto dest: n)
  have tail: "may E ?Q (with_index E (av ! 1) (\<lambda>m s.
      case f m of
        (m', Inr i) \<Rightarrow> if b then Panicked else Done (mark_dirty (put_value (av ! 1) (VMemory m') s), g i)
      | (m', Inl e) \<Rightarrow> Done (put_value (av ! 1) (VMemory m') s, h e)) st)"
    if "\<And>m. memory_wf m \<Longrightarrow> index_step m (f m)" "\<And>i. \<not> is_error (g i)"
    for f :: "memory \<Rightarrow> memory \<times> (memory_error + 'b)" and b g h
    by (rule with_index_may [OF ok], rule mem_effect_same [OF ok(2)], rule update_tail [OF _ _ ok(2)])
      (assumption | rule that)+
  show ?add unfolding mem_add_def
  proof (intro steps)
    fix a
    show "may E ?Q (case a of (q, has_text) \<Rightarrow>
      if \<not> has_text then Done (st, Error ''ERR TEXT is required'')
      else if ar_new q \<and> ar_existing q then Done (st, Error ''ERR NX and XX are mutually exclusive'')
      else with_index E (av ! 1) (\<lambda>m st.
        case memory_add E q (Some (mem_max_terms_per_doc cfg)) (mem_max_records cfg) m of
          (m, Inr i) \<Rightarrow>
            if past_clock E (ar_ttl q) then Panicked
            else Done (mark_dirty (put_value (av ! 1) (VMemory m) st), Bulk i)
        | (m, Inl e) \<Rightarrow> Done (put_value (av ! 1) (VMemory m) st, describe e)) st)"
      by (cases a) (simp only: prod.case, intro steps tail add_step_index, simp_all)
  qed
  show ?expire unfolding mem_expire_def Let_def
    by (intro steps tail meta_steps) (simp_all add: reply_bool_def)
  show ?create unfolding mem_create_def
  proof (intro steps)
    fix opts
    assume o: "read_options (create_step cfg) \<lparr>co_mode = Hybrid, co_dim = None, co_metric = Cosine, co_weights = None,
        co_half_life = int (mem_recency_halflife cfg) * 1000000000\<rparr> (drop 2 av) = Inr opts"
      and r: "create_refusal opts = None"
    let ?m = "memory_new (created_config opts)"
    have "co_dim opts \<noteq> Some 0" by (rule create_dim_positive [OF o]) simp
    then have wf: "memory_wf ?m"
      using r by (intro memory_new_wf)
        (auto simp: created_config_def memory_config_new_def create_refusal_def Let_def split: option.splits if_splits)
    obtain s found where p: "peek_type E (av ! 1) st = (s, found)" by fastforce
    have s: "tidy E s" "live E s = live E st" "found = map_option (\<lambda>d. val_type (fst d)) (live E st (av ! 1))"
      using peek_type_tidy [OF ok(1), of "av ! 1"] peek_type_view [OF tidy_wf [OF ok(1)], of E "av ! 1"] p by simp_all
    have found: "may E ?Q (let (s, found) = peek_type E (av ! 1) s
        in Done (s, if found = Some TMemory then already_exists else wrongtype))"
      using peek_type_tidy [OF s(1), of "av ! 1"] peek_type_view [OF tidy_wf [OF s(1)], of E "av ! 1"] s(2)
      by (simp add: case_prod_beta Let_def mem_effect_same [OF ok(2)])
    have new: "may E ?Q (let (s, _) = create_memory E (av ! 1) ?m s in Done (s, reply_ok))"
      if "live E st (av ! 1) = None"
      using create_memory_spec [OF tidy_wf [OF s(1)], of E "av ! 1" ?m] create_memory_tidy [OF s(1), of "av ! 1" ?m]
        s(2) that ok(2) wf
      by (simp add: case_prod_beta Let_def mem_effect_def)
    show "may E ?Q (let (st, found) = peek_type E (av ! 1) st
       in if found \<noteq> None then
            (let (st, found) = peek_type E (av ! 1) st
             in Done (st, if found = Some TMemory then already_exists else wrongtype))
          else (let (st, _) = create_memory E (av ! 1) ?m st in Done (st, reply_ok)))"
      using found new s(3) by (cases "live E st (av ! 1)"; simp only: p prod.case Let_def; simp)
  qed
qed

subsection \<open>The option loops end\<close>

text \<open>Every step consumes a word, so the guard in \<open>read_options\<close> is never what ends a loop.\<close>

lemma read_seconds_le: "read_seconds what rest = Inr (d, ws) \<Longrightarrow> length ws \<le> length rest"
  by (auto simp: read_seconds_def and_then_Inr split: if_splits dest: take_value_le)

lemma steps_consume:
  "consumes (create_step cfg)" "consumes config_step" "consumes (add_step cfg)" "consumes flag_step"
  "consumes mem_scan_step" "consumes (retrieval_read cfg)" "consumes (vsearch_step cfg)" "consumes (query_step cfg)"
proof -
  note less = take_word_less take_value_le take_values_le read_weights_le read_seconds_le read_vector_less
    read_filter_less returns_read_less retrieval_read_less
  show "consumes (create_step cfg)"
    unfolding consumes_def
    by (auto simp: create_step_def and_then_Inr split: option.splits if_splits dest!: less)
  show "consumes config_step"
    unfolding consumes_def
    by (auto simp: config_step_def and_then_Inr split: option.splits if_splits dest!: less)
  show "consumes (add_step cfg)"
    unfolding consumes_def
    by (auto simp: add_step_def and_then_Inr split: option.splits if_splits dest!: less)
  show "consumes flag_step"
    unfolding consumes_def by (auto simp: flag_step_def split: option.splits dest!: less)
  show "consumes mem_scan_step"
    unfolding consumes_def
    by (auto simp: mem_scan_step_def and_then_Inr split: option.splits if_splits dest!: less)
  show "consumes (retrieval_read cfg)"
    unfolding consumes_def by (auto dest!: less)
  show "consumes (vsearch_step cfg)"
    unfolding consumes_def
    by (auto simp: vsearch_step_def and_then_Inr split: option.splits dest!: less read_vector_none)
  show "consumes (query_step cfg)"
    unfolding consumes_def
    by (auto simp: query_step_def and_then_Inr split: option.splits if_splits dest!: less read_vector_none)
qed

lemmas option_loops = steps_consume [THEN read_options_loop]

subsection \<open>Properties\<close>

definition mem_writes :: "bytes list" where
  "mem_writes =
     [''MEM.CREATE'', ''MEM.CONFIG'', ''MEM.ADD'', ''MEM.DEL'', ''MEM.SETMETA'', ''MEM.DELMETA'', ''MEM.EXPIRE'']"

lemma memory_cmd_may:
  assumes "store_ok st"
  shows "may E (mem_effect (av ! 1) (live E st)) (memory_cmd lm heap_of E cfg name av st)"
    and "name \<notin> set mem_writes \<Longrightarrow> may E (\<lambda>M r. M = live E st) (memory_cmd lm heap_of E cfg name av st)"
proof -
  note ok = store_okD(2,3) [OF assms, of E]
  have same: "may E (mem_effect (av ! 1) (live E st)) x" if "may E (\<lambda>M r. M = live E st) x" for x
    using that by (rule may_weaken) (simp add: mem_effect_same [OF ok(2)])
  have return: "may E (\<lambda>M r. M = live E st) (Done (st, r))" for r by (simp add: ok)
  note reads = mem_reads_may [OF ok] return
  show "may E (mem_effect (av ! 1) (live E st)) (memory_cmd lm heap_of E cfg name av st)"
    unfolding memory_cmd_def
    by (intro may_step(1) mem_updates_may [OF ok] reads [THEN same])
  assume n: "name \<notin> set mem_writes"
  have "name \<noteq> ''MEM.CREATE''" "name \<noteq> ''MEM.CONFIG''" "name \<noteq> ''MEM.ADD''" "name \<noteq> ''MEM.DEL''"
    "name \<noteq> ''MEM.SETMETA''" "name \<noteq> ''MEM.DELMETA''" "name \<noteq> ''MEM.EXPIRE''"
    using n unfolding mem_writes_def by auto
  then show "may E (\<lambda>M r. M = live E st) (memory_cmd lm heap_of E cfg name av st)"
    unfolding memory_cmd_def by (simp only: if_False) (intro may_step(1) reads)
qed

text \<open>
  C38. A MEM command touches one index. When it returns, the store is well formed, every key but the
  one it names keeps its value and deadline, the index it names is still well formed, a command
  that only reads (MEM.GET, the searches, MEM.SCAN and the rest) changes nothing at all, and a
  command answered with an error has at most moved the counter of an index's next identifier.
\<close>
theorem memory_command_frame:
  assumes "store_ok st" and "memory_cmd lm heap_of E cfg name av st = Done (st', r)"
  shows "store_ok st' \<and> (\<forall>k. k \<noteq> av ! 1 \<longrightarrow> live E st' k = live E st k) \<and>
    (name \<notin> set mem_writes \<longrightarrow> live E st' = live E st) \<and>
    (is_error r \<longrightarrow> live E st' = live E st \<or>
       (\<exists>m t n. live E st (av ! 1) = Some (VMemory m, t) \<and>
          live E st' = (live E st)(av ! 1 \<mapsto> (VMemory (m\<lparr>mem_next_id := n\<rparr>), t))))"
  using memory_cmd_may [OF assms(1), where E = E and av = av and lm = lm and heap_of = heap_of and cfg = cfg and name = name] assms(2)
  by (auto simp: mem_effect_def intro: tidy_store_ok)

lemma empty_store_ok: "store_ok (empty_store E)"
proof -
  have "contents (empty_store E) = Map.empty"
    by (rule ext) (simp add: contents_def empty_store_def)
  then show ?thesis by (simp add: store_ok_def vals_ok_def empty_store_wf)
qed

lemma memory_command_frame_witness:
  "\<exists>st' r. memory_cmd sample_libm (\<lambda>_. 0) (memory_env 5) default_config ''MEM.CREATE''
       [''MEM.CREATE'', ''notes'', ''MODE'', ''SEARCH''] (empty_store (memory_env 5)) = Done (st', r) \<and>
     r = reply_ok \<and> store_ok st' \<and> live (memory_env 5) st' ''other'' = live (memory_env 5) (empty_store (memory_env 5)) ''other''"
proof -
  note ok = empty_store_ok
  let ?x = "memory_cmd sample_libm (\<lambda>_. 0) (memory_env 5) default_config ''MEM.CREATE''
       [''MEM.CREATE'', ''notes'', ''MODE'', ''SEARCH''] (empty_store (memory_env 5))"
  have w: "take_word ''MODE'' [''MODE'', ''SEARCH''] = Some [''SEARCH'']" "mode_parse ''SEARCH'' = Some Search"
    by code_simp+
  have p: "read_options (create_step default_config) opts [''MODE'', ''SEARCH''] = Inr (opts\<lparr>co_mode := Search\<rparr>)" for opts
    by (simp add: option_loops(1) create_step_def w take_value_def take_values_def and_then_def)
  have "\<exists>st'. ?x = Done (st', reply_ok)"
    using peek_type_view [OF empty_store_wf, of "memory_env 5" "''notes''" "memory_env 5"]
    by (simp add: memory_cmd_def mem_create_def min_args_def p create_refusal_def stores_vectors_def
        Let_def case_prod_beta live_empty_store)
  then obtain st' where x: "?x = Done (st', reply_ok)" by blast
  from memory_command_frame [OF ok x] x show ?thesis by auto
qed

lemma with_index_found:
  assumes "store_ok st" and "live E st k = Some (VMemory m, t)"
  shows "\<exists>s. with_index E k f st = f m s"
proof -
  note ok = store_okD(2,3) [OF assms(1), of E]
  obtain s found where p: "peek_type E k st = (s, found)" by fastforce
  have s: "tidy E s" "live E s = live E st" "found = Some TMemory"
    using peek_type_tidy [OF ok(1), of k] peek_type_view [OF tidy_wf [OF ok(1)], of E k] p assms(2) by simp_all
  have g: "snd (get_existing_memory E k s) = Some m"
    using tidy_wf [OF s(1)]
  proof (cases rule: find_cases [where E = E and k = k])
    case (missing s')
    then show ?thesis using assms(2) s(2) by simp
  next
    case (found s' e)
    then have "evalue e = VMemory m" using assms(2) s(2) by (simp add: datum_of_def)
    with found(1) show ?thesis by (simp add: get_existing_memory_def)
  qed
  show ?thesis
    by (rule exI [of _ "fst (get_existing_memory E k s)"])
      (simp add: with_index_def p s(3) case_prod_beta Let_def g)
qed

text \<open>
  C39. A client can stop the server with MEM.EXPIRE. The largest number of seconds the command
  accepts, on a record that exists, is added to the clock without a check, and the addition
  panics.
\<close>
theorem mem_expire_panics:
  assumes "store_ok st" and "live E st k = Some (VMemory m, t)" and "memory_get E m i \<noteq> None"
    and "now E \<ge> 1000000000"
  shows "memory_cmd lm heap_of E cfg ''MEM.EXPIRE'' [''MEM.EXPIRE'', k, i, int_str i64_max] st = Panicked"
proof -
  have p: "parse_i64 (int_str i64_max) = Some i64_max"
    by (rule parse_i64_int_str) (simp add: in_i64_def i64_max_def i64_min_def)
  have c: "past_clock E (Some (i64_max * 1000000000))"
    using assms(4) by (simp add: past_clock_def i64_max_def)
  have r: "\<exists>m'. set_record_ttl E i due m = (m', Inr ())" for due
    using assms(3) by (auto simp: set_record_ttl_def)
  have z: "\<not> i64_max < 0" "i64_max \<noteq> 0" by (simp_all add: i64_max_def)
  let ?d = "Some (i64_max * 1000000000)"
  have "mem_expire E [''MEM.EXPIRE'', k, i, int_str i64_max] st = with_index E k (\<lambda>m st.
      case set_record_ttl E i ?d m of
        (m, Inr _) \<Rightarrow>
          if past_clock E ?d then Panicked
          else Done (mark_dirty (put_value k (VMemory m) st), reply_bool True)
      | (m, Inl e) \<Rightarrow>
          Done (put_value k (VMemory m) st, if e = NoSuchRecord then reply_bool False else describe e)) st"
    (is "_ = with_index E k ?f st")
    by (simp add: mem_expire_def exact_args_def p z Let_def numeral_2_eq_2 numeral_3_eq_3 cong: if_cong)
  also obtain s where "with_index E k ?f st = ?f m s" using with_index_found [OF assms(1,2)] by blast
  also have "?f m s = Panicked" using r [of ?d] c by auto
  finally have "mem_expire E [''MEM.EXPIRE'', k, i, int_str i64_max] st = Panicked" .
  then show ?thesis by (simp add: memory_cmd_def)
qed

definition sample_index_store :: store where
  "sample_index_store = fst (create_memory (memory_env 2000000000) ''notes'' sample_vectors
     (empty_store (memory_env 2000000000)))"

lemma sample_index_store_ok:
  "store_ok sample_index_store"
  "live (memory_env 2000000000) sample_index_store ''notes'' = Some (VMemory sample_vectors, None)"
proof -
  let ?E = "memory_env 2000000000"
  have l: "live ?E sample_index_store = [''notes'' \<mapsto> (VMemory sample_vectors, None)]"
    unfolding sample_index_store_def
    by (subst create_memory_spec(2) [OF empty_store_wf]) (simp add: live_empty_store)
  show "live ?E sample_index_store ''notes'' = Some (VMemory sample_vectors, None)"
    by (simp add: l)
  have "tidy ?E sample_index_store"
    unfolding sample_index_store_def by (rule create_memory_tidy) (rule store_okD(2) [OF empty_store_ok])
  moreover have "vals_ok (live ?E sample_index_store)"
    by (simp add: l vals_ok_def sample_vectors_wf)
  ultimately show "store_ok sample_index_store" by (rule tidy_store_ok)
qed

lemma mem_expire_panics_witness:
  "memory_cmd sample_libm (\<lambda>_. 0) (memory_env 2000000000) default_config ''MEM.EXPIRE''
     [''MEM.EXPIRE'', ''notes'', ''a'', int_str i64_max] sample_index_store = Panicked"
proof (rule mem_expire_panics [OF sample_index_store_ok])
  show "memory_get (memory_env 2000000000) sample_vectors ''a'' \<noteq> None" by code_simp
qed (simp add: memory_env_def)

end
