(* ===== verification/Dispatch.thy ===== *)
theory Dispatch
  imports Evict CmdBlocking CmdPubSub CmdServer CmdMemory
begin

text \<open>
  From a parsed request to its response: \<^verbatim>\<open>src/commands/mod.rs\<close> (the router, the gates in front of a
  handler and the signals behind it) and \<^verbatim>\<open>src/commands/transactions.rs\<close> (MULTI, EXEC, WATCH and
  their relatives). EXEC runs its queue through the same path as a plain command, so \<open>execute\<close> is
  defined by the depth of that nesting; \<open>depth_enough\<close> in \<open>Nesting\<close> shows that two levels are all there are.
\<close>

text \<open>What the server takes from outside: libm, the capacity of an index and the counting allocator.\<close>

record host =
  h_libm :: libm
  h_index_bytes :: "memory \<Rightarrow> nat"
  h_heap :: "app \<Rightarrow> nat"

type_synonym answered = "((app \<times> client) \<times> response) outcome"
type_synonym runner = "bytes \<Rightarrow> bytes list \<Rightarrow> app \<Rightarrow> client \<Rightarrow> answered"

definition quoted :: "bytes \<Rightarrow> bytes" where
  "quoted s = [CHR 0x27] @ s @ [CHR 0x27]"

definition unknown_command :: "bytes list \<Rightarrow> reply" where
  "unknown_command av =
     Error (''ERR unknown command '' @ quoted (to_display (av ! 0)) @ '', with args beginning with: ''
            @ join '', '' (map (\<lambda>w. quoted (to_display w)) (take 3 (drop 1 av))))"

subsection \<open>Transactions\<close>

definition is_control :: "bytes \<Rightarrow> bool" where
  "is_control name \<longleftrightarrow> name \<in> {''MULTI'', ''EXEC'', ''DISCARD'', ''WATCH'', ''RESET'', ''QUIT''}"

definition refused_in_multi :: "bytes \<Rightarrow> bool" where
  "refused_in_multi name \<longleftrightarrow> name \<in> {''SUBSCRIBE'', ''UNSUBSCRIBE'', ''PSUBSCRIBE'', ''PUNSUBSCRIBE''}"

definition queue_refusal :: "bytes \<Rightarrow> bytes list \<Rightarrow> reply option" where
  "queue_refusal name av =
     (if family_of name = None then Some (unknown_command av)
      else if refused_in_multi name then Some (Error (''ERR '' @ name @ '' is not allowed in transactions''))
      else None)"

definition queue_command :: "bytes \<Rightarrow> bytes list \<Rightarrow> client \<Rightarrow> (client \<times> response) outcome" where
  "queue_command name av c =
     (case cl_tx c of
        None \<Rightarrow> Panicked
      | Some t \<Rightarrow>
          Done (case queue_refusal name av of
                  Some e \<Rightarrow> (c\<lparr>cl_tx := Some (t\<lparr>failed := True\<rparr>)\<rparr>, resp_new e)
                | None \<Rightarrow> (c\<lparr>cl_tx := Some (t\<lparr>queued := queued t @ [av]\<rparr>)\<rparr>, resp_new (Simple ''QUEUED''))))"

definition watch_one :: "bytes \<Rightarrow> app \<times> client \<Rightarrow> app \<times> client" where
  "watch_one k ac =
     (let (a, c) = ac
      in if k \<in> fst ` set (cl_watched c) then (a, c)
         else (let (w, v) = watch_key k (watch a)
               in (a\<lparr>watch := w\<rparr>, c\<lparr>cl_watched := cl_watched c @ [(k, v)]\<rparr>)))"

definition discard :: "app \<Rightarrow> client \<Rightarrow> app \<times> client" where
  "discard a c = unwatch_all a (c\<lparr>cl_tx := None\<rparr>)"

definition unsubscribe_everything :: "app \<Rightarrow> client \<Rightarrow> app \<times> client" where
  "unsubscribe_everything a c =
     (let p = fold (\<lambda>ch. unsubscribe ch (cl_id c)) (cl_channels c) (pubsub a);
          p = fold (\<lambda>pat. punsubscribe pat (cl_id c)) (cl_patterns c) p
      in (a\<lparr>pubsub := p\<rparr>, c\<lparr>cl_channels := [], cl_patterns := []\<rparr>))"

definition watch_broken :: "app \<Rightarrow> client \<Rightarrow> bool" where
  "watch_broken a c \<longleftrightarrow> (\<exists>(k, v) \<in> set (cl_watched c). watch_version (watch a) k \<noteq> Some v)"

text \<open>The loop over the queue, with the flags it gathers; a later protocol switch wins.\<close>

fun exec_queue ::
    "runner \<Rightarrow> bytes list list \<Rightarrow> app \<Rightarrow> client \<Rightarrow> ((app \<times> client) \<times> reply list \<times> bool \<times> protocol option) outcome" where
  "exec_queue run [] a c = Done ((a, c), [], False, None)"
| "exec_queue run (q # qs) a c =
     (case run (to_upper (q ! 0)) q a c of
        Panicked \<Rightarrow> Panicked
      | Done ((a, c), r) \<Rightarrow>
          (case exec_queue run qs a c of
             Panicked \<Rightarrow> Panicked
           | Done (ac, rs, close, proto) \<Rightarrow>
               Done (ac, resp_single r # rs, rs_close r \<or> close,
                     case proto of None \<Rightarrow> rs_protocol r | Some p \<Rightarrow> Some p)))"

definition exec_command :: "runner \<Rightarrow> app \<Rightarrow> client \<Rightarrow> answered" where
  "exec_command run a c =
     (case cl_tx c of
        None \<Rightarrow> Done ((a, c), resp_new (Error ''ERR EXEC without MULTI''))
      | Some t \<Rightarrow>
          (let c = c\<lparr>cl_tx := None\<rparr>;
               broken = watch_broken a c;
               (a, c) = unwatch_all a c
           in if failed t then
                Done ((a, c), resp_new (Error ''EXECABORT Transaction discarded because of previous errors.''))
              else if broken then Done ((a, c), resp_new NilArray)
              else
                (let a = a\<lparr>stats := (stats a)\<lparr>transactions := transactions (stats a) + 1\<rparr>\<rparr>;
                     c = c\<lparr>cl_in_exec := True\<rparr>
                 in case exec_queue run (queued t) a c of
                      Panicked \<Rightarrow> Panicked
                    | Done ((a, c), rs, close, proto) \<Rightarrow>
                        Done ((a, c\<lparr>cl_in_exec := False\<rparr>),
                          \<lparr>rs_replies = [Array rs], rs_close = close, rs_protocol = proto, rs_block = None\<rparr>))))"

definition transaction_cmd :: "runner \<Rightarrow> bytes \<Rightarrow> bytes list \<Rightarrow> app \<Rightarrow> client \<Rightarrow> answered" where
  "transaction_cmd run name av a c =
     (let say = (\<lambda>r. Done ((a, c), resp_new r))
      in if name = ''MULTI'' then
           (if \<not> exact_args av 0 then say (wrong_arity name)
            else if in_transaction c then say (Error ''ERR MULTI calls can not be nested'')
            else Done ((a, begin_transaction c), resp_new reply_ok))
         else if name = ''DISCARD'' then
           (if \<not> exact_args av 0 then say (wrong_arity name)
            else if \<not> in_transaction c then say (Error ''ERR DISCARD without MULTI'')
            else Done (discard a c, resp_new reply_ok))
         else if name = ''WATCH'' then
           (if \<not> min_args av 1 then say (wrong_arity name)
            else if in_transaction c then say (Error ''ERR WATCH inside MULTI is not allowed'')
            else Done (fold watch_one (drop 1 av) (a, c), resp_new reply_ok))
         else if name = ''UNWATCH'' then
           (if \<not> exact_args av 0 then say (wrong_arity name)
            else Done (unwatch_all a c, resp_new reply_ok))
         else if name = ''EXEC'' then
           (if \<not> exact_args av 0 then say (wrong_arity name) else exec_command run a c)
         else if name = ''RESET'' then
           (let (a, c) = discard a c; (a, c) = unsubscribe_everything a c
            in Done ((a, c), resp_new (Simple ''RESET'')))
         else say unknown_in_family)"

subsection \<open>The router\<close>

definition on_store :: "app \<Rightarrow> client \<Rightarrow> (store \<times> response) outcome \<Rightarrow> answered" where
  "on_store a c x = (case x of Panicked \<Rightarrow> Panicked | Done (st, r) \<Rightarrow> Done ((a\<lparr>store := st\<rparr>, c), r))"

definition one_reply :: "(store \<times> reply) outcome \<Rightarrow> (store \<times> response) outcome" where
  "one_reply x = (case x of Panicked \<Rightarrow> Panicked | Done (st, r) \<Rightarrow> Done (st, resp_new r))"

definition run_command :: "host \<Rightarrow> env \<Rightarrow> runner \<Rightarrow> bytes \<Rightarrow> bytes list \<Rightarrow> app \<Rightarrow> client \<Rightarrow> answered" where
  "run_command host E run name av a c =
     (case family_of name of
        None \<Rightarrow> Done ((a, c), resp_new (unknown_command av))
      | Some fam \<Rightarrow>
          (case fam of
             FServer \<Rightarrow> Done (server_cmd (h_index_bytes host) E name av a c)
           | FTransaction \<Rightarrow> transaction_cmd run name av a c
           | FPubSub \<Rightarrow> Done (pubsub_cmd name av a c)
           | FBlocking \<Rightarrow> on_store a c (blocking_cmd E c name av (store a))
           | FMemory \<Rightarrow>
               on_store a c (one_reply
                 (memory_cmd (h_libm host) (h_index_bytes host) E (config a) name av (store a)))
           | _ \<Rightarrow> on_store a c (one_reply (data_cmd E (config a) fam name av (store a)))))"

definition SUBSCRIBER_COMMANDS :: "bytes list" where
  "SUBSCRIBER_COMMANDS =
     [''SUBSCRIBE'', ''UNSUBSCRIBE'', ''PSUBSCRIBE'', ''PUNSUBSCRIBE'', ''PING'', ''QUIT'', ''RESET'', ''SHUTDOWN'']"

definition subscriber_refused :: "bytes \<Rightarrow> client \<Rightarrow> bool" where
  "subscriber_refused name c \<longleftrightarrow>
     cl_protocol c = Resp2 \<and> is_subscriber c \<and> name \<notin> set SUBSCRIBER_COMMANDS"

definition subscriber_error :: "bytes \<Rightarrow> reply" where
  "subscriber_error name =
     Error (''ERR Can'' @ [CHR 0x27] @ ''t execute '' @ quoted (to_lower name) @ '': only (P)SUBSCRIBE / (P)UNSUBSCRIBE / PING / QUIT / RESET are allowed in this context'')"

definition oom_error :: reply where
  "oom_error = Error (''OOM command not allowed when used memory > '' @ quoted ''maxmemory'' @ ''.'')"

definition memory_gate :: "host \<Rightarrow> env \<Rightarrow> bytes \<Rightarrow> app \<Rightarrow> app \<times> reply option" where
  "memory_gate host E name a =
     (if maxmemory (config a) = 0 then (a, None)
      else (let (a, ok) = make_room (h_heap host) E a
            in if ok \<or> \<not> denies_oom name then (a, None) else (a, Some oom_error)))"

definition signal_writes :: "env \<Rightarrow> bytes \<Rightarrow> bytes list \<Rightarrow> response \<Rightarrow> app \<Rightarrow> app" where
  "signal_writes E name av r a =
     (if silent r then a
      else (case written_keys name av of
              None \<Rightarrow> a
            | Some WEverything \<Rightarrow> signal_flushed a
            | Some (WKeys ks) \<Rightarrow> fold (signal_modified E) ks a))"

definition count_lookups :: "bytes \<Rightarrow> nat \<times> nat \<Rightarrow> app \<Rightarrow> app" where
  "count_lookups name before a =
     (if name \<in> set READ_COMMANDS then
        (let after = lookup_counts (store a)
         in a\<lparr>stats := (stats a)\<lparr>keyspace_hits := keyspace_hits (stats a) + (fst after - fst before),
                                 keyspace_misses := keyspace_misses (stats a) + (snd after - snd before)\<rparr>\<rparr>)
      else a)"

definition count_command :: "app \<Rightarrow> app" where
  "count_command a = a\<lparr>stats := (stats a)\<lparr>total_commands := total_commands (stats a) + 1\<rparr>\<rparr>"

definition execute_with :: "host \<Rightarrow> env \<Rightarrow> runner \<Rightarrow> runner" where
  "execute_with host E run name av a c =
     (let a = count_command a
      in if subscriber_refused name c then Done ((a, c), resp_new (subscriber_error name))
         else
           (case memory_gate host E name a of
              (a, Some refusal) \<Rightarrow> Done ((a, c), resp_new refusal)
            | (a, None) \<Rightarrow>
                (let before = lookup_counts (store a)
                 in case run_command host E run name av a c of
                      Panicked \<Rightarrow> Panicked
                    | Done ((a, c), r) \<Rightarrow>
                        Done ((signal_writes E name av r (count_lookups name before a), c), r))))"

primrec execute_at :: "nat \<Rightarrow> host \<Rightarrow> env \<Rightarrow> runner" where
  "execute_at 0 host E = (\<lambda>name av a c. Panicked)"
| "execute_at (Suc n) host E = execute_with host E (execute_at n host E)"

definition execute :: "host \<Rightarrow> env \<Rightarrow> runner" where
  "execute = execute_at 2"

definition dispatch :: "host \<Rightarrow> env \<Rightarrow> bytes list \<Rightarrow> app \<Rightarrow> client \<Rightarrow> ((app \<times> client) \<times> response option) outcome" where
  "dispatch host E av a c =
     (if av = [] then Done ((a, c), None)
      else
        (let name = to_upper (av ! 0)
         in if in_transaction c \<and> \<not> is_control name then
              (case queue_command name av c of
                 Panicked \<Rightarrow> Panicked | Done (c, r) \<Rightarrow> Done ((a, c), Some r))
            else
              (case execute host E name av a c of
                 Panicked \<Rightarrow> Panicked | Done (ac, r) \<Rightarrow> Done (ac, Some r))))"

definition retry :: "host \<Rightarrow> env \<Rightarrow> bytes list \<Rightarrow> app \<Rightarrow> client \<Rightarrow> ((app \<times> client) \<times> reply option) outcome" where
  "retry host E av a c =
     (case execute host E (to_upper (av ! 0)) av a c of
        Panicked \<Rightarrow> Panicked
      | Done ((a, c), r) \<Rightarrow>
          (let a = a\<lparr>stats := (stats a)\<lparr>total_commands := total_commands (stats a) - 1\<rparr>\<rparr>
           in Done ((a, c), if rs_block r \<noteq> None then None else Some (resp_single r))))"

end
