(* ===== verification/Signals.thy ===== *)
theory Signals
  imports Dispatch
begin

text \<open>
  What a command tells the rest of the server. Whatever a command or an eviction ahead of it does to a
  key that a client could notice is announced to the watch registry, so that a transaction
  watching the key aborts, and to the blocking registry, so that a parked client is retried.
\<close>

subsection \<open>The effect of a handler on the store\<close>

lemma generic_done:
  assumes "generic_cmd E cfg name av st = Done x"
  shows "sounds E (generic_keys name av) st (Done x)"
proof (cases "name = ''SCAN''")
  case True
  then have "cmd_scan E cfg av st = Done x" using assms by (simp add: generic_cmd_def)
  then have "fst x = st"
    by (auto simp: cmd_scan_def Let_def split: if_splits option.splits sum.splits prod.splits outcome.splits)
  then show ?thesis using sound_same [of E _ st "snd x"] by (cases x) simp
next
  case False
  let ?cfg = "cfg\<lparr>scan_default_count := 0\<rparr>"
  have "generic_cmd E ?cfg name av st = generic_cmd E cfg name av st"
    unfolding generic_cmd_def by (simp only: False if_False)
  then show ?thesis using generic_sounds [of ?cfg E name av st] assms by simp
qed

lemma data_done:
  assumes "store_ok st" and "data_cmd E cfg fam name av st = Done (st', r)"
  shows "store_ok st'" and "k \<notin> data_keys fam name av \<Longrightarrow> live E st' k = live E st k"
    and "is_error r \<Longrightarrow> name \<noteq> ''ZINCRBY'' \<Longrightarrow> live E st' = live E st"
proof -
  let ?K = "data_keys fam name av"
  have s: "sounds E ?K st (Done (st', r))" if "fam \<noteq> FZset \<or> name \<noteq> ''ZINCRBY''"
    using that assms(2) generic_done [of E cfg name av st "(st', r)"]
      string_sound [of E name av st cfg] list_sounds [of E name av st] hash_sounds [of E name av st]
      set_sounds [of E name av st] zset_sounds [of name E av st cfg]
    by (cases fam) (simp_all add: data_cmd_def data_keys_def sound_same)
  have "framed E ?K st (Done (st', r))"
  proof (cases "fam = FZset")
    case True
    then show ?thesis using zset_framed [of E name av st cfg] assms(2) by (simp add: data_cmd_def data_keys_def)
  qed (intro sounds_framed s, simp)
  then show "store_ok st'" "k \<notin> ?K \<Longrightarrow> live E st' k = live E st k"
    using assms(1) by (auto simp: framed_def wpo_def wp_def intro: tidy_store_ok)
  show "is_error r \<Longrightarrow> name \<noteq> ''ZINCRBY'' \<Longrightarrow> live E st' = live E st"
    using s assms(1) by (simp add: sounds_def wpo_def wp_def effect_on_def)
qed

lemma memory_short:
  assumes "name \<in> set mem_writes" and "length av \<le> 1"
  shows "errs (memory_cmd lm heap_of E cfg name av st)"
  using assms short_args(1,2) [OF assms(2)]
  by (auto simp: mem_writes_def memory_cmd_def mem_create_def mem_config_cmd_def mem_add_def mem_del_def
      mem_setmeta_def mem_delmeta_def mem_expire_def)

lemma memory_written:
  assumes "name \<in> set mem_writes" and "1 < length av"
  shows "written_set name av = {av ! 1}"
proof -
  have "list_all (\<lambda>n. map_of WRITES n = Some first_key) mem_writes" by code_simp
  then show ?thesis
    using assms keys_at_simps(1) [of av] by (simp add: written_set_def written_keys_def list_all_iff)
qed

lemma next_id_reading: "same_reading E (Some (VMemory m, t)) (Some (VMemory (m\<lparr>mem_next_id := n\<rparr>), t))"
  by (simp add: same_reading_def memory_get_def vector_at_def slot_of_def fun_eq_iff)

subsection \<open>What a handler may change\<close>

text \<open>A change a client could notice happens to a key the table names, and not on an error.\<close>

definition declared :: "env \<Rightarrow> bytes \<Rightarrow> bytes list \<Rightarrow> app \<Rightarrow> app \<Rightarrow> response \<Rightarrow> bool" where
  "declared E name av a a' r \<longleftrightarrow>
     (\<forall>k. \<not> same_reading E (live E (store a) k) (live E (store a') k) \<longrightarrow>
        \<not> silent r \<and> k \<in> written_set name av)"

definition registries_kept :: "app \<Rightarrow> app \<Rightarrow> bool" where
  "registries_kept a a' \<longleftrightarrow> watch a' = watch a \<and> waiting a' = waiting a \<and> ready_keys a' = ready_keys a"

lemma declared_same: "live E (store a') = live E (store a) \<Longrightarrow> declared E name av a a' r"
  by (simp add: declared_def)

lemma memory_declared:
  assumes "store_ok (store a)" and "memory_cmd lm heap_of E cfg name av (store a) = Done (st, r)"
  shows "declared E name av a (a\<lparr>store := st\<rparr>) (resp_new r)"
  unfolding declared_def
proof (intro allI impI)
  fix k assume k: "\<not> same_reading E (live E (store a) k) (live E (store (a\<lparr>store := st\<rparr>)) k)"
  note may = memory_cmd_may [OF assms(1), where E = E and av = av and lm = lm and heap_of = heap_of and cfg = cfg and name = name, unfolded assms(2) may_simps mem_effect_def]
  have n: "name \<in> set mem_writes" by (rule ccontr) (use may(2) k in simp)
  have x: "k = av ! 1" by (rule ccontr) (use may(1) k in simp)
  have e: "\<not> is_error r"
    using may(1) k x by (auto simp: next_id_reading)
  with memory_short [OF n, of av lm heap_of E cfg "store a"] assms(2) have "1 < length av" by fastforce
  with memory_written [OF n] x e show "\<not> silent (resp_new r) \<and> k \<in> written_set name av" by simp
qed

lemma data_declared:
  assumes "store_ok (store a)" and "data_cmd E cfg fam name av (store a) = Done (st, r)"
    and "name \<noteq> ''ZINCRBY'' \<or> \<not> is_error r"
  shows "declared E name av a (a\<lparr>store := st\<rparr>) (resp_new r)"
  unfolding declared_def
proof (intro allI impI)
  fix k assume k: "\<not> same_reading E (live E (store a) k) (live E (store (a\<lparr>store := st\<rparr>)) k)"
  note d = data_done [OF assms(1,2)]
  have "\<not> is_error r" using d(3) k assms(3) by auto
  moreover have "k \<in> data_keys fam name av" using d(2) k by fastforce
  ultimately show "\<not> silent (resp_new r) \<and> k \<in> written_set name av"
    using data_covered [of E cfg fam name av "store a"] assms(2) by auto
qed

lemma blocking_declared:
  assumes "store_ok (store a)" and "blocking_cmd E c name av (store a) = Done (st, r)"
  shows "store_ok st" and "declared E name av a (a\<lparr>store := st\<rparr>) r"
proof -
  have w: "wp E (effect_resp (blocking_keys name av) (live E (store a))) (st, r)"
    using blocking_responds [of E name av "store a" c] assms by (simp add: may_respond_def responds_Done)
  then show "store_ok st" by (auto simp: wp_def effect_resp_def intro: tidy_store_ok)
  show "declared E name av a (a\<lparr>store := st\<rparr>) r"
    unfolding declared_def
  proof (intro allI impI)
    fix k assume k: "\<not> same_reading E (live E (store a) k) (live E (store (a\<lparr>store := st\<rparr>)) k)"
    then have s: "\<not> silent r" using w by (auto simp: wp_def effect_resp_def)
    have "k \<in> blocking_keys name av" using w k by (force simp: wp_def effect_resp_def)
    moreover have "\<not> answers_error (blocking_cmd E c name av (store a))"
      using s assms(2) by (auto simp: answers_error_def)
    ultimately show "\<not> silent r \<and> k \<in> written_set name av"
      using s blocking_covered [of E c name av "store a"] assms(2) by auto
  qed
qed

lemma server_cmd_spec:
  assumes "store_ok (store a)" and "server_cmd heap_of E name av a c = ((a', c'), r)"
  shows "store_ok (store a')" and "live E (store a') = live E (store a)" and "registries_kept a a'"
    and "pubsub a' = pubsub a" and "\<exists>n. c' = c\<lparr>cl_name := n\<rparr>" and "next_client_id a' = next_client_id a"
proof -
  obtain q where "server_handle heap_of E name av a c = ((a', c'), q)"
    using assms(2) by (auto simp: server_cmd_def Let_def case_prod_beta prod_eq_iff)
  note server_handle_spec [OF assms(1) this]
  then show "store_ok (store a')" "live E (store a') = live E (store a)" "registries_kept a a'"
    "pubsub a' = pubsub a" "\<exists>n. c' = c\<lparr>cl_name := n\<rparr>" "next_client_id a' = next_client_id a"
    by (simp_all add: registries_kept_def)
qed

text \<open>A connection and the shared state it runs on.\<close>

definition sound_conn :: "app \<Rightarrow> client \<Rightarrow> bool" where
  "sound_conn a c \<longleftrightarrow> store_ok (store a) \<and> pubsub_wf (pubsub a) \<and> agrees (pubsub a) c"

lemma on_store_Done:
  "on_store a c x = Done ((a', c'), r) \<longleftrightarrow> (\<exists>st. x = Done (st, r) \<and> a' = a\<lparr>store := st\<rparr> \<and> c' = c)"
  by (cases x) (auto simp: on_store_def split: prod.split)

lemma one_reply_Done: "one_reply x = Done (st, q) \<longleftrightarrow> (\<exists>r. x = Done (st, r) \<and> q = resp_new r)"
  by (cases x) (auto simp: one_reply_def split: prod.split)

text \<open>Every family but the transactions.\<close>

lemma run_command_plain:
  assumes "sound_conn a c" and "family_of name \<noteq> Some FTransaction"
    and "run_command host E run name av a c = Done ((a', c'), r)"
  shows "store_ok (store a')" and "registries_kept a a'"
    and "name \<noteq> ''ZINCRBY'' \<or> \<not> silent r \<Longrightarrow> declared E name av a a' r"
proof -
  have ok: "store_ok (store a)" "pubsub_wf (pubsub a)" "agrees (pubsub a) c"
    using assms(1) by (simp_all add: sound_conn_def)
  have "store_ok (store a') \<and> registries_kept a a' \<and> (name \<noteq> ''ZINCRBY'' \<or> \<not> silent r \<longrightarrow> declared E name av a a' r)"
  proof (cases "family_of name")
    case None
    then show ?thesis using assms(3) ok by (auto simp: run_command_def registries_kept_def declared_same)
  next
    case (Some fam)
    have data: ?thesis if "on_store a c (one_reply (data_cmd E (config a) fam name av (store a))) = Done ((a', c'), r)"
      using that data_done(1) [OF ok(1)] data_declared [OF ok(1)]
      by (auto simp: on_store_Done one_reply_Done registries_kept_def)
    show ?thesis
    proof (cases fam)
      case FServer
      with Some assms(3) have "server_cmd (h_index_bytes host) E name av a c = ((a', c'), r)"
        by (simp add: run_command_def)
      from server_cmd_spec [OF ok(1) this] show ?thesis by (simp add: declared_same)
    next
      case FPubSub
      with Some assms(3) have "pubsub_cmd name av a c = ((a', c'), r)" by (simp add: run_command_def)
      from pubsub_cmd_spec [OF ok(2,3) this] ok show ?thesis by (simp add: declared_same registries_kept_def)
    next
      case FBlocking
      with Some assms(3) show ?thesis
        using blocking_declared [OF ok(1)] by (auto simp: run_command_def on_store_Done registries_kept_def)
    next
      case FMemory
      with Some assms(3) obtain st q where
        m: "memory_cmd (h_libm host) (h_index_bytes host) E (config a) name av (store a) = Done (st, q)"
        and a: "a' = a\<lparr>store := st\<rparr>" "r = resp_new q"
        by (auto simp: run_command_def on_store_Done one_reply_Done)
      have "store_ok st"
        using memory_cmd_may(1) [OF ok(1), where E = E and av = av] m
        by (metis may_simps(2) mem_effect_def tidy_store_ok)
      then show ?thesis using memory_declared [OF ok(1) m] a by (simp add: registries_kept_def)
    next
      case FTransaction
      with Some assms(2) show ?thesis by simp
    qed (use Some assms(3) data in \<open>simp_all add: run_command_def\<close>)
  qed
  then show "store_ok (store a')" "registries_kept a a'"
    "name \<noteq> ''ZINCRBY'' \<or> \<not> silent r \<Longrightarrow> declared E name av a a' r" by simp_all
qed

subsection \<open>What a signal does\<close>

lemma fold_touch_version:
  "watch_version (fold touch_key ks w) k =
     map_option (\<lambda>v. v + of_nat (count_list ks k)) (watch_version w k)"
proof (induction ks arbitrary: w)
  case Nil
  then show ?case by (simp add: option.map_ident)
next
  case (Cons x ks)
  have "watch_version (touch_key x w) k = map_option (\<lambda>v. if x = k then v + 1 else v) (watch_version w k)"
    by (cases "hm_get w x"; cases "hm_get w k") (auto simp: watch_version_def touch_key_def hm_get_insert)
  then show ?case using Cons.IH [of "touch_key x w"]
    by (cases "watch_version w k") (simp_all add: algebra_simps)
qed

lemma touch_all_version: "watch_version (touch_all w) k = map_option (\<lambda>v. v + 1) (watch_version w k)"
  by (simp add: watch_version_def get_touch_all option.map_comp comp_def)

lemma count_distinct: "distinct ks \<Longrightarrow> count_list ks k \<le> 1"
  by (induction ks) (auto simp: count_list_0_iff)

lemma every_length: "length (every n xs) \<le> length xs"
proof (induction n xs rule: every.induct)
  case (2 n x xs)
  then show ?case using order_trans [OF 2 length_drop [THEN eq_refl]] by (simp add: le_diff_conv)
qed simp

lemma every_set: "set (every n xs) \<subseteq> set xs"
proof (induction n xs rule: every.induct)
  case (2 n x xs)
  then show ?case using set_drop_subset [of "n - 1" xs] by auto
qed simp

lemma keys_at_length: "keys_at p av = WKeys ks \<Longrightarrow> length ks \<le> length av"
  by (cases p) (auto simp: keys_at_def Let_def simp del: take_drop intro!: order_trans [OF every_length])

lemma written_keys_length: "written_keys name av = Some (WKeys ks) \<Longrightarrow> length ks \<le> length av"
  using keys_at_length by (auto simp: written_keys_def)

definition parkable :: "datum option \<Rightarrow> bool" where
  "parkable d \<longleftrightarrow> (\<exists>v t. d = Some (v, t) \<and> val_type v \<in> {TList, TZset})"

lemma signal_modified_ready:
  assumes "store_ok (store a)"
  shows "set (ready_keys a) \<subseteq> set (ready_keys (signal_modified E k a))"
    and "waiting a \<noteq> [] \<Longrightarrow> parkable (live E (store a) k) \<Longrightarrow> k \<in> set (ready_keys (signal_modified E k a))"
  using peek_type_view [OF store_okD(1) [OF assms], where E = E and k = k]
  by (auto simp: signal_modified_def Let_def case_prod_beta parkable_def)

lemma fold_signal:
  assumes "store_ok (store a)"
  shows "store_ok (store (fold (signal_modified E) ks a)) \<and>
    live E (store (fold (signal_modified E) ks a)) = live E (store a) \<and>
    watch (fold (signal_modified E) ks a) = fold touch_key ks (watch a) \<and>
    waiting (fold (signal_modified E) ks a) = waiting a \<and> pubsub (fold (signal_modified E) ks a) = pubsub a \<and>
    config (fold (signal_modified E) ks a) = config a \<and>
    next_client_id (fold (signal_modified E) ks a) = next_client_id a \<and>
    set (ready_keys a) \<subseteq> set (ready_keys (fold (signal_modified E) ks a)) \<and>
    (waiting a \<noteq> [] \<longrightarrow> (\<forall>k \<in> set ks. parkable (live E (store a) k) \<longrightarrow>
       k \<in> set (ready_keys (fold (signal_modified E) ks a))))"
  using assms
proof (induction ks arbitrary: a)
  case (Cons x ks)
  note v = signal_modified_view [OF Cons.prems, of E x]
  note r = signal_modified_ready [OF Cons.prems, where E = E and k = x]
  from Cons.IH [OF v(1)] r(1,2) v(2) show ?case by (simp; blast)
qed simp

lemma signal_writes_spec:
  assumes "store_ok (store a)"
  shows "store_ok (store (signal_writes E name av r a))"
    and "live E (store (signal_writes E name av r a)) = live E (store a)"
    and "waiting (signal_writes E name av r a) = waiting a" and "pubsub (signal_writes E name av r a) = pubsub a"
    and "config (signal_writes E name av r a) = config a"
    and "next_client_id (signal_writes E name av r a) = next_client_id a"
    and "w \<in> set (waiting a) \<Longrightarrow> k \<in> set (pk_keys w) \<Longrightarrow> \<not> silent r \<Longrightarrow> k \<in> written_set name av \<Longrightarrow>
      parkable (live E (store a) k) \<Longrightarrow> k \<in> set (ready_keys (signal_writes E name av r a))"
    and "\<exists>n. watch_version (watch (signal_writes E name av r a)) k =
        map_option (\<lambda>v. v + of_nat n) (watch_version (watch a) k) \<and> n \<le> length av + 1 \<and>
        (\<not> silent r \<longrightarrow> k \<in> written_set name av \<longrightarrow> 0 < n)"
proof -
  note f = fold_signal [OF assms, of E]
  show "store_ok (store (signal_writes E name av r a))"
    "live E (store (signal_writes E name av r a)) = live E (store a)"
    "waiting (signal_writes E name av r a) = waiting a" "pubsub (signal_writes E name av r a) = pubsub a"
    "config (signal_writes E name av r a) = config a"
    "next_client_id (signal_writes E name av r a) = next_client_id a"
    using f assms by (simp_all add: signal_writes_def signal_flushed_def split: option.split written.split)
  show "k \<in> set (ready_keys (signal_writes E name av r a))"
    if "w \<in> set (waiting a)" "k \<in> set (pk_keys w)" "\<not> silent r" "k \<in> written_set name av"
      "parkable (live E (store a) k)"
  proof -
    have "waiting a \<noteq> []" using that(1) by auto
    then show ?thesis
      using that f by (cases "written_keys name av")
        (auto simp: signal_writes_def signal_flushed_def written_set_def split: written.splits)
  qed
  have same: "map_option (\<lambda>v. v + of_nat 0) x = x" for x :: "64 word option"
    by (cases x) simp_all
  consider "silent r \<or> written_keys name av = None" | "\<not> silent r" "written_keys name av = Some WEverything"
    | ks where "\<not> silent r" "written_keys name av = Some (WKeys ks)"
    by (metis option.exhaust written.exhaust)
  then show "\<exists>n. watch_version (watch (signal_writes E name av r a)) k =
        map_option (\<lambda>v. v + of_nat n) (watch_version (watch a) k) \<and> n \<le> length av + 1 \<and>
        (\<not> silent r \<longrightarrow> k \<in> written_set name av \<longrightarrow> 0 < n)"
  proof cases
    case 1
    then show ?thesis using same by (intro exI [of _ 0]) (auto simp: signal_writes_def written_set_def)
  next
    case 2
    then show ?thesis
      by (intro exI [of _ 1]) (simp add: signal_writes_def signal_flushed_def touch_all_version)
  next
    case (3 ks)
    have "count_list ks k \<le> length av + 1"
      using count_le_length [of ks k] written_keys_length [OF 3(2)] by linarith
    with 3 f [of ks] show ?thesis
      by (intro exI [of _ "count_list ks k"])
        (auto simp: signal_writes_def fold_touch_version written_set_def count_list_0_iff intro!: gr0I)
  qed
qed

subsection \<open>The whole path\<close>

lemma memory_gate_spec:
  assumes "store_ok (store a)" and "memory_gate host E name a = (a', refusal)"
  shows "\<exists>ks. length ks \<le> 10000 \<and> evicted E a ks a'"
    and "refusal \<noteq> None \<Longrightarrow> denies_oom name \<and> refusal = Some oom_error"
    and "refusal = None \<Longrightarrow> denies_oom name \<Longrightarrow> within_limit (h_heap host) a'"
proof -
  obtain b ok where m: "make_room (h_heap host) E a = (b, ok)" by fastforce
  note x = make_room_spec [OF assms(1) m]
  show "\<exists>ks. length ks \<le> 10000 \<and> evicted E a ks a'"
    using assms(2) m x evicted_refl [OF assms(1), of E]
    by (auto simp: memory_gate_def split: if_splits intro: exI [of _ "[]"])
  show "refusal \<noteq> None \<Longrightarrow> denies_oom name \<and> refusal = Some oom_error"
    using assms(2) m by (auto simp: memory_gate_def split: if_splits)
  show "refusal = None \<Longrightarrow> denies_oom name \<Longrightarrow> within_limit (h_heap host) a'"
    using assms(2) m x by (auto simp: memory_gate_def within_limit_def split: if_splits)
qed

lemma count_command_frame [simp]:
  "store (count_command a) = store a" "watch (count_command a) = watch a" "waiting (count_command a) = waiting a"
  "pubsub (count_command a) = pubsub a" "config (count_command a) = config a"
  "ready_keys (count_command a) = ready_keys a" "next_client_id (count_command a) = next_client_id a" "outbox (count_command a) = outbox a"
  by (simp_all add: count_command_def)

lemma count_lookups_frame [simp]:
  "store (count_lookups n b a) = store a" "watch (count_lookups n b a) = watch a"
  "waiting (count_lookups n b a) = waiting a" "pubsub (count_lookups n b a) = pubsub a"
  "config (count_lookups n b a) = config a" "next_client_id (count_lookups n b a) = next_client_id a" "ready_keys (count_lookups n b a) = ready_keys a"
  by (simp_all add: count_lookups_def Let_def)

lemma sound_conn_count [simp]: "sound_conn (count_command a) c = sound_conn a c"
  by (simp add: sound_conn_def)

lemma sound_conn_evicted: "sound_conn a c \<Longrightarrow> evicted E a ks b \<Longrightarrow> sound_conn b c"
  by (simp add: sound_conn_def evicted_def)

text \<open>A plain command, cut into the gates, the evictions, the handler and the signals.\<close>

lemma execute_cases:
  assumes "sound_conn a c" and "execute_at n host E name av a c = Done ((a', c'), r)"
  obtains (refused) "silent r" "c' = c" "subscriber_refused name c" "a' = count_command a"
    | (oom) ks where "silent r" "c' = c" "length ks \<le> 10000" "evicted E (count_command a) ks a'" "denies_oom name"
        "r = resp_new oom_error"
    | (ran) m ks b d where "n = Suc m" "length ks \<le> 10000" "evicted E (count_command a) ks b"
        "denies_oom name \<Longrightarrow> within_limit (h_heap host) b"
        "run_command host E (execute_at m host E) name av b c = Done ((d, c'), r)" "\<not> subscriber_refused name c"
        "a' = signal_writes E name av r (count_lookups name (lookup_counts (store b)) d)"
proof (cases n)
  case 0
  then show ?thesis using assms(2) by simp
next
  case (Suc m)
  then have x: "execute_with host E (execute_at m host E) name av a c = Done ((a', c'), r)" using assms(2) by simp
  have err: "is_error (subscriber_error name)" "is_error oom_error"
    by (simp_all add: subscriber_error_def oom_error_def)
  show ?thesis
  proof (cases "subscriber_refused name c")
    case True
    then have "a' = count_command a" "c' = c" "r = resp_new (subscriber_error name)"
      using x by (simp_all add: execute_with_def)
    then show ?thesis using refused True err by simp
  next
    case False
    obtain b refusal where g: "memory_gate host E name (count_command a) = (b, refusal)" by fastforce
    have "store_ok (store (count_command a))" using assms(1) by (simp add: sound_conn_def)
    note gate = memory_gate_spec [OF this g]
    then obtain ks where ks: "length ks \<le> 10000" "evicted E (count_command a) ks b" by blast
    show ?thesis
    proof (cases refusal)
      case None
      have e: "execute_with host E (execute_at m host E) name av a c =
          (case run_command host E (execute_at m host E) name av b c of
             Panicked \<Rightarrow> Panicked
           | Done ((d, c), r) \<Rightarrow>
               Done ((signal_writes E name av r (count_lookups name (lookup_counts (store b)) d), c), r))"
        using g False None by (simp add: execute_with_def Let_def)
      show ?thesis
      proof (cases "run_command host E (execute_at m host E) name av b c")
        case (Done y)
        obtain d c2 q where y: "y = ((d, c2), q)" by (metis surj_pair)
        have "a' = signal_writes E name av q (count_lookups name (lookup_counts (store b)) d)" "c2 = c'" "q = r"
          using x unfolding e Done y by auto
        then show ?thesis using ran [OF Suc ks(1,2) gate(3) [OF None]] Done y False by simp
      qed (use x e in simp)
    next
      case (Some q)
      then have q: "q = oom_error" "denies_oom name" using gate(2) by simp_all
      then have "a' = b" "c' = c" "r = resp_new oom_error"
        using x g False Some by (simp_all add: execute_with_def)
      then show ?thesis using oom ks q(2) err by simp
    qed
  qed
qed

text \<open>A key that reads differently afterwards was evicted or written, and then announced.\<close>

lemma execute_announces:
  assumes "sound_conn a c" and "family_of name \<noteq> Some FTransaction"
    and "execute_at n host E name av a c = Done ((a', c'), r)" and "name \<noteq> ''ZINCRBY'' \<or> \<not> silent r"
    and "\<not> same_reading E (live E (store a) k) (live E (store a') k)"
  shows "\<exists>n. watch_version (watch a') k = map_option (\<lambda>v. v + of_nat n) (watch_version (watch a) k) \<and>
      0 < n \<and> n \<le> length av + 2"
    and "w \<in> set (waiting a) \<Longrightarrow> k \<in> set (pk_keys w) \<Longrightarrow> parkable (live E (store a') k) \<Longrightarrow>
      w \<in> set (waiting a') \<and> k \<in> set (ready_keys a')"
proof -
  have "(\<exists>n. watch_version (watch a') k = map_option (\<lambda>v. v + of_nat n) (watch_version (watch a) k) \<and>
      0 < n \<and> n \<le> length av + 2) \<and>
    (w \<in> set (waiting a) \<longrightarrow> k \<in> set (pk_keys w) \<longrightarrow> parkable (live E (store a') k) \<longrightarrow>
      w \<in> set (waiting a') \<and> k \<in> set (ready_keys a'))" for w
  proof -
    have evict_only: "k \<in> set ks \<and> live E (store b) k = None \<and> waiting b = waiting a \<and>
        watch_version (watch b) k = map_option (\<lambda>v. v + 1) (watch_version (watch a) k)"
      if "evicted E (count_command a) ks b" "\<not> same_reading E (live E (store a) k) (live E (store b) k)" for ks b
    proof -
      have k: "k \<in> set ks" using that by (auto simp: evicted_def restrict_map_def split: if_splits)
      then have "count_list ks k = 1"
        using count_distinct [of ks k] that(1) count_list_0_iff [of ks k] by (auto simp: evicted_def le_Suc_eq)
      with k that(1) show ?thesis by (simp add: evicted_def fold_touch_version)
    qed
    from assms(1,3) show ?thesis
    proof (cases rule: execute_cases)
      case refused
      then show ?thesis using assms(5) by simp
    next
      case (oom ks)
      note e = evict_only [OF oom(4) assms(5)]
      then show ?thesis by (intro conjI impI exI [of _ 1]) (auto simp: parkable_def)
    next
      case (ran m ks b d)
      have sb: "sound_conn b c" using sound_conn_evicted [of "count_command a" c E ks b] assms(1) ran(3) by simp
      note p = run_command_plain [OF sb assms(2) ran(5)]
      let ?d = "count_lookups name (lookup_counts (store b)) d"
      have "store_ok (store ?d)" using p(1) by simp
      note g = signal_writes_spec [OF this, where E = E and name = name and av = av and r = r, folded ran(7)]
      have keep: "watch ?d = watch b" "waiting ?d = waiting b" "live E (store a') = live E (store d)"
        using p(2) g(2) by (simp_all add: registries_kept_def)
      have wb: "waiting b = waiting a" using ran(3) by (simp add: evicted_def)
      obtain n where n: "watch_version (watch a') k = map_option (\<lambda>v. v + of_nat n) (watch_version (watch b) k)"
        "n \<le> length av + 1" "\<not> silent r \<Longrightarrow> k \<in> written_set name av \<Longrightarrow> 0 < n"
        using g(8) [where k = k] keep(1) by auto
      show ?thesis
      proof (cases "same_reading E (live E (store b) k) (live E (store a') k)")
        case True
        then have nb: "\<not> same_reading E (live E (store a) k) (live E (store b) k)"
          using assms(5) same_reading_trans by blast
        note e = evict_only [OF ran(3) nb]
        then have "\<not> parkable (live E (store a') k)" using True by (auto simp: same_reading_def parkable_def)
        moreover have "watch_version (watch a') k = map_option (\<lambda>v. v + of_nat (Suc n)) (watch_version (watch a) k)"
          using n(1) e by (cases "watch_version (watch a) k") (simp_all add: algebra_simps)
        ultimately show ?thesis using n(2) by (intro conjI impI exI [of _ "Suc n"]) auto
      next
        case False
        then have ch: "\<not> silent r" "k \<in> written_set name av"
          using p(3) assms(4) keep(3) by (auto simp: declared_def)
        then have n0: "0 < n" by (rule n(3))
        have wake: "w \<in> set (waiting a) \<longrightarrow> k \<in> set (pk_keys w) \<longrightarrow> parkable (live E (store a') k) \<longrightarrow>
            w \<in> set (waiting a') \<and> k \<in> set (ready_keys a')"
          using g(2,3) g(7) [where w = w and k = k] ch keep wb by auto
        have "\<exists>n. watch_version (watch a') k = map_option (\<lambda>v. v + of_nat n) (watch_version (watch a) k) \<and>
            0 < n \<and> n \<le> length av + 2"
        proof (cases "same_reading E (live E (store a) k) (live E (store b) k)")
          case True
          have "k \<notin> set ks \<or> live E (store a) k = None"
            using True ran(3) by (auto simp: evicted_def same_reading_def restrict_map_def split: if_splits)
          then have "count_list ks k = 0" using ran(3) by (auto simp: evicted_def count_list_0_iff)
          then have "watch_version (watch b) k = watch_version (watch a) k"
            using ran(3) by (simp add: evicted_def fold_touch_version option.map_ident)
          then show ?thesis using n(1,2) n0 by (intro exI [of _ n]) auto
        next
          case False
          note e = evict_only [OF ran(3) this]
          then have "watch_version (watch a') k = map_option (\<lambda>v. v + of_nat (Suc n)) (watch_version (watch a) k)"
            using n(1) by (cases "watch_version (watch a) k") (simp_all add: algebra_simps)
          then show ?thesis using n(2) by (intro exI [of _ "Suc n"]) auto
        qed
        with wake show ?thesis by blast
      qed
    qed
  qed
  then show "\<exists>n. watch_version (watch a') k = map_option (\<lambda>v. v + of_nat n) (watch_version (watch a) k) \<and>
      0 < n \<and> n \<le> length av + 2"
    "w \<in> set (waiting a) \<Longrightarrow> k \<in> set (pk_keys w) \<Longrightarrow> parkable (live E (store a') k) \<Longrightarrow>
      w \<in> set (waiting a') \<and> k \<in> set (ready_keys a')"
    by blast+
qed

subsection \<open>Properties\<close>

lemma broken_watch_aborts:
  assumes "watch_broken a d" and "cl_tx d = Some t" and "\<not> failed t"
  shows "\<exists>w. exec_command run a d = Done ((a\<lparr>watch := w\<rparr>, d\<lparr>cl_tx := None, cl_watched := []\<rparr>), resp_new NilArray)"
proof -
  have "watch_broken a (d\<lparr>cl_tx := None\<rparr>)" using assms(1) by (simp add: watch_broken_def)
  then show ?thesis
    using assms(2,3) by (intro exI) (simp add: exec_command_def unwatch_all_def Let_def)
qed

text \<open>
  C5. No invalidation is lost. If a plain command of any family, sent by a client or replayed by
  an EXEC, or an eviction the memory gate made ahead of it, changes what a client can read under a key, then every connection that
  watches the key at its present version finds its transaction broken: EXEC answers with a null
  array and leaves the keyspace alone. ZINCRBY answering an error is the one exception.
\<close>
theorem no_lost_invalidation:
  assumes "sound_conn a c" and "family_of name \<noteq> Some FTransaction"
    and "execute_at n host E name av a c = Done ((a', c'), r)" and "name \<noteq> ''ZINCRBY'' \<or> \<not> silent r"
    and "\<not> same_reading E (live E (store a) k) (live E (store a') k)" and "length av < 2 ^ 63"
    and "(k, v) \<in> set (cl_watched d)" and "watch_version (watch a) k = Some v"
    and "cl_tx d = Some t" and "\<not> failed t"
  shows "\<exists>w. exec_command run a' d = Done ((a'\<lparr>watch := w\<rparr>, d\<lparr>cl_tx := None, cl_watched := []\<rparr>), resp_new NilArray)"
proof (rule broken_watch_aborts [OF _ assms(9,10)])
  obtain n where n: "watch_version (watch a') k = Some (v + of_nat n)" "0 < n" "n \<le> length av + 2"
    using execute_announces(1) [OF assms(1-5)] assms(8) by auto
  then have "(of_nat n :: 64 word) \<noteq> 0"
    using assms(6) by (auto simp: word_of_nat_eq_0_iff dest: dvd_imp_le)
  with n(1) assms(7) show "watch_broken a' d"
    unfolding watch_broken_def by (intro bexI [of _ "(k, v)"]) simp_all
qed

text \<open>
  C6. No wakeup is lost. If a plain command, or an eviction ahead of it, changes what a client can
  read under a key and leaves a list or a sorted set there, then the key is queued for the
  event loop to serve, for every parked client that waits on it, and the client stays parked until
  then.
\<close>
theorem no_lost_wakeup:
  assumes "sound_conn a c" and "family_of name \<noteq> Some FTransaction"
    and "execute_at n host E name av a c = Done ((a', c'), r)" and "name \<noteq> ''ZINCRBY'' \<or> \<not> silent r"
    and "\<not> same_reading E (live E (store a) k) (live E (store a') k)"
    and "parkable (live E (store a') k)" and "w \<in> set (waiting a)" and "k \<in> set (pk_keys w)"
  shows "w \<in> set (waiting a') \<and> k \<in> set (ready_keys a')"
  using execute_announces(2) [OF assms(1-5,7,8,6)] .

text \<open>
  C20. The memory gate holds for every command. One that may grow the keyspace either runs with the
  process within its limit, or is refused with an error and leaves every key alone but those
  evicted in the attempt to make room; under the gate nothing else stops it but a subscriber's
  restriction.
\<close>
theorem memory_gate_holds:
  assumes "sound_conn a c" and "execute host E name av a c = Done ((a', c'), r)" and "denies_oom name"
    and "\<not> subscriber_refused name c"
  shows "(\<exists>ks b d. evicted E (count_command a) ks b \<and> within_limit (h_heap host) b \<and>
      run_command host E (execute_at 1 host E) name av b c = Done ((d, c'), r)) \<or>
    (r = resp_new oom_error \<and> c' = c \<and> (\<exists>ks. evicted E (count_command a) ks a'))"
proof -
  have "execute_at 2 host E name av a c = Done ((a', c'), r)" using assms(2) by (simp add: execute_def)
  from assms(1) this show ?thesis
  proof (cases rule: execute_cases)
    case (ran m ks b d)
    then show ?thesis using assms(3) by (simp add: numeral_2_eq_2) blast
  qed (use assms(4) in blast)+
qed

subsection \<open>Witnesses\<close>

definition small_config :: config where
  "small_config =
     \<lparr>bind = [], port = 0, dbfilename = [], save_interval = 0, sweep_interval = 0, maxclients = 1,
      max_string_bytes = 9, proto_max_bulk_len = 9, client_output_buffer_limit = 9, scan_default_count = 1,
      zadd_max_pairs = 1, maxmemory = 0, maxmemory_policy = NoEviction, maxmemory_samples = 1,
      mem_max_topk = 1, mem_max_candidates = 1, mem_max_scan = 1, mem_max_dim = 1, mem_max_text_bytes = 1,
      mem_max_records = 1, mem_max_terms_per_doc = 1, mem_recency_halflife = 1\<rparr>"

definition sample_host :: host where
  "sample_host = \<lparr>h_libm = sample_libm, h_index_bytes = \<lambda>_. 0, h_heap = \<lambda>_. 0\<rparr>"

definition sample_parked :: parked where
  "sample_parked = \<lparr>pk_id = 3, pk_keys = [''l''], pk_deadline = None, pk_argv = [''BLPOP'', ''l'', ''0''],
     pk_on_timeout = NilArray\<rparr>"

definition watched_app :: app where
  "watched_app = (new_app sample_env small_config)\<lparr>store := sample_store, watch := fst (watch_key ''l'' []),
     waiting := [sample_parked]\<rparr>"

definition sample_client :: client where
  "sample_client = new_client sample_env 1 ''a''"

definition watching_client :: client where
  "watching_client = (new_client sample_env 2 ''b'')
     \<lparr>cl_watched := [(''l'', 0)], cl_tx := Some \<lparr>queued = [], failed = False\<rparr>\<rparr>"

lemma agrees_new: "agrees new_pubsub (new_client E i addr)"
  by (simp add: agrees_def new_client_def new_pubsub_def subs.held_empty)

lemma watched_app_sound: "sound_conn watched_app sample_client"
  using agrees_new by (simp add: sound_conn_def watched_app_def sample_store_ok new_app_def sample_client_def)

text \<open>One RPUSH to the list.\<close>

lemma fold_push_right: "fold (push_to RightEnd) vs l = l @ vs"
  by (induction vs arbitrary: l) (simp_all add: push_to_def)

lemma rpush_appends:
  assumes "store_ok st" and "live E st k = Some (VList l, t)" and "vs \<noteq> []"
  shows "wpo E (\<lambda>M r. M = (live E st)(k \<mapsto> (VList (l @ vs), t)) \<and> \<not> is_error r)
    (list_cmd E ''RPUSH'' (''RPUSH'' # k # vs) st)"
proof -
  note ok = store_okD(2,3) [OF assms(1), of E]
  have n: "drop 2 (''RPUSH'' # k # vs) = vs" by simp
  have m: "min_args (''RPUSH'' # k # vs) 2" using assms(3) by (cases vs) (simp_all add: min_args_def)
  have c: "cmd_push E ''RPUSH'' (''RPUSH'' # k # vs) st =
      (let (st, good) = check_type E k TList st
       in if \<not> good then Done (st, wrongtype)
          else (let (st, l) = get_or_create_list E k st
                in case l of
                     None \<Rightarrow> Panicked
                   | Some l \<Rightarrow> (let l = l @ vs; st = put_value k (VList l) st in Done (st, of_int_reply (length l)))))"
    using m by (simp add: cmd_push_def n fold_push_right Let_def case_prod_beta cong: if_cong option.case_cong)
  have l: "list_cmd E ''RPUSH'' (''RPUSH'' # k # vs) st = cmd_push E ''RPUSH'' (''RPUSH'' # k # vs) st"
    by (simp add: list_cmd_def)
  show ?thesis
    unfolding l c using assms(2) ok
    by - ((rule wp | assumption | rule wp_let | (simp add: assms(2); fail) | (clarsimp simp: of_int_reply_def; fail))+)
qed

definition pushed :: "((app \<times> client) \<times> response) outcome" where
  "pushed = execute sample_host sample_env ''RPUSH'' [''RPUSH'', ''l'', ''z''] watched_app sample_client"

lemma pushed_value:
  "\<exists>a c r. pushed = Done ((a, c), r) \<and> \<not> silent r \<and>
     live sample_env (store a) ''l'' = Some (VList [''x'', ''y'', ''z''], None)"
proof -
  let ?c = "list_cmd sample_env ''RPUSH'' [''RPUSH'', ''l'', ''z''] sample_store"
  have "live sample_env sample_store ''l'' = Some (VList [''x'', ''y''], None)" by (simp add: live_sample_store)
  from rpush_appends [OF sample_store_ok this, of "[''z'']"]
  obtain st q where x: "?c = Done (st, q)" "tidy sample_env st" "\<not> is_error q"
    and l: "live sample_env st = (live sample_env sample_store)(''l'' \<mapsto> (VList [''x'', ''y'', ''z''], None))"
    by (cases ?c) (auto simp: wpo_def wp_def)
  have "vals_ok (live sample_env st)"
    using vals_ok_updI [OF store_okD(3) [OF sample_store_ok]] by (simp add: l)
  then have ok: "store_ok st" using x(2) by (rule tidy_store_ok [rotated])
  have f: "family_of ''RPUSH'' = Some FList" "\<not> subscriber_refused ''RPUSH'' sample_client"
    "''RPUSH'' \<notin> set READ_COMMANDS" by code_simp+
  have w: "maxmemory (config watched_app) = 0" "store watched_app = sample_store"
    by (simp_all add: watched_app_def new_app_def small_config_def)
  have e: "pushed = Done ((signal_writes sample_env ''RPUSH'' [''RPUSH'', ''l'', ''z''] (resp_new q)
      ((count_command watched_app)\<lparr>store := st\<rparr>), sample_client), resp_new q)"
    using x(1) f w by (simp add: pushed_def execute_def numeral_2_eq_2 execute_with_def Let_def memory_gate_def
        run_command_def data_cmd_def on_store_def one_reply_def count_lookups_def)
  have "live sample_env (store (signal_writes sample_env ''RPUSH'' [''RPUSH'', ''l'', ''z''] (resp_new q)
      ((count_command watched_app)\<lparr>store := st\<rparr>))) = live sample_env st"
    by (subst signal_writes_spec(2)) (simp_all add: ok)
  then show ?thesis unfolding e using x(3) l by auto
qed

lemma push_differs:
  "\<not> same_reading sample_env (live sample_env (store watched_app) ''l'') (Some (VList [''x'', ''y'', ''z''], None))"
  by (simp add: watched_app_def live_sample_store same_reading_def)

lemma rpush_family: "family_of ''RPUSH'' \<noteq> Some FTransaction"
  by code_simp

lemma no_lost_invalidation_witness:
  "\<exists>a c r w. pushed = Done ((a, c), r) \<and> exec_command (execute_at 1 sample_host sample_env) a watching_client =
     Done ((a\<lparr>watch := w\<rparr>, watching_client\<lparr>cl_tx := None, cl_watched := []\<rparr>), resp_new NilArray)"
proof -
  obtain a c r where p: "pushed = Done ((a, c), r)" "\<not> silent r"
    and l: "live sample_env (store a) ''l'' = Some (VList [''x'', ''y'', ''z''], None)"
    using pushed_value by blast
  have "watch_version (watch watched_app) ''l'' = Some 0"
    by (simp add: watched_app_def watch_version_def watch_key_def)
  moreover have "(''l'', 0) \<in> set (cl_watched watching_client)"
    "cl_tx watching_client = Some \<lparr>queued = [], failed = False\<rparr>" "\<not> failed \<lparr>queued = [], failed = False\<rparr>"
    "length [''RPUSH'', ''l'', ''z''] < 2 ^ 63" by (simp_all add: watching_client_def)
  ultimately show ?thesis
    using no_lost_invalidation [OF watched_app_sound rpush_family p(1) [unfolded pushed_def execute_def] disjI2 [OF p(2)]
      push_differs [folded l]] p(1) by blast
qed

lemma no_lost_wakeup_witness:
  "\<exists>a c r. pushed = Done ((a, c), r) \<and> sample_parked \<in> set (waiting a) \<and> ''l'' \<in> set (ready_keys a)"
proof -
  obtain a c r where p: "pushed = Done ((a, c), r)" "\<not> silent r"
    and l: "live sample_env (store a) ''l'' = Some (VList [''x'', ''y'', ''z''], None)"
    using pushed_value by blast
  have "sample_parked \<in> set (waiting watched_app)" "''l'' \<in> set (pk_keys sample_parked)"
    by (simp_all add: watched_app_def sample_parked_def)
  from no_lost_wakeup [OF watched_app_sound rpush_family p(1) [unfolded pushed_def execute_def] disjI2 [OF p(2)]
      push_differs [folded l] _ this]
  have "sample_parked \<in> set (waiting a) \<and> ''l'' \<in> set (ready_keys a)" using l by (simp add: parkable_def)
  with p(1) show ?thesis by blast
qed

lemma memory_gate_holds_witness:
  "\<exists>ks b d c r. evicted sample_env (count_command watched_app) ks b \<and> within_limit (h_heap sample_host) b \<and>
     run_command sample_host sample_env (execute_at 1 sample_host sample_env) ''RPUSH'' [''RPUSH'', ''l'', ''z''] b
       sample_client = Done ((d, c), r)"
proof -
  obtain a c r where p: "pushed = Done ((a, c), r)" "\<not> silent r" using pushed_value by blast
  have "denies_oom ''RPUSH''" "\<not> subscriber_refused ''RPUSH'' sample_client" by code_simp+
  from memory_gate_holds [OF watched_app_sound p(1) [unfolded pushed_def] this] p(2)
  show ?thesis by (force simp: oom_error_def)
qed

end
