(* ===== verification/Sessions.thy ===== *)
theory Sessions
  imports Signals
begin

text \<open>
  What one connection's commands do to what the others rely on. \<open>keeps\<close> relates the states before
  and after any command, transactions included: the keyspace stays well formed, the connection
  and the pub/sub registry agree, no other connection's subscriptions or watches change hands, and
  the watch registry moves by its own steps. The end of the theory lifts this to the group of all
  connections that share one state (\<open>group_ok\<close>), as they come, run commands and go.
\<close>

subsection \<open>The relation\<close>

definition own_watches :: "client \<Rightarrow> (nat \<times> bytes) set" where
  "own_watches c = {cl_id c} \<times> fst ` set (cl_watched c)"

definition conn_ok :: "app \<Rightarrow> client \<Rightarrow> bool" where
  "conn_ok a c \<longleftrightarrow> sound_conn a c \<and> distinct (map fst (cl_watched c))"

definition watch_moves :: "nat \<Rightarrow> watch \<Rightarrow> (nat \<times> bytes) set \<Rightarrow> watch \<Rightarrow> (nat \<times> bytes) set \<Rightarrow> bool" where
  "watch_moves i w H w' H' \<longleftrightarrow>
     (\<exists>es. watch_run (w, H) es (w', H') \<and> (\<forall>j k. Leave j k \<in> set es \<longrightarrow> j = i))"

definition keeps :: "app \<times> client \<Rightarrow> app \<times> client \<Rightarrow> bool" where
  "keeps x y \<longleftrightarrow>
     conn_ok (fst y) (snd y) \<and> cl_id (snd y) = cl_id (snd x) \<and> cl_blocked (snd y) = cl_blocked (snd x) \<and> waiting (fst y) = waiting (fst x) \<and>
     next_client_id (fst y) = next_client_id (fst x) \<and>
     (\<forall>d. cl_id d \<noteq> cl_id (snd x) \<longrightarrow> agrees (pubsub (fst y)) d = agrees (pubsub (fst x)) d) \<and>
     (\<forall>others. (\<forall>k. (cl_id (snd x), k) \<notin> others) \<longrightarrow>
        watch_moves (cl_id (snd x)) (watch (fst x)) (others \<union> own_watches (snd x))
          (watch (fst y)) (others \<union> own_watches (snd y)))"

lemma watch_run_append: "watch_run s es t \<Longrightarrow> watch_run t fs u \<Longrightarrow> watch_run s (es @ fs) u"
  by (induction rule: watch_run.induct) auto

lemma watch_moves_refl: "watch_moves i w H w H"
  unfolding watch_moves_def by (intro exI [of _ "[]"]) simp

lemma watch_moves_trans: "watch_moves i w H w' H' \<Longrightarrow> watch_moves i w' H' w'' H'' \<Longrightarrow> watch_moves i w H w'' H''"
  unfolding watch_moves_def
proof (elim exE conjE)
  fix es fs
  assume "watch_run (w, H) es (w', H')" "watch_run (w', H') fs (w'', H'')"
    and "\<forall>j k. Leave j k \<in> set es \<longrightarrow> j = i" "\<forall>j k. Leave j k \<in> set fs \<longrightarrow> j = i"
  then show "\<exists>es. watch_run (w, H) es (w'', H'') \<and> (\<forall>j k. Leave j k \<in> set es \<longrightarrow> j = i)"
    by (intro exI [of _ "es @ fs"] conjI watch_run_append) auto
qed

lemma watch_moves_touch: "watch_moves i w H (fold touch_key ks w) H"
proof -
  have "watch_run (w, H) (map Touched ks) (fold touch_key ks w, H)"
    by (induction ks arbitrary: w) (auto intro: watch_step.touched)
  then show ?thesis unfolding watch_moves_def by (intro exI [of _ "map Touched ks"]) auto
qed

lemma watch_moves_touch_all: "watch_moves i w H (touch_all w) H"
  unfolding watch_moves_def by (intro exI [of _ "[TouchedAll]"]) (auto intro: watch_step.touched_all)

lemma watch_moves_join: "(i, k) \<notin> H \<Longrightarrow> watch_moves i w H (fst (watch_key k w)) (insert (i, k) H)"
  unfolding watch_moves_def by (intro exI [of _ "[Join i k]"]) (auto intro: watch_step.join)

lemma watch_moves_leave: "(i, k) \<in> H \<Longrightarrow> watch_moves i w H (unwatch_key k w) (H - {(i, k)})"
  unfolding watch_moves_def by (intro exI [of _ "[Leave i k]"]) (auto intro: watch_step.leave)

lemma watch_moves_leave_all:
  "distinct ks \<Longrightarrow> {i} \<times> set ks \<subseteq> H \<Longrightarrow> watch_moves i w H (fold unwatch_key ks w) (H - {i} \<times> set ks)"
proof (induction ks arbitrary: w H)
  case Nil
  then show ?case by (simp add: watch_moves_refl)
next
  case (Cons k ks)
  have "watch_moves i w H (unwatch_key k w) (H - {(i, k)})" using Cons.prems by (intro watch_moves_leave) auto
  moreover have "watch_moves i (unwatch_key k w) (H - {(i, k)}) (fold unwatch_key ks (unwatch_key k w))
      (H - {(i, k)} - {i} \<times> set ks)"
    using Cons.prems by (intro Cons.IH) auto
  ultimately have "watch_moves i w H (fold unwatch_key ks (unwatch_key k w)) (H - {(i, k)} - {i} \<times> set ks)"
    by (rule watch_moves_trans)
  moreover have "H - {(i, k)} - {i} \<times> set ks = H - {i} \<times> set (k # ks)" by auto
  ultimately show ?case by simp
qed

lemma keeps_refl: "conn_ok a c \<Longrightarrow> keeps (a, c) (a, c)"
  by (simp add: keeps_def watch_moves_refl)

lemma keeps_trans: "keeps x y \<Longrightarrow> keeps y z \<Longrightarrow> keeps x z"
proof -
  assume x: "keeps x y" and y: "keeps y z"
  have i: "cl_id (snd y) = cl_id (snd x)" using x by (simp add: keeps_def)
  have "watch_moves (cl_id (snd x)) (watch (fst x)) (H \<union> own_watches (snd x)) (watch (fst z)) (H \<union> own_watches (snd z))"
    if "\<forall>k. (cl_id (snd x), k) \<notin> H" for H
  proof (rule watch_moves_trans)
    show "watch_moves (cl_id (snd x)) (watch (fst x)) (H \<union> own_watches (snd x)) (watch (fst y)) (H \<union> own_watches (snd y))"
      using x that unfolding keeps_def by blast
    show "watch_moves (cl_id (snd x)) (watch (fst y)) (H \<union> own_watches (snd y)) (watch (fst z)) (H \<union> own_watches (snd z))"
      using y that unfolding keeps_def i by blast
  qed
  then show ?thesis using x y unfolding keeps_def i by simp
qed

lemma keeps_conn: "keeps x (a, c) \<Longrightarrow> conn_ok a c"
  by (simp add: keeps_def)

text \<open>Fields neither side of the relation reads may change freely.\<close>

lemma keeps_frame:
  assumes "conn_ok a c" and "store_ok (store a')" and "pubsub a' = pubsub a" and "waiting a' = waiting a"
    and "next_client_id a' = next_client_id a" and "cl_id c' = cl_id c" and "cl_watched c' = cl_watched c" and "cl_channels c' = cl_channels c"
    and "cl_patterns c' = cl_patterns c" and "cl_blocked c' = cl_blocked c"
    and "\<And>H. watch_moves (cl_id c) (watch a) H (watch a') H"
  shows "keeps (a, c) (a', c')"
proof -
  have "agrees (pubsub a') c'" using assms by (simp add: agrees_def conn_ok_def sound_conn_def)
  then show ?thesis
    using assms by (auto simp: keeps_def conn_ok_def sound_conn_def own_watches_def)
qed

lemma keeps_evicted: "conn_ok a c \<Longrightarrow> evicted E a ks a' \<Longrightarrow> keeps (a, c) (a', c)"
  by (rule keeps_frame) (auto simp: evicted_def watch_moves_touch)

lemma keeps_count: "conn_ok a c \<Longrightarrow> keeps (a, c) (count_command a, c)"
  by (rule keeps_frame) (auto simp: watch_moves_refl conn_ok_def sound_conn_def)

lemma keeps_signals: "conn_ok a c \<Longrightarrow> keeps (a, c) (signal_writes E name av r (count_lookups n b a), c)"
proof (rule keeps_frame)
  assume ok: "conn_ok a c"
  then have s: "store_ok (store (count_lookups n b a))" by (simp add: conn_ok_def sound_conn_def)
  note g = signal_writes_spec [OF s, where E = E and name = name and av = av and r = r]
  show "store_ok (store (signal_writes E name av r (count_lookups n b a)))"
    "pubsub (signal_writes E name av r (count_lookups n b a)) = pubsub a"
    "waiting (signal_writes E name av r (count_lookups n b a)) = waiting a"
    "next_client_id (signal_writes E name av r (count_lookups n b a)) = next_client_id a"
    using g(1,3,4,6) by simp_all
  show "watch_moves (cl_id c) (watch a) H (watch (signal_writes E name av r (count_lookups n b a))) H" for H
    using fold_signal [OF s, of E]
    by (simp add: signal_writes_def signal_flushed_def watch_moves_refl watch_moves_touch watch_moves_touch_all
        split: option.split written.split)
qed simp_all

subsection \<open>The transaction commands\<close>

lemma keeps_unwatch:
  assumes "conn_ok a c" and "unwatch_all a c = (a', c')"
  shows "keeps (a, c) (a', c')"
proof -
  have e: "a' = a\<lparr>watch := fold unwatch_key (map fst (cl_watched c)) (watch a)\<rparr>" "c' = c\<lparr>cl_watched := []\<rparr>"
    using assms(2) by (simp_all add: unwatch_all_def)
  have "watch_moves (cl_id c) (watch a) (H \<union> own_watches c) (watch a') (H \<union> own_watches c')"
    if "\<forall>k. (cl_id c, k) \<notin> H" for H
  proof -
    have "watch_moves (cl_id c) (watch a) (H \<union> own_watches c) (watch a')
        (H \<union> own_watches c - {cl_id c} \<times> set (map fst (cl_watched c)))"
      using watch_moves_leave_all [of "map fst (cl_watched c)" "cl_id c" "H \<union> own_watches c" "watch a"] assms(1)
      by (simp add: e conn_ok_def own_watches_def)
    moreover have "H \<union> own_watches c - {cl_id c} \<times> set (map fst (cl_watched c)) = H \<union> own_watches c'"
      using that by (auto simp: own_watches_def e)
    ultimately show ?thesis by simp
  qed
  then show ?thesis
    using assms(1) by (auto simp: keeps_def conn_ok_def sound_conn_def agrees_def e)
qed

lemma keeps_watch_one:
  assumes "conn_ok a c" and "watch_one k (a, c) = (a', c')"
  shows "keeps (a, c) (a', c')"
proof (cases "k \<in> fst ` set (cl_watched c)")
  case True
  then show ?thesis using assms keeps_refl by (simp add: watch_one_def)
next
  case False
  then have e: "a' = a\<lparr>watch := fst (watch_key k (watch a))\<rparr>"
    "c' = c\<lparr>cl_watched := cl_watched c @ [(k, snd (watch_key k (watch a)))]\<rparr>"
    using assms(2) by (auto simp: watch_one_def case_prod_beta)
  have "watch_moves (cl_id c) (watch a) (H \<union> own_watches c) (watch a') (H \<union> own_watches c')"
    if "\<forall>k. (cl_id c, k) \<notin> H" for H
  proof -
    have "(cl_id c, k) \<notin> H \<union> own_watches c" using that False by (auto simp: own_watches_def)
    from watch_moves_join [OF this, of "watch a"] show ?thesis by (simp add: e own_watches_def)
  qed
  then show ?thesis
    using assms(1) False by (auto simp: keeps_def conn_ok_def sound_conn_def agrees_def e)
qed

lemma keeps_watch_all:
  "conn_ok (fst x) (snd x) \<Longrightarrow> keeps x (fold watch_one ks x)"
proof (induction ks arbitrary: x)
  case Nil
  then show ?case by (cases x) (simp add: keeps_refl)
next
  case (Cons k ks)
  obtain a c a' c' where x: "x = (a, c)" "watch_one k x = (a', c')" by (metis surj_pair)
  have k: "keeps (a, c) (a', c')" using keeps_watch_one Cons.prems x by simp
  from keeps_trans [OF k Cons.IH] keeps_conn [OF k] show ?case using x by simp
qed

lemma keeps_unsubscribe:
  assumes "conn_ok a c" and "unsubscribe_everything a c = (a', c')"
  shows "keeps (a, c) (a', c')"
proof -
  have w: "subs_wf (chans (pubsub a))" "subs_wf (pats (pubsub a))"
    and g: "set (cl_channels c) = subs.held (cl_id c) (chans (pubsub a))"
      "set (cl_patterns c) = subs.held (cl_id c) (pats (pubsub a))"
    using assms(1) by (auto simp: conn_ok_def sound_conn_def pubsub_wf_def agrees_def)
  have ch: "chans (fold (\<lambda>n. unsubscribe n i) ns p) = fold (\<lambda>n. table_remove n i) ns (chans p) \<and>
      pats (fold (\<lambda>n. unsubscribe n i) ns p) = pats p" for ns i p
    by (induction ns arbitrary: p) simp_all
  have pt: "pats (fold (\<lambda>n. punsubscribe n i) ns p) = fold (\<lambda>n. table_remove n i) ns (pats p) \<and>
      chans (fold (\<lambda>n. punsubscribe n i) ns p) = chans p" for ns i p
    by (induction ns arbitrary: p) simp_all
  define p where "p = fold (\<lambda>pat. punsubscribe pat (cl_id c)) (cl_patterns c)
    (fold (\<lambda>ch. unsubscribe ch (cl_id c)) (cl_channels c) (pubsub a))"
  have e: "a' = a\<lparr>pubsub := p\<rparr>" "c' = c\<lparr>cl_channels := [], cl_patterns := []\<rparr>"
    using assms(2) by (simp_all add: unsubscribe_everything_def p_def)
  have p: "chans p = fold (\<lambda>n. table_remove n (cl_id c)) (cl_channels c) (chans (pubsub a))"
    "pats p = fold (\<lambda>n. table_remove n (cl_id c)) (cl_patterns c) (pats (pubsub a))"
    by (simp_all add: p_def ch pt)
  note r = subs.remove_list [OF w(1)] subs.remove_list [OF w(2)]
  have wf: "pubsub_wf p" using r by (simp add: pubsub_wf_def p)
  have me: "agrees p c'" using r g by (simp add: agrees_def p e)
  have "agrees p d = agrees (pubsub a) d" if "cl_id d \<noteq> cl_id c" for d
    using r that by (simp add: agrees_def p)
  moreover have "own_watches c' = own_watches c" by (simp add: own_watches_def e)
  ultimately show ?thesis
    using assms(1) wf me by (simp add: keeps_def conn_ok_def sound_conn_def watch_moves_refl e)
qed

lemma keeps_client:
  "conn_ok a c \<Longrightarrow> cl_id c' = cl_id c \<Longrightarrow> cl_watched c' = cl_watched c \<Longrightarrow> cl_channels c' = cl_channels c \<Longrightarrow>
    cl_patterns c' = cl_patterns c \<Longrightarrow> cl_blocked c' = cl_blocked c \<Longrightarrow> keeps (a, c) (a, c')"
  by (rule keeps_frame) (auto simp: watch_moves_refl conn_ok_def sound_conn_def)

lemma keeps_discard: "conn_ok a c \<Longrightarrow> discard a c = (a', c') \<Longrightarrow> keeps (a, c) (a', c')"
  unfolding discard_def
  by (rule keeps_trans [OF keeps_client [of a c "c\<lparr>cl_tx := None\<rparr>"] keeps_unwatch])
    (auto intro: keeps_conn [OF keeps_client])

definition runner_keeps :: "runner \<Rightarrow> bool" where
  "runner_keeps run \<longleftrightarrow>
     (\<forall>name av a c a' c' r. conn_ok a c \<longrightarrow> run name av a c = Done ((a', c'), r) \<longrightarrow> keeps (a, c) (a', c'))"

lemma exec_queue_keeps:
  assumes "runner_keeps run"
  shows "conn_ok a c \<Longrightarrow> exec_queue run qs a c = Done ((a', c'), x) \<Longrightarrow> keeps (a, c) (a', c')"
proof (induction qs arbitrary: a c x)
  case Nil
  then show ?case by (auto intro: keeps_refl)
next
  case (Cons q qs)
  obtain b d r where r: "run (to_upper (q ! 0)) q a c = Done ((b, d), r)"
    using Cons.prems(2) by (auto split: outcome.splits)
  have k: "keeps (a, c) (b, d)" using assms Cons.prems(1) r unfolding runner_keeps_def by blast
  obtain y where "exec_queue run qs b d = Done ((a', c'), y)"
    using Cons.prems(2) r by (auto split: outcome.splits)
  from keeps_trans [OF k Cons.IH [OF keeps_conn [OF k] this]] show ?case .
qed

lemma exec_command_keeps:
  assumes "runner_keeps run" and "conn_ok a c" and "exec_command run a c = Done ((a', c'), r)"
  shows "keeps (a, c) (a', c')"
proof (cases "cl_tx c")
  case None
  then show ?thesis using assms(2,3) by (auto simp: exec_command_def intro: keeps_refl)
next
  case (Some t)
  let ?c = "c\<lparr>cl_tx := None\<rparr>"
  obtain b d where u: "unwatch_all a ?c = (b, d)" by fastforce
  have k0: "keeps (a, c) (a, ?c)" using assms(2) by (intro keeps_client) simp_all
  then have k: "keeps (a, c) (b, d)" using keeps_trans keeps_unwatch [OF keeps_conn u] by blast
  let ?b = "b\<lparr>stats := (stats b)\<lparr>transactions := transactions (stats b) + 1\<rparr>\<rparr>" and ?d = "d\<lparr>cl_in_exec := True\<rparr>"
  have k1: "keeps (b, d) (?b, ?d)"
    using keeps_conn [OF k] by (intro keeps_frame) (auto simp: watch_moves_refl conn_ok_def sound_conn_def)
  show ?thesis
  proof (cases "failed t \<or> watch_broken a ?c")
    case True
    then have "a' = b \<and> c' = d"
      using assms(3) Some u by (cases "failed t") (auto simp: exec_command_def Let_def)
    with k show ?thesis by simp
  next
    case False
    then have "\<exists>x y. exec_queue run (queued t) ?b ?d = Done ((a', x), y) \<and> c' = x\<lparr>cl_in_exec := False\<rparr>"
      using assms(3) Some u by (auto simp: exec_command_def Let_def split: outcome.splits)
    then obtain x y where q: "exec_queue run (queued t) ?b ?d = Done ((a', x), y)" "c' = x\<lparr>cl_in_exec := False\<rparr>"
      by blast
    note k2 = keeps_trans [OF keeps_trans [OF k k1] exec_queue_keeps [OF assms(1) keeps_conn [OF k1] q(1)]]
    have "keeps (a', x) (a', c')" using keeps_conn [OF k2] q(2) by (intro keeps_client) simp_all
    with k2 show ?thesis by (rule keeps_trans)
  qed
qed

lemma transaction_keeps:
  assumes "runner_keeps run" and "conn_ok a c" and "transaction_cmd run name av a c = Done ((a', c'), r)"
  shows "keeps (a, c) (a', c')"
proof -
  have same: "keeps (a, c) (a, c)" by (rule keeps_refl [OF assms(2)])
  have begun: "keeps (a, c) (a, begin_transaction c)"
    using assms(2) by (intro keeps_client) (simp_all add: begin_transaction_def)
  have dis: "keeps (a, c) (discard a c)" using keeps_discard [OF assms(2)] by (metis surj_pair)
  have wat: "keeps (a, c) (fold watch_one (drop 1 av) (a, c))" using keeps_watch_all assms(2) by simp
  have unw: "keeps (a, c) (unwatch_all a c)" using keeps_unwatch [OF assms(2)] by (metis surj_pair)
  have res: "keeps (a, c) (case discard a c of (a, c) \<Rightarrow> unsubscribe_everything a c)"
    using dis keeps_unsubscribe keeps_conn keeps_trans by (metis case_prod_conv surj_pair)
  have exe: "exec_command run a c = Done ((a', c'), r) \<Longrightarrow> keeps (a, c) (a', c')"
    by (rule exec_command_keeps [OF assms(1,2)])
  have "(a', c') \<in> {(a, c), (a, begin_transaction c), discard a c, fold watch_one (drop 1 av) (a, c), unwatch_all a c,
      (case discard a c of (a, c) \<Rightarrow> unsubscribe_everything a c)} \<or> exec_command run a c = Done ((a', c'), r)"
    using assms(3) unfolding transaction_cmd_def Let_def
    by (simp only: split: if_split_asm) (auto simp: case_prod_beta)
  then show ?thesis using same begun dis wat unw res exe by (elim disjE insertE emptyE) simp_all
qed

lemma run_command_keeps:
  assumes "runner_keeps run" and "conn_ok a c" and "run_command host E run name av a c = Done ((a', c'), r)"
  shows "keeps (a, c) (a', c')"
proof (cases "family_of name = Some FTransaction")
  case True
  then show ?thesis using assms transaction_keeps by (simp add: run_command_def)
next
  case False
  have sc: "sound_conn a c" using assms(2) by (simp add: conn_ok_def)
  then have ok: "store_ok (store a)" "pubsub_wf (pubsub a)" "agrees (pubsub a) c" by (simp_all add: sound_conn_def)
  note p = run_command_plain [OF sc False assms(3)]
  consider "\<exists>h. server_cmd h E name av a c = ((a', c'), r)" | "pubsub_cmd name av a c = ((a', c'), r)"
    | "c' = c" "\<exists>st. a' = a\<lparr>store := st\<rparr>" | "c' = c" "a' = a"
    using assms(3) False
    by (auto simp: run_command_def on_store_Done split: option.splits family.splits)
  then show ?thesis
  proof cases
    case 1
    then obtain h where h: "server_cmd h E name av a c = ((a', c'), r)" by blast
    note s = server_cmd_spec [OF ok(1) h]
    then obtain n where "c' = c\<lparr>cl_name := n\<rparr>" by blast
    then show ?thesis
      using s assms(2) by (intro keeps_frame) (simp_all add: registries_kept_def watch_moves_refl)
  next
    case 2
    note s = pubsub_cmd_spec [OF ok(2,3) 2]
    have f: "cl_id c' = cl_id (c'\<lparr>cl_channels := cl_channels c, cl_patterns := cl_patterns c\<rparr>)"
      "cl_watched c' = cl_watched (c'\<lparr>cl_channels := cl_channels c, cl_patterns := cl_patterns c\<rparr>)"
      "cl_blocked c' = cl_blocked (c'\<lparr>cl_channels := cl_channels c, cl_patterns := cl_patterns c\<rparr>)" by simp_all
    then have "cl_id c' = cl_id c" "cl_watched c' = cl_watched c" "cl_blocked c' = cl_blocked c"
      unfolding s(10) by simp_all
    then show ?thesis
      using s(1-9) assms(2) ok(1) by (simp add: keeps_def conn_ok_def sound_conn_def own_watches_def watch_moves_refl)
  next
    case 3
    then show ?thesis using p(1) assms(2) by (intro keeps_frame) (auto simp: watch_moves_refl)
  next
    case 4
    then show ?thesis using keeps_refl assms(2) by simp
  qed
qed

lemma execute_keeps: "runner_keeps (execute_at n host E)"
proof (induction n)
  case 0
  show ?case by (simp add: runner_keeps_def)
next
  case (Suc n)
  show ?case
    unfolding runner_keeps_def
  proof (intro allI impI)
    fix name av a c a' c' r
    assume ok: "conn_ok a c" and x: "execute_at (Suc n) host E name av a c = Done ((a', c'), r)"
    have sc: "sound_conn a c" using ok by (simp add: conn_ok_def)
    note k0 = keeps_count [OF ok]
    from sc x show "keeps (a, c) (a', c')"
    proof (cases rule: execute_cases)
      case refused
      then show ?thesis using k0 by simp
    next
      case (oom ks)
      then show ?thesis using keeps_trans [OF k0 keeps_evicted [OF keeps_conn [OF k0] oom(4)]] by simp
    next
      case (ran m ks b d)
      note k1 = keeps_trans [OF k0 keeps_evicted [OF keeps_conn [OF k0] ran(3)]]
      have "runner_keeps (execute_at m host E)" using ran(1) Suc by simp
      from keeps_trans [OF k1 run_command_keeps [OF this keeps_conn [OF k1] ran(5)]]
      have k2: "keeps (a, c) (d, c')" .
      show ?thesis unfolding ran(7) by (rule keeps_trans [OF k2 keeps_signals [OF keeps_conn [OF k2]]])
    qed
  qed
qed

lemma dispatch_keeps:
  assumes "conn_ok a c" and "dispatch host E av a c = Done ((a', c'), r)"
  shows "keeps (a, c) (a', c')"
proof -
  have q: "queue_command n av c = Done (d, s) \<Longrightarrow> keeps (a, c) (a, d)" for n d s
    using assms(1) by (auto simp: queue_command_def intro!: keeps_client split: option.splits)
  have e: "execute host E n av a c = Done ((b, d), s) \<Longrightarrow> keeps (a, c) (b, d)" for n b d s
    using execute_keeps [of 2 host E] assms(1) unfolding runner_keeps_def execute_def by blast
  show ?thesis
    using assms q e keeps_refl
    by (auto simp: dispatch_def Let_def split: if_splits outcome.splits)
qed

lemma retry_keeps:
  assumes "conn_ok a c" and "retry host E av a c = Done ((a', c'), r)"
  shows "keeps (a, c) (a', c')"
proof -
  obtain b d s where x: "execute host E (to_upper (av ! 0)) av a c = Done ((b, d), s)"
    and e: "c' = d" "a' = b\<lparr>stats := (stats b)\<lparr>total_commands := total_commands (stats b) - 1\<rparr>\<rparr>"
    using assms(2) by (auto simp: retry_def Let_def split: outcome.splits)
  have k: "keeps (a, c) (b, d)"
    using execute_keeps [of 2 host E] assms(1) x unfolding runner_keeps_def execute_def by blast
  have "keeps (b, d) (a', c')"
    using keeps_conn [OF k] unfolding e
    by (intro keeps_frame) (auto simp: watch_moves_refl conn_ok_def sound_conn_def)
  with k show ?thesis by (rule keeps_trans)
qed

subsection \<open>All connections together\<close>

definition all_watches :: "(nat \<rightharpoonup> client) \<Rightarrow> (nat \<times> bytes) set" where
  "all_watches C = {(i, k). \<exists>c. C i = Some c \<and> k \<in> fst ` set (cl_watched c)}"

text \<open>A connection that holds nothing, to say that a registry holds nothing for an identifier.\<close>

definition nobody :: "nat \<Rightarrow> client" where
  "nobody i = new_client sample_env i []"

definition group_ok :: "app \<Rightarrow> (nat \<rightharpoonup> client) \<Rightarrow> bool" where
  "group_ok a C \<longleftrightarrow>
     store_ok (store a) \<and> pubsub_wf (pubsub a) \<and> watch_inv (watch a, all_watches C) \<and>
     (\<forall>i c. C i = Some c \<longrightarrow> cl_id c = i \<and> i \<le> next_client_id a \<and> conn_ok a c) \<and>
     (\<forall>i. C i = None \<longrightarrow> agrees (pubsub a) (nobody i))"

lemma cl_id_nobody [simp]: "cl_id (nobody i) = i"
  by (simp add: nobody_def new_client_def)

lemma agrees_nobody:
  "agrees p (nobody i) \<longleftrightarrow> subs.held i (chans p) = {} \<and> subs.held i (pats p) = {}"
  by (auto simp: agrees_def nobody_def new_client_def)

lemma agrees_idle:
  "cl_channels c = [] \<Longrightarrow> cl_patterns c = [] \<Longrightarrow> agrees p c \<longleftrightarrow> agrees p (nobody (cl_id c))"
  by (auto simp: agrees_def nobody_def new_client_def)

lemma watch_moves_inv: "watch_moves i w H w' H' \<Longrightarrow> watch_inv (w, H) \<Longrightarrow> watch_inv (w', H')"
  unfolding watch_moves_def using watch_run_inv by blast

lemma group_conn: "group_ok a C \<Longrightarrow> C i = Some c \<Longrightarrow> conn_ok a c \<and> cl_id c = i"
  by (simp add: group_ok_def)

lemma group_keeps:
  assumes "group_ok a C" and "C i = Some c" and "keeps (a, c) (a', c')"
  shows "group_ok a' (C(i \<mapsto> c'))"
proof -
  have i: "cl_id c = i" "cl_id c' = i" "next_client_id a' = next_client_id a"
    using assms by (auto simp: group_ok_def keeps_def)
  define H where "H = {(j, k) \<in> all_watches C. j \<noteq> i}"
  have "(j, k) \<in> all_watches C \<longleftrightarrow> (j, k) \<in> H \<union> own_watches c"
    "(j, k) \<in> all_watches (C(i \<mapsto> c')) \<longleftrightarrow> (j, k) \<in> H \<union> own_watches c'" for j k
    using assms(2) i by (cases "j = i"; simp add: all_watches_def own_watches_def H_def)+
  then have w: "all_watches C = H \<union> own_watches c" "all_watches (C(i \<mapsto> c')) = H \<union> own_watches c'"
    by auto
  have "watch_moves i (watch a) (H \<union> own_watches c) (watch a') (H \<union> own_watches c')"
    using assms(3) i by (simp add: keeps_def H_def)
  then have "watch_inv (watch a', all_watches (C(i \<mapsto> c')))"
    using assms(1) watch_moves_inv unfolding w group_ok_def by blast
  moreover have same: "cl_id d \<noteq> i \<Longrightarrow> agrees (pubsub a') d = agrees (pubsub a) d" for d
    using assms(3) i by (simp add: keeps_def)
  moreover have ok: "conn_ok a' c'" using assms(3) by (simp add: keeps_def)
  then have "store_ok (store a')" "pubsub_wf (pubsub a')" by (simp_all add: conn_ok_def sound_conn_def)
  ultimately show ?thesis
    using assms(1,2) i ok by (auto simp: group_ok_def conn_ok_def sound_conn_def)
qed

lemma group_frame:
  assumes "group_ok a C" and "store_ok (store a')" and "pubsub a' = pubsub a" and "watch a' = watch a"
    and "next_client_id a' = next_client_id a"
  shows "group_ok a' C"
  using assms by (auto simp: group_ok_def conn_ok_def sound_conn_def)

lemma group_accept:
  assumes "group_ok a C" and "take_client_id a = (a', i)"
  shows "group_ok a' (C(i \<mapsto> new_client E i addr))" and "C i = None"
proof -
  have e: "i = next_client_id a + 1" "a' = a\<lparr>next_client_id := i\<rparr>" using assms(2) by (auto simp: take_client_id_def)
  show n: "C i = None" using assms(1) e(1) by (cases "C i") (fastforce simp: group_ok_def)+
  have "(j, k) \<in> all_watches (C(i \<mapsto> new_client E i addr)) \<longleftrightarrow> (j, k) \<in> all_watches C" for j k
    using n by (cases "j = i") (simp_all add: all_watches_def new_client_def)
  then have "all_watches (C(i \<mapsto> new_client E i addr)) = all_watches C" by auto
  moreover have "agrees (pubsub a) (new_client E i addr)"
    using assms(1) n agrees_idle [of "new_client E i addr"] by (simp add: group_ok_def new_client_def)
  ultimately show "group_ok a' (C(i \<mapsto> new_client E i addr))"
    using assms(1) e by (auto simp: group_ok_def conn_ok_def sound_conn_def new_client_def le_Suc_eq)
qed

lemma group_forget:
  assumes "group_ok a C" and "C i = Some c" and "forget_client a c = (a', c')"
  shows "group_ok a' (C(i := None))"
proof -
  note ok = group_conn [OF assms(1,2)]
  have e: "pubsub a' = drop_client i (pubsub a)" "store a' = store a" "next_client_id a' = next_client_id a"
    "watch a' = fold unwatch_key (map fst (cl_watched c)) (watch a)"
    using assms(3) ok by (auto simp: forget_client_def)
  have w: "subs_wf (chans (pubsub a))" "subs_wf (pats (pubsub a))"
    using assms(1) by (auto simp: group_ok_def pubsub_wf_def)
  have "watch_moves i (watch a) (all_watches C) (watch a') (all_watches C - {i} \<times> set (map fst (cl_watched c)))"
    unfolding e using ok assms(2) by (intro watch_moves_leave_all) (auto simp: conn_ok_def all_watches_def simp flip: set_map)
  moreover have "all_watches C - {i} \<times> set (map fst (cl_watched c)) = all_watches (C(i := None))"
    using assms(2) by (auto simp: all_watches_def simp flip: set_map split: if_splits)
  ultimately have "watch_inv (watch a', all_watches (C(i := None)))"
    using assms(1) watch_moves_inv unfolding group_ok_def by metis
  moreover have "agrees (pubsub a') d = agrees (pubsub a) d" if "cl_id d \<noteq> i" for d
    using that by (simp add: e agrees_def drop_client_def subs.held_drop [OF w(1)] subs.held_drop [OF w(2)])
  moreover have "agrees (pubsub a') (nobody i)"
    by (simp add: e agrees_nobody drop_client_def subs.held_drop [OF w(1)] subs.held_drop [OF w(2)])
  ultimately show ?thesis
    using assms(1) by (auto simp: group_ok_def conn_ok_def sound_conn_def e)
qed

lemma sweep_memories_frame:
  "pubsub (sweep_memories E ks a) = pubsub a \<and> watch (sweep_memories E ks a) = watch a \<and>
   waiting (sweep_memories E ks a) = waiting a \<and> next_client_id (sweep_memories E ks a) = next_client_id a"
  by (induction ks arbitrary: a) (simp_all add: case_prod_beta Let_def split: option.split)

lemma app_save_frame:
  "pubsub (fst (app_save E a)) = pubsub a" "watch (fst (app_save E a)) = watch a"
  "waiting (fst (app_save E a)) = waiting a" "next_client_id (fst (app_save E a)) = next_client_id a"
  by (simp_all add: app_save_def case_prod_beta Let_def)

lemma tick_frame:
  "pubsub (tick E a) = pubsub a \<and> watch (tick E a) = watch a \<and> waiting (tick E a) = waiting a \<and>
   next_client_id (tick E a) = next_client_id a"
proof -
  define due where "due = (case last_sweep a of None \<Rightarrow> True
    | Some t \<Rightarrow> max 0 (mono E - t) \<ge> int (sweep_interval (config a)))"
  define b where "b = (if due then (sweep_memory_records E (a\<lparr>store := sweep_expired E (store a)\<rparr>))\<lparr>last_sweep := Some (mono E)\<rparr>
    else a)"
  have b: "pubsub b = pubsub a \<and> watch b = watch a \<and> waiting b = waiting a \<and> next_client_id b = next_client_id a"
    by (cases due) (simp_all add: b_def sweep_memory_records_def sweep_memories_frame)
  obtain p sv where p: "autosave_due E (save_interval (config b)) (store b) (persist b) = (p, sv)" by fastforce
  have t: "tick E a = (if sv then fst (app_save E (b\<lparr>persist := p\<rparr>)) else b\<lparr>persist := p\<rparr>)"
    using p unfolding tick_def due_def [symmetric] by (cases due) (simp_all add: b_def Let_def)
  show ?thesis unfolding t using b by (cases sv) (simp_all add: app_save_frame)
qed

lemma group_tick: "group_ok a C \<Longrightarrow> group_ok (tick E a) C"
proof (rule group_frame)
  assume "group_ok a C"
  then have "store_ok (store a)" by (simp only: group_ok_def)
  from tick_view [OF this, of E] show "store_ok (store (tick E a))" by (rule conjunct1)
qed (assumption | simp only: tick_frame)+

lemma group_start: "group_ok (new_app E cfg) Map.empty"
  using watch_inv_empty empty_store_ok
  by (simp add: group_ok_def new_app_def all_watches_def agrees_nobody) (simp add: new_pubsub_def subs.held_empty)

end
