(* ===== verification/Nesting.thy ===== *)
theory Nesting
  imports Sessions
begin

text \<open>
  How deep EXEC nests. A queue is only filled by the dispatcher, which a queued command does not pass
  through, so a MULTI and an EXEC inside a queue find an empty queue: the bound of two levels in
  \<open>execute\<close> is never reached.
\<close>

definition idle_tx :: "client \<Rightarrow> bool" where
  "idle_tx c \<longleftrightarrow> (\<forall>t. cl_tx c = Some t \<longrightarrow> queued t = [])"

lemma idle_exec: "idle_tx c \<Longrightarrow> exec_command run a c = exec_command run' a c"
  by (cases "cl_tx c") (auto simp: idle_tx_def exec_command_def unwatch_all_def Let_def)

lemma run_command_cong:
  assumes "exec_command run a c = exec_command run' a c"
  shows "run_command host E run name av a c = run_command host E run' name av a c"
proof -
  have "transaction_cmd run name av a c = transaction_cmd run' name av a c"
    using assms by (simp add: transaction_cmd_def)
  then show ?thesis by (simp add: run_command_def split: option.split family.split)
qed

lemma execute_with_cong:
  assumes "\<And>b. memory_gate host E name (count_command a) = (b, None) \<Longrightarrow> exec_command run b c = exec_command run' b c"
  shows "execute_with host E run name av a c = execute_with host E run' name av a c"
proof -
  obtain b q where g: "memory_gate host E name (count_command a) = (b, q)" by fastforce
  have "q = None \<Longrightarrow> run_command host E run name av b c = run_command host E run' name av b c"
    using assms g by (intro run_command_cong) simp
  then show ?thesis using g by (cases q) (simp_all add: execute_with_def Let_def)
qed

lemma idle_execute: "idle_tx c \<Longrightarrow> execute_with host E run name av a c = execute_with host E run' name av a c"
  by (intro execute_with_cong idle_exec)

lemma watch_all_tx: "cl_tx (snd (fold watch_one ks (a, c))) = cl_tx c"
proof (induction ks arbitrary: a c)
  case (Cons k ks)
  obtain b d where w: "watch_one k (a, c) = (b, d)" by fastforce
  then have "cl_tx d = cl_tx c" by (auto simp: watch_one_def case_prod_beta split: if_split_asm)
  with Cons.IH [of b d] w show ?case by simp
qed simp

lemma idle_exec_kept:
  assumes "idle_tx c" and "exec_command run a c = Done ((a', c'), r)"
  shows "idle_tx c'"
proof (cases "cl_tx c")
  case None
  then show ?thesis using assms by (simp add: exec_command_def)
next
  case (Some t)
  then have "queued t = []" using assms(1) by (simp add: idle_tx_def)
  then have "cl_tx c' = None"
    using assms(2) Some by (auto simp: exec_command_def Let_def unwatch_all_def split: if_split_asm)
  then show ?thesis by (simp add: idle_tx_def)
qed

lemma idle_transaction_kept:
  assumes "idle_tx c" and "transaction_cmd run name av a c = Done ((a', c'), r)"
  shows "idle_tx c'"
proof -
  have "exec_command run a c = Done ((a', c'), r) \<or> cl_tx c' = cl_tx c \<or> cl_tx c' = None \<or> c' = begin_transaction c"
    using assms(2) watch_all_tx [of "drop 1 av" a c] unfolding transaction_cmd_def Let_def
    by (simp only: split: if_split_asm)
      (auto simp: discard_def unwatch_all_def unsubscribe_everything_def Let_def prod_eq_iff)
  then show ?thesis
    using assms(1) idle_exec_kept [OF assms(1)] by (auto simp: idle_tx_def begin_transaction_def)
qed

lemma idle_run_kept:
  assumes "conn_ok a c" and "idle_tx c" and "run_command host E run name av a c = Done ((a', c'), r)"
  shows "idle_tx c'"
proof (cases "family_of name = Some FTransaction")
  case True
  then show ?thesis using assms idle_transaction_kept by (simp add: run_command_def)
next
  case False
  have ok: "store_ok (store a)" "pubsub_wf (pubsub a)" "agrees (pubsub a) c"
    using assms(1) by (simp_all add: conn_ok_def sound_conn_def)
  consider "\<exists>h. server_cmd h E name av a c = ((a', c'), r)" | "pubsub_cmd name av a c = ((a', c'), r)" | "c' = c"
    using assms(3) False by (auto simp: run_command_def on_store_Done split: option.splits family.splits)
  then have "cl_tx c' = cl_tx c"
  proof cases
    case 1
    then show ?thesis using server_cmd_spec(5) [OF ok(1)] by fastforce
  next
    case 2
    have "cl_tx c' = cl_tx (c'\<lparr>cl_channels := cl_channels c, cl_patterns := cl_patterns c\<rparr>)" by simp
    then show ?thesis unfolding pubsub_cmd_spec(10) [OF ok(2,3) 2] .
  qed simp
  then show ?thesis using assms(2) by (simp add: idle_tx_def)
qed

lemma idle_execute_kept:
  assumes "conn_ok a c" and "idle_tx c" and "execute_at n host E name av a c = Done ((a', c'), r)"
  shows "idle_tx c'"
proof -
  have "sound_conn a c" using assms(1) by (simp add: conn_ok_def)
  from this assms(3) show ?thesis
  proof (cases rule: execute_cases)
    case (ran m ks b d)
    note k0 = keeps_count [OF assms(1)]
    note k1 = keeps_trans [OF k0 keeps_evicted [OF keeps_conn [OF k0] ran(3)]]
    from idle_run_kept [OF keeps_conn [OF k1] assms(2) ran(5)] show ?thesis .
  qed (use assms(2) in simp_all)
qed

lemma queue_depth:
  "conn_ok a c \<Longrightarrow> idle_tx c \<Longrightarrow>
    exec_queue (execute_at (Suc n) host E) qs a c = exec_queue (execute_at (Suc 0) host E) qs a c"
proof (induction qs arbitrary: a c)
  case (Cons q qs)
  have e: "execute_at (Suc n) host E (to_upper (q ! 0)) q a c = execute_at (Suc 0) host E (to_upper (q ! 0)) q a c"
    using idle_execute [OF Cons.prems(2)] by simp
  show ?case
  proof (cases "execute_at (Suc 0) host E (to_upper (q ! 0)) q a c")
    case Panicked
    with e show ?thesis by simp
  next
    case (Done x)
    obtain b d r where x: "x = ((b, d), r)" by (cases x) auto
    have "keeps (a, c) (b, d)"
      using execute_keeps [of "Suc 0" host E] Cons.prems(1) Done x unfolding runner_keeps_def by blast
    from Cons.IH [OF keeps_conn [OF this] idle_execute_kept [OF Cons.prems Done [unfolded x]]]
    show ?thesis using e Done x by simp
  qed
qed simp

lemma exec_depth:
  assumes "conn_ok a c"
  shows "exec_command (execute_at (Suc n) host E) a c = exec_command (execute_at (Suc 0) host E) a c"
proof (cases "cl_tx c")
  case (Some t)
  let ?c = "c\<lparr>cl_tx := None\<rparr>"
  obtain b d where u: "unwatch_all a ?c = (b, d)" by fastforce
  have "keeps (a, c) (a, ?c)" using assms by (intro keeps_client) simp_all
  then have "conn_ok b d" using keeps_unwatch [OF keeps_conn u] keeps_conn by blast
  then have ok: "conn_ok (b\<lparr>stats := s\<rparr>) (d\<lparr>cl_in_exec := True\<rparr>)" for s
    by (simp add: conn_ok_def sound_conn_def agrees_def)
  have "idle_tx (d\<lparr>cl_in_exec := True\<rparr>)" using u by (auto simp: idle_tx_def unwatch_all_def)
  from queue_depth [OF ok this] show ?thesis using Some u by (simp add: exec_command_def)
qed (simp add: exec_command_def)

lemma gate_conn:
  assumes "conn_ok a c" and "memory_gate host E name a = (b, q)"
  shows "conn_ok b c"
proof -
  have "store_ok (store a)" using assms(1) by (simp add: conn_ok_def sound_conn_def)
  from memory_gate_spec(1) [OF this assms(2)] show ?thesis
    using keeps_conn [OF keeps_evicted [OF assms(1)]] by blast
qed

lemma depth_enough:
  assumes "conn_ok a c"
  shows "execute_at (Suc (Suc n)) host E name av a c = execute host E name av a c"
proof -
  have "execute_with host E (execute_at (Suc n) host E) name av a c =
      execute_with host E (execute_at (Suc 0) host E) name av a c"
    by (rule execute_with_cong) (rule exec_depth [OF gate_conn [OF keeps_conn [OF keeps_count [OF assms]]]])
  then show ?thesis by (simp add: execute_def numeral_2_eq_2)
qed

end
