(* ===== verification/Server.thy ===== *)
theory Server
  imports Sessions
begin

text \<open>
  The event loop of \<^verbatim>\<open>src/server.rs\<close>: draining a read buffer, parking and waking blocked clients,
  timeouts, deliveries and the life of a connection. Sockets are the environment's: what a poll
  reports and what reads and writes return are arguments of \<open>poll_once\<close>, and one clock reading
  serves a round.
\<close>

subsection \<open>Connections\<close>

record conn =
  want_close :: bool
  cn_client :: client
  rbuf :: bytes
  wbuf :: bytes
  wbuf_sent :: nat

definition conn_new :: "client \<Rightarrow> conn" where
  "conn_new c = \<lparr>want_close = False, cn_client = c, rbuf = [], wbuf = [], wbuf_sent = 0\<rparr>"

definition push_reply :: "reply \<Rightarrow> conn \<Rightarrow> conn" where
  "push_reply r cn = cn\<lparr>wbuf := wbuf cn @ encode (cl_protocol (cn_client cn)) r\<rparr>"

definition over_output_limit :: "nat \<Rightarrow> conn \<Rightarrow> bool" where
  "over_output_limit limit cn \<longleftrightarrow> length (wbuf cn) - wbuf_sent cn > limit"

definition pending_output :: "conn \<Rightarrow> bool" where
  "pending_output cn \<longleftrightarrow> wbuf_sent cn < length (wbuf cn)"

definition request_close :: "conn \<Rightarrow> conn" where
  "request_close cn = cn\<lparr>want_close := True\<rparr>"

record connections =
  by_fd :: "(nat, conn) hmap"
  by_id :: "(nat, nat) hmap"

definition no_connections :: connections where
  "no_connections = \<lparr>by_fd = [], by_id = []\<rparr>"

definition conns_insert :: "nat \<Rightarrow> conn \<Rightarrow> connections \<Rightarrow> connections" where
  "conns_insert fd cn cs =
     cs\<lparr>by_id := hm_insert (cl_id (cn_client cn)) fd (by_id cs), by_fd := hm_insert fd cn (by_fd cs)\<rparr>"

text \<open>Writing back the connection a reference was taken to.\<close>

definition put_conn :: "nat \<Rightarrow> conn \<Rightarrow> connections \<Rightarrow> connections" where
  "put_conn fd cn cs = cs\<lparr>by_fd := hm_insert fd cn (by_fd cs)\<rparr>"

definition fd_of :: "nat \<Rightarrow> connections \<Rightarrow> nat option" where
  "fd_of i cs = hm_get (by_id cs) i"

definition by_client :: "nat \<Rightarrow> connections \<Rightarrow> (nat \<times> conn) option" where
  "by_client i cs =
     (case fd_of i cs of
        None \<Rightarrow> None
      | Some fd \<Rightarrow> map_option (\<lambda>cn. (fd, cn)) (hm_get (by_fd cs) fd))"

definition conns_remove :: "nat \<Rightarrow> connections \<times> app \<Rightarrow> connections \<times> app" where
  "conns_remove fd s =
     (let (cs, a) = s
      in case hm_get (by_fd cs) fd of
           None \<Rightarrow> (cs, a)
         | Some cn \<Rightarrow>
             (\<lparr>by_fd = hm_remove fd (by_fd cs), by_id = hm_remove (cl_id (cn_client cn)) (by_id cs)\<rparr>,
              fst (forget_client a (cn_client cn))))"

subsection \<open>Draining a read buffer\<close>

text \<open>One request: dispatch, the protocol switch, the parking or the replies, then the output limit.
  The flag says that the drain stops here.\<close>

definition settle :: "nat \<Rightarrow> conn \<Rightarrow> conn \<times> bool" where
  "settle limit cn =
     (if want_close cn \<or> over_output_limit limit cn then
        ((if over_output_limit limit cn
          then request_close (push_reply (Error ''ERR reply exceeds the client output buffer limit'') cn)
          else cn), True)
      else (cn, False))"

definition answer_request ::
    "host \<Rightarrow> env \<Rightarrow> nat \<Rightarrow> bytes list \<Rightarrow> conn \<Rightarrow> app \<Rightarrow> (conn \<times> app \<times> bool) outcome" where
  "answer_request host E limit av cn a =
     (case dispatch host E av a (cn_client cn) of
        Panicked \<Rightarrow> Panicked
      | Done ((a, c), resp) \<Rightarrow>
          (let cn = cn\<lparr>cn_client := c\<rparr>
           in case resp of
                None \<Rightarrow> (let (cn, stop) = settle limit cn in Done (cn, a, stop))
              | Some r \<Rightarrow>
                  (let cn = (case rs_protocol r of
                               None \<Rightarrow> cn | Some p \<Rightarrow> cn\<lparr>cn_client := (cn_client cn)\<lparr>cl_protocol := p\<rparr>\<rparr>)
                   in case rs_block r of
                        Some b \<Rightarrow>
                          Done (cn\<lparr>cn_client := (cn_client cn)\<lparr>cl_blocked := True\<rparr>\<rparr>,
                                a\<lparr>waiting := waiting a @ [b]\<rparr>, True)
                      | None \<Rightarrow>
                          (let cn = fold push_reply (rs_replies r) cn;
                               cn = (if rs_close r then request_close cn else cn);
                               (cn, stop) = settle limit cn
                           in Done (cn, a, stop)))))"

lemma push_frame [simp]:
  "rbuf (push_reply r cn) = rbuf cn" "rbuf (request_close cn) = rbuf cn"
  "cn_client (push_reply r cn) = cn_client cn" "cn_client (request_close cn) = cn_client cn"
  "want_close (push_reply r cn) = want_close cn" "want_close (request_close cn)"
  by (simp_all add: push_reply_def request_close_def)

lemma push_all_frame [simp]:
  "rbuf (fold push_reply rs cn) = rbuf cn" "cn_client (fold push_reply rs cn) = cn_client cn"
  "want_close (fold push_reply rs cn) = want_close cn"
  by (induction rs arbitrary: cn) simp_all

lemma settle_frame [simp]:
  "rbuf (fst (settle limit cn)) = rbuf cn" "cn_client (fst (settle limit cn)) = cn_client cn"
  "want_close cn \<Longrightarrow> want_close (fst (settle limit cn))"
  by (simp_all add: settle_def)

lemma answer_request_rbuf:
  "answer_request host E limit av cn a = Done (cn', a', stop) \<Longrightarrow> rbuf cn' = rbuf cn"
  by (auto simp: answer_request_def Let_def case_prod_beta split: outcome.splits option.splits prod.splits)

text \<open>A request takes at least one byte, so the drain ends.\<close>

function process_loop ::
    "host \<Rightarrow> env \<Rightarrow> nat \<Rightarrow> nat \<Rightarrow> conn \<Rightarrow> app \<Rightarrow> (conn \<times> app) outcome" where
  "process_loop host E max_bulk limit cn a =
     (if cl_blocked (cn_client cn) then Done (cn, a)
      else case parse_request (rbuf cn) max_bulk of
          Inl e \<Rightarrow> Done ((request_close (push_reply (Error e) cn))\<lparr>rbuf := []\<rparr>, a)
        | Inr None \<Rightarrow> Done (cn, a)
        | Inr (Some req) \<Rightarrow>
            (case answer_request host E limit (argv req) (cn\<lparr>rbuf := drop (consumed req) (rbuf cn)\<rparr>) a of
               Panicked \<Rightarrow> Panicked
             | Done (cn', a', stop) \<Rightarrow>
                 if stop then Done (cn', a') else process_loop host E max_bulk limit cn' a'))"
  by pat_completeness auto

termination
proof (relation "measure (\<lambda>(_, _, _, _, cn, _). length (rbuf cn))")
  fix host E max_bulk limit cn a req cn' a' stop and x :: "request option" and z x2
  assume "parse_request (rbuf cn) max_bulk = Inr x" "x = Some req"
    and "answer_request host E limit (argv req) (cn\<lparr>rbuf := drop (consumed req) (rbuf cn)\<rparr>) a = Done z"
    and "(cn', x2) = z" "(a', stop) = x2"
  then have "rbuf cn' = drop (consumed req) (rbuf cn)" "0 < consumed req" "consumed req \<le> length (rbuf cn)"
    using answer_request_rbuf [of host E limit "argv req" _ a cn' a' stop]
      parse_request_progress [of "rbuf cn" max_bulk req] by auto
  then show "((host, E, max_bulk, limit, cn', a'), (host, E, max_bulk, limit, cn, a)) \<in>
      measure (\<lambda>(_, _, _, _, cn, _). length (rbuf cn))" by simp
qed simp

declare process_loop.simps [simp del]

definition process_requests :: "host \<Rightarrow> env \<Rightarrow> conn \<Rightarrow> app \<Rightarrow> (conn \<times> app) outcome" where
  "process_requests host E cn a =
     process_loop host E (proto_max_bulk_len (config a)) (client_output_buffer_limit (config a)) cn a"

subsection \<open>Reading and writing\<close>

datatype io_result = Transferred nat | WouldBlock | IoError

text \<open>What \<open>read\<close> returned: some bytes (none at the end of the stream), nothing yet, or an error.\<close>

datatype read_result = ReadBytes bytes | ReadBlocks | ReadFails

definition handle_read :: "host \<Rightarrow> env \<Rightarrow> read_result \<Rightarrow> conn \<Rightarrow> app \<Rightarrow> (conn \<times> app) outcome" where
  "handle_read host E result cn a =
     (case result of
        ReadBytes [] \<Rightarrow> Done (cn\<lparr>want_close := True\<rparr>, a)
      | ReadBytes bs \<Rightarrow> process_requests host E (cn\<lparr>rbuf := rbuf cn @ bs\<rparr>) a
      | ReadBlocks \<Rightarrow> Done (cn, a)
      | ReadFails \<Rightarrow> Done (cn\<lparr>want_close := True\<rparr>, a))"

text \<open>The write loop against the results the socket gives; a list that ends stands for a socket that
  would block.\<close>

fun handle_write :: "io_result list \<Rightarrow> conn \<Rightarrow> conn" where
  "handle_write results cn =
     (if \<not> pending_output cn then cn\<lparr>wbuf := [], wbuf_sent := 0\<rparr>
      else case results of
          [] \<Rightarrow> cn
        | WouldBlock # rs \<Rightarrow> cn
        | IoError # rs \<Rightarrow> cn\<lparr>want_close := True\<rparr>
        | Transferred n # rs \<Rightarrow>
            if n = 0 then cn\<lparr>want_close := True\<rparr>
            else handle_write rs (cn\<lparr>wbuf_sent := wbuf_sent cn + n\<rparr>))"

declare handle_write.simps [simp del]

subsection \<open>Waking parked clients\<close>

fun resume :: "host \<Rightarrow> env \<Rightarrow> nat list \<Rightarrow> connections \<Rightarrow> app \<Rightarrow> (connections \<times> app) outcome" where
  "resume host E [] cs a = Done (cs, a)"
| "resume host E (fd # fds) cs a =
     (case hm_get (by_fd cs) fd of
        None \<Rightarrow> resume host E fds cs a
      | Some cn \<Rightarrow>
          (case process_requests host E cn a of
             Panicked \<Rightarrow> Panicked
           | Done (cn, a) \<Rightarrow> resume host E fds (put_conn fd cn cs) a))"

text \<open>One pass over the registry of waiters. The first number is how many are left to look at.\<close>

fun serve_pass ::
    "host \<Rightarrow> env \<Rightarrow> bytes list \<Rightarrow> nat \<Rightarrow> nat \<Rightarrow> nat list \<Rightarrow> connections \<Rightarrow> app \<Rightarrow>
     ((connections \<times> app) \<times> nat list) outcome" where
  "serve_pass host E ready 0 i woken cs a = Done ((cs, a), woken)"
| "serve_pass host E ready (Suc n) i woken cs a =
     (if length (waiting a) \<le> i then Done ((cs, a), woken)
      else
        (let w = waiting a ! i
         in if \<not> (\<exists>k \<in> set (pk_keys w). k \<in> set ready) then serve_pass host E ready n (i + 1) woken cs a
            else
              (let a = a\<lparr>waiting := take i (waiting a) @ drop (i + 1) (waiting a)\<rparr>
               in case fd_of (pk_id w) cs of
                    None \<Rightarrow> serve_pass host E ready n i woken cs a
                  | Some fd \<Rightarrow>
                      (case hm_get (by_fd cs) fd of
                         None \<Rightarrow> Panicked
                       | Some cn \<Rightarrow>
                           if want_close cn then serve_pass host E ready n i woken cs a
                           else
                             (case retry host E (pk_argv w) a (cn_client cn) of
                                Panicked \<Rightarrow> Panicked
                              | Done ((a, c), Some r) \<Rightarrow>
                                  serve_pass host E ready n i (woken @ [fd])
                                    (put_conn fd (push_reply r (cn\<lparr>cn_client := c\<lparr>cl_blocked := False\<rparr>\<rparr>)) cs) a
                              | Done ((a, c), None) \<Rightarrow>
                                  serve_pass host E ready n (i + 1) woken (put_conn fd (cn\<lparr>cn_client := c\<rparr>) cs)
                                    (a\<lparr>waiting := take i (waiting a) @ w # drop i (waiting a)\<rparr>))))))"

text \<open>The \<open>while\<close> loop; \<open>None\<close> would be a loop that never ends.\<close>

partial_function (option) serve_ready_keys ::
    "host \<Rightarrow> env \<Rightarrow> connections \<Rightarrow> app \<Rightarrow> (connections \<times> app) outcome option" where
  "serve_ready_keys host E cs a =
     (if ready_keys a = [] then Some (Done (cs, a))
      else
        (case serve_pass host E (ready_keys a) (length (waiting a)) 0 [] cs (a\<lparr>ready_keys := []\<rparr>) of
           Panicked \<Rightarrow> Some Panicked
         | Done ((cs, a), woken) \<Rightarrow>
             (case resume host E woken cs a of
                Panicked \<Rightarrow> Some Panicked
              | Done (cs, a) \<Rightarrow> serve_ready_keys host E cs a)))"

text \<open>The waiters whose deadline has passed, each answered unless its connection is gone or closing.\<close>

fun answer_timeouts :: "parked list \<Rightarrow> connections \<Rightarrow> connections \<times> nat list" where
  "answer_timeouts [] cs = (cs, [])"
| "answer_timeouts (w # ws) cs =
     (case by_client (pk_id w) cs of
        None \<Rightarrow> answer_timeouts ws cs
      | Some (fd, cn) \<Rightarrow>
          if want_close cn then answer_timeouts ws cs
          else
            (let cn = push_reply (pk_on_timeout w) (cn\<lparr>cn_client := (cn_client cn)\<lparr>cl_blocked := False\<rparr>\<rparr>);
                 (cs, woken) = answer_timeouts ws (put_conn fd cn cs)
             in (cs, fd # woken)))"

definition serve_timeouts :: "host \<Rightarrow> env \<Rightarrow> connections \<Rightarrow> app \<Rightarrow> (connections \<times> app) outcome" where
  "serve_timeouts host E cs a =
     (let (a, out) = take_timed_out E a; (cs, woken) = answer_timeouts out cs
      in resume host E woken cs a)"

fun deliver :: "(nat \<times> reply) list \<Rightarrow> connections \<Rightarrow> connections" where
  "deliver [] cs = cs"
| "deliver ((i, frame) # rest) cs =
     (case by_client i cs of
        None \<Rightarrow> deliver rest cs
      | Some (fd, cn) \<Rightarrow> deliver rest (put_conn fd (push_reply frame cn) cs))"

definition deliver_outbox :: "connections \<Rightarrow> app \<Rightarrow> connections \<times> app" where
  "deliver_outbox cs a = (deliver (outbox a) cs, a\<lparr>outbox := []\<rparr>)"

subsection \<open>One round of the loop\<close>

definition POLL_INTERVAL_MS :: int where "POLL_INTERVAL_MS = 1000"

text \<open>The cast of the remaining milliseconds to a C \<open>int\<close> wraps.\<close>

definition as_c_int :: "int \<Rightarrow> int" where
  "as_c_int n = (n + 2 ^ 31) mod 2 ^ 32 - 2 ^ 31"

definition poll_timeout :: "env \<Rightarrow> app \<Rightarrow> int" where
  "poll_timeout E a =
     (case next_block_deadline a of
        None \<Rightarrow> POLL_INTERVAL_MS
      | Some t \<Rightarrow> max 1 (min POLL_INTERVAL_MS (as_c_int (max 0 (t - mono E) div 1000000))))"

definition accept_one :: "env \<Rightarrow> nat \<times> bytes \<Rightarrow> connections \<times> app \<Rightarrow> connections \<times> app" where
  "accept_one E peer s =
     (let (cs, a) = s; (fd, addr) = peer;
          a = a\<lparr>stats := (stats a)\<lparr>total_connections := total_connections (stats a) + 1\<rparr>\<rparr>;
          (a, i) = take_client_id a;
          cn = conn_new (new_client E i addr);
          full = maxclients (config a) \<le> length (by_fd cs);
          a = (if full then a\<lparr>stats := (stats a)\<lparr>rejected_connections := rejected_connections (stats a) + 1\<rparr>\<rparr>
               else a);
          cn = (if full then request_close (push_reply (Error ''ERR max number of clients reached'') cn) else cn)
      in (conns_insert fd cn cs, a))"

text \<open>What \<open>poll\<close> reported for one descriptor, with what its reads and writes will return.\<close>

record ready =
  rd_hangup :: bool
  rd_read :: "read_result option"
  rd_write :: "io_result list option"

definition handle_ready :: "host \<Rightarrow> env \<Rightarrow> ready \<Rightarrow> conn \<Rightarrow> app \<Rightarrow> (conn \<times> app) outcome" where
  "handle_ready host E r cn a =
     (let cn = (if rd_hangup r then cn\<lparr>want_close := True\<rparr> else cn)
      in case (case rd_read r of None \<Rightarrow> Done (cn, a) | Some x \<Rightarrow> handle_read host E x cn a) of
           Panicked \<Rightarrow> Panicked
         | Done (cn, a) \<Rightarrow>
             Done (case rd_write r of None \<Rightarrow> cn | Some rs \<Rightarrow> handle_write rs cn, a))"

fun handle_all ::
    "host \<Rightarrow> env \<Rightarrow> (nat \<Rightarrow> ready) \<Rightarrow> nat list \<Rightarrow> connections \<Rightarrow> app \<Rightarrow> (connections \<times> app) outcome" where
  "handle_all host E revents [] cs a = Done (cs, a)"
| "handle_all host E revents (fd # fds) cs a =
     (case hm_get (by_fd cs) fd of
        None \<Rightarrow> Panicked
      | Some cn \<Rightarrow>
          (case handle_ready host E (revents fd) cn a of
             Panicked \<Rightarrow> Panicked
           | Done (cn, a) \<Rightarrow> handle_all host E revents fds (put_conn fd cn cs) a))"

text \<open>The flush at the end of a round, and the connections that are done.\<close>

definition flush_all :: "(nat \<Rightarrow> io_result list) \<Rightarrow> connections \<Rightarrow> connections" where
  "flush_all writes cs =
     cs\<lparr>by_fd := map (\<lambda>(fd, cn). (fd, if pending_output cn then handle_write (writes fd) cn else cn)) (by_fd cs)\<rparr>"

definition closing :: "connections \<Rightarrow> nat list" where
  "closing cs = map fst (filter (\<lambda>(fd, cn). want_close cn \<and> \<not> pending_output cn) (by_fd cs))"

record poll_events =
  pe_accepted :: "(nat \<times> bytes) list"
  pe_ready :: "nat \<Rightarrow> ready"
  pe_flush :: "nat \<Rightarrow> io_result list"

definition finish_round :: "env \<Rightarrow> (nat \<Rightarrow> io_result list) \<Rightarrow> connections \<Rightarrow> app \<Rightarrow> connections \<times> app" where
  "finish_round E writes cs a =
     (let (cs, a) = deliver_outbox cs a;
          cs = flush_all writes cs;
          (cs, a) = fold conns_remove (closing cs) (cs, a);
          a = a\<lparr>stats := (stats a)\<lparr>connected_clients := length (by_fd cs)\<rparr>\<rparr>
      in (cs, tick E a))"

definition poll_once ::
    "host \<Rightarrow> env \<Rightarrow> poll_events \<Rightarrow> connections \<Rightarrow> app \<Rightarrow> (connections \<times> app) outcome option" where
  "poll_once host E ev cs a =
     (let order = map fst (by_fd cs);
          (cs, a) = fold (accept_one E) (pe_accepted ev) (cs, a)
      in case handle_all host E (pe_ready ev) order cs a of
           Panicked \<Rightarrow> Some Panicked
         | Done (cs, a) \<Rightarrow>
             (case serve_ready_keys host E cs a of
                None \<Rightarrow> None
              | Some Panicked \<Rightarrow> Some Panicked
              | Some (Done (cs, a)) \<Rightarrow>
                  (case serve_timeouts host E cs a of
                     Panicked \<Rightarrow> Some Panicked
                   | Done (cs, a) \<Rightarrow> Some (Done (finish_round E (pe_flush ev) cs a)))))"

end
