(* ===== verification/Rounds.thy ===== *)
theory Rounds
  imports Server
begin

text \<open>
  Towards the invariant of the event loop: which commands park the connection that sent them and
  what a response that parks looks like, what dispatching a request does to the registry of parked
  commands, and that draining a read buffer never adds to it more than the one request that blocked.
\<close>

subsection \<open>Parked responses\<close>

definition parks_self :: "client \<Rightarrow> response \<Rightarrow> bool" where
  "parks_self c r \<longleftrightarrow> (\<forall>b. rs_block r = Some b \<longrightarrow> pk_id b = cl_id c)"

lemma parks_self_simps [simp]: "parks_self c (resp_new r)" "parks_self c (answer c av found ks due q)"
  by (auto simp: parks_self_def answer_def split: option.split)

definition all_park :: "client \<Rightarrow> (store \<times> response) outcome \<Rightarrow> bool" where
  "all_park c x \<longleftrightarrow> (\<forall>st r. x = Done (st, r) \<longrightarrow> parks_self c r)"

lemma all_park_simps [simp]: "all_park c Panicked" "all_park c (Done (st, r)) \<longleftrightarrow> parks_self c r"
  by (simp_all add: all_park_def)

lemma found_or_park_parks: "all_park c (Done (found_or_park c av ks due x))"
  by (cases x; cases "snd x") (auto simp: found_or_park_def)

lemma blocking_parks: "all_park c (blocking_cmd E c name av st)"
proof -
  have f: "all_park c (blocking_first E c n av pop st)" for n pop
    using found_or_park_parks
    by (simp add: blocking_first_def Let_def split: outcome.split sum.split)
  have m: "all_park c (cmd_blmove E c n av st)" for n
    by (simp add: cmd_blmove_def Let_def case_prod_beta split: outcome.split sum.split option.split)
  have p: "all_park c (cmd_mpop E c bl n av parse pop st)" for bl n and parse :: "bytes \<Rightarrow> 'd option" and pop
    using found_or_park_parks
    by (simp add: cmd_mpop_def Let_def split: outcome.split sum.split option.split prod.split)
  show ?thesis
    unfolding blocking_cmd_def by (intro step_if [where P = "all_park c"] f m p) simp
qed

lemma parks_self_none [simp]: "rs_block r = None \<Longrightarrow> parks_self c r"
  by (simp add: parks_self_def)

lemma transaction_parks:
  assumes "transaction_cmd run name av a c = Done (x, r)"
  shows "rs_block r = None"
proof -
  have "exec_command run a c = Done (x, r) \<Longrightarrow> rs_block r = None"
    by (auto simp: exec_command_def Let_def case_prod_beta split: option.splits if_splits outcome.splits)
  then show ?thesis
    using assms unfolding transaction_cmd_def Let_def
    by (simp only: split: if_split_asm) (auto simp: case_prod_beta)
qed

lemma pubsub_parks: "rs_block (snd (pubsub_cmd name av a c)) = None"
  by (simp add: pubsub_cmd_def cmd_publish_def case_prod_beta Let_def)

lemma run_parks:
  assumes "run_command host E run name av a c = Done (x, r)"
  shows "parks_self c r"
proof (cases "family_of name")
  case None
  then show ?thesis using assms by (auto simp: run_command_def)
next
  case (Some fam)
  show ?thesis
  proof (cases fam)
    case FServer
    with Some assms show ?thesis by (auto simp: run_command_def server_cmd_def Let_def case_prod_beta)
  next
    case FPubSub
    with Some assms show ?thesis using pubsub_parks [of name av a c] by (simp add: run_command_def)
  next
    case FTransaction
    with Some assms show ?thesis using transaction_parks by (simp add: run_command_def)
  next
    case FBlocking
    with Some assms show ?thesis
      using blocking_parks [of c E name av "store a"]
      by (cases x) (auto simp: run_command_def on_store_Done)
  qed (use Some assms in \<open>cases x; auto simp: run_command_def on_store_Done one_reply_Done\<close>)+
qed

lemma execute_parks:
  assumes "conn_ok a c" and "execute_at n host E name av a c = Done ((a', c'), r)"
  shows "parks_self c r"
proof -
  have "sound_conn a c" using assms(1) by (simp add: conn_ok_def)
  from this assms(2) show ?thesis
  proof (cases rule: execute_cases)
    case refused
    then show ?thesis using assms(2)
      by (cases n) (auto simp: execute_with_def Let_def)
  next
    case (oom ks)
    then show ?thesis by simp
  next
    case (ran m ks b d)
    then show ?thesis using run_parks by blast
  qed
qed

lemma dispatch_parks:
  assumes "conn_ok a c" and "dispatch host E av a c = Done ((a', c'), Some r)"
  shows "parks_self c r"
  using assms execute_parks [OF assms(1)]
  by (auto simp: dispatch_def Let_def execute_def queue_command_def split: if_splits outcome.splits option.splits)

text \<open>A retry that stays parked announces nothing.\<close>

lemma plain_parked:
  assumes "run_command host E run name av b c = Done (x, r)" and "rs_block r \<noteq> None"
  shows "family_of name \<noteq> Some FTransaction"
proof
  assume "family_of name = Some FTransaction"
  then have "transaction_cmd run name av b c = Done (x, r)" using assms(1) by (simp add: run_command_def)
  from transaction_parks [OF this] assms(2) show False by simp
qed

lemma retry_parked:
  assumes "conn_ok a c" and "retry host E av a c = Done ((a', c'), None)"
  shows "ready_keys a' = ready_keys a"
proof -
  let ?n = "to_upper (av ! 0)"
  obtain b r where x: "execute_at 2 host E ?n av a c = Done ((b, c'), r)" and r: "rs_block r \<noteq> None"
    and a': "a' = b\<lparr>stats := (stats b)\<lparr>total_commands := total_commands (stats b) - 1\<rparr>\<rparr>"
    using assms(2) by (auto simp: retry_def execute_def Let_def split: outcome.splits if_splits)
  have sc: "sound_conn a c" using assms(1) by (simp add: conn_ok_def)
  from sc x have "ready_keys b = ready_keys a"
  proof (cases rule: execute_cases)
    case refused
    then show ?thesis by simp
  next
    case (oom ks)
    then show ?thesis by (simp add: evicted_def)
  next
    case (ran m ks e d)
    have "sound_conn e c" using sound_conn_evicted [of "count_command a" c E ks e] sc ran(3) by simp
    from run_command_plain(2) [OF this plain_parked [OF ran(5) r] ran(5)]
    have "ready_keys d = ready_keys e" by (simp add: registries_kept_def)
    moreover have "silent r" using r by (simp add: silent_def)
    ultimately show ?thesis using ran(3) by (simp add: ran(7) signal_writes_def evicted_def)
  qed
  then show ?thesis by (simp add: a')
qed

subsection \<open>What a connection's requests do\<close>

text \<open>
  The shared state and one connection before and after some of its requests: everything \<open>keeps\<close>
  says, apart from the parking, which happens at most once and only to a connection that was
  not parked. What is left of the read buffer pays for it.
\<close>

definition unpark :: "app \<Rightarrow> client \<Rightarrow> app \<Rightarrow> client \<Rightarrow> app \<times> client" where
  "unpark a c a' c' = (a'\<lparr>waiting := waiting a\<rparr>, c'\<lparr>cl_blocked := cl_blocked c\<rparr>)"

definition parked_once :: "app \<Rightarrow> client \<Rightarrow> app \<Rightarrow> client \<Rightarrow> bool" where
  "parked_once a c a' c' \<longleftrightarrow> \<not> cl_blocked c \<and> cl_blocked c' \<and> (\<exists>b. waiting a' = waiting a @ [b] \<and> pk_id b = cl_id c)"

definition not_parked :: "app \<Rightarrow> client \<Rightarrow> app \<Rightarrow> client \<Rightarrow> bool" where
  "not_parked a c a' c' \<longleftrightarrow> cl_blocked c' = cl_blocked c \<and> waiting a' = waiting a"

definition advances :: "conn \<times> app \<Rightarrow> conn \<times> app \<Rightarrow> bool" where
  "advances x y \<longleftrightarrow>
     (let c = cn_client (fst x); a = snd x; c' = cn_client (fst y); a' = snd y
      in keeps (a, c) (unpark a c a' c') \<and>
         (not_parked a c a' c' \<and> length (rbuf (fst y)) \<le> length (rbuf (fst x)) \<or>
          parked_once a c a' c' \<and> length (rbuf (fst y)) < length (rbuf (fst x))) \<and>
         (want_close (fst x) \<longrightarrow> want_close (fst y)))"

lemma update_same:
  "waiting a = w \<Longrightarrow> a\<lparr>waiting := w\<rparr> = a" "cl_blocked c = b \<Longrightarrow> c\<lparr>cl_blocked := b\<rparr> = c"
  by auto

lemma keeps_unpark: "keeps (a, c) (unpark a c a' c') \<Longrightarrow> not_parked a c a' c' \<Longrightarrow> keeps (a, c) (a', c')"
  by (simp add: unpark_def not_parked_def update_same)

lemma unpark_keeps: "keeps (a, c) (a', c') \<Longrightarrow> unpark a c a' c' = (a', c') \<and> not_parked a c a' c'"
  by (simp add: keeps_def unpark_def not_parked_def update_same)

lemma advances_refl: "conn_ok a (cn_client cn) \<Longrightarrow> advances (cn, a) (cn, a)"
  using unpark_keeps [OF keeps_refl] by (simp add: advances_def Let_def keeps_refl)

lemma advances_trans:
  assumes "advances (cn, a) (cn', a')" and "not_parked a (cn_client cn) a' (cn_client cn')"
    and "advances (cn', a') y"
  shows "advances (cn, a) y"
proof -
  have k: "keeps (a, cn_client cn) (a', cn_client cn')"
    using assms(1,2) keeps_unpark by (auto simp: advances_def Let_def)
  have np: "cl_blocked (cn_client cn') = cl_blocked (cn_client cn)" "waiting a' = waiting a"
    "cl_id (cn_client cn') = cl_id (cn_client cn)"
    using k by (simp_all add: keeps_def)
  then have u: "unpark a (cn_client cn) b d = unpark a' (cn_client cn') b d"
    "not_parked a (cn_client cn) b d = not_parked a' (cn_client cn') b d"
    "parked_once a (cn_client cn) b d = parked_once a' (cn_client cn') b d" for b d
    by (simp_all add: unpark_def not_parked_def parked_once_def)
  have len: "length (rbuf cn') \<le> length (rbuf cn)" "want_close cn \<longrightarrow> want_close cn'"
    using assms(1) by (auto simp: advances_def Let_def)
  show ?thesis
    using assms(3) keeps_trans [OF k] len by (auto simp: advances_def Let_def u)
qed

lemma answer_request_spec:
  assumes "conn_ok a (cn_client cn)" and "\<not> cl_blocked (cn_client cn)"
    and "answer_request host E limit av cn a = Done (cn', a', stop)"
  shows "keeps (a, cn_client cn) (unpark a (cn_client cn) a' (cn_client cn'))"
    and "not_parked a (cn_client cn) a' (cn_client cn') \<or> stop \<and> parked_once a (cn_client cn) a' (cn_client cn')"
    and "want_close cn \<Longrightarrow> want_close cn'"
proof -
  obtain b d resp where x: "dispatch host E av a (cn_client cn) = Done ((b, d), resp)"
    using assms(3) by (auto simp: answer_request_def split: outcome.splits)
  have k: "keeps (a, cn_client cn) (b, d)" by (rule dispatch_keeps [OF assms(1) x])
  have "keeps (a, cn_client cn) (unpark a (cn_client cn) a' (cn_client cn')) \<and>
    (not_parked a (cn_client cn) a' (cn_client cn') \<or> stop \<and> parked_once a (cn_client cn) a' (cn_client cn')) \<and>
    (want_close cn \<longrightarrow> want_close cn')"
  proof (cases resp)
    case None
    let ?s = "settle limit (cn\<lparr>cn_client := d\<rparr>)"
    have "cn' = fst ?s" "a' = b" using assms(3) x None by (simp_all add: answer_request_def case_prod_beta Let_def)
    then show ?thesis using unpark_keeps [OF k] k by simp
  next
    case (Some r)
    define e where "e = (case rs_protocol r of None \<Rightarrow> d | Some p \<Rightarrow> d\<lparr>cl_protocol := p\<rparr>)"
    have "keeps (b, d) (b, e)"
      using keeps_conn [OF k] by (intro keeps_client) (simp_all add: e_def split: option.split)
    with k have ke: "keeps (a, cn_client cn) (b, e)" by (rule keeps_trans)
    have un: "answer_request host E limit av cn a =
        (case rs_block r of
           Some w \<Rightarrow> Done (cn\<lparr>cn_client := e\<lparr>cl_blocked := True\<rparr>\<rparr>, b\<lparr>waiting := waiting b @ [w]\<rparr>, True)
         | None \<Rightarrow>
             (let q = fold push_reply (rs_replies r) (cn\<lparr>cn_client := e\<rparr>);
                  s = settle limit (if rs_close r then request_close q else q)
              in Done (fst s, b, snd s)))"
      unfolding answer_request_def x Some
      by (cases "rs_protocol r"; cases "rs_block r") (simp_all add: Let_def e_def case_prod_beta)
    show ?thesis
    proof (cases "rs_block r")
      case None
      let ?q = "fold push_reply (rs_replies r) (cn\<lparr>cn_client := e\<rparr>)"
      let ?s = "settle limit (if rs_close r then request_close ?q else ?q)"
      have "cn' = fst ?s" "a' = b"
        using assms(3) unfolding un None by (simp_all add: Let_def)
      moreover have "cn_client (fst ?s) = e" "want_close cn \<longrightarrow> want_close (fst ?s)" by simp_all
      ultimately show ?thesis using unpark_keeps [OF ke] ke by simp
    next
      case (Some w)
      have "cn' = cn\<lparr>cn_client := e\<lparr>cl_blocked := True\<rparr>\<rparr>" "a' = b\<lparr>waiting := waiting b @ [w]\<rparr>" "stop"
        using assms(3) unfolding un Some by simp_all
      moreover have "pk_id w = cl_id (cn_client cn)"
        using dispatch_parks [OF assms(1), of host E av b d r] x \<open>resp = Some r\<close> Some by (simp add: parks_self_def)
      moreover have "waiting b = waiting a" "cl_blocked e = cl_blocked (cn_client cn)"
        using ke by (simp_all add: keeps_def)
      ultimately show ?thesis
        using ke assms(2) by (simp add: unpark_def parked_once_def update_same)
    qed
  qed
  then show "keeps (a, cn_client cn) (unpark a (cn_client cn) a' (cn_client cn'))"
    "not_parked a (cn_client cn) a' (cn_client cn') \<or> stop \<and> parked_once a (cn_client cn) a' (cn_client cn')"
    "want_close cn \<Longrightarrow> want_close cn'" by simp_all
qed

lemma process_loop_advances:
  "conn_ok a (cn_client cn) \<Longrightarrow> process_loop host E mb limit cn a = Done (cn', a') \<Longrightarrow> advances (cn, a) (cn', a')"
proof (induction host E mb limit cn a rule: process_loop.induct)
  case (1 host E mb limit cn a)
  note r = 1(3) [unfolded process_loop.simps [of host E mb limit cn a]]
  show ?case
  proof (cases "cl_blocked (cn_client cn)")
    case True
    then show ?thesis using r advances_refl [OF 1(2)] by simp
  next
    case free: False
    consider e where "parse_request (rbuf cn) mb = Inl e" | "parse_request (rbuf cn) mb = Inr None"
      | req where "parse_request (rbuf cn) mb = Inr (Some req)"
      by (metis option.exhaust sum.exhaust)
    then show ?thesis
    proof cases
      case (1 e)
      then have "cn' = (request_close (push_reply (Error e) cn))\<lparr>rbuf := []\<rparr>" "a' = a" using r free by simp_all
      then show ?thesis
        using advances_refl [OF \<open>conn_ok a (cn_client cn)\<close>] by (simp add: advances_def Let_def)
    next
      case 2
      then show ?thesis using r free advances_refl [OF \<open>conn_ok a (cn_client cn)\<close>] by simp
    next
      case (3 req)
      let ?cn = "cn\<lparr>rbuf := drop (consumed req) (rbuf cn)\<rparr>"
      obtain cn2 a2 stop where ar: "answer_request host E limit (argv req) ?cn a = Done (cn2, a2, stop)"
        using r free 3 by (cases "answer_request host E limit (argv req) ?cn a") auto
      have ok: "conn_ok a (cn_client ?cn)" "\<not> cl_blocked (cn_client ?cn)" using \<open>conn_ok a (cn_client cn)\<close> free by simp_all
      note s = answer_request_spec [OF ok ar]
      have len: "length (rbuf cn2) < length (rbuf cn)"
        using answer_request_rbuf [OF ar] parse_request_progress [OF 3] by auto
      have adv: "advances (cn, a) (cn2, a2)" using s len by (auto simp: advances_def Let_def)
      show ?thesis
      proof (cases stop)
        case True
        then show ?thesis using r free 3 ar adv by simp
      next
        case False
        then have np: "not_parked a (cn_client cn) a2 (cn_client cn2)" using s(2) by simp
        have "conn_ok a2 (cn_client cn2)" using keeps_conn [OF keeps_unpark [OF s(1)]] np by simp
        moreover have "process_loop host E mb limit cn2 a2 = Done (cn', a')" using r free 3 ar False by simp
        ultimately have "advances (cn2, a2) (cn', a')"
          using 1(1) [OF free 3 refl ar refl refl] False by blast
        with adv np show ?thesis by (rule advances_trans)
      qed
    qed
  qed
qed

end
