(* ===== verification/Loop.thy ===== *)
theory Loop
  imports Rounds
begin

text \<open>
  The invariant of the event loop: the two indexes of the connections agree, every registry of the
  shared state speaks of connected clients only, and a client waits among the parked commands
  exactly while it is blocked. It holds in every reachable state, and every round of the loop ends.
\<close>

subsection \<open>The indexes of the connections\<close>

definition clients_of :: "connections \<Rightarrow> nat \<rightharpoonup> client" where
  "clients_of cs i = map_option (\<lambda>(fd, cn). cn_client cn) (by_client i cs)"

definition conns_ok :: "connections \<Rightarrow> bool" where
  "conns_ok cs \<longleftrightarrow> hm_wf (by_fd cs) \<and>
     (\<forall>i fd. fd_of i cs = Some fd \<longleftrightarrow> (\<exists>cn. hm_get (by_fd cs) fd = Some cn \<and> cl_id (cn_client cn) = i))"

lemma fd_of_iff:
  "conns_ok cs \<Longrightarrow> fd_of i cs = Some fd \<longleftrightarrow> (\<exists>cn. hm_get (by_fd cs) fd = Some cn \<and> cl_id (cn_client cn) = i)"
  unfolding conns_ok_def by blast

lemma by_client_iff:
  assumes "conns_ok cs"
  shows "by_client i cs = Some (fd, cn) \<longleftrightarrow> hm_get (by_fd cs) fd = Some cn \<and> cl_id (cn_client cn) = i"
proof
  assume "by_client i cs = Some (fd, cn)"
  then have "fd_of i cs = Some fd" "hm_get (by_fd cs) fd = Some cn"
    by (auto simp: by_client_def split: option.splits)
  then show "hm_get (by_fd cs) fd = Some cn \<and> cl_id (cn_client cn) = i"
    using fd_of_iff [OF assms, of i fd] by simp
next
  assume r: "hm_get (by_fd cs) fd = Some cn \<and> cl_id (cn_client cn) = i"
  then have "fd_of i cs = Some fd" using fd_of_iff [OF assms] by blast
  with r show "by_client i cs = Some (fd, cn)" by (simp add: by_client_def)
qed

lemma clients_of_iff:
  "conns_ok cs \<Longrightarrow>
     clients_of cs i = Some c \<longleftrightarrow> (\<exists>fd cn. hm_get (by_fd cs) fd = Some cn \<and> cn_client cn = c \<and> cl_id c = i)"
  using by_client_iff [of cs i] by (force simp: clients_of_def)

lemma clients_of_get: "conns_ok cs \<Longrightarrow> hm_get (by_fd cs) fd = Some cn \<Longrightarrow>
    clients_of cs (cl_id (cn_client cn)) = Some (cn_client cn)"
  by (auto simp: clients_of_iff)

lemma one_fd:
  assumes "conns_ok cs" and "hm_get (by_fd cs) fd = Some cn" and "hm_get (by_fd cs) fd' = Some cn'"
    and "cl_id (cn_client cn) = cl_id (cn_client cn')"
  shows "fd = fd'"
proof -
  have "fd_of (cl_id (cn_client cn)) cs = Some fd" "fd_of (cl_id (cn_client cn)) cs = Some fd'"
    using assms unfolding conns_ok_def by metis+
  then show ?thesis by simp
qed

lemma put_conns_ok:
  assumes "conns_ok cs" and "hm_get (by_fd cs) fd = Some cn" and "cl_id (cn_client cn') = cl_id (cn_client cn)"
  shows "conns_ok (put_conn fd cn' cs)"
  using assms by (auto simp: conns_ok_def put_conn_def fd_of_def hm_get_insert)

lemma put_clients_of:
  assumes "conns_ok cs" and "hm_get (by_fd cs) fd = Some cn" and "cl_id (cn_client cn') = cl_id (cn_client cn)"
  shows "clients_of (put_conn fd cn' cs) = (clients_of cs)(cl_id (cn_client cn) \<mapsto> cn_client cn')"
proof (rule ext)
  fix i
  note p = put_conns_ok [OF assms]
  have g: "hm_get (by_fd (put_conn fd cn' cs)) f = (if f = fd then Some cn' else hm_get (by_fd cs) f)" for f
    by (simp add: put_conn_def hm_get_insert)
  show "clients_of (put_conn fd cn' cs) i = ((clients_of cs)(cl_id (cn_client cn) \<mapsto> cn_client cn')) i"
  proof (cases "i = cl_id (cn_client cn)")
    case True
    then show ?thesis using clients_of_get [OF p, of fd cn'] assms(3) g by simp
  next
    case False
    have "clients_of (put_conn fd cn' cs) i = Some c \<longleftrightarrow> clients_of cs i = Some c" for c
    proof -
      have "clients_of (put_conn fd cn' cs) i = Some c \<longleftrightarrow>
          (\<exists>f d. (f \<noteq> fd \<and> hm_get (by_fd cs) f = Some d \<or> f = fd \<and> d = cn') \<and> cn_client d = c \<and> cl_id c = i)"
        unfolding clients_of_iff [OF p] g by (auto split: if_splits)
      also have "\<dots> \<longleftrightarrow> (\<exists>f d. f \<noteq> fd \<and> hm_get (by_fd cs) f = Some d \<and> cn_client d = c \<and> cl_id c = i)"
        using False assms(3) by blast
      also have "\<dots> \<longleftrightarrow> (\<exists>f d. hm_get (by_fd cs) f = Some d \<and> cn_client d = c \<and> cl_id c = i)"
        using False assms(2) by force
      finally show ?thesis unfolding clients_of_iff [OF assms(1)] .
    qed
    then show ?thesis using False by (metis fun_upd_other option.exhaust)
  qed
qed

subsection \<open>The parked commands\<close>

text \<open>
  \<open>parked_ok ws cs\<close>: the waiters \<open>ws\<close> belong to different clients, all connected and blocked, and a
  blocked client is either among them or being closed.
\<close>

definition parked_ok :: "parked list \<Rightarrow> connections \<Rightarrow> bool" where
  "parked_ok ws cs \<longleftrightarrow> distinct (map pk_id ws) \<and>
     (\<forall>i \<in> pk_id ` set ws. \<exists>fd cn. hm_get (by_fd cs) fd = Some cn \<and> cl_id (cn_client cn) = i \<and> cl_blocked (cn_client cn)) \<and>
     (\<forall>fd cn. hm_get (by_fd cs) fd = Some cn \<longrightarrow> cl_blocked (cn_client cn) \<longrightarrow>
        want_close cn \<or> cl_id (cn_client cn) \<in> pk_id ` set ws)"

lemma parked_put:
  assumes "parked_ok ws cs" and "conns_ok cs" and "hm_get (by_fd cs) fd = Some cn"
    and "cl_id (cn_client cn') = cl_id (cn_client cn)" and "distinct (map pk_id ws')"
    and "\<And>i. i \<noteq> cl_id (cn_client cn) \<Longrightarrow> i \<in> pk_id ` set ws' \<longleftrightarrow> i \<in> pk_id ` set ws"
    and "cl_id (cn_client cn) \<in> pk_id ` set ws' \<Longrightarrow> cl_blocked (cn_client cn')"
    and "cl_blocked (cn_client cn') \<Longrightarrow> want_close cn' \<or> cl_id (cn_client cn) \<in> pk_id ` set ws'"
  shows "parked_ok ws' (put_conn fd cn' cs)"
proof -
  have g: "hm_get (by_fd (put_conn fd cn' cs)) f = (if f = fd then Some cn' else hm_get (by_fd cs) f)" for f
    by (simp add: put_conn_def hm_get_insert)
  have other: "cl_id (cn_client d) \<noteq> cl_id (cn_client cn)" if "hm_get (by_fd cs) f = Some d" "f \<noteq> fd" for f d
    using one_fd [OF assms(2) that(1) assms(3)] that(2) by blast
  have "\<exists>f d. hm_get (by_fd (put_conn fd cn' cs)) f = Some d \<and> cl_id (cn_client d) = i \<and> cl_blocked (cn_client d)"
    if "i \<in> pk_id ` set ws'" for i
  proof (cases "i = cl_id (cn_client cn)")
    case True
    then show ?thesis using assms(4,7) that by (intro exI [of _ fd] exI [of _ cn']) (simp add: g)
  next
    case False
    then have "i \<in> pk_id ` set ws" using that assms(6) by simp
    then obtain f d where d: "hm_get (by_fd cs) f = Some d" "cl_id (cn_client d) = i" "cl_blocked (cn_client d)"
      using assms(1) unfolding parked_ok_def by blast
    then have "f \<noteq> fd" using False assms(3) by auto
    with d show ?thesis by (intro exI [of _ f] exI [of _ d]) (simp add: g)
  qed
  moreover have "want_close d \<or> cl_id (cn_client d) \<in> pk_id ` set ws'"
    if d: "hm_get (by_fd (put_conn fd cn' cs)) f = Some d" and b: "cl_blocked (cn_client d)" for f d
  proof (cases "f = fd")
    case True
    then show ?thesis using d b assms(4,8) by (simp add: g)
  next
    case False
    then have h: "hm_get (by_fd cs) f = Some d" using d by (simp add: g)
    then have "want_close d \<or> cl_id (cn_client d) \<in> pk_id ` set ws" using assms(1) b unfolding parked_ok_def by blast
    then show ?thesis using assms(6) [OF other [OF h False]] by simp
  qed
  ultimately show ?thesis unfolding parked_ok_def using assms(5) by blast
qed

lemma parked_same:
  assumes "parked_ok ws cs" and "conns_ok cs" and "hm_get (by_fd cs) fd = Some cn"
    and "cl_id (cn_client cn') = cl_id (cn_client cn)" and "cl_blocked (cn_client cn') = cl_blocked (cn_client cn)"
    and "want_close cn \<Longrightarrow> want_close cn'"
  shows "parked_ok ws (put_conn fd cn' cs)"
proof (rule parked_put [OF assms(1-4)])
  show "distinct (map pk_id ws)" using assms(1) by (simp add: parked_ok_def)
  show "cl_blocked (cn_client cn')" if "cl_id (cn_client cn) \<in> pk_id ` set ws"
  proof -
    obtain f d where d: "hm_get (by_fd cs) f = Some d" "cl_id (cn_client d) = cl_id (cn_client cn)" "cl_blocked (cn_client d)"
      using assms(1) \<open>cl_id (cn_client cn) \<in> _\<close> unfolding parked_ok_def by blast
    then have "f = fd" using one_fd assms(2,3) by blast
    then show ?thesis using d assms(3,5) by simp
  qed
  show "want_close cn' \<or> cl_id (cn_client cn) \<in> pk_id ` set ws" if "cl_blocked (cn_client cn')"
    using that assms(1,3,5,6) unfolding parked_ok_def by metis
qed simp

lemma parked_drop:
  assumes "parked_ok (us @ w # vs) cs" and "conns_ok cs" and "hm_get (by_fd cs) fd = Some cn"
    and "cl_id (cn_client cn) = pk_id w" and "want_close cn"
  shows "parked_ok (us @ vs) cs"
  unfolding parked_ok_def
proof (intro conjI allI impI)
  fix f d
  assume d: "hm_get (by_fd cs) f = Some d" "cl_blocked (cn_client d)"
  show "want_close d \<or> cl_id (cn_client d) \<in> pk_id ` set (us @ vs)"
  proof (cases "f = fd")
    case True
    then show ?thesis using d assms(3,5) by simp
  next
    case False
    then have "cl_id (cn_client d) \<noteq> pk_id w" using one_fd [OF assms(2) d(1) assms(3)] assms(4) by auto
    moreover have "want_close d \<or> cl_id (cn_client d) \<in> pk_id ` set (us @ w # vs)"
      using assms(1) d unfolding parked_ok_def by blast
    ultimately show ?thesis by auto
  qed
qed (use assms(1) in \<open>auto simp: parked_ok_def\<close>)

lemma parked_woken:
  assumes "parked_ok (us @ w # vs) cs" and "conns_ok cs" and "hm_get (by_fd cs) fd = Some cn"
    and "cl_id (cn_client cn) = pk_id w" and "cl_id (cn_client cn') = pk_id w" and "\<not> cl_blocked (cn_client cn')"
  shows "parked_ok (us @ vs) (put_conn fd cn' cs)"
  using assms(1,4-6)
  by (intro parked_put [OF assms(1-3)]) (auto simp: parked_ok_def)

subsection \<open>The whole state\<close>

definition server_ok :: "connections \<Rightarrow> app \<Rightarrow> bool" where
  "server_ok cs a \<longleftrightarrow> conns_ok cs \<and> group_ok a (clients_of cs) \<and> parked_ok (waiting a) cs"

lemma server_conn:
  "server_ok cs a \<Longrightarrow> hm_get (by_fd cs) fd = Some cn \<Longrightarrow> conn_ok a (cn_client cn)"
  using group_conn clients_of_get unfolding server_ok_def by blast

lemma server_frame:
  assumes "server_ok cs a" and "store_ok (store a')" and "pubsub a' = pubsub a" and "watch a' = watch a"
    and "waiting a' = waiting a" and "next_client_id a' = next_client_id a"
  shows "server_ok cs a'"
  using assms(1,5) group_frame [OF _ assms(2-4,6)] by (simp add: server_ok_def)

lemma server_store: "server_ok cs a \<Longrightarrow> store_ok (store a)"
  by (simp add: server_ok_def group_ok_def)

text \<open>Whether a client is blocked matters to the waiters only.\<close>

lemma conn_ok_blocked: "conn_ok a (c\<lparr>cl_blocked := b\<rparr>) = conn_ok a c"
  by (simp add: conn_ok_def sound_conn_def agrees_def)

lemma group_blocked:
  assumes "group_ok a C" and "C i = Some (c\<lparr>cl_blocked := b\<rparr>)"
  shows "group_ok a (C(i \<mapsto> c))"
proof -
  have i: "cl_id c = i" "i \<le> next_client_id a" "conn_ok a c"
    using assms conn_ok_blocked unfolding group_ok_def by fastforce+
  have "all_watches (C(i \<mapsto> c)) = all_watches C"
    using assms(2) by (auto simp: all_watches_def image_iff split: if_splits) (blast | force)+
  with assms(1) i show ?thesis by (auto simp: group_ok_def)
qed

lemma group_unblock:
  assumes "group_ok a C" and "C i = Some c"
  shows "group_ok a (C(i \<mapsto> c\<lparr>cl_blocked := b\<rparr>))"
  by (rule group_blocked [where b = "cl_blocked c", OF assms(1)]) (simp add: assms(2))

lemma group_waiting: "group_ok a C \<Longrightarrow> group_ok (a\<lparr>waiting := ws\<rparr>) C"
  by (rule group_frame) (simp_all add: group_ok_def)

lemma group_advances:
  assumes "group_ok a C" and "C (cl_id (cn_client cn)) = Some (cn_client cn)" and "advances (cn, a) (cn', a')"
  shows "group_ok a' (C(cl_id (cn_client cn) \<mapsto> cn_client cn'))"
proof -
  let ?i = "cl_id (cn_client cn)" and ?u = "a'\<lparr>waiting := waiting a\<rparr>"
    and ?c = "(cn_client cn')\<lparr>cl_blocked := cl_blocked (cn_client cn)\<rparr>"
  have "keeps (a, cn_client cn) (?u, ?c)" using assms(3) by (simp add: advances_def Let_def unpark_def)
  from group_keeps [OF assms(1,2) this] have "group_ok ?u (C(?i \<mapsto> ?c))" .
  from group_blocked [OF this, where i = ?i and c = "cn_client cn'"] have "group_ok ?u (C(?i \<mapsto> cn_client cn'))" by simp
  from group_waiting [OF this, of "waiting a'"] show ?thesis by simp
qed

lemma advances_client: "advances (cn, a) (cn', a') \<Longrightarrow> cl_id (cn_client cn') = cl_id (cn_client cn)"
  by (simp add: advances_def Let_def unpark_def keeps_def)

text \<open>A connection that changed only its buffers, or asked to be closed, before its requests ran.\<close>

lemma server_advance:
  assumes ok: "server_ok cs a" and fd: "hm_get (by_fd cs) fd = Some cn"
    and c: "cn_client cn1 = cn_client cn" and w: "want_close cn \<Longrightarrow> want_close cn1"
    and adv: "advances (cn1, a) (cn', a')"
  shows "server_ok (put_conn fd cn' cs) a'"
proof -
  have co: "conns_ok cs" and gr: "group_ok a (clients_of cs)" and pk: "parked_ok (waiting a) cs"
    using ok by (simp_all add: server_ok_def)
  have i: "cl_id (cn_client cn') = cl_id (cn_client cn)" using advances_client [OF adv] c by simp
  have "group_ok a' (clients_of (put_conn fd cn' cs))"
    using group_advances [OF gr _ adv] clients_of_get [OF co fd] c by (simp add: put_clients_of [OF co fd i])
  moreover have "parked_ok (waiting a') (put_conn fd cn' cs)"
  proof (cases "not_parked a (cn_client cn1) a' (cn_client cn')")
    case True
    then have "waiting a' = waiting a" "cl_blocked (cn_client cn') = cl_blocked (cn_client cn)"
      by (simp_all add: not_parked_def c)
    moreover have "want_close cn \<Longrightarrow> want_close cn'" using adv w by (simp add: advances_def Let_def)
    ultimately show ?thesis using parked_same [OF pk co fd i] by simp
  next
    case False
    then obtain b where b: "\<not> cl_blocked (cn_client cn)" "cl_blocked (cn_client cn')"
      "waiting a' = waiting a @ [b]" "pk_id b = cl_id (cn_client cn)"
      using adv c by (auto simp: advances_def Let_def parked_once_def)
    have "cl_id (cn_client cn) \<notin> pk_id ` set (waiting a)"
    proof
      assume "cl_id (cn_client cn) \<in> pk_id ` set (waiting a)"
      then obtain f d where "hm_get (by_fd cs) f = Some d" "cl_id (cn_client d) = cl_id (cn_client cn)" "cl_blocked (cn_client d)"
        using pk unfolding parked_ok_def by blast
      then show False using one_fd [OF co _ fd] fd b(1) by auto
    qed
    then show ?thesis
      using b pk by (intro parked_put [OF pk co fd i]) (auto simp: parked_ok_def)
  qed
  ultimately show ?thesis using put_conns_ok [OF co fd i] by (simp add: server_ok_def)
qed

lemma process_advances:
  "conn_ok a (cn_client cn) \<Longrightarrow> process_requests host E cn a = Done (cn', a') \<Longrightarrow> advances (cn, a) (cn', a')"
  unfolding process_requests_def by (rule process_loop_advances)

end
