(* ===== verification/Serve.thy ===== *)
theory Serve
  imports Loop
begin

text \<open>
  The steps of a round against the invariant of the event loop, and the reason the loop that serves
  woken clients ends: every pass that wakes a client takes a waiter out of the registry, and a
  client can only park again by consuming bytes it had already sent.
\<close>

subsection \<open>Reading, writing and resuming\<close>

lemma advances_buffers:
  assumes "advances x (cn, a)" and "cn_client d = cn_client cn" and "rbuf d = rbuf cn"
    and "want_close cn \<Longrightarrow> want_close d"
  shows "advances x (d, a)"
  using assms by (auto simp: advances_def Let_def)

lemma handle_write_frame:
  "cn_client (handle_write rs cn) = cn_client cn \<and> rbuf (handle_write rs cn) = rbuf cn \<and>
   (want_close cn \<longrightarrow> want_close (handle_write rs cn))"
proof (induction rs cn rule: handle_write.induct)
  case (1 rs cn)
  show ?case
  proof (cases "pending_output cn")
    case False
    then show ?thesis by (simp add: handle_write.simps)
  next
    case p: True
    show ?thesis
    proof (cases rs)
      case Nil
      then show ?thesis using p by (simp add: handle_write.simps)
    next
      case (Cons r rest)
      show ?thesis
      proof (cases r)
        case (Transferred n)
        then show ?thesis
          using 1 [of r rest n] p Cons by (simp add: handle_write.simps [of "Transferred n # rest" cn])
      qed (simp_all add: handle_write.simps [of "_ # rest" cn] p Cons)
    qed
  qed
qed

lemma handle_ready_advances:
  assumes ok: "conn_ok a (cn_client cn)" and h: "handle_ready host E r cn a = Done (cn', a')"
  shows "\<exists>cn1. cn_client cn1 = cn_client cn \<and> (want_close cn \<longrightarrow> want_close cn1) \<and> advances (cn1, a) (cn', a')"
proof -
  define c0 where "c0 = (if rd_hangup r then cn\<lparr>want_close := True\<rparr> else cn)"
  have c0: "cn_client c0 = cn_client cn" "want_close cn \<longrightarrow> want_close c0" by (simp_all add: c0_def)
  obtain cn2 where rd: "(case rd_read r of None \<Rightarrow> Done (c0, a) | Some x \<Rightarrow> handle_read host E x c0 a) = Done (cn2, a')"
    and wr: "cn' = (case rd_write r of None \<Rightarrow> cn2 | Some rs \<Rightarrow> handle_write rs cn2)"
    using h unfolding handle_ready_def c0_def Let_def by (auto split: outcome.splits)
  have refl: "advances (d, a) (d, a)" if "cn_client d = cn_client cn" for d
    using advances_refl ok that by simp
  have "\<exists>cn1. cn_client cn1 = cn_client cn \<and> (want_close cn \<longrightarrow> want_close cn1) \<and> advances (cn1, a) (cn2, a')"
  proof (cases "\<exists>bs. rd_read r = Some (ReadBytes bs) \<and> bs \<noteq> []")
    case True
    then obtain bs where bs: "rd_read r = Some (ReadBytes bs)" "bs \<noteq> []" by blast
    then have "process_requests host E (c0\<lparr>rbuf := rbuf c0 @ bs\<rparr>) a = Done (cn2, a')"
      using rd by (cases bs) (simp_all add: handle_read_def)
    from process_advances [OF _ this] show ?thesis using ok c0 by (intro exI [of _ "c0\<lparr>rbuf := rbuf c0 @ bs\<rparr>"]) simp
  next
    case False
    then have "cn_client cn2 = cn_client cn" "want_close cn \<longrightarrow> want_close cn2" "a' = a"
      using rd c0 by (auto simp: handle_read_def split: option.splits read_result.splits list.splits)
    then show ?thesis using refl by blast
  qed
  then obtain cn1 where cn1: "cn_client cn1 = cn_client cn" "want_close cn \<longrightarrow> want_close cn1"
    "advances (cn1, a) (cn2, a')" by blast
  have "advances (cn1, a) (cn', a')"
    by (rule advances_buffers [OF cn1(3)]) (simp_all add: wr handle_write_frame split: option.split)
  with cn1 show ?thesis by blast
qed

lemma handle_all_ok:
  "server_ok cs a \<Longrightarrow> handle_all host E revents fds cs a = Done (cs', a') \<Longrightarrow> server_ok cs' a'"
proof (induction fds arbitrary: cs a)
  case Nil
  then show ?case by simp
next
  case (Cons fd fds)
  obtain cn where fd: "hm_get (by_fd cs) fd = Some cn" using Cons.prems by (auto split: option.splits)
  obtain cn2 a2 where h: "handle_ready host E (revents fd) cn a = Done (cn2, a2)"
    using Cons.prems fd by (auto split: outcome.splits)
  from handle_ready_advances [OF server_conn [OF Cons.prems(1) fd] h] obtain cn1 where
    "cn_client cn1 = cn_client cn" "want_close cn \<Longrightarrow> want_close cn1" "advances (cn1, a) (cn2, a2)" by blast
  from server_advance [OF Cons.prems(1) fd this] have "server_ok (put_conn fd cn2 cs) a2" .
  then show ?case using Cons.IH Cons.prems(2) fd h by simp
qed

text \<open>The bytes clients have sent and the server has not read yet, and what they can still cause.\<close>

definition buffered :: "connections \<Rightarrow> nat" where
  "buffered cs = sum_list (map (\<lambda>(fd, cn). length (rbuf cn)) (by_fd cs))"

definition weight :: "connections \<Rightarrow> app \<Rightarrow> nat" where
  "weight cs a = length (waiting a) + 2 * buffered cs"

lemma buffered_put:
  assumes "hm_get (by_fd cs) fd = Some cn"
  shows "buffered (put_conn fd cn' cs) + length (rbuf cn) = buffered cs + length (rbuf cn')"
proof -
  have "hm_get m fd = Some cn \<Longrightarrow>
      sum_list (map (\<lambda>(fd, cn). length (rbuf cn)) (hm_insert fd cn' m)) + length (rbuf cn) =
      sum_list (map (\<lambda>(fd, cn). length (rbuf cn)) m) + length (rbuf cn')" for m
    by (induction m) (auto split: if_splits)
  then show ?thesis using assms by (simp add: buffered_def put_conn_def)
qed

lemma resume_ok:
  "server_ok cs a \<Longrightarrow> resume host E fds cs a = Done (cs', a') \<Longrightarrow> server_ok cs' a' \<and> weight cs' a' \<le> weight cs a"
proof (induction fds arbitrary: cs a)
  case Nil
  then show ?case by simp
next
  case (Cons fd fds)
  show ?case
  proof (cases "hm_get (by_fd cs) fd")
    case None
    then show ?thesis using Cons by simp
  next
    case (Some cn)
    obtain cn2 a2 where p: "process_requests host E cn a = Done (cn2, a2)"
      using Cons.prems(2) Some by (auto split: outcome.splits)
    note adv = process_advances [OF server_conn [OF Cons.prems(1) Some] p]
    have s: "server_ok (put_conn fd cn2 cs) a2" by (rule server_advance [OF Cons.prems(1) Some refl _ adv])
    have w: "weight (put_conn fd cn2 cs) a2 \<le> weight cs a"
      using adv buffered_put [OF Some, of cn2]
      by (auto simp: weight_def advances_def Let_def not_parked_def parked_once_def)
    show ?thesis using Cons.IH [OF s] Cons.prems(2) Some p w by simp
  qed
qed

subsection \<open>Waking parked clients\<close>

text \<open>One step of the pass: past a waiter, or with it gone from the registry.\<close>

definition pass_step :: "nat \<Rightarrow> connections \<Rightarrow> app \<Rightarrow> nat \<Rightarrow> nat list \<Rightarrow> connections \<Rightarrow> app \<Rightarrow> bool" where
  "pass_step i cs a i' ws cs' a' \<longleftrightarrow>
     server_ok cs' a' \<and> buffered cs' = buffered cs \<and> (ws = [] \<longrightarrow> ready_keys a' = ready_keys a) \<and>
     (i' = Suc i \<and> length (waiting a') = length (waiting a) \<and> ws = [] \<or>
      i' = i \<and> Suc (length (waiting a')) = length (waiting a) \<and> length ws \<le> 1)"

declare serve_pass.simps(2) [simp del]

lemma serve_pass_step:
  assumes ok: "server_ok cs a" and i: "i < length (waiting a)"
  obtains (panicked) "\<And>n. serve_pass host E rk (Suc n) i woken cs a = Panicked"
  | (step) i' ws cs' a' where "pass_step i cs a i' ws cs' a'"
      "\<And>n. serve_pass host E rk (Suc n) i woken cs a = serve_pass host E rk n i' (woken @ ws) cs' a'"
proof -
  let ?w = "waiting a ! i" and ?us = "take i (waiting a)" and ?vs = "drop (i + 1) (waiting a)"
  let ?a = "a\<lparr>waiting := ?us @ ?vs\<rparr>"
  have split: "waiting a = ?us @ ?w # ?vs" using id_take_nth_drop [OF i] by simp
  have co: "conns_ok cs" and gr: "group_ok a (clients_of cs)" and pk: "parked_ok (?us @ ?w # ?vs) cs"
    using ok split by (simp_all add: server_ok_def)
  show ?thesis
  proof (cases "\<exists>k \<in> set (pk_keys ?w). k \<in> set rk")
    case False
    then show ?thesis
      using i ok by (intro step [of "Suc i" "[]" cs a]) (simp_all add: pass_step_def serve_pass.simps(2) Let_def)
  next
    case ready: True
    have "pk_id ?w \<in> pk_id ` set (?us @ ?w # ?vs)" by simp
    then obtain fd cn where fd: "hm_get (by_fd cs) fd = Some cn" and id: "cl_id (cn_client cn) = pk_id ?w"
      and bl: "cl_blocked (cn_client cn)" using pk unfolding parked_ok_def by blast
    then have of: "fd_of (pk_id ?w) cs = Some fd" using fd_of_iff [OF co] by blast
    have "(\<not> (\<exists>k \<in> set (pk_keys ?w). k \<in> set rk)) = False" using ready by simp
    then have one: "serve_pass host E rk (Suc n) i woken cs a =
        (if want_close cn then serve_pass host E rk n i woken cs ?a
         else (case retry host E (pk_argv ?w) ?a (cn_client cn) of
                 Panicked \<Rightarrow> Panicked
               | Done ((a, c), Some r) \<Rightarrow>
                   serve_pass host E rk n i (woken @ [fd])
                     (put_conn fd (push_reply r (cn\<lparr>cn_client := c\<lparr>cl_blocked := False\<rparr>\<rparr>)) cs) a
               | Done ((a, c), None) \<Rightarrow>
                   serve_pass host E rk n (i + 1) woken (put_conn fd (cn\<lparr>cn_client := c\<rparr>) cs)
                     (a\<lparr>waiting := take i (waiting a) @ ?w # drop i (waiting a)\<rparr>)))" for n
      using i by (simp only: serve_pass.simps Let_def if_False of fd option.case not_le [symmetric])
    have gr2: "group_ok ?a (clients_of cs)" by (rule group_waiting [OF gr])
    note get = clients_of_get [OF co fd]
    have len: "Suc (length (?us @ ?vs)) = length (waiting a)" using i by simp
    show ?thesis
    proof (cases "want_close cn")
      case True
      have "server_ok cs ?a" using co gr2 parked_drop [OF pk co fd id True] by (simp add: server_ok_def)
      then show ?thesis
        using True len by (intro step [of i "[]" cs ?a]) (simp_all add: pass_step_def one)
    next
      case live: False
      show ?thesis
      proof (cases "retry host E (pk_argv ?w) ?a (cn_client cn)")
        case Panicked
        then show ?thesis using live by (intro panicked) (simp add: one)
      next
        case (Done x)
        then obtain a2 c2 reply where rt: "retry host E (pk_argv ?w) ?a (cn_client cn) = Done ((a2, c2), reply)"
          by (cases x) auto
        have ck: "conn_ok ?a (cn_client cn)" using group_conn [OF gr2 get] by blast
        note k = retry_keeps [OF ck rt]
        have kp: "cl_id c2 = pk_id ?w" "cl_blocked c2" "waiting a2 = ?us @ ?vs"
          using k id bl by (simp_all add: keeps_def)
        have g2: "group_ok a2 ((clients_of cs)(pk_id ?w \<mapsto> c2))"
          using group_keeps [OF gr2 get k] by (simp add: id)
        show ?thesis
        proof (cases reply)
          case (Some r)
          let ?cn = "push_reply r (cn\<lparr>cn_client := c2\<lparr>cl_blocked := False\<rparr>\<rparr>)"
          have i2: "cl_id (cn_client ?cn) = cl_id (cn_client cn)" using kp id by simp
          have "group_ok a2 (clients_of (put_conn fd ?cn cs))"
            using group_unblock [OF g2, of "pk_id ?w" c2 False] by (simp add: put_clients_of [OF co fd i2] id)
          moreover have "parked_ok (?us @ ?vs) (put_conn fd ?cn cs)"
            by (rule parked_woken [OF pk co fd id]) (simp_all add: kp)
          ultimately have "server_ok (put_conn fd ?cn cs) a2"
            using put_conns_ok [OF co fd i2] by (simp add: server_ok_def kp)
          moreover have "buffered (put_conn fd ?cn cs) = buffered cs" using buffered_put [OF fd, of ?cn] by simp
          ultimately show ?thesis
            using live rt Some len kp(3)
            by (intro step [of i "[fd]" "put_conn fd ?cn cs" a2]) (simp_all add: pass_step_def one)
        next
          case None
          let ?cn = "cn\<lparr>cn_client := c2\<rparr>" and ?b = "a2\<lparr>waiting := take i (waiting a2) @ ?w # drop i (waiting a2)\<rparr>"
          have i2: "cl_id (cn_client ?cn) = cl_id (cn_client cn)" using kp id by simp
          have wb: "waiting ?b = waiting a" using split i by (simp add: kp(3))
          have "group_ok ?b (clients_of (put_conn fd ?cn cs))"
            using group_waiting [OF g2] by (simp add: put_clients_of [OF co fd i2] id)
          moreover have "parked_ok (waiting a) (put_conn fd ?cn cs)"
            using parked_same [OF pk co fd i2] bl kp(2) split by simp
          ultimately have "server_ok (put_conn fd ?cn cs) ?b"
            using put_conns_ok [OF co fd i2] unfolding server_ok_def wb by simp
          moreover have "buffered (put_conn fd ?cn cs) = buffered cs" using buffered_put [OF fd, of ?cn] by simp
          moreover have "ready_keys ?b = ready_keys a" using retry_parked [OF ck rt [unfolded None]] by simp
          ultimately show ?thesis
            using live rt None wb
            by (intro step [of "Suc i" "[]" "put_conn fd ?cn cs" ?b]) (simp_all add: pass_step_def one)
        qed
      qed
    qed
  qed
qed

lemma serve_pass_ok:
  "server_ok cs a \<Longrightarrow> serve_pass host E rk n i woken cs a = Done ((cs', a'), woken') \<Longrightarrow>
   \<exists>ws. woken' = woken @ ws \<and> server_ok cs' a' \<and> buffered cs' = buffered cs \<and>
        length (waiting a') + length ws \<le> length (waiting a) \<and> (ws = [] \<longrightarrow> ready_keys a' = ready_keys a)"
proof (induction n arbitrary: i woken cs a)
  case 0
  then show ?case by simp
next
  case (Suc n)
  show ?case
  proof (cases "i < length (waiting a)")
    case False
    then show ?thesis using Suc.prems by (simp add: serve_pass.simps(2))
  next
    case True
    from Suc.prems(1) True show ?thesis
    proof (cases rule: serve_pass_step [where host = host and E = E and rk = rk and woken = woken])
      case panicked
      then show ?thesis using Suc.prems(2) by simp
    next
      case (step i2 vs cs2 a2)
      note p = step(1) [unfolded pass_step_def]
      from Suc.IH [OF p [THEN conjunct1] Suc.prems(2) [unfolded step(2)]] obtain ws where
        "woken' = (woken @ vs) @ ws" "server_ok cs' a'" "buffered cs' = buffered cs2"
        "length (waiting a') + length ws \<le> length (waiting a2)" "ws = [] \<longrightarrow> ready_keys a' = ready_keys a2"
        by blast
      then show ?thesis using p by (intro exI [of _ "vs @ ws"]) auto
    qed
  qed
qed

text \<open>The number the pass starts from, the length of the registry, is enough: more changes nothing.\<close>

lemma serve_pass_enough:
  "server_ok cs a \<Longrightarrow> length (waiting a) \<le> i + n \<Longrightarrow>
   serve_pass host E rk (n + m) i woken cs a = serve_pass host E rk n i woken cs a"
proof (induction n arbitrary: i woken cs a)
  case 0
  then show ?case by (cases m) (simp_all add: serve_pass.simps(2))
next
  case (Suc n)
  show ?case
  proof (cases "i < length (waiting a)")
    case False
    then show ?thesis by (simp add: serve_pass.simps(2))
  next
    case True
    from Suc.prems(1) True show ?thesis
    proof (cases rule: serve_pass_step [where host = host and E = E and rk = rk and woken = woken])
      case panicked
      then show ?thesis by simp
    next
      case (step i2 vs cs2 a2)
      then have "server_ok cs2 a2" "length (waiting a2) \<le> i2 + n" using Suc.prems(2) by (auto simp: pass_step_def)
      then show ?thesis using Suc.IH step(2) by simp
    qed
  qed
qed

text \<open>The loop ends, with every written key served.\<close>

lemma serve_ready_keys_ends:
  "server_ok cs a \<Longrightarrow>
   \<exists>x. serve_ready_keys host E cs a = Some x \<and>
       (\<forall>cs' a'. x = Done (cs', a') \<longrightarrow> server_ok cs' a' \<and> ready_keys a' = [])"
proof (induction "weight cs a" arbitrary: cs a rule: less_induct)
  case less
  note unfold = serve_ready_keys.simps [of host E cs a]
  show ?case
  proof (cases "ready_keys a = []")
    case True
    then show ?thesis using less.prems by (simp add: unfold)
  next
    case rk: False
    let ?b = "a\<lparr>ready_keys := []\<rparr>"
    have ok: "server_ok cs ?b" by (rule server_frame [OF less.prems]) (simp_all add: server_store [OF less.prems])
    show ?thesis
    proof (cases "serve_pass host E (ready_keys a) (length (waiting a)) 0 [] cs ?b")
      case Panicked
      then show ?thesis using rk by (simp add: unfold)
    next
      case (Done y)
      then obtain cs1 a1 ws where p: "serve_pass host E (ready_keys a) (length (waiting a)) 0 [] cs ?b = Done ((cs1, a1), ws)"
        by (cases y) auto
      from serve_pass_ok [OF ok p] have s: "server_ok cs1 a1" "buffered cs1 = buffered cs"
        "length (waiting a1) + length ws \<le> length (waiting a)" "ws = [] \<longrightarrow> ready_keys a1 = []" by auto
      show ?thesis
      proof (cases "resume host E ws cs1 a1")
        case Panicked
        then show ?thesis using rk p by (simp add: unfold)
      next
        case (Done z)
        then obtain cs2 a2 where r: "resume host E ws cs1 a1 = Done (cs2, a2)" by (cases z) auto
        note t = resume_ok [OF s(1) r]
        have e: "serve_ready_keys host E cs a = serve_ready_keys host E cs2 a2" using rk p r by (simp add: unfold)
        show ?thesis
        proof (cases "ws = []")
          case True
          then have "cs2 = cs1" "a2 = a1" "ready_keys a1 = []" using r s(4) by simp_all
          then show ?thesis using s(1) unfolding e by (simp add: serve_ready_keys.simps [of host E cs1 a1])
        next
          case False
          then have "weight cs1 a1 < weight cs a" using s(2,3) by (cases ws) (simp_all add: weight_def)
          then have "weight cs2 a2 < weight cs a" using t by simp
          from less.hyps [OF this] t show ?thesis unfolding e by blast
        qed
      qed
    qed
  qed
qed

subsection \<open>Timeouts, deliveries and connections that come and go\<close>

lemma split_timed_out_mset:
  "split_timed_out E ws = (out, kept) \<Longrightarrow> mset ws = mset out + mset kept"
  by (induction ws arbitrary: out kept) (auto simp: case_prod_beta Let_def split: if_splits prod.splits)

lemma parked_mset: "parked_ok ws cs \<Longrightarrow> mset ws = mset vs \<Longrightarrow> parked_ok vs cs"
proof -
  assume p: "parked_ok ws cs" and m: "mset ws = mset vs"
  have "set ws = set vs" using m by (rule mset_eq_setD)
  moreover have "mset (map pk_id ws) = mset (map pk_id vs)" using m by (simp only: mset_map)
  then have "distinct (map pk_id ws) = distinct (map pk_id vs)" by (rule mset_eq_imp_distinct_iff)
  ultimately show ?thesis using p unfolding parked_ok_def by simp
qed

lemma answer_timeouts_ok:
  "conns_ok cs \<Longrightarrow> group_ok a (clients_of cs) \<Longrightarrow> parked_ok (out @ kept) cs \<Longrightarrow>
   answer_timeouts out cs = (cs', woken) \<Longrightarrow> conns_ok cs' \<and> group_ok a (clients_of cs') \<and> parked_ok kept cs'"
proof (induction out arbitrary: cs cs' woken)
  case Nil
  then show ?case by simp
next
  case (Cons w ws)
  note co = Cons.prems(1) and gr = Cons.prems(2) and pk = Cons.prems(3)
  have "pk_id w \<in> pk_id ` set ((w # ws) @ kept)" by simp
  then obtain fd cn where fd: "hm_get (by_fd cs) fd = Some cn" and id: "cl_id (cn_client cn) = pk_id w"
    using pk unfolding parked_ok_def by blast
  then have bc: "by_client (pk_id w) cs = Some (fd, cn)" using by_client_iff [OF co] by blast
  show ?case
  proof (cases "want_close cn")
    case True
    then have "parked_ok (ws @ kept) cs" using parked_drop [of "[]" w "ws @ kept", OF _ co fd id] pk by simp
    then show ?thesis using Cons.IH [OF co gr] Cons.prems(4) bc True by simp
  next
    case False
    let ?cn = "push_reply (pk_on_timeout w) (cn\<lparr>cn_client := (cn_client cn)\<lparr>cl_blocked := False\<rparr>\<rparr>)"
    have i: "cl_id (cn_client ?cn) = cl_id (cn_client cn)" by simp
    have "group_ok a (clients_of (put_conn fd ?cn cs))"
      using group_unblock [OF gr clients_of_get [OF co fd], of False] by (simp add: put_clients_of [OF co fd i])
    moreover have "parked_ok (ws @ kept) (put_conn fd ?cn cs)"
      using parked_woken [of "[]" w "ws @ kept" cs fd cn ?cn] pk co fd id by simp
    ultimately show ?thesis
      using Cons.IH [OF put_conns_ok [OF co fd i], of "fst (answer_timeouts ws (put_conn fd ?cn cs))"] Cons.prems(4) bc False
      by (simp add: Let_def case_prod_beta prod_eq_iff)
  qed
qed

lemma serve_timeouts_ok:
  assumes ok: "server_ok cs a" and s: "serve_timeouts host E cs a = Done (cs', a')"
  shows "server_ok cs' a'"
proof -
  obtain out kept where k: "split_timed_out E (waiting a) = (out, kept)" by (cases "split_timed_out E (waiting a)")
  let ?a = "a\<lparr>waiting := kept\<rparr>"
  obtain cs1 ws where t: "answer_timeouts out cs = (cs1, ws)" by (cases "answer_timeouts out cs")
  have r: "resume host E ws cs1 ?a = Done (cs', a')"
    using s unfolding serve_timeouts_def take_timed_out_def Let_def k prod.case t .
  have co: "conns_ok cs" and gr: "group_ok a (clients_of cs)" and pk: "parked_ok (waiting a) cs"
    using ok by (simp_all only: server_ok_def)
  have "mset (waiting a) = mset (out @ kept)" unfolding mset_append by (rule split_timed_out_mset [OF k])
  then have "parked_ok (out @ kept) cs" by (rule parked_mset [OF pk])
  from answer_timeouts_ok [OF co group_waiting [OF gr] this t] have "server_ok cs1 ?a"
    by (simp add: server_ok_def)
  then show ?thesis using resume_ok [OF _ r] by blast
qed

end
