(* ===== verification/EventLoop.thy ===== *)
theory EventLoop
  imports Serve
begin

text \<open>
  The event loop as a state machine: from a fresh server, any number of rounds against any clients
  and sockets. In every state it reaches the registries agree with the connections, and every round
  ends.
\<close>

subsection \<open>Connections that come and go\<close>

lemma clients_of_eqI:
  assumes "conns_ok cs"
    and "\<And>i c. C i = Some c \<longleftrightarrow> (\<exists>fd cn. hm_get (by_fd cs) fd = Some cn \<and> cn_client cn = c \<and> cl_id c = i)"
  shows "clients_of cs = C"
proof (rule ext)
  fix i
  have "clients_of cs i = Some c \<longleftrightarrow> C i = Some c" for c
    unfolding clients_of_iff [OF assms(1)] assms(2) ..
  then show "clients_of cs i = C i" by (metis option.exhaust)
qed

lemma get_insert:
  "hm_get (by_fd (conns_insert fd cn cs)) f = (if f = fd then Some cn else hm_get (by_fd cs) f)"
  "fd_of i (conns_insert fd cn cs) = (if i = cl_id (cn_client cn) then Some fd else fd_of i cs)"
  by (simp_all add: conns_insert_def fd_of_def hm_get_insert)

lemma insert_ok:
  assumes co: "conns_ok cs" and fd: "hm_get (by_fd cs) fd = None" and id: "clients_of cs (cl_id (cn_client cn)) = None"
  shows "conns_ok (conns_insert fd cn cs)"
    and "clients_of (conns_insert fd cn cs) = (clients_of cs)(cl_id (cn_client cn) \<mapsto> cn_client cn)"
    and "parked_ok ws cs \<Longrightarrow> \<not> cl_blocked (cn_client cn) \<Longrightarrow> parked_ok ws (conns_insert fd cn cs)"
proof -
  have other: "cl_id (cn_client d) \<noteq> cl_id (cn_client cn)" if "hm_get (by_fd cs) f = Some d" for f d
    using clients_of_get [OF co that] id by auto
  show c': "conns_ok (conns_insert fd cn cs)"
    unfolding conns_ok_def
  proof (intro conjI allI)
    show "hm_wf (by_fd (conns_insert fd cn cs))" using co by (simp add: conns_ok_def conns_insert_def)
    fix i f
    show "fd_of i (conns_insert fd cn cs) = Some f \<longleftrightarrow>
        (\<exists>d. hm_get (by_fd (conns_insert fd cn cs)) f = Some d \<and> cl_id (cn_client d) = i)"
    proof (cases "f = fd")
      case True
      have "fd_of i cs \<noteq> Some fd" using fd_of_iff [OF co, of i fd] fd by simp
      then show ?thesis using True by (auto simp: get_insert)
    next
      case False
      then show ?thesis using fd_of_iff [OF co, of i f] other [of f] by (auto simp: get_insert)
    qed
  qed
  show "clients_of (conns_insert fd cn cs) = (clients_of cs)(cl_id (cn_client cn) \<mapsto> cn_client cn)"
  proof (rule clients_of_eqI [OF c'])
    fix i c
    show "((clients_of cs)(cl_id (cn_client cn) \<mapsto> cn_client cn)) i = Some c \<longleftrightarrow>
        (\<exists>f d. hm_get (by_fd (conns_insert fd cn cs)) f = Some d \<and> cn_client d = c \<and> cl_id c = i)"
    proof (cases "i = cl_id (cn_client cn)")
      case True
      then show ?thesis using other by (fastforce simp: get_insert split: if_splits)
    next
      case False
      have "clients_of cs i = Some c \<longleftrightarrow> (\<exists>f d. hm_get (by_fd cs) f = Some d \<and> cn_client d = c \<and> cl_id c = i)"
        by (rule clients_of_iff [OF co])
      also have "\<dots> \<longleftrightarrow> (\<exists>f d. f \<noteq> fd \<and> hm_get (by_fd cs) f = Some d \<and> cn_client d = c \<and> cl_id c = i)"
        using fd by (metis option.distinct(1))
      also have "\<dots> \<longleftrightarrow> (\<exists>f d. hm_get (by_fd (conns_insert fd cn cs)) f = Some d \<and> cn_client d = c \<and> cl_id c = i)"
        using False by (auto simp: get_insert split: if_splits)
      finally show ?thesis using False by simp
    qed
  qed
  assume p: "parked_ok ws cs" and b: "\<not> cl_blocked (cn_client cn)"
  have "\<exists>f d. hm_get (by_fd (conns_insert fd cn cs)) f = Some d \<and> cl_id (cn_client d) = i \<and> cl_blocked (cn_client d)"
    if i: "i \<in> pk_id ` set ws" for i
  proof -
    from i p obtain f d where "hm_get (by_fd cs) f = Some d" "cl_id (cn_client d) = i" "cl_blocked (cn_client d)"
      unfolding parked_ok_def by blast
    moreover from this fd have "f \<noteq> fd" by auto
    ultimately show ?thesis by (intro exI [of _ f] exI [of _ d]) (simp add: get_insert)
  qed
  then show "parked_ok ws (conns_insert fd cn cs)"
    using p b unfolding parked_ok_def get_insert by (simp split: if_split_asm)
qed

lemma accept_ok:
  assumes ok: "server_ok cs a" and fd: "hm_get (by_fd cs) fd = None"
    and acc: "accept_one E (fd, addr) (cs, a) = (cs', a')"
  shows "server_ok cs' a'" and "\<exists>cn. by_fd cs' = hm_insert fd cn (by_fd cs)"
proof -
  define b where "b = a\<lparr>stats := (stats a)\<lparr>total_connections := total_connections (stats a) + 1\<rparr>\<rparr>"
  obtain d i where t: "take_client_id b = (d, i)" by (cases "take_client_id b")
  have okb: "server_ok cs b" using server_store [OF ok] by (intro server_frame [OF ok]) (simp_all add: b_def)
  then have g: "group_ok b (clients_of cs)" by (simp add: server_ok_def)
  note gd = group_accept(1) [OF g t, where E = E and addr = addr] group_accept(2) [OF g t]
  define full where "full \<longleftrightarrow> maxclients (config d) \<le> length (by_fd cs)"
  define cn where "cn = (if full then request_close (push_reply (Error ''ERR max number of clients reached'')
      (conn_new (new_client E i addr))) else conn_new (new_client E i addr))"
  have "accept_one E (fd, addr) (cs, a) =
      (conns_insert fd cn cs,
       if full then d\<lparr>stats := (stats d)\<lparr>rejected_connections := rejected_connections (stats d) + 1\<rparr>\<rparr> else d)"
    unfolding accept_one_def Let_def prod.case b_def [symmetric] t full_def [symmetric] cn_def ..
  then have cs': "cs' = conns_insert fd cn cs"
    and a': "a' = d \<or> a' = d\<lparr>stats := (stats d)\<lparr>rejected_connections := rejected_connections (stats d) + 1\<rparr>\<rparr>"
    using acc by (cases full; simp)+
  have cn: "cn_client cn = new_client E i addr" by (simp add: cn_def conn_new_def)
  show "\<exists>cn. by_fd cs' = hm_insert fd cn (by_fd cs)" unfolding cs' by (auto simp: conns_insert_def)
  have i: "cl_id (cn_client cn) = i" "\<not> cl_blocked (cn_client cn)" by (simp_all add: cn new_client_def)
  have w: "waiting d = waiting a" using t by (auto simp: take_client_id_def b_def)
  have co: "conns_ok cs" using ok by (simp add: server_ok_def)
  note ins = insert_ok [OF co fd, of cn, unfolded i(1), OF gd(2)]
  have "group_ok d (clients_of cs')" unfolding cs' ins(2) cn by (rule gd(1))
  moreover have "parked_ok (waiting d) cs'"
    unfolding cs' w using ins(3) [OF _ i(2)] ok by (simp add: server_ok_def)
  ultimately have sd: "server_ok cs' d" using ins(1) by (simp add: server_ok_def cs')
  have "server_ok cs' (d\<lparr>stats := s\<rparr>)" for s
    by (rule server_frame [OF sd]) (simp_all add: server_store [OF sd])
  with sd a' show "server_ok cs' a'" by blast
qed

lemma get_remove:
  "hm_get (hm_remove k m) x = (if x = k then None else hm_get m x)"
  by (rule hm_get_remove)

lemma remove_ok:
  assumes ok: "server_ok cs a"
  shows "case conns_remove fd (cs, a) of (cs', a') \<Rightarrow> server_ok cs' a'"
proof (cases "hm_get (by_fd cs) fd")
  case None
  then show ?thesis using ok by (simp add: conns_remove_def)
next
  case (Some cn)
  let ?i = "cl_id (cn_client cn)"
  obtain a' c' where f: "forget_client a (cn_client cn) = (a', c')" by (cases "forget_client a (cn_client cn)")
  define cs' where "cs' = \<lparr>by_fd = hm_remove fd (by_fd cs), by_id = hm_remove ?i (by_id cs)\<rparr>"
  have r: "conns_remove fd (cs, a) = (cs', a')" using Some f by (simp add: conns_remove_def cs'_def)
  have co: "conns_ok cs" and gr: "group_ok a (clients_of cs)" and pk: "parked_ok (waiting a) cs"
    using ok by (simp_all add: server_ok_def)
  have g: "hm_get (by_fd cs') f = (if f = fd then None else hm_get (by_fd cs) f)"
    "fd_of i cs' = (if i = ?i then None else fd_of i cs)" for f i
    by (simp_all add: cs'_def fd_of_def hm_get_remove)
  have other: "cl_id (cn_client d) \<noteq> ?i" if "hm_get (by_fd cs) f = Some d" "f \<noteq> fd" for f d
    using one_fd [OF co that(1) Some] that(2) by blast
  have co': "conns_ok cs'"
    unfolding conns_ok_def
  proof (intro conjI allI)
    show "hm_wf (by_fd cs')" using co by (simp add: conns_ok_def cs'_def)
    fix i f
    show "fd_of i cs' = Some f \<longleftrightarrow> (\<exists>d. hm_get (by_fd cs') f = Some d \<and> cl_id (cn_client d) = i)"
      using fd_of_iff [OF co, of i f] other [of f] Some by (auto simp: g)
  qed
  have "clients_of cs' = (clients_of cs)(?i := None)"
  proof (rule clients_of_eqI [OF co'])
    fix i c
    show "((clients_of cs)(?i := None)) i = Some c \<longleftrightarrow>
        (\<exists>f d. hm_get (by_fd cs') f = Some d \<and> cn_client d = c \<and> cl_id c = i)"
    proof (cases "i = ?i")
      case True
      then show ?thesis using other by (auto simp: g split: if_splits)
    next
      case False
      then have "(\<exists>f d. hm_get (by_fd cs) f = Some d \<and> cn_client d = c \<and> cl_id c = i) \<longleftrightarrow>
          (\<exists>f d. hm_get (by_fd cs') f = Some d \<and> cn_client d = c \<and> cl_id c = i)"
        unfolding g(1) using Some by (metis option.inject option.distinct(1))
      then show ?thesis using False clients_of_iff [OF co, of i c] by simp
    qed
  qed
  moreover have "group_ok a' ((clients_of cs)(?i := None))"
    by (rule group_forget [OF gr clients_of_get [OF co Some] f])
  moreover have w: "waiting a' = filter (\<lambda>w. pk_id w \<noteq> ?i) (waiting a)"
    using f by (auto simp: forget_client_def)
  have "parked_ok (waiting a') cs'"
    unfolding parked_ok_def
  proof (intro conjI ballI allI impI)
    show "distinct (map pk_id (waiting a'))" using pk by (simp add: w parked_ok_def distinct_map_filter)
  next
    fix i assume "i \<in> pk_id ` set (waiting a')"
    then have i: "i \<in> pk_id ` set (waiting a)" "i \<noteq> ?i" by (auto simp: w)
    then obtain f d where d: "hm_get (by_fd cs) f = Some d" "cl_id (cn_client d) = i" "cl_blocked (cn_client d)"
      using pk unfolding parked_ok_def by blast
    then have "f \<noteq> fd" using Some i(2) by auto
    with d show "\<exists>f d. hm_get (by_fd cs') f = Some d \<and> cl_id (cn_client d) = i \<and> cl_blocked (cn_client d)"
      by (intro exI [of _ f] exI [of _ d]) (simp add: g)
  next
    fix f d assume "hm_get (by_fd cs') f = Some d" "cl_blocked (cn_client d)"
    then have d: "hm_get (by_fd cs) f = Some d" "f \<noteq> fd" "cl_blocked (cn_client d)" by (auto simp: g split: if_splits)
    then have "want_close d \<or> cl_id (cn_client d) \<in> pk_id ` set (waiting a)" using pk unfolding parked_ok_def by blast
    then show "want_close d \<or> cl_id (cn_client d) \<in> pk_id ` set (waiting a')" using other [OF d(1,2)] by (auto simp: w)
  qed
  ultimately show ?thesis using co' r by (simp add: server_ok_def)
qed

subsection \<open>The end of a round\<close>

lemma deliver_ok: "server_ok cs a \<Longrightarrow> server_ok (deliver frames cs) a"
proof (induction frames cs rule: deliver.induct)
  case (1 cs)
  then show ?case by simp
next
  case (2 i frame rest cs)
  show ?case
  proof (cases "by_client i cs")
    case None
    then show ?thesis using 2 by simp
  next
    case (Some x)
    obtain fd cn where x: "x = (fd, cn)" by (cases x)
    have co: "conns_ok cs" using 2(3) by (simp add: server_ok_def)
    then have fd: "hm_get (by_fd cs) fd = Some cn" using Some x by_client_iff [OF co, of i fd cn] by simp
    have "advances (cn, a) (push_reply frame cn, a)"
      by (rule advances_buffers [OF advances_refl [OF server_conn [OF 2(3) fd]]]) simp_all
    from server_advance [OF 2(3) fd refl _ this] have "server_ok (put_conn fd (push_reply frame cn) cs) a" by simp
    then show ?thesis using 2(2) Some x by simp
  qed
qed

lemma map_conns_ok:
  assumes ok: "server_ok cs a"
    and f: "\<And>fd cn. cn_client (f fd cn) = cn_client cn" "\<And>fd cn. want_close cn \<Longrightarrow> want_close (f fd cn)"
  shows "server_ok (cs\<lparr>by_fd := map (\<lambda>(fd, cn). (fd, f fd cn)) (by_fd cs)\<rparr>) a" 
proof -
  define ns where "ns = cs\<lparr>by_fd := map (\<lambda>(fd, cn). (fd, f fd cn)) (by_fd cs)\<rparr>"
  have co: "conns_ok cs" and gr: "group_ok a (clients_of cs)" and pk: "parked_ok (waiting a) cs"
    using ok by (simp_all add: server_ok_def)
  have "map_of (map (\<lambda>(fd, cn). (fd, f fd cn)) m) x = map_option (f x) (map_of m x)" for m x
    by (induction m) auto
  then have g: "hm_get (by_fd ns) x = map_option (f x) (hm_get (by_fd cs) x)" "fd_of i ns = fd_of i cs" for x i
    by (simp_all add: ns_def fd_of_def)
  have "hm_keys (by_fd ns) = hm_keys (by_fd cs)" by (simp add: ns_def case_prod_beta)
  then have "hm_wf (by_fd ns)" using co by (simp add: hm_wf_def conns_ok_def del: map_map)
  then have co': "conns_ok ns" using fd_of_iff [OF co] by (auto simp: conns_ok_def g f)
  moreover have "clients_of ns = clients_of cs"
  proof (rule clients_of_eqI [OF co'])
    fix i c
    show "clients_of cs i = Some c \<longleftrightarrow> (\<exists>x d. hm_get (by_fd ns) x = Some d \<and> cn_client d = c \<and> cl_id c = i)"
      unfolding clients_of_iff [OF co] g map_option_eq_Some using f(1) by metis
  qed
  moreover have "parked_ok (waiting a) ns"
    unfolding parked_ok_def
  proof (intro conjI ballI allI impI)
    show "distinct (map pk_id (waiting a))" using pk by (simp add: parked_ok_def)
  next
    fix i assume "i \<in> pk_id ` set (waiting a)"
    then obtain x d where "hm_get (by_fd cs) x = Some d" "cl_id (cn_client d) = i" "cl_blocked (cn_client d)"
      using pk unfolding parked_ok_def by blast
    then show "\<exists>x d. hm_get (by_fd ns) x = Some d \<and> cl_id (cn_client d) = i \<and> cl_blocked (cn_client d)"
      by (intro exI [of _ x] exI [of _ "f x d"]) (simp add: g f)
  next
    fix x d assume "hm_get (by_fd ns) x = Some d" "cl_blocked (cn_client d)"
    then obtain e where "hm_get (by_fd cs) x = Some e" "d = f x e" "cl_blocked (cn_client e)" by (auto simp: g f)
    then show "want_close d \<or> cl_id (cn_client d) \<in> pk_id ` set (waiting a)"
      using pk f unfolding parked_ok_def by metis
  qed
  ultimately have "server_ok ns a" using gr by (simp add: server_ok_def)
  then show ?thesis by (simp add: ns_def)
qed

lemma remove_all_ok: "server_ok cs a \<Longrightarrow> fold conns_remove fds (cs, a) = (cs', a') \<Longrightarrow> server_ok cs' a'"
proof (induction fds arbitrary: cs a)
  case Nil
  then show ?case by simp
next
  case (Cons fd fds)
  obtain cs1 a1 where r: "conns_remove fd (cs, a) = (cs1, a1)" by (cases "conns_remove fd (cs, a)")
  then show ?case using Cons.IH [of cs1 a1] remove_ok [OF Cons.prems(1), of fd] Cons.prems(2) by simp
qed

lemma server_tick: "server_ok cs a \<Longrightarrow> server_ok cs (tick E a)"
  using group_tick tick_frame [of E a] by (simp add: server_ok_def)

lemma finish_ok:
  assumes ok: "server_ok cs a" and x: "finish_round E writes cs a = (cs', a')"
  shows "server_ok cs' a'"
proof -
  let ?b = "a\<lparr>outbox := []\<rparr>" and ?cs = "flush_all writes (deliver (outbox a) cs)"
  obtain cs2 a2 where r: "fold conns_remove (closing ?cs) (?cs, ?b) = (cs2, a2)"
    by (cases "fold conns_remove (closing ?cs) (?cs, ?b)")
  let ?c = "a2\<lparr>stats := (stats a2)\<lparr>connected_clients := length (by_fd cs2)\<rparr>\<rparr>"
  have e: "cs' = cs2" "a' = tick E ?c"
    using x r unfolding finish_round_def deliver_outbox_def Let_def prod.case by auto
  have "server_ok cs ?b" using server_store [OF ok] by (intro server_frame [OF ok]) simp_all
  then have "server_ok ?cs ?b"
    unfolding flush_all_def by (intro map_conns_ok deliver_ok) (simp_all add: handle_write_frame)
  from remove_all_ok [OF this r] have s: "server_ok cs2 a2" .
  have "server_ok cs2 ?c" using server_store [OF s] by (intro server_frame [OF s]) simp_all
  then show ?thesis unfolding e by (rule server_tick)
qed

subsection \<open>Rounds\<close>

text \<open>The operating system gives a new connection a descriptor no open connection has.\<close>

definition fresh_fds :: "poll_events \<Rightarrow> connections \<Rightarrow> bool" where
  "fresh_fds ev cs \<longleftrightarrow>
     distinct (map fst (pe_accepted ev)) \<and> set (map fst (pe_accepted ev)) \<inter> set (hm_keys (by_fd cs)) = {}"

lemma accept_all_ok:
  "server_ok cs a \<Longrightarrow> distinct (map fst ps) \<Longrightarrow> \<forall>fd \<in> fst ` set ps. hm_get (by_fd cs) fd = None \<Longrightarrow>
   fold (accept_one E) ps (cs, a) = (cs', a') \<Longrightarrow> server_ok cs' a'"
proof (induction ps arbitrary: cs a)
  case Nil
  then show ?case by simp
next
  case (Cons p ps)
  obtain fd addr where p: "p = (fd, addr)" by (cases p)
  obtain cs1 a1 where x: "accept_one E (fd, addr) (cs, a) = (cs1, a1)" by (cases "accept_one E (fd, addr) (cs, a)")
  have fd: "hm_get (by_fd cs) fd = None" using Cons.prems(3) p by simp
  note acc = accept_ok [OF Cons.prems(1) fd x]
  have "fd \<notin> fst ` set ps" using Cons.prems(2) p by simp
  moreover obtain cn where "by_fd cs1 = hm_insert fd cn (by_fd cs)" using acc(2) by blast
  ultimately have "\<forall>f \<in> fst ` set ps. hm_get (by_fd cs1) f = None"
    using Cons.prems(3) by (metis hm_get_insert image_insert insertI2 list.simps(15))
  then show ?case using Cons.IH [OF acc(1)] Cons.prems(2,4) p x by simp
qed

lemma poll_once_ok:
  assumes ok: "server_ok cs a" and fresh: "fresh_fds ev cs"
  shows "\<exists>x. poll_once host E ev cs a = Some x \<and> (\<forall>cs' a'. x = Done (cs', a') \<longrightarrow> server_ok cs' a')"
proof -
  let ?order = "map fst (by_fd cs)"
  obtain cs1 a1 where acc: "fold (accept_one E) (pe_accepted ev) (cs, a) = (cs1, a1)"
    by (cases "fold (accept_one E) (pe_accepted ev) (cs, a)")
  have "\<forall>fd \<in> fst ` set (pe_accepted ev). hm_get (by_fd cs) fd = None"
    using fresh by (auto simp: fresh_fds_def map_of_eq_None_iff)
  then have s1: "server_ok cs1 a1" using accept_all_ok [OF ok _ _ acc] fresh by (simp add: fresh_fds_def)
  note unf = poll_once_def Let_def acc prod.case
  show ?thesis
  proof (cases "handle_all host E (pe_ready ev) ?order cs1 a1")
    case Panicked
    then show ?thesis unfolding unf by simp
  next
    case (Done z)
    then obtain cs2 a2 where h: "handle_all host E (pe_ready ev) ?order cs1 a1 = Done (cs2, a2)" by (cases z) auto
    have s2: "server_ok cs2 a2" by (rule handle_all_ok [OF s1 h])
    from serve_ready_keys_ends [OF s2] obtain y where y: "serve_ready_keys host E cs2 a2 = Some y"
      and s3: "\<And>cs' a'. y = Done (cs', a') \<Longrightarrow> server_ok cs' a'" by metis
    show ?thesis
    proof (cases y)
      case Panicked
      then show ?thesis unfolding unf using h y by simp
    next
      case (Done x)
      then obtain cs3 a3 where x: "y = Done (cs3, a3)" by (cases x) auto
      show ?thesis
      proof (cases "serve_timeouts host E cs3 a3")
        case Panicked
        then show ?thesis unfolding unf using h y x by simp
      next
        case (Done v)
        then obtain cs4 a4 where t: "serve_timeouts host E cs3 a3 = Done (cs4, a4)" by (cases v) auto
        have "server_ok cs4 a4" by (rule serve_timeouts_ok [OF s3 [OF x] t])
        then have "finish_round E (pe_flush ev) cs4 a4 = (cs', a') \<Longrightarrow> server_ok cs' a'" for cs' a'
          by (rule finish_ok)
        then show ?thesis unfolding unf using h y x t by simp
      qed
    qed
  qed
qed

text \<open>
  The states of the server between rounds: it starts with whatever keyspace was loaded, and each
  round may run with other parameters, another clock reading and any outcome of the poll.
\<close>

inductive server_reach :: "connections \<Rightarrow> app \<Rightarrow> bool" where
  start: "store_ok st \<Longrightarrow> server_reach no_connections ((new_app E cfg)\<lparr>store := st\<rparr>)"
| round: "server_reach cs a \<Longrightarrow> fresh_fds ev cs \<Longrightarrow> poll_once host E ev cs a = Some (Done (cs', a')) \<Longrightarrow>
    server_reach cs' a'"

lemma start_ok: "store_ok st \<Longrightarrow> server_ok no_connections ((new_app E cfg)\<lparr>store := st\<rparr>)"
proof -
  assume st: "store_ok st"
  have co: "conns_ok no_connections" by (simp add: conns_ok_def no_connections_def fd_of_def)
  then have "clients_of no_connections = Map.empty"
    by (rule clients_of_eqI) (simp add: no_connections_def)
  moreover have "group_ok ((new_app E cfg)\<lparr>store := st\<rparr>) Map.empty"
    by (rule group_frame [OF group_start [of E cfg]]) (simp_all add: st)
  ultimately show ?thesis using co by (simp add: server_ok_def parked_ok_def new_app_def no_connections_def)
qed

lemma reach_ok: "server_reach cs a \<Longrightarrow> server_ok cs a"
proof (induction rule: server_reach.induct)
  case (start st E cfg)
  then show ?case by (rule start_ok)
next
  case (round cs a ev host E cs' a')
  then show ?case using poll_once_ok [OF round.IH round.hyps(2), of host E] by auto
qed

text \<open>A first round: one client connects.\<close>

definition first_app :: app where
  "first_app = (new_app sample_env small_config)\<lparr>store := empty_store sample_env\<rparr>"

definition first_events :: poll_events where
  "first_events =
     \<lparr>pe_accepted = [(7, ''127.0.0.1:5000'')],
      pe_ready = (\<lambda>fd. \<lparr>rd_hangup = False, rd_read = None, rd_write = None\<rparr>), pe_flush = (\<lambda>fd. [])\<rparr>"

lemma first_reach: "server_reach no_connections first_app"
  unfolding first_app_def by (intro start empty_store_ok)

lemma first_fresh: "fresh_fds first_events no_connections"
  by (simp add: fresh_fds_def first_events_def no_connections_def)

lemma first_round:
  "\<exists>cs a. poll_once sample_host sample_env first_events no_connections first_app = Some (Done (cs, a)) \<and>
     fd_of 1 cs = Some 7"
  unfolding poll_once_def first_events_def no_connections_def first_app_def new_app_def
  by (simp add: accept_one_def take_client_id_def conn_new_def new_client_def small_config_def conns_insert_def
      serve_ready_keys.simps serve_timeouts_def take_timed_out_def finish_round_def deliver_outbox_def flush_all_def
      closing_def pending_output_def fd_of_def Let_def)

text \<open>
  C7. Whatever clients connect, send and disconnect, and however the poll and the sockets behave,
  between rounds the registries agree with the connections: the index from client identifiers to
  descriptors is exact; the waiting list holds at most one command per client, always of a connected
  and blocked client, and a blocked client that is not closing is in it; the watch registry counts exactly
  the keys the connected clients watch; the pub/sub tables list exactly the connected clients'
  subscriptions; and the keyspace is well formed.
\<close>

theorem registries_match_connections:
  assumes "server_reach cs a"
  shows "server_ok cs a"
  using assms by (rule reach_ok)

lemma registries_match_connections_witness:
  "\<exists>cs a. fd_of 1 cs = Some 7 \<and> server_ok cs a"
proof -
  from first_round obtain cs a where
    "poll_once sample_host sample_env first_events no_connections first_app = Some (Done (cs, a))" "fd_of 1 cs = Some 7"
    by blast
  with registries_match_connections [OF round [OF first_reach first_fresh this(1)]] show ?thesis by blast
qed

text \<open>
  C8. Every round of the event loop ends: the parser consumes at least a byte per request, and the loop that
  serves woken clients cannot go on for ever, because each client it wakes leaves the waiting list
  and can only come back by consuming bytes of its own.
\<close>

theorem rounds_end:
  assumes "server_reach cs a" and "fresh_fds ev cs"
  shows "\<exists>x. poll_once host E ev cs a = Some x"
  using poll_once_ok [OF reach_ok [OF assms(1)] assms(2), of host E] by blast

lemma rounds_end_witness:
  "\<exists>x. poll_once sample_host sample_env first_events no_connections first_app = Some x"
  by (rule rounds_end [OF first_reach first_fresh])



end
