(* ===== verification/Load.thy ===== *)
theory Load
  imports Persist CmdHash CmdSet MemArgs
begin

text \<open>
  \<^verbatim>\<open>src/persist.rs\<close>, the reading half: the line and blob readers, the two loaders and the
  installation of what they read. A reader takes the bytes that are left and panics, fails with
  an I/O error or gives a value and what remains. A length no allocation can have panics; below that
  memory is taken to suffice.
\<close>

subsection \<open>Readers\<close>

datatype io_error = InvalidData | UnexpectedEof

datatype 'a rd = RdPanic | RdFail io_error | Read 'a bytes

definition rd_bind :: "'a rd \<Rightarrow> ('a \<Rightarrow> bytes \<Rightarrow> 'b rd) \<Rightarrow> 'b rd" where
  "rd_bind x f = (case x of RdPanic \<Rightarrow> RdPanic | RdFail e \<Rightarrow> RdFail e | Read a bs \<Rightarrow> f a bs)"

text \<open>Rust's \<open>str\<close> helpers the loaders use.\<close>

definition trim_eol :: "str \<Rightarrow> str" where
  "trim_eol s = rev (dropWhile (\<lambda>c. c = 10 \<or> c = 13) (rev s))"

function split_ws :: "str \<Rightarrow> str list" where
  "split_ws s =
     (case dropWhile is_whitespace s of
        [] \<Rightarrow> []
      | c # t \<Rightarrow> (c # takeWhile (\<lambda>c. \<not> is_whitespace c) t) # split_ws (dropWhile (\<lambda>c. \<not> is_whitespace c) t))"
  by pat_completeness auto

termination
proof (relation "measure length")
  fix s t and c :: nat
  assume "dropWhile is_whitespace s = c # t"
  then have "length (c # t) \<le> length s" by (metis length_dropWhile_le)
  moreover have "length (dropWhile (\<lambda>c. \<not> is_whitespace c) t) \<le> length t" by (rule length_dropWhile_le)
  ultimately show "(dropWhile (\<lambda>c. \<not> is_whitespace c) t, s) \<in> measure length" by simp
qed simp

declare split_ws.simps [simp del]

abbreviation parse_usize :: "str \<Rightarrow> nat option" where
  "parse_usize \<equiv> str_parse_uint u64_max"

definition lit :: "string \<Rightarrow> str" where
  "lit s = map ord_of s"

text \<open>\<open>split_once\<close> and \<open>rsplit_once\<close> at a space, and \<open>splitn(3, ' ')\<close>.\<close>

definition split_once :: "str \<Rightarrow> (str \<times> str) option" where
  "split_once s = (if 32 \<in> set s then Some (takeWhile (\<lambda>c. c \<noteq> 32) s, tl (dropWhile (\<lambda>c. c \<noteq> 32) s)) else None)"

definition rsplit_once :: "str \<Rightarrow> (str \<times> str) option" where
  "rsplit_once s = map_option (\<lambda>(a, b). (rev b, rev a)) (split_once (rev s))"

definition split3 :: "str \<Rightarrow> str \<times> (str \<times> str option) option" where
  "split3 s =
     (case split_once s of
        None \<Rightarrow> (s, None)
      | Some (a, r) \<Rightarrow>
          (a, Some (case split_once r of None \<Rightarrow> (r, None) | Some (b, c) \<Rightarrow> (b, Some c))))"

text \<open>\<open>DumpReader::line\<close>, \<open>blob\<close> and \<open>score\<close>.\<close>

definition read_line :: "bytes \<Rightarrow> str option rd" where
  "read_line bs =
     (if bs = [] then Read None []
      else
        (let l = takeWhile (\<lambda>c. c \<noteq> CHR 0x0A) bs
         in case from_utf8 l of
              None \<Rightarrow> RdFail InvalidData
            | Some s \<Rightarrow> Read (Some (trim_eol s)) (drop (length l + 1) bs)))"

definition MAX_ALLOC :: nat where "MAX_ALLOC = 2 ^ 63 - 1"

definition read_blob :: "bytes \<Rightarrow> bytes option rd" where
  "read_blob bs =
     rd_bind (read_line bs) (\<lambda>header bs.
       case Option.bind header (\<lambda>h. parse_usize (trim h)) of
         None \<Rightarrow> Read None bs
       | Some n \<Rightarrow>
           if n > MAX_ALLOC then RdPanic
           else if length bs < n then RdFail UnexpectedEof
           else Read (Some (take n bs)) (drop (n + 1) bs))"

definition read_score :: "bytes \<Rightarrow> f64 option rd" where
  "read_score bs =
     rd_bind (read_line bs) (\<lambda>l bs. Read (Option.bind l (\<lambda>s. parse_f64 (utf8_encode s))) bs)"

text \<open>\<open>Vec::with_capacity(count)\<close> for elements of a given size.\<close>

definition with_capacity :: "nat \<Rightarrow> nat \<Rightarrow> 'a rd \<Rightarrow> 'a rd" where
  "with_capacity each n x = (if each * n > MAX_ALLOC then RdPanic else x)"

text \<open>A loop that reads up to \<open>n\<close> items and stops at the first that is not there.\<close>

primrec read_up_to :: "(bytes \<Rightarrow> 'a option rd) \<Rightarrow> nat \<Rightarrow> bytes \<Rightarrow> 'a list rd" where
  "read_up_to f 0 bs = Read [] bs"
| "read_up_to f (Suc n) bs =
     rd_bind (f bs) (\<lambda>x bs.
       case x of None \<Rightarrow> Read [] bs | Some x \<Rightarrow> rd_bind (read_up_to f n bs) (\<lambda>xs bs. Read (x # xs) bs))"

text \<open>Two reads whose results are looked at together.\<close>

definition read_both :: "(bytes \<Rightarrow> 'a option rd) \<Rightarrow> (bytes \<Rightarrow> 'b option rd) \<Rightarrow> bytes \<Rightarrow> ('a \<times> 'b) option rd" where
  "read_both f g bs =
     rd_bind (f bs) (\<lambda>a bs. rd_bind (g bs) (\<lambda>b bs.
       Read (case (a, b) of (Some a, Some b) \<Rightarrow> Some (a, b) | _ \<Rightarrow> None) bs))"

subsection \<open>One memory index\<close>

definition from_unix_millis :: "int \<Rightarrow> time" where
  "from_unix_millis n = max n 0 * 1000000"

definition parse_f32 :: "str \<Rightarrow> f32 option" where
  "parse_f32 s = str_parse_float F32 s"

definition or_else :: "'a \<Rightarrow> 'a option \<Rightarrow> 'a" where
  "or_else d x = (case x of None \<Rightarrow> d | Some a \<Rightarrow> a)"

text \<open>The configuration line and the number of the next identifier it assigns.\<close>

definition parse_header :: "str list \<Rightarrow> (memory_config \<times> nat) option" where
  "parse_header fs =
     (if length fs < 9 then None
      else
        (case (mode_parse (utf8_encode (fs ! 0)), metric_parse (utf8_encode (fs ! 2))) of
           (Some mode, Some metric) \<Rightarrow>
             (let number = (\<lambda>i. or_else (Fin 0) (parse_f32 (fs ! i)));
                  c = memory_config_new mode (or_else 0 (parse_usize (fs ! 1))) metric;
                  w = \<lparr>w_keyword = number 3, w_vector = number 4, w_recency = number 5, w_importance = number 6\<rparr>;
                  c = (if weights_valid w then c\<lparr>mc_weights := w\<rparr> else c);
                  c = (case parse_usize (fs ! 7) of None \<Rightarrow> c | Some s \<Rightarrow> c\<lparr>mc_half_life := int s * 1000000000\<rparr>)
              in Some (c, or_else 1 (parse_usize (fs ! 8))))
         | _ \<Rightarrow> None))"

text \<open>The numbers line of a record: the record so far, and how many fields and numbers follow.\<close>

definition parse_record :: "bytes \<Rightarrow> bytes \<Rightarrow> str list \<Rightarrow> (memory_record \<times> nat \<times> nat) option" where
  "parse_record i t ps =
     (if length ps < 6 then None
      else
        (let millis = (\<lambda>k. or_else (-1) (str_parse_i64 (ps ! k)));
             r = record_new i t (from_unix_millis (millis 0));
             r = r\<lparr>rec_updated_at := from_unix_millis (millis 1),
                   rec_importance := clamp_unit (or_else (Fin (1 / 2)) (parse_f32 (ps ! 2))),
                   rec_expire_at := (if millis 3 \<ge> 0 then Some (from_unix_millis (millis 3)) else None)\<rparr>
         in Some (r, or_else 0 (parse_usize (ps ! 4)), or_else 0 (parse_usize (ps ! 5)))))"

text \<open>Metadata pairs and the vector, then the record is in. A vector of width 0 divides by zero.\<close>

fun read_meta :: "nat \<Rightarrow> memory_record \<Rightarrow> bytes \<Rightarrow> memory_record option rd" where
  "read_meta 0 r bs = Read (Some r) bs"
| "read_meta (Suc n) r bs =
     rd_bind (read_both read_blob read_blob bs) (\<lambda>p bs.
       case p of None \<Rightarrow> Read None bs | Some (f, v) \<Rightarrow> read_meta n (fst (set_meta f v r)) bs)"

definition read_vector :: "nat \<Rightarrow> bytes \<Rightarrow> f32 list option option rd" where
  "read_vector n bs =
     (if n = 0 then Read (Some None) bs
      else rd_bind (read_blob bs) (\<lambda>b bs.
        Read (map_option (\<lambda>b. case parse_le_f32 b of Inl _ \<Rightarrow> None | Inr vs \<Rightarrow> Some vs) b) bs))"

definition add_loaded :: "memory_record \<Rightarrow> f32 list option \<Rightarrow> nat \<Rightarrow> memory \<Rightarrow> memory outcome" where
  "add_loaded r v max_terms m =
     (if stores_vectors (mc_mode (mem_config m)) \<and> mc_dim (mem_config m) = 0 \<and> v = Some [] then Panicked
      else Done (load_record r v (Some max_terms) m))"

definition read_record :: "nat \<Rightarrow> memory \<Rightarrow> bytes \<Rightarrow> memory option rd" where
  "read_record max_terms m bs =
     rd_bind (read_both (read_both read_blob read_blob) read_line bs) (\<lambda>x bs.
       case x of
         None \<Rightarrow> Read None bs
       | Some ((i, t), line) \<Rightarrow>
           (case parse_record i t (split_ws line) of
              None \<Rightarrow> Read None bs
            | Some (r, n_meta, n_floats) \<Rightarrow>
                rd_bind (read_meta n_meta r bs) (\<lambda>r bs.
                  case r of
                    None \<Rightarrow> Read None bs
                  | Some r \<Rightarrow>
                      rd_bind (read_vector n_floats bs) (\<lambda>v bs.
                        case v of
                          None \<Rightarrow> Read None bs
                        | Some v \<Rightarrow>
                            (case add_loaded r v max_terms m of
                               Panicked \<Rightarrow> RdPanic
                             | Done m \<Rightarrow> Read (Some m) bs)))))"

primrec read_records :: "nat \<Rightarrow> nat \<Rightarrow> memory \<Rightarrow> bytes \<Rightarrow> memory option rd" where
  "read_records max_terms 0 m bs = Read (Some m) bs"
| "read_records max_terms (Suc n) m bs =
     rd_bind (read_record max_terms m bs) (\<lambda>m bs.
       case m of None \<Rightarrow> Read None bs | Some m \<Rightarrow> read_records max_terms n m bs)"

definition read_memory :: "nat \<Rightarrow> nat \<Rightarrow> bytes \<Rightarrow> memory option rd" where
  "read_memory cnt max_terms bs =
     rd_bind (read_line bs) (\<lambda>header bs.
       case Option.bind header (\<lambda>h. parse_header (split_ws h)) of
         None \<Rightarrow> Read None bs
       | Some (c, n) \<Rightarrow> read_records max_terms cnt (set_next_id n (memory_new c)) bs)"

subsection \<open>Entries\<close>

datatype loaded_value =
    LStr bytes
  | LList "bytes list"
  | LHash "(bytes \<times> bytes) list"
  | LSet "bytes list"
  | LZset "(bytes \<times> f64) list"
  | LMemory memory

record loaded_entry =
  le_key :: bytes
  le_value :: loaded_value
  le_expire_at :: int

text \<open>One turn of the version 2 loop: the end of the records, a line to skip, or an entry.\<close>

datatype 'a turn = Stop | Skip | Take 'a

definition read_value :: "nat \<Rightarrow> str \<Rightarrow> nat \<Rightarrow> bytes \<Rightarrow> loaded_value turn rd" where
  "read_value max_terms kind cnt bs =
     (if kind = lit ''STRING'' then
        rd_bind (read_blob bs) (\<lambda>v bs. Read (case v of None \<Rightarrow> Stop | Some v \<Rightarrow> Take (LStr v)) bs)
      else if kind = lit ''LIST'' then
        with_capacity 24 cnt (rd_bind (read_up_to read_blob cnt bs) (\<lambda>xs bs. Read (Take (LList xs)) bs))
      else if kind = lit ''SET'' then
        with_capacity 24 cnt (rd_bind (read_up_to read_blob cnt bs) (\<lambda>xs bs. Read (Take (LSet xs)) bs))
      else if kind = lit ''HASH'' then
        with_capacity 48 cnt
          (rd_bind (read_up_to (read_both read_blob read_blob) cnt bs) (\<lambda>xs bs. Read (Take (LHash xs)) bs))
      else if kind = lit ''ZSET'' then
        with_capacity 32 cnt
          (rd_bind (read_up_to (read_both read_blob read_score) cnt bs) (\<lambda>xs bs. Read (Take (LZset xs)) bs))
      else if kind = lit ''MEMORY'' then
        rd_bind (read_memory cnt max_terms bs) (\<lambda>m bs.
          Read (case m of None \<Rightarrow> Stop | Some m \<Rightarrow> Take (LMemory m)) bs)
      else Read Skip bs)"

definition load_turn :: "nat \<Rightarrow> bytes \<Rightarrow> loaded_entry turn rd" where
  "load_turn max_terms bs =
     rd_bind (read_line bs) (\<lambda>header bs.
       case header of
         None \<Rightarrow> Read Stop bs
       | Some h \<Rightarrow>
           (case split_ws h of
              kind # expire # rest \<Rightarrow>
                (let expire_at = or_else (-1) (str_parse_i64 expire);
                     cnt = (case rest of [] \<Rightarrow> 0 | c # _ \<Rightarrow> or_else 0 (parse_usize c))
                 in rd_bind (read_blob bs) (\<lambda>k bs.
                      case k of
                        None \<Rightarrow> Read Stop bs
                      | Some k \<Rightarrow>
                          rd_bind (read_value max_terms kind cnt bs) (\<lambda>v bs.
                            Read (case v of
                                    Stop \<Rightarrow> Stop
                                  | Skip \<Rightarrow> Skip
                                  | Take v \<Rightarrow> Take \<lparr>le_key = k, le_value = v, le_expire_at = expire_at\<rparr>) bs)))
            | _ \<Rightarrow> Read Skip bs))"

subsection \<open>Every reader moves forward\<close>

definition shrinks :: "bytes \<Rightarrow> 'a rd \<Rightarrow> bool" where
  "shrinks bs x \<longleftrightarrow> (\<forall>a rest. x = Read a rest \<longrightarrow> length rest \<le> length bs)"

lemma shrinks_simps [simp]:
  "shrinks bs RdPanic" "shrinks bs (RdFail e)" "shrinks bs (Read a rest) \<longleftrightarrow> length rest \<le> length bs"
  by (simp_all add: shrinks_def)

lemma shrinks_bind:
  "shrinks bs x \<Longrightarrow> (\<And>a rest. length rest \<le> length bs \<Longrightarrow> shrinks rest (f a rest)) \<Longrightarrow> shrinks bs (rd_bind x f)"
  by (cases x) (fastforce simp: rd_bind_def shrinks_def)+

lemma shrinks_mono: "shrinks bs x \<Longrightarrow> length bs \<le> length cs \<Longrightarrow> shrinks cs x"
  by (auto simp: shrinks_def)

lemma shrinks_line: "shrinks bs (read_line bs)"
  by (auto simp: read_line_def Let_def split: option.split)

lemma shrinks_blob: "shrinks bs (read_blob bs)"
  unfolding read_blob_def by (rule shrinks_bind [OF shrinks_line]) (simp split: option.split)

lemma shrinks_score: "shrinks bs (read_score bs)"
  unfolding read_score_def by (rule shrinks_bind [OF shrinks_line]) simp

lemma shrinks_both: "(\<And>bs. shrinks bs (f bs)) \<Longrightarrow> (\<And>bs. shrinks bs (g bs)) \<Longrightarrow> shrinks bs (read_both f g bs)"
  unfolding read_both_def by (intro shrinks_bind) simp_all

lemma shrinks_up_to: "(\<And>bs. shrinks bs (f bs)) \<Longrightarrow> shrinks bs (read_up_to f n bs)"
proof (induction n arbitrary: bs)
  case (Suc n)
  show ?case
    unfolding read_up_to.simps
  proof (rule shrinks_bind [OF Suc.prems])
    fix x rest
    show "shrinks rest (case x of None \<Rightarrow> Read [] rest
        | Some x \<Rightarrow> rd_bind (read_up_to f n rest) (\<lambda>xs bs. Read (x # xs) bs))"
      by (cases x) (simp_all add: shrinks_bind [OF Suc.IH [OF Suc.prems]])
  qed
qed simp

lemma shrinks_option:
  "(\<And>a. x = Some a \<Longrightarrow> shrinks bs (f a)) \<Longrightarrow> shrinks bs (case x of None \<Rightarrow> Read b bs | Some a \<Rightarrow> f a)"
  by (cases x) simp_all

lemma shrinks_meta: "shrinks bs (read_meta n r bs)"
proof (induction n arbitrary: r bs)
  case (Suc n)
  show ?case
    unfolding read_meta.simps
    by (rule shrinks_bind [OF shrinks_both [OF shrinks_blob shrinks_blob]])
      (auto intro!: shrinks_option Suc split: prod.split)
qed simp

lemma shrinks_vector: "shrinks bs (read_vector n bs)"
  by (simp add: read_vector_def shrinks_bind [OF shrinks_blob])

lemma shrinks_record: "shrinks bs (read_record n m bs)"
  unfolding read_record_def
  by (intro shrinks_bind shrinks_both shrinks_blob shrinks_line shrinks_option shrinks_meta shrinks_vector)
    (auto intro!: shrinks_bind shrinks_option shrinks_meta shrinks_vector split: prod.split outcome.split)

lemma shrinks_records: "shrinks bs (read_records k n m bs)"
proof (induction n arbitrary: m bs)
  case (Suc n)
  show ?case
    unfolding read_records.simps by (rule shrinks_bind [OF shrinks_record]) (rule shrinks_option [OF Suc])
qed simp

lemma shrinks_memory: "shrinks bs (read_memory n k bs)"
  unfolding read_memory_def
  by (rule shrinks_bind [OF shrinks_line]) (auto intro!: shrinks_option shrinks_records split: prod.split)

lemma shrinks_value: "shrinks bs (read_value k kind n bs)"
  unfolding read_value_def with_capacity_def
  by (auto intro!: shrinks_bind shrinks_blob shrinks_score shrinks_up_to shrinks_both shrinks_memory)

lemma load_turn_shrinks:
  assumes "load_turn k bs = Read t rest" and "t \<noteq> Stop"
  shows "length rest < length bs"
proof -
  obtain h r1 where l: "read_line bs = Read h r1" using assms by (auto simp: load_turn_def rd_bind_def split: rd.splits)
  obtain s where h: "h = Some s" using assms l by (cases h) (simp_all add: load_turn_def rd_bind_def)
  then have "length r1 < length bs"
    using l by (cases bs) (auto simp: read_line_def Let_def split: if_splits option.splits)
  moreover have "shrinks r1 (rd_bind (read_line bs) (\<lambda>_ _. load_turn k bs))"
    unfolding load_turn_def l h rd_bind_def [of "Read (Some s) r1"] rd.case option.case Let_def
    by (auto intro!: shrinks_bind shrinks_blob shrinks_option shrinks_value split: list.split)
  ultimately show ?thesis using assms l by (auto simp: shrinks_def rd_bind_def)
qed

function load_v2 :: "nat \<Rightarrow> bytes \<Rightarrow> loaded_entry list rd" where
  "load_v2 max_terms bs =
     (case load_turn max_terms bs of
        RdPanic \<Rightarrow> RdPanic
      | RdFail e \<Rightarrow> RdFail e
      | Read Stop rest \<Rightarrow> Read [] rest
      | Read Skip rest \<Rightarrow> load_v2 max_terms rest
      | Read (Take e) rest \<Rightarrow> rd_bind (load_v2 max_terms rest) (\<lambda>es bs. Read (e # es) bs))"
  by pat_completeness auto

termination
  by (relation "measure (\<lambda>(_, bs). length bs)") (auto dest: load_turn_shrinks)

declare load_v2.simps [simp del]

subsection \<open>Version 1\<close>

text \<open>\<open>reader.line()?.unwrap_or_default()\<close>: past the end of the file the lines are empty.\<close>

definition next_line :: "bytes \<Rightarrow> str option rd" where
  "next_line bs = rd_bind (read_line bs) (\<lambda>l bs. Read (Some (or_else [] l)) bs)"

definition v1_item :: "bytes \<Rightarrow> bytes option rd" where
  "v1_item bs = rd_bind (next_line bs) (\<lambda>l bs. Read (map_option utf8_encode l) bs)"

definition v1_pair :: "bytes \<Rightarrow> (bytes \<times> bytes) option rd" where
  "v1_pair bs =
     rd_bind (next_line bs) (\<lambda>l bs.
       Read (map_option (\<lambda>l. case split_once l of
                              None \<Rightarrow> (utf8_encode l, [])
                            | Some (f, v) \<Rightarrow> (utf8_encode f, utf8_encode v)) l) bs)"

text \<open>A line without a score, or with one that does not parse, adds no member.\<close>

definition v1_scored :: "bytes \<Rightarrow> (bytes \<times> f64) list option rd" where
  "v1_scored bs =
     rd_bind (next_line bs) (\<lambda>l bs.
       Read (map_option (\<lambda>l. case rsplit_once l of
                              None \<Rightarrow> []
                            | Some (m, x) \<Rightarrow>
                                (case parse_f64 (utf8_encode x) of None \<Rightarrow> [] | Some x \<Rightarrow> [(utf8_encode m, x)])) l) bs)"

definition v1_value :: "str \<Rightarrow> str \<Rightarrow> bytes \<Rightarrow> loaded_value turn rd" where
  "v1_value kind tail bs =
     (let cnt = or_else 0 (parse_usize (trim tail))
      in if kind = lit ''STRING'' then Read (Take (LStr (utf8_encode tail))) bs
         else if kind = lit ''LIST'' then
           with_capacity 24 cnt (rd_bind (read_up_to v1_item cnt bs) (\<lambda>xs bs. Read (Take (LList xs)) bs))
         else if kind = lit ''SET'' then
           with_capacity 24 cnt (rd_bind (read_up_to v1_item cnt bs) (\<lambda>xs bs. Read (Take (LSet xs)) bs))
         else if kind = lit ''HASH'' then
           with_capacity 48 cnt (rd_bind (read_up_to v1_pair cnt bs) (\<lambda>xs bs. Read (Take (LHash xs)) bs))
         else if kind = lit ''ZSET'' then
           with_capacity 32 cnt (rd_bind (read_up_to v1_scored cnt bs) (\<lambda>xs bs. Read (Take (LZset (concat xs))) bs))
         else Read Skip bs)"

text \<open>An \<open>EXPIREAT\<close> line changes the latest entry of its key; the entries are kept latest first.\<close>

fun set_deadline :: "bytes \<Rightarrow> int \<Rightarrow> loaded_entry list \<Rightarrow> loaded_entry list" where
  "set_deadline k t [] = []"
| "set_deadline k t (e # es) =
     (if le_key e = k then e\<lparr>le_expire_at := t\<rparr> # es else e # set_deadline k t es)"

definition v1_turn :: "loaded_entry list \<Rightarrow> bytes \<Rightarrow> (loaded_entry list) turn rd" where
  "v1_turn es bs =
     rd_bind (read_line bs) (\<lambda>line bs.
       case map_option trim line of
         None \<Rightarrow> Read Stop bs
       | Some l \<Rightarrow>
           (case split3 l of
              (kind, Some (k, last_part)) \<Rightarrow>
                (let tail = or_else [] last_part; k = utf8_encode k
                 in if kind = lit ''EXPIREAT'' then
                      Read (Take (case str_parse_i64 (trim tail) of
                                    None \<Rightarrow> es | Some n \<Rightarrow> set_deadline k (saturating_mul n 1000) es)) bs
                    else
                      rd_bind (v1_value kind tail bs) (\<lambda>v bs.
                        Read (case v of
                                Take v \<Rightarrow> Take (\<lparr>le_key = k, le_value = v, le_expire_at = -1\<rparr> # es)
                              | _ \<Rightarrow> Skip) bs))
            | _ \<Rightarrow> Read Skip bs))"

lemma shrinks_v1_items:
  "shrinks bs (v1_item bs)" "shrinks bs (v1_pair bs)" "shrinks bs (v1_scored bs)"
  unfolding v1_item_def v1_pair_def v1_scored_def next_line_def
  by (auto intro!: shrinks_bind shrinks_line)

lemma shrinks_v1_value: "shrinks bs (v1_value kind tail bs)"
  unfolding v1_value_def with_capacity_def Let_def
  by (auto intro!: shrinks_bind shrinks_up_to shrinks_v1_items)

lemma v1_turn_shrinks:
  assumes "v1_turn es bs = Read t rest" and "t \<noteq> Stop"
  shows "length rest < length bs"
proof -
  obtain h r1 where l: "read_line bs = Read h r1" using assms by (auto simp: v1_turn_def rd_bind_def split: rd.splits)
  obtain s where h: "h = Some s" using assms l by (cases h) (simp_all add: v1_turn_def rd_bind_def)
  then have "length r1 < length bs"
    using l by (cases bs) (auto simp: read_line_def Let_def split: if_splits option.splits)
  moreover have "shrinks r1 (rd_bind (read_line bs) (\<lambda>_ _. v1_turn es bs))"
    unfolding v1_turn_def l h rd_bind_def [of "Read (Some s) r1"] rd.case option.case option.map Let_def
    by (auto intro!: shrinks_bind shrinks_v1_value split: prod.split option.split)
  ultimately show ?thesis using assms l by (auto simp: shrinks_def rd_bind_def)
qed

function load_v1 :: "loaded_entry list \<Rightarrow> bytes \<Rightarrow> loaded_entry list rd" where
  "load_v1 es bs =
     (case v1_turn es bs of
        RdPanic \<Rightarrow> RdPanic
      | RdFail e \<Rightarrow> RdFail e
      | Read Stop rest \<Rightarrow> Read (rev es) rest
      | Read Skip rest \<Rightarrow> load_v1 es rest
      | Read (Take es) rest \<Rightarrow> load_v1 es rest)"
  by pat_completeness auto

termination
  by (relation "measure (\<lambda>(_, bs). length bs)") (auto dest: v1_turn_shrinks)

declare load_v1.simps [simp del]

subsection \<open>Installing what was read\<close>

definition install_value :: "env \<Rightarrow> bytes \<Rightarrow> loaded_value \<Rightarrow> store \<Rightarrow> store" where
  "install_value E k v st =
     (case v of
        LStr x \<Rightarrow> set_string E k x st
      | LList xs \<Rightarrow>
          (let (st, l) = get_or_create_list E k st
           in case l of None \<Rightarrow> st | Some l \<Rightarrow> put_value k (VList (l @ xs)) st)
      | LSet xs \<Rightarrow>
          (let (st, s) = get_or_create_set E k st
           in case s of None \<Rightarrow> st | Some s \<Rightarrow> put_value k (VSet (fold set_insert xs s)) st)
      | LHash fvs \<Rightarrow>
          (let (st, h) = get_or_create_hash E k st
           in case h of None \<Rightarrow> st | Some h \<Rightarrow> put_value k (VHash (fold (\<lambda>(f, v). hm_insert f v) fvs h)) st)
      | LZset mxs \<Rightarrow>
          (let (st, z) = get_or_create_zset E k st
           in case z of None \<Rightarrow> st
              | Some z \<Rightarrow> put_value k (VZset (fold (\<lambda>(m, x) z. fst (zset_add z m x)) mxs z)) st)
      | LMemory m \<Rightarrow> fst (create_memory E k m st))"

definition install :: "env \<Rightarrow> loaded_entry \<Rightarrow> store \<Rightarrow> store" where
  "install E e st =
     (let st = install_value E (le_key e) (le_value e) st;
          st = (if le_expire_at e \<ge> 0
                then fst (set_expire_at E (le_key e) (Some (from_unix_millis (le_expire_at e))) st) else st)
      in delete_if_empty E (le_key e) st)"

definition V2_MAGIC :: bytes where "V2_MAGIC = ''KLYRO-DUMP 2''"
definition LEGACY_MAGIC :: bytes where "LEGACY_MAGIC = ''KLYRO-DUMP 1''"

definition starts_with :: "str \<Rightarrow> bytes \<Rightarrow> bool" where
  "starts_with s p \<longleftrightarrow> take (length p) s = lit p"

text \<open>\<open>load\<close>: the contents of the file, or \<open>None\<close> when it cannot be opened.\<close>

definition read_dump :: "nat \<Rightarrow> bytes \<Rightarrow> loaded_entry list rd" where
  "read_dump max_terms bs =
     rd_bind (read_line bs) (\<lambda>magic bs.
       case magic of
         None \<Rightarrow> Read [] bs
       | Some s \<Rightarrow>
           if starts_with s DUMP_MAGIC \<or> starts_with s V2_MAGIC then load_v2 max_terms bs
           else if starts_with s LEGACY_MAGIC then load_v1 [] bs
           else Read [] bs)"

definition persist_load :: "env \<Rightarrow> bytes option \<Rightarrow> nat \<Rightarrow> store \<Rightarrow> store outcome" where
  "persist_load E file max_terms st =
     (case file of
        None \<Rightarrow> Done st
      | Some bs \<Rightarrow>
          (case read_dump max_terms bs of
             RdPanic \<Rightarrow> Panicked
           | RdFail e \<Rightarrow> Done st
           | Read es rest \<Rightarrow> Done (fold (install E) es st)))"

end
