(* ===== verification/ReloadText.thy ===== *)
theory ReloadText
  imports Load
begin

text \<open>
  Reading back the pieces a dump is made of: lines of words, numbers, length-prefixed blobs and
  counted loops of them.
\<close>

subsection \<open>Lines and blobs\<close>

lemma char_ord_iff: "ord_of c = 10 \<longleftrightarrow> c = CHR 0x0A" "ord_of c = 13 \<longleftrightarrow> c = CHR 0x0D" "ord_of c = 32 \<longleftrightarrow> c = CHR '' ''"
  using of_char_eq_iff [of c "CHR 0x0A", where 'a = nat] of_char_eq_iff [of c "CHR 0x0D", where 'a = nat]
    of_char_eq_iff [of c "CHR '' ''", where 'a = nat] by simp_all

definition word_char :: "char \<Rightarrow> bool" where
  "word_char c \<longleftrightarrow> ord_of c < 128 \<and> \<not> is_whitespace (ord_of c)"

definition one_word :: "bytes \<Rightarrow> bool" where
  "one_word w \<longleftrightarrow> w \<noteq> [] \<and> list_all word_char w"

lemma utf8_encode_lit: "is_ascii bs \<Longrightarrow> utf8_encode (lit bs) = bs"
proof -
  assume a: "is_ascii bs"
  then have "concat (map utf8_char (map ord_of bs)) = map ord_of bs"
    by (induction bs) (simp_all add: is_ascii_def utf8_char_def)
  then show ?thesis by (simp add: utf8_encode_def lit_def comp_def)
qed

lemma plain_ascii: "one_word w \<Longrightarrow> is_ascii w"
  by (auto simp: one_word_def word_char_def is_ascii_def list_all_iff)

lemma trim_eol_id: "s = [] \<or> last s \<noteq> 10 \<and> last s \<noteq> 13 \<Longrightarrow> trim_eol s = s"
  by (cases s rule: rev_cases) (auto simp: trim_eol_def)

lemma read_line_text:
  assumes "is_ascii l" and "CHR 0x0A \<notin> set l" and "l = [] \<or> last l \<noteq> CHR 0x0D"
  shows "read_line (l @ nl @ rest) = Read (Some (lit l)) rest"
proof -
  have "takeWhile (\<lambda>c. c \<noteq> CHR 0x0A) (l @ nl @ rest) = l"
    using assms(2) by (induction l) (auto simp: nl_def)
  moreover have "trim_eol (lit l) = lit l"
  proof (cases "l = []")
    case False
    then have "last l \<noteq> CHR 0x0D" "last l \<noteq> CHR 0x0A" using assms(2,3) by (auto dest: last_in_set)
    moreover have "last (lit l) = ord_of (last l)" using False by (simp add: lit_def last_map)
    moreover have "ord_of c = 10 \<longleftrightarrow> c = CHR 0x0A" "ord_of c = 13 \<longleftrightarrow> c = CHR 0x0D" for c
      by (auto simp: char_ord_iff)
    ultimately show ?thesis by (intro trim_eol_id) simp
  qed (simp add: lit_def trim_eol_def)
  ultimately show ?thesis
    using from_utf8_ascii [OF assms(1)] by (auto simp: read_line_def nl_def lit_def Let_def)
qed

lemma plain_word: "one_word w \<Longrightarrow> CHR 0x0A \<notin> set w \<and> CHR 0x0D \<notin> set w \<and> CHR '' '' \<notin> set w"
  by (auto simp: one_word_def list_all_iff word_char_def is_whitespace_def)

lemma join_snoc: "ws \<noteq> [] \<Longrightarrow> join sep (w # ws) = w @ sep @ join sep ws"
  by (cases ws) simp_all

lemma set_join: "set (join sep ws) \<subseteq> (\<Union>w \<in> set ws. set w) \<union> set sep"
  by (induction sep ws rule: join.induct) auto

lemma last_join: "ws \<noteq> [] \<Longrightarrow> list_all one_word ws \<Longrightarrow> last (join sep ws) = last (last ws) \<and> join sep ws \<noteq> []"
  by (induction sep ws rule: join.induct) (auto simp: one_word_def)

lemma split_ws_word:
  assumes "one_word w"
  shows "split_ws (lit w @ 32 # s) = lit w # split_ws s" and "split_ws (lit w) = [lit w]"
proof -
  obtain c cs where w: "w = c # cs" using assms by (cases w) (auto simp: one_word_def)
  have nw: "\<not> is_whitespace x" if "x \<in> set (lit w)" for x
    using assms that by (auto simp: one_word_def lit_def list_all_iff word_char_def)
  have c: "\<not> is_whitespace (ord_of c)" "\<And>x. x \<in> set (lit cs) \<Longrightarrow> \<not> is_whitespace x"
    using nw by (auto simp: w lit_def)
  have sp: "is_whitespace 32" by (simp add: is_whitespace_def)
  have tk: "takeWhile (\<lambda>c. \<not> is_whitespace c) (lit cs @ 32 # s) = lit cs"
    "dropWhile (\<lambda>c. \<not> is_whitespace c) (lit cs @ 32 # s) = 32 # s"
    "takeWhile (\<lambda>c. \<not> is_whitespace c) (lit cs) = lit cs" "dropWhile (\<lambda>c. \<not> is_whitespace c) (lit cs) = []"
    using c(2) sp by (auto simp: takeWhile_append dropWhile_append takeWhile_eq_all_conv)
  have skip: "split_ws (32 # s) = split_ws s"
    by (subst (1 2) split_ws.simps) (simp add: sp)
  have l: "lit w = ord_of c # lit cs" by (simp add: w lit_def)
  show "split_ws (lit w @ 32 # s) = lit w # split_ws s"
    by (subst split_ws.simps) (simp add: l c(1) tk skip)
  show "split_ws (lit w) = [lit w]"
    by (subst split_ws.simps) (simp add: l c(1) tk split_ws.simps [of "[]"])
qed

lemma split_ws_join: "list_all one_word ws \<Longrightarrow> split_ws (lit (join '' '' ws)) = map lit ws"
proof (induction "'' '' :: bytes" ws rule: join.induct)
  case 1
  then show ?case by (simp add: lit_def split_ws.simps)
next
  case (2 x)
  then show ?case using split_ws_word(2) by simp
next
  case (3 x y xs)
  have "lit (join '' '' (x # y # xs)) = lit x @ 32 # lit (join '' '' (y # xs))" by (simp add: lit_def)
  then show ?case using 3 split_ws_word(1) [of x] by simp
qed

lemma read_line_words:
  assumes "list_all one_word ws" and "ws \<noteq> []"
  shows "read_line (words ws @ rest) = Read (Some (lit (join '' '' ws))) rest"
proof -
  let ?l = "join '' '' ws"
  have m: "c \<in> set ?l \<Longrightarrow> c = CHR '' '' \<or> (\<exists>w \<in> set ws. c \<in> set w)" for c
    using set_join [of "'' ''" ws] by auto
  have "is_ascii ?l"
    unfolding is_ascii_def using m assms(1) by (fastforce simp: list_all_iff one_word_def word_char_def)
  moreover have "CHR 0x0A \<notin> set ?l" using m assms(1) plain_word by (fastforce simp: list_all_iff)
  moreover have "last ?l \<noteq> CHR 0x0D"
  proof -
    have p: "one_word (last ws)" using assms by (simp add: list_all_iff)
    then have "last (last ws) \<in> set (last ws)" by (simp add: one_word_def)
    then show ?thesis using last_join [OF assms(2,1), of "'' ''"] plain_word [OF p] by metis
  qed
  ultimately show ?thesis using read_line_text by (simp add: words_def)
qed

lemma plain_nat_str: "one_word (nat_str n)"
  using is_digit_bounds by (auto simp: one_word_def list_all_iff word_char_def is_digit_def dest!: nat_str_mem)

lemma plain_int_str: "one_word (int_str n)"
  by (auto simp: one_word_def list_all_iff word_char_def is_digit_def is_whitespace_def dest!: int_str_mem)

lemma parse_usize_nat: "n < 2 ^ 64 \<Longrightarrow> parse_usize (lit (nat_str n)) = Some n"
proof -
  assume n: "n < 2 ^ 64"
  obtain c cs where c: "nat_str n = c # cs" by (cases "nat_str n") auto
  then have "is_digit (ord_of c)" using nat_str_mem [of c n] by simp
  then have "ord_of c \<noteq> 43" by (auto simp: is_digit_def)
  then show ?thesis
    using n c parse_nat_str [of n] by (simp add: str_parse_uint_def lit_def u64_max_def)
qed

lemma trim_lit_plain: "one_word w \<Longrightarrow> trim (lit w) = lit w"
proof (rule trim_id)
  assume p: "one_word w"
  then show n: "lit w \<noteq> []" by (simp add: one_word_def lit_def)
  have "\<And>x. x \<in> set (lit w) \<Longrightarrow> \<not> is_whitespace x"
    using p by (auto simp: one_word_def lit_def list_all_iff word_char_def)
  then show "\<not> is_whitespace (hd (lit w))" "\<not> is_whitespace (last (lit w))" using n by simp_all
qed

lemma read_blob_write: "length p \<le> MAX_ALLOC \<Longrightarrow> read_blob (write_blob p @ rest) = Read (Some p) rest"
proof -
  assume len: "length p \<le> MAX_ALLOC"
  have l: "read_line (nat_str (length p) @ nl @ p @ nl @ rest) = Read (Some (lit (nat_str (length p)))) (p @ nl @ rest)"
  proof (rule read_line_text)
    let ?n = "nat_str (length p)"
    have w: "CHR 0x0A \<notin> set ?n" "CHR 0x0D \<notin> set ?n" using plain_word [OF plain_nat_str] by simp_all
    show "is_ascii ?n" "CHR 0x0A \<notin> set ?n" using plain_ascii [OF plain_nat_str] w by simp_all
    have "last ?n \<in> set ?n" by simp
    then show "?n = [] \<or> last ?n \<noteq> CHR 0x0D" using w(2) by metis
  qed
  have "parse_usize (trim (lit (nat_str (length p)))) = Some (length p)"
    using len by (simp add: trim_lit_plain plain_nat_str parse_usize_nat MAX_ALLOC_def)
  then show ?thesis
    using len l by (simp add: read_blob_def write_blob_def rd_bind_def nl_def)
qed

subsection \<open>Loops\<close>

lemma rd_bind_Read [simp]: "rd_bind (Read a bs) f = f a bs"
  by (simp add: rd_bind_def)

lemma read_up_to_all:
  assumes "\<And>x rest. x \<in> set xs \<Longrightarrow> f (enc x @ rest) = Read (Some x) rest"
  shows "read_up_to f (length xs) (concat (map enc xs) @ rest) = Read xs rest"
  using assms by (induction xs) simp_all

lemma float_word: "\<not> is_nan v \<Longrightarrow> one_word (display_float F v)"
  using display_float_mem [of v F] display_float_plain [of v _ F] display_float_nonempty
  by (auto simp: one_word_def list_all_iff word_char_def float_char_def)

lemma read_score_format:
  assumes "flt_wf F64 v" and "\<not> is_nan v"
  shows "read_score (format_f64 v @ nl @ rest) = Read (Some v) rest"
proof -
  have p: "one_word (format_f64 v)" using float_word [OF assms(2)] format_f64_display [OF assms(2)] by simp
  then have w: "CHR 0x0A \<notin> set (format_f64 v)" "CHR 0x0D \<notin> set (format_f64 v)" using plain_word by blast+
  have "last (format_f64 v) \<noteq> CHR 0x0D" using w(2) p last_in_set unfolding one_word_def by metis
  then have "read_line (format_f64 v @ nl @ rest) = Read (Some (lit (format_f64 v))) rest"
    using w(1) plain_ascii [OF p] by (intro read_line_text) simp_all
  then show ?thesis
    using parse_format_f64 [OF assms] utf8_encode_lit [OF plain_ascii [OF p]] by (simp add: read_score_def)
qed

end
