(* ===== verification/ReloadMemory.thy ===== *)
theory ReloadMemory
  imports ReloadText MemClone
begin

text \<open>
  Reading back the record of a memory index: what \<open>read_memory\<close> makes of \<open>dump_config\<close> and the
  dumped records. Times come back in whole milliseconds, the half-life in whole seconds, and the keyword
  and vector indexes are rebuilt from the records.
\<close>

subsection \<open>What comes back\<close>

definition in_millis :: "time \<Rightarrow> time" where
  "in_millis t = from_unix_millis (unix_millis t)"

definition saved_record :: "memory_record \<Rightarrow> memory_record" where
  "saved_record r =
     r\<lparr>rec_created_at := in_millis (rec_created_at r), rec_updated_at := in_millis (rec_updated_at r),
       rec_importance := clamp_unit (rec_importance r),
       rec_expire_at :=
         (case rec_expire_at r of None \<Rightarrow> None | Some t \<Rightarrow> if unix_millis t \<ge> 0 then Some (in_millis t) else None),
       rec_slot := None\<rparr>"

definition saved_config :: "memory_config \<Rightarrow> memory_config" where
  "saved_config c =
     (memory_config_new (mc_mode c) (mc_dim c) (mc_metric c))
       \<lparr>mc_weights := mc_weights c, mc_half_life := mc_half_life c div 1000000000 * 1000000000\<rparr>"

definition rebuilt :: "env \<Rightarrow> nat \<Rightarrow> memory \<Rightarrow> memory" where
  "rebuilt E max_terms m =
     fold (\<lambda>(r, v). load_record (saved_record r) v (Some max_terms)) (records_for_dump E m)
       (set_next_id (mem_next_id m) (memory_new (saved_config (mem_config m))))"

text \<open>The indexes the format can hold.\<close>

definition number_ok :: "f32 \<Rightarrow> bool" where
  "number_ok v \<longleftrightarrow> flt_wf F32 v \<and> \<not> is_nan v"

definition config_ok :: "memory_config \<Rightarrow> bool" where
  "config_ok c \<longleftrightarrow> mc_dim c < 2 ^ 64 \<and> 0 \<le> mc_half_life c \<and> mc_half_life c div 1000000000 < 2 ^ 64 \<and>
     weights_valid (mc_weights c) \<and>
     list_all (flt_wf F32) [w_keyword (mc_weights c), w_vector (mc_weights c), w_recency (mc_weights c), w_importance (mc_weights c)]"

definition record_ok :: "memory_record \<times> f32 list option \<Rightarrow> bool" where
  "record_ok rv \<longleftrightarrow>
     (let (r, v) = rv
      in length (rec_id r) \<le> MAX_ALLOC \<and> length (rec_text r) \<le> MAX_ALLOC \<and> number_ok (rec_importance r) \<and>
         meta_wf (rec_meta r) \<and> length (rec_meta r) < 2 ^ 64 \<and>
         list_all (\<lambda>(f, x). length f \<le> MAX_ALLOC \<and> length x \<le> MAX_ALLOC) (rec_meta r) \<and>
         (case v of None \<Rightarrow> True
          | Some vs \<Rightarrow> vs \<noteq> [] \<and> 4 * length vs \<le> MAX_ALLOC \<and> list_all (\<lambda>x. flt_wf F32 x \<and> is_finite x) vs))"

definition memory_ok :: "env \<Rightarrow> memory \<Rightarrow> bool" where
  "memory_ok E m \<longleftrightarrow> config_ok (mem_config m) \<and> mem_next_id m < 2 ^ 64 \<and>
     length (records_for_dump E m) < 2 ^ 64 \<and> list_all record_ok (records_for_dump E m)"

subsection \<open>The numbers\<close>

lemma in_i64_unix_millis: "in_i64 (unix_millis t)"
proof -
  let ?x = "(t div 1000000 + 9223372036854775808) mod 18446744073709551616"
  have "0 \<le> ?x" "?x < 18446744073709551616" by simp_all
  then have "in_i64 (?x - 9223372036854775808)" unfolding in_i64_def i64_min_def i64_max_def by linarith
  moreover have "in_i64 0" by (simp add: in_i64_def i64_min_def i64_max_def)
  ultimately show ?thesis unfolding unix_millis_def as_i64_def by simp
qed

lemma number_not_nan: "is_finite v \<Longrightarrow> \<not> is_nan v"
  by (cases v) simp_all

lemma parse_f32_display: "number_ok v \<Longrightarrow> parse_f32 (lit (display_float F32 v)) = Some v"
  using str_parse_float_display by (simp add: number_ok_def parse_f32_def lit_def)

lemma parse_i64_str: "in_i64 n \<Longrightarrow> str_parse_i64 (lit (int_str n)) = Some n"
  using str_parse_int_str by (simp add: lit_def)

lemma parse_usize_int: "0 \<le> n \<Longrightarrow> n < 2 ^ 64 \<Longrightarrow> parse_usize (lit (int_str n)) = Some (nat n)"
  using parse_usize_nat [of "nat n"] by (simp add: int_str_def)

lemma parse_names:
  "mode_parse (utf8_encode (lit (mode_name m))) = Some m"
  "metric_parse (utf8_encode (lit (metric_name t))) = Some t"
proof -
  have "is_ascii (mode_name m)" by (cases m) (simp_all add: mode_name_def is_ascii_def)
  then show "mode_parse (utf8_encode (lit (mode_name m))) = Some m"
    by (cases m) (simp_all add: utf8_encode_lit mode_name_def mode_parse_def parse_word_def eq_ignore_case_def lower_def)
  have "is_ascii (metric_name t)" by (cases t) (simp_all add: metric_name_def is_ascii_def)
  then show "metric_parse (utf8_encode (lit (metric_name t))) = Some t"
    by (cases t) (simp_all add: utf8_encode_lit metric_name_def metric_parse_def parse_word_def eq_ignore_case_def lower_def)
qed

lemma plain_names: "one_word (mode_name m)" "one_word (metric_name t)"
  by (cases m; simp add: mode_name_def one_word_def word_char_def is_whitespace_def)
    (cases t; simp add: metric_name_def one_word_def word_char_def is_whitespace_def)

lemma or_else_Some [simp]: "or_else d (Some x) = x"
  by (simp add: or_else_def)

lemma parse_header_dump:
  assumes "config_ok c" and "n < 2 ^ 64"
  shows "parse_header (map lit
      [mode_name (mc_mode c), nat_str (mc_dim c), metric_name (mc_metric c),
       display_float F32 (w_keyword (mc_weights c)), display_float F32 (w_vector (mc_weights c)),
       display_float F32 (w_recency (mc_weights c)), display_float F32 (w_importance (mc_weights c)),
       int_str (mc_half_life c div 1000000000), nat_str n]) = Some (saved_config c, n)"
proof -
  let ?w = "mc_weights c"
  have w: "number_ok (w_keyword ?w)" "number_ok (w_vector ?w)" "number_ok (w_recency ?w)" "number_ok (w_importance ?w)"
    using assms(1) by (auto simp: config_ok_def weights_valid_def number_ok_def dest: number_not_nan)
  have v: "weights_valid ?w" using assms(1) by (simp add: config_ok_def)
  have h: "parse_usize (lit (int_str (mc_half_life c div 1000000000))) = Some (nat (mc_half_life c div 1000000000))"
    "0 \<le> mc_half_life c div 1000000000"
    using assms(1) by (auto simp: config_ok_def intro!: parse_usize_int)
  have d: "parse_usize (lit (nat_str (mc_dim c))) = Some (mc_dim c)" "parse_usize (lit (nat_str n)) = Some n"
    using assms by (simp_all add: config_ok_def parse_usize_nat)
  have e: "\<lparr>w_keyword = w_keyword ?w, w_vector = w_vector ?w, w_recency = w_recency ?w, w_importance = w_importance ?w\<rparr> = ?w"
    by simp
  show ?thesis
    by (simp add: parse_header_def parse_names d h w [THEN parse_f32_display] v e Let_def saved_config_def)
qed

lemma read_line_split:
  assumes "list_all one_word ws" and "ws \<noteq> []"
  shows "\<exists>l. read_line (words ws @ rest) = Read (Some l) rest \<and> split_ws l = map lit ws"
  using read_line_words [OF assms] split_ws_join [OF assms(1)] by blast

lemma read_memory_header:
  assumes "config_ok (mem_config m)" and "mem_next_id m < 2 ^ 64"
  shows "read_memory k mt (dump_config m @ rest) =
    read_records mt k (set_next_id (mem_next_id m) (memory_new (saved_config (mem_config m)))) rest"
proof -
  let ?w = "mc_weights (mem_config m)"
  have n: "\<not> is_nan (w_keyword ?w)" "\<not> is_nan (w_vector ?w)" "\<not> is_nan (w_recency ?w)" "\<not> is_nan (w_importance ?w)"
    using assms(1) by (auto simp: config_ok_def weights_valid_def dest: number_not_nan)
  obtain l where l: "read_line (dump_config m @ rest) = Read (Some l) rest"
    "split_ws l = map lit
      [mode_name (mc_mode (mem_config m)), nat_str (mc_dim (mem_config m)), metric_name (mc_metric (mem_config m)),
       display_float F32 (w_keyword ?w), display_float F32 (w_vector ?w), display_float F32 (w_recency ?w),
       display_float F32 (w_importance ?w), int_str (mc_half_life (mem_config m) div 1000000000), nat_str (mem_next_id m)]"
    using read_line_split [of "[mode_name (mc_mode (mem_config m)), nat_str (mc_dim (mem_config m)), metric_name (mc_metric (mem_config m)),
       display_float F32 (w_keyword ?w), display_float F32 (w_vector ?w), display_float F32 (w_recency ?w),
       display_float F32 (w_importance ?w), int_str (mc_half_life (mem_config m) div 1000000000), nat_str (mem_next_id m)]" rest]
      plain_names plain_nat_str plain_int_str float_word n
    by (auto simp: dump_config_def Let_def)
  show ?thesis using parse_header_dump [OF assms] by (simp add: read_memory_def l)
qed

subsection \<open>The records\<close>

lemma set_meta_last:
  assumes "meta_wf (pre @ [(f, v)])" and "rec_meta r = pre"
  shows "fst (set_meta f v r) = r\<lparr>rec_meta := pre @ [(f, v)]\<rparr>"
proof -
  have tw: "takeWhile (\<lambda>p. cmp_field p (f, []) = Less) pre = pre"
    using assms(1) by (auto simp: meta_wf_def ascending_def sorted_wrt_append takeWhile_eq_all_conv cmp_field_def)
  have "find_field pre f = Inr (length pre)"
    unfolding find_field_def binary_search_by_def partition_point_def tw by simp
  then show ?thesis by (simp add: set_meta_def assms(2) insert_at_def)
qed

lemma read_meta_all:
  assumes "meta_wf (pre @ ms)" and "list_all (\<lambda>(f, x). length f \<le> MAX_ALLOC \<and> length x \<le> MAX_ALLOC) ms" and "rec_meta r = pre"
  shows "read_meta (length ms) r (concat (map (\<lambda>(f, x). write_blob f @ write_blob x) ms) @ rest) =
    Read (Some (r\<lparr>rec_meta := pre @ ms\<rparr>)) rest"
  using assms
proof (induction ms arbitrary: pre r)
  case Nil
  then show ?case by simp
next
  case (Cons p ms)
  obtain f x where p: "p = (f, x)" by (cases p)
  have w: "meta_wf (pre @ [(f, x)])" using Cons.prems(1) by (auto simp: p meta_wf_def ascending_def sorted_wrt_append)
  note s = set_meta_last [OF w Cons.prems(3)]
  have "read_meta (length ms) (fst (set_meta f x r)) (concat (map (\<lambda>(f, x). write_blob f @ write_blob x) ms) @ rest) =
      Read (Some ((r\<lparr>rec_meta := pre @ [(f, x)]\<rparr>)\<lparr>rec_meta := (pre @ [(f, x)]) @ ms\<rparr>)) rest"
    unfolding s using Cons.prems by (intro Cons.IH) (simp_all add: p)
  then show ?case
    using Cons.prems(2) by (simp add: p read_both_def read_blob_write)
qed

lemma read_vector_all:
  assumes "case v of None \<Rightarrow> True
    | Some vs \<Rightarrow> vs \<noteq> [] \<and> 4 * length vs \<le> MAX_ALLOC \<and> list_all (\<lambda>x. flt_wf F32 x \<and> is_finite x) vs"
  shows "read_vector (case v of None \<Rightarrow> 0 | Some vs \<Rightarrow> length vs)
    ((case v of None \<Rightarrow> [] | Some vs \<Rightarrow> write_blob (encode_le_f32 vs)) @ rest) = Read (Some v) rest"
  using assms vector_blob_spec by (cases v) (auto simp: read_vector_def read_blob_write)

lemma parse_record_dump:
  assumes "number_ok (rec_importance r)" and "length (rec_meta r) < 2 ^ 64" and "n < 2 ^ 64"
  shows "parse_record (rec_id r) (rec_text r) (map lit
      [int_str (unix_millis (rec_created_at r)), int_str (unix_millis (rec_updated_at r)),
       display_float F32 (rec_importance r),
       int_str (case rec_expire_at r of None \<Rightarrow> -1 | Some t \<Rightarrow> unix_millis t),
       nat_str (length (rec_meta r)), nat_str n]) = Some ((saved_record r)\<lparr>rec_meta := []\<rparr>, length (rec_meta r), n)"
proof -
  have x: "in_i64 (case rec_expire_at r of None \<Rightarrow> -1 | Some t \<Rightarrow> unix_millis t)"
    using in_i64_unix_millis by (simp split: option.split) (simp add: in_i64_def i64_min_def i64_max_def)
  show ?thesis
    using assms(2,3) parse_i64_str [OF x] in_i64_unix_millis [THEN parse_i64_str]
    by (simp add: parse_record_def parse_f32_display [OF assms(1)] parse_usize_nat record_new_def saved_record_def
        in_millis_def Let_def split: option.split)
qed

lemma read_record_dump:
  assumes "record_ok (r, v)"
  shows "read_record mt m (dump_record (r, v) @ rest) = Read (Some (load_record (saved_record r) v (Some mt) m)) rest"
proof -
  let ?n = "case v of None \<Rightarrow> 0 | Some vs \<Rightarrow> length vs"
  let ?ws = "[int_str (unix_millis (rec_created_at r)), int_str (unix_millis (rec_updated_at r)),
       display_float F32 (rec_importance r),
       int_str (case rec_expire_at r of None \<Rightarrow> -1 | Some t \<Rightarrow> unix_millis t),
       nat_str (length (rec_meta r)), nat_str ?n]"
  let ?ms = "concat (map (\<lambda>(f, x). write_blob f @ write_blob x) (rec_meta r))"
  let ?v = "case v of None \<Rightarrow> [] | Some vs \<Rightarrow> write_blob (encode_le_f32 vs)"
  have ok: "length (rec_id r) \<le> MAX_ALLOC" "length (rec_text r) \<le> MAX_ALLOC" "number_ok (rec_importance r)"
    "meta_wf (rec_meta r)" "length (rec_meta r) < 2 ^ 64"
    "list_all (\<lambda>(f, x). length f \<le> MAX_ALLOC \<and> length x \<le> MAX_ALLOC) (rec_meta r)"
    "case v of None \<Rightarrow> True
     | Some vs \<Rightarrow> vs \<noteq> [] \<and> 4 * length vs \<le> MAX_ALLOC \<and> list_all (\<lambda>x. flt_wf F32 x \<and> is_finite x) vs"
    using assms by (simp_all add: record_ok_def)
  have n: "?n < 2 ^ 64" using ok(7) by (cases v) (auto simp: MAX_ALLOC_def)
  have "list_all one_word ?ws"
    using ok(3) by (simp add: plain_int_str plain_nat_str float_word number_ok_def)
  then obtain l where l: "read_line (words ?ws @ ?ms @ ?v @ rest) = Read (Some l) (?ms @ ?v @ rest)"
    "split_ws l = map lit ?ws"
    using read_line_split [of ?ws "?ms @ ?v @ rest"] by auto
  have d: "dump_record (r, v) @ rest = write_blob (rec_id r) @ write_blob (rec_text r) @ words ?ws @ ?ms @ ?v @ rest"
    by (simp add: dump_record_def)
  have m: "read_meta (length (rec_meta r)) ((saved_record r)\<lparr>rec_meta := []\<rparr>) (?ms @ ?v @ rest) =
      Read (Some (saved_record r)) (?v @ rest)"
    using read_meta_all [of "[]" "rec_meta r" "(saved_record r)\<lparr>rec_meta := []\<rparr>" "?v @ rest"] ok(4,6)
    by (simp add: saved_record_def)
  have a: "add_loaded (saved_record r) v mt m = Done (load_record (saved_record r) v (Some mt) m)"
    using ok(7) by (auto simp: add_loaded_def)
  have b: "read_both (read_both read_blob read_blob) read_line (dump_record (r, v) @ rest) =
      Read (Some ((rec_id r, rec_text r), l)) (?ms @ ?v @ rest)"
    unfolding d read_both_def using ok(1,2) by (simp add: read_blob_write l(1))
  show ?thesis
    unfolding read_record_def b rd_bind_Read option.case prod.case l(2) parse_record_dump [OF ok(3,5) n] m
      read_vector_all [OF ok(7)] a by simp
qed

lemma read_records_dump:
  "list_all record_ok rs \<Longrightarrow>
   read_records mt (length rs) m (concat (map dump_record rs) @ rest) =
     Read (Some (fold (\<lambda>(r, v). load_record (saved_record r) v (Some mt)) rs m)) rest"
proof (induction rs arbitrary: m)
  case (Cons rv rs)
  obtain r v where rv: "rv = (r, v)" by (cases rv)
  then show ?case using Cons read_record_dump [of r v mt m "concat (map dump_record rs) @ rest"] by simp
qed simp

lemma read_memory_dump:
  assumes "memory_ok E m"
  shows "read_memory (length (records_for_dump E m)) mt
    (dump_config m @ concat (map dump_record (records_for_dump E m)) @ rest) = Read (Some (rebuilt E mt m)) rest"
  using assms read_records_dump read_memory_header by (simp add: memory_ok_def rebuilt_def)

subsection \<open>What the rebuilt index holds\<close>

lemma saved_record_id [simp]: "rec_id (saved_record r) = rec_id r"
  by (simp add: saved_record_def)

lemma fold_saved:
  "fold (\<lambda>(r, v). load_record (saved_record r) v n) rs m =
     fold (\<lambda>(r, v). load_record r v n) (map (\<lambda>(r, v). (saved_record r, v)) rs) m"
  by (induction rs arbitrary: m) auto

text \<open>
  A reloaded index has the live records of the saved one, each with its text, metadata and importance,
  its times in whole milliseconds, and its vector prepared once more for the metric.
\<close>

lemma rebuilt_spec:
  assumes wf: "memory_wf m"
  shows "memory_wf (rebuilt E mt m)" (is ?a)
    and "\<exists>sl. hm_get (mem_records (rebuilt E mt m)) i =
      map_option (\<lambda>r. (saved_record r)\<lparr>rec_slot := sl\<rparr>) (memory_get E m i)" (is ?b)
    and "memory_get E m i \<noteq> None \<Longrightarrow>
      vector_at (rebuilt E mt m) i = map_option (prepared (mc_metric (mem_config m))) (vector_at m i)"
    and "mem_config (rebuilt E mt m) = saved_config (mem_config m)" (is ?d)
proof -
  let ?rs = "records_for_dump E m"
  let ?c = "saved_config (mem_config m)"
  let ?n = "set_next_id (mem_next_id m) (memory_new ?c)"
  let ?ss = "map (\<lambda>(r, v). (saved_record r, v)) ?rs"
  note rs = records_for_dump_spec [OF wf, where E = E]
  have c: "mc_mode ?c = mc_mode (mem_config m)" "mc_metric ?c = mc_metric (mem_config m)"
    "stores_vectors (mc_mode (mem_config m)) \<Longrightarrow> mc_dim ?c = mc_dim (mem_config m)"
    by (simp_all add: saved_config_def memory_config_new_def)
  have n: "mem_records ?n = []" "mem_config ?n = ?c" by (simp_all add: set_next_id_def memory_new_def)
  have "memory_wf (memory_new ?c)" using wf c by (intro memory_new_wf) (auto simp: memory_wf_def)
  then have new: "memory_wf ?n" by (simp add: set_next_id_def memory_wf_next)
  have ids: "map (rec_id \<circ> fst) ?ss = map (rec_id \<circ> fst) ?rs" by (simp add: case_prod_beta comp_def)
  have d: "distinct (map (rec_id \<circ> fst) ?ss)" unfolding ids using sorted_ids_spec(2) [OF wf] rs(2) by simp
  have r: "rebuilt E mt m = fold (\<lambda>(r, v). load_record r v (Some mt)) ?ss ?n"
    by (simp add: rebuilt_def fold_saved)
  have vlen: "length vs = mc_dim (mem_config ?n) \<and> stores_vectors (mc_mode (mem_config ?n))"
    if "(s, Some vs) \<in> set ?ss" for s vs
  proof -
    from that obtain q where "(q, Some vs) \<in> set ?rs" by auto
    then have "vector_at m (rec_id q) = Some vs" by (simp add: rs(1))
    from vector_at_length [OF wf this] show ?thesis using c n(2) by simp
  qed
  define N where "N = rebuilt E mt m"
  have f: "memory_wf N \<and>
    (\<forall>j. j \<notin> rec_id ` fst ` set ?ss \<longrightarrow> hm_get (mem_records N) j = hm_get (mem_records ?n) j \<and> vector_at N j = vector_at ?n j) \<and>
    (\<forall>(r, v) \<in> set ?ss. (\<exists>sl. hm_get (mem_records N) (rec_id r) = Some (r\<lparr>rec_slot := sl\<rparr>)) \<and>
      vector_at N (rec_id r) = map_option (prepared (mc_metric (mem_config ?n))) v) \<and>
    mem_config N = mem_config ?n \<and> (vi_free (mem_vectors ?n) = [] \<longrightarrow> vi_free (mem_vectors N) = [])"
    unfolding N_def r by (rule fold_load_spec [OF new d]) (use n(1) vlen in simp_all)
  have f2: "hm_get (mem_records N) i = None" if "memory_get E m i = None"
  proof -
    have "rec_id ` fst ` set ?ss = set (sorted_ids E m)"
      using arg_cong [OF trans [OF ids rs(2)], of set] by (simp only: set_map image_comp o_assoc)
    with sorted_ids_spec(1) [OF wf, of E] that have "i \<notin> rec_id ` fst ` set ?ss" by simp
    with f have "hm_get (mem_records N) i = hm_get (mem_records ?n) i" by (elim conjE) blast
    then show ?thesis by (simp add: n)
  qed
  have f3: "(\<exists>sl. hm_get (mem_records N) i = Some ((saved_record q)\<lparr>rec_slot := sl\<rparr>)) \<and>
      vector_at N i = map_option (prepared (mc_metric (mem_config m))) (vector_at m i)"
    if "memory_get E m i = Some q" for q
  proof -
    have g: "rec_id q = i"
      using that wf by (auto simp: memory_get_def memory_wf_def split: option.splits if_splits)
    have "(q, vector_at m i) \<in> set ?rs" using rs(1) g that by simp
    then have "(saved_record q, vector_at m i) \<in> set ?ss" by force
    with f have "(\<exists>sl. hm_get (mem_records N) (rec_id (saved_record q)) = Some ((saved_record q)\<lparr>rec_slot := sl\<rparr>)) \<and>
      vector_at N (rec_id (saved_record q)) = map_option (prepared (mc_metric (mem_config ?n))) (vector_at m i)"
      by (elim conjE) (drule (1) bspec, simp)
    then show ?thesis by (simp only: saved_record_id g n(2) c)
  qed
  show ?a using f unfolding N_def by (elim conjE)
  show ?d using f n(2) unfolding N_def by (elim conjE) simp
  show ?b
  proof (cases "memory_get E m i")
    case None
    with f2 show ?thesis by (simp add: N_def)
  next
    case (Some q)
    with f3 [OF Some] show ?thesis by (simp add: N_def)
  qed
  show "vector_at (rebuilt E mt m) i = map_option (prepared (mc_metric (mem_config m))) (vector_at m i)"
    if "memory_get E m i \<noteq> None"
    using that f3 by (auto simp: N_def)
qed

end
