(* ===== verification/Reload.thy ===== *)
theory Reload
  imports ReloadMemory CmdMemory
begin

text \<open>
  Reading a dump back: what \<open>save_inner\<close> wrote, \<open>persist_load\<close> restores. The lemmas follow the format:
  one entry, the whole file, and then the store the entries build.
\<close>

subsection \<open>One entry\<close>

text \<open>What the format holds of a value, and the values it can hold: lengths an allocation can have and
  numbers that are floats.\<close>

fun came_back :: "env \<Rightarrow> nat \<Rightarrow> val \<Rightarrow> val" where
  "came_back E max_terms (VMemory m) = VMemory (rebuilt E max_terms m)"
| "came_back E max_terms v = v"

fun loaded :: "val \<Rightarrow> loaded_value" where
  "loaded (VStr s) = LStr s"
| "loaded (VList xs) = LList xs"
| "loaded (VHash h) = LHash h"
| "loaded (VSet s) = LSet s"
| "loaded (VZset z) = LZset z"
| "loaded (VMemory m) = LMemory m"

definition fits :: "bytes \<Rightarrow> bool" where
  "fits s \<longleftrightarrow> length s \<le> MAX_ALLOC"

fun storable :: "env \<Rightarrow> val \<Rightarrow> bool" where
  "storable E (VStr s) \<longleftrightarrow> fits s"
| "storable E (VList xs) \<longleftrightarrow> 24 * length xs \<le> MAX_ALLOC \<and> list_all fits xs"
| "storable E (VHash h) \<longleftrightarrow> 48 * length h \<le> MAX_ALLOC \<and> list_all (\<lambda>(f, v). fits f \<and> fits v) h"
| "storable E (VSet s) \<longleftrightarrow> 24 * length s \<le> MAX_ALLOC \<and> list_all fits s"
| "storable E (VZset z) \<longleftrightarrow>
     32 * length z \<le> MAX_ALLOC \<and> list_all (\<lambda>(m, x). fits m \<and> flt_wf F64 x \<and> \<not> is_nan x) z"
| "storable E (VMemory m) \<longleftrightarrow> memory_ok E m"

text \<open>The bytes of one entry, from its value and the deadline it is written with.\<close>

fun entry_text :: "env \<Rightarrow> bytes \<Rightarrow> val \<Rightarrow> int \<Rightarrow> bytes" where
  "entry_text E k (VStr s) t = words [''STRING'', int_str t] @ write_blob k @ write_blob s"
| "entry_text E k (VList xs) t = dump_collection ''LIST'' t k (length xs) (concat (map write_blob xs))"
| "entry_text E k (VHash h) t =
     dump_collection ''HASH'' t k (length h) (concat (map (\<lambda>(f, v). write_blob f @ write_blob v) h))"
| "entry_text E k (VSet s) t = dump_collection ''SET'' t k (length s) (concat (map write_blob s))"
| "entry_text E k (VZset z) t =
     dump_collection ''ZSET'' t k (length z) (concat (map (\<lambda>(m, s). write_blob m @ format_f64 s @ nl) z))"
| "entry_text E k (VMemory m) t =
     dump_collection ''MEMORY'' t k (length (records_for_dump E m))
       (dump_config m @ concat (map dump_record (records_for_dump E m)))"

lemma plain_kinds:
  "one_word ''STRING'' \<and> one_word ''LIST'' \<and> one_word ''HASH'' \<and> one_word ''SET'' \<and> one_word ''ZSET'' \<and> one_word ''MEMORY''"
  by (simp add: one_word_def word_char_def is_whitespace_def)

lemma turn_collection:
  assumes "one_word kind" and "fits k" and "in_i64 t" and "n < 2 ^ 64"
    and v: "read_value mt (lit kind) n (body @ rest) = Read (Take v) rest"
  shows "load_turn mt (dump_collection kind t k n body @ rest) =
    Read (Take \<lparr>le_key = k, le_value = v, le_expire_at = t\<rparr>) rest"
proof -
  have ws: "list_all one_word [kind, int_str t, nat_str n]"
    using assms(1) plain_int_str plain_nat_str by simp
  have "read_line (dump_collection kind t k n body @ rest) =
      Read (Some (lit (join '' '' [kind, int_str t, nat_str n]))) (write_blob k @ body @ rest)"
    unfolding dump_collection_def append_assoc by (rule read_line_words [OF ws]) simp
  moreover have "str_parse_i64 (lit (int_str t)) = Some t" using assms(3) str_parse_int_str by (simp add: lit_def)
  ultimately show ?thesis
    using split_ws_join [OF ws] read_blob_write [of k "body @ rest"] assms(2) parse_usize_nat [OF assms(4)] v
    by (simp add: load_turn_def fits_def or_else_def Let_def)
qed

lemma turn_entry:
  assumes "storable E v" and "fits k" and "in_i64 t"
  shows "load_turn mt (entry_text E k v t @ rest) =
    Read (Take \<lparr>le_key = k, le_value = loaded (came_back E mt v), le_expire_at = t\<rparr>) rest"
proof -
  have w: "read_blob (write_blob x @ r) = Read (Some x) r" if "fits x" for x r
    using read_blob_write that by (simp add: fits_def)
  have p: "read_both read_blob read_blob (write_blob f @ write_blob x @ r) = Read (Some (f, x)) r" if "fits f" "fits x" for f x r
    using w that by (simp add: read_both_def)
  have z: "read_both read_blob read_score (write_blob f @ (format_f64 x @ nl) @ r) = Read (Some (f, x)) r"
    if "fits f" "flt_wf F64 x" "\<not> is_nan x" for f x r
    using w [OF that(1)] read_score_format [OF that(2,3), of r] by (simp add: read_both_def)
  have cap: "with_capacity each n x = x" if "each * n \<le> MAX_ALLOC" for each n and x :: "'a rd"
    using that by (simp add: with_capacity_def)
  show ?thesis
  proof (cases v)
    case (VStr s)
    have ws: "list_all one_word [''STRING'', int_str t]" using plain_kinds plain_int_str by simp
    have "read_line (words [''STRING'', int_str t] @ write_blob k @ write_blob s @ rest) =
        Read (Some (lit (join '' '' [''STRING'', int_str t]))) (write_blob k @ write_blob s @ rest)"
      by (rule read_line_words [OF ws]) simp
    moreover have "str_parse_i64 (lit (int_str t)) = Some t" using assms(3) str_parse_int_str by (simp add: lit_def)
    ultimately show ?thesis
      using split_ws_join [OF ws] w [OF assms(2)] w [of s rest] assms(1) VStr
      by (simp add: load_turn_def read_value_def or_else_def Let_def)
  next
    case (VList xs)
    have "read_up_to read_blob (length xs) (concat (map write_blob xs) @ rest) = Read xs rest"
      using assms(1) VList w by (intro read_up_to_all) (simp add: list_all_iff)
    then have "read_value mt (lit ''LIST'') (length xs) (concat (map write_blob xs) @ rest) = Read (Take (LList xs)) rest"
      using assms(1) VList by (simp add: read_value_def cap lit_def)
    then show ?thesis
      using turn_collection plain_kinds assms VList by (simp add: MAX_ALLOC_def)
  next
    case (VSet xs)
    have "read_up_to read_blob (length xs) (concat (map write_blob xs) @ rest) = Read xs rest"
      using assms(1) VSet w by (intro read_up_to_all) (simp add: list_all_iff)
    then have "read_value mt (lit ''SET'') (length xs) (concat (map write_blob xs) @ rest) = Read (Take (LSet xs)) rest"
      using assms(1) VSet by (simp add: read_value_def cap lit_def)
    then show ?thesis
      using turn_collection plain_kinds assms VSet by (simp add: MAX_ALLOC_def)
  next
    case (VHash h)
    let ?enc = "\<lambda>(f, v). write_blob f @ write_blob v"
    have "read_up_to (read_both read_blob read_blob) (length h) (concat (map ?enc h) @ rest) = Read h rest"
      using assms(1) VHash p by (intro read_up_to_all) (auto simp: list_all_iff)
    then have "read_value mt (lit ''HASH'') (length h) (concat (map ?enc h) @ rest) = Read (Take (LHash h)) rest"
      using assms(1) VHash by (simp add: read_value_def cap lit_def)
    then show ?thesis
      using turn_collection plain_kinds assms VHash by (simp add: MAX_ALLOC_def)
  next
    case (VZset s)
    let ?enc = "\<lambda>(m, s). write_blob m @ format_f64 s @ nl"
    have "read_up_to (read_both read_blob read_score) (length s) (concat (map ?enc s) @ rest) = Read s rest"
      using assms(1) VZset z by (intro read_up_to_all) (auto simp: list_all_iff)
    then have "read_value mt (lit ''ZSET'') (length s) (concat (map ?enc s) @ rest) = Read (Take (LZset s)) rest"
      using assms(1) VZset by (simp add: read_value_def cap lit_def)
    then show ?thesis
      using turn_collection plain_kinds assms VZset by (simp add: MAX_ALLOC_def)
  next
    case (VMemory m)
    let ?rs = "records_for_dump E m"
    have ok: "memory_ok E m" using assms(1) VMemory by simp
    have "read_value mt (lit ''MEMORY'') (length ?rs) ((dump_config m @ concat (map dump_record ?rs)) @ rest) =
        Read (Take (LMemory (rebuilt E mt m))) rest"
      using read_memory_dump [OF ok] by (simp add: read_value_def lit_def)
    then show ?thesis
      using turn_collection plain_kinds assms(2,3) ok VMemory by (simp add: memory_ok_def)
  qed
qed

subsection \<open>The whole file\<close>

text \<open>The deadline written for a key: whole milliseconds left, from the whole millisecond it is now.\<close>

definition written_deadline :: "env \<Rightarrow> time option \<Rightarrow> int" where
  "written_deadline E t = (case t of None \<Rightarrow> -1 | Some t \<Rightarrow> now E div 1000000 + (t - now E) div 1000000)"

text \<open>Clock readings and deadlines whose milliseconds fit an \<open>i64\<close>.\<close>

definition on_the_clock :: "env \<Rightarrow> time option \<Rightarrow> bool" where
  "on_the_clock E t \<longleftrightarrow> 0 \<le> now E \<and> (case t of None \<Rightarrow> True | Some t \<Rightarrow> now E < t \<and> t div 1000000 < 2 ^ 63)"

lemma as_i64_id: "in_i64 n \<Longrightarrow> as_i64 n = n"
  by (simp add: in_i64_def as_i64_def i64_min_def i64_max_def)

lemma written_deadline_range:
  assumes "on_the_clock E t"
  shows "in_i64 (written_deadline E t)"
    and "written_deadline E t = (case t of None \<Rightarrow> -1 | Some t \<Rightarrow> unix_millis (now E) + as_i64 ((t - now E) div 1000000))"
    and "t = Some d \<Longrightarrow> 0 \<le> as_i64 ((d - now E) div 1000000)"
    and "t = Some d \<Longrightarrow> 0 \<le> written_deadline E t"
proof -
  have s: "in_i64 (now E div 1000000) \<and> in_i64 ((d - now E) div 1000000) \<and>
      0 \<le> (d - now E) div 1000000 \<and> 0 \<le> now E div 1000000 \<and> in_i64 (now E div 1000000 + (d - now E) div 1000000)"
    if "t = Some d" for d
  proof -
    have b: "0 \<le> now E" "now E < d" "d div 1000000 < 2 ^ 63" using assms that by (simp_all add: on_the_clock_def)
    have "now E div 1000000 + (d - now E) div 1000000 \<le> d div 1000000" using b by linarith
    moreover have "0 \<le> (d - now E) div 1000000" "0 \<le> now E div 1000000" using b by simp_all
    ultimately show ?thesis using b(3) by (simp add: in_i64_def i64_min_def i64_max_def)
  qed
  have u: "unix_millis (now E) = as_i64 (now E div 1000000)" using assms by (simp add: unix_millis_def on_the_clock_def)
  show "in_i64 (written_deadline E t)"
    using s by (cases t) (simp_all add: written_deadline_def, simp add: in_i64_def i64_min_def i64_max_def)
  show "written_deadline E t = (case t of None \<Rightarrow> -1 | Some t \<Rightarrow> unix_millis (now E) + as_i64 ((t - now E) div 1000000))"
    using s by (cases t) (simp_all add: written_deadline_def u as_i64_id)
  show "t = Some d \<Longrightarrow> 0 \<le> as_i64 ((d - now E) div 1000000)" using s by (simp add: as_i64_id)
  show "t = Some d \<Longrightarrow> 0 \<le> written_deadline E t" using s by (simp add: written_deadline_def)
qed

lemma dump_entry_text:
  assumes wf: "store_wf st" and k: "live E st k = Some (v, t)" and v: "storable E v" and c: "on_the_clock E t"
  shows "snd (dump_entry E (k, val_type v) st) = entry_text E k v (written_deadline E t)"
proof -
  obtain s1 ttl where p: "pttl_ms E k st = (s1, ttl)" by (cases "pttl_ms E k st")
  have s: "store_wf s1" "live E s1 = live E st"
    and ttl: "ttl = (case t of None \<Rightarrow> -1 | Some t \<Rightarrow> as_i64 ((t - now E) div 1000000))"
    using pttl_ms_spec [OF wf, of E k] p k c by (auto simp: on_the_clock_def split: option.split)
  have e: "ttl < 0 \<Longrightarrow> written_deadline E t = -1" "\<not> ttl < 0 \<Longrightarrow> unix_millis (now E) + ttl = written_deadline E t"
    using written_deadline_range(2,3) [OF c] ttl by (cases t; simp)+
  show ?thesis
  proof (cases v)
    case (VStr x)
    then show ?thesis using k e get_string_spec(3) [OF s(1), of E k]
      by (simp add: dump_entry_def p s case_prod_beta Let_def)
  next
    case (VMemory m)
    have "snd (get_existing_memory E k s1) = Some m"
      using k VMemory by (cases rule: find_cases [OF s(1), of E k]) (auto simp: get_existing_memory_def datum_of_def s(2) split: val.split)
    then show ?thesis using e VMemory by (simp add: dump_entry_def p case_prod_beta Let_def dump_collection_def)
  qed (use v k e in \<open>simp_all add: dump_entry_def p s case_prod_beta Let_def read_collection_spec(3) [OF s(1)]\<close>)
qed

definition file_entry :: "env \<Rightarrow> nat \<Rightarrow> (bytes \<Rightarrow> datum option) \<Rightarrow> bytes \<Rightarrow> loaded_entry" where
  "file_entry E mt M k =
     (case M k of
        Some (v, t) \<Rightarrow> \<lparr>le_key = k, le_value = loaded (came_back E mt v), le_expire_at = written_deadline E t\<rparr>
      | None \<Rightarrow> \<lparr>le_key = k, le_value = LStr [], le_expire_at = -1\<rparr>)"

definition all_storable :: "env \<Rightarrow> (bytes \<Rightarrow> datum option) \<Rightarrow> bool" where
  "all_storable E M \<longleftrightarrow> (\<forall>k v t. M k = Some (v, t) \<longrightarrow> fits k \<and> storable E v \<and> on_the_clock E t)"

definition listed :: "(bytes \<Rightarrow> datum option) \<Rightarrow> (bytes \<times> store_type) list \<Rightarrow> bool" where
  "listed M kts \<longleftrightarrow> (\<forall>(k, kind) \<in> set kts. \<exists>v t. M k = Some (v, t) \<and> kind = val_type v)"

lemma load_dump_entries:
  assumes "store_wf st" and "listed (live E st) kts" and "all_storable E (live E st)"
  shows "load_v2 mt (snd (dump_entries E kts st)) = Read (map (file_entry E mt (live E st) \<circ> fst) kts) []"
  using assms
proof (induction kts arbitrary: st)
  case Nil
  have "load_turn mt [] = Read Stop []" by (simp add: load_turn_def read_line_def)
  then show ?case by (simp add: load_v2.simps)
next
  case (Cons kt kts)
  obtain k kind where kt: "kt = (k, kind)" by (cases kt)
  then obtain v t where v: "live E st k = Some (v, t)" "kind = val_type v" using Cons.prems(2) by (auto simp: listed_def)
  then have ok: "fits k" "storable E v" "on_the_clock E t" using Cons.prems(3) by (auto simp: all_storable_def)
  let ?s = "fst (dump_entry E kt st)"
  have s: "store_wf ?s" "live E ?s = live E st" using dump_entry_view [OF Cons.prems(1)] by simp_all
  have eq: "snd (dump_entries E (kt # kts) st) = entry_text E k v (written_deadline E t) @ snd (dump_entries E kts ?s)"
    using dump_entry_text [OF Cons.prems(1) v(1) ok(2,3)] v(2) kt by (simp add: case_prod_beta Let_def)
  have ih: "load_v2 mt (snd (dump_entries E kts ?s)) = Read (map (file_entry E mt (live E st) \<circ> fst) kts) []"
    using Cons.IH [OF s(1)] Cons.prems(2,3) s(2) by (simp add: listed_def)
  have "file_entry E mt (live E st) k = \<lparr>le_key = k, le_value = loaded (came_back E mt v), le_expire_at = written_deadline E t\<rparr>"
    by (simp add: file_entry_def v)
  then show ?case
    unfolding eq load_v2.simps [of mt "entry_text E k v (written_deadline E t) @ snd (dump_entries E kts ?s)"]
    using ih turn_entry [OF ok(2,1) written_deadline_range(1) [OF ok(3)]] kt by simp
qed

lemma foreach_listed:
  assumes "store_wf st"
  shows "listed (live E st) (foreach_entry E st)" and "distinct (map fst (foreach_entry E st))"
    and "fst ` set (foreach_entry E st) = dom (live E st)"
proof -
  have wf: "hm_wf (entries st)" using store_wf_hm [OF assms] .
  have l: "live E st k = (case hm_get (entries st) k of None \<Rightarrow> None | Some e \<Rightarrow> if is_live E e then Some (datum_of e) else None)" for k
    by (simp add: live_def contents_def is_live_datum split: option.split)
  show "listed (live E st) (foreach_entry E st)"
    using wf by (fastforce simp: listed_def foreach_entry_def l datum_of_def hm_get_mem [OF wf])
  have "map fst (foreach_entry E st) = map fst (filter (\<lambda>(k, e). is_live E e) (entries st))"
    by (simp add: foreach_entry_def case_prod_beta comp_def)
  then show "distinct (map fst (foreach_entry E st))"
    using wf by (simp add: hm_wf_def distinct_map_filter)
  show "fst ` set (foreach_entry E st) = dom (live E st)"
    by (force simp: foreach_entry_def l dom_def hm_get_mem [OF wf] image_iff split: option.splits if_splits)
qed

lemma read_saved:
  assumes "store_wf st" and "all_storable E (live E st)" and "save_inner E st = (st', Some file)"
  shows "read_dump mt file = Read (map (file_entry E mt (live E st) \<circ> fst) (foreach_entry E st)) []"
proof -
  have f: "file = DUMP_MAGIC @ nl @ snd (dump_entries E (foreach_entry E st) st)"
    using assms(3) by (auto simp: save_inner_def case_prod_beta Let_def split: option.splits)
  have "read_line file = Read (Some (lit DUMP_MAGIC)) (snd (dump_entries E (foreach_entry E st) st))"
    unfolding f by (rule read_line_text) (simp_all add: DUMP_MAGIC_def is_ascii_def)
  moreover have "starts_with (lit DUMP_MAGIC) DUMP_MAGIC" by (simp add: starts_with_def lit_def)
  ultimately show ?thesis
    using load_dump_entries [OF assms(1) foreach_listed(1) [OF assms(1)] assms(2)] by (simp add: read_dump_def)
qed

subsection \<open>The store the entries build\<close>

lemma set_insert_fold: "distinct (ys @ xs) \<Longrightarrow> fold set_insert xs ys = ys @ xs"
  by (induction xs arbitrary: ys) (simp_all add: set_insert_def)

lemma hm_insert_new: "k \<notin> fst ` set m \<Longrightarrow> hm_insert k v m = m @ [(k, v)]"
  by (induction m) auto

lemma fold_hm_insert: "distinct (map fst (ys @ xs)) \<Longrightarrow> fold (\<lambda>(f, v). hm_insert f v) xs ys = ys @ xs"
  by (induction xs arbitrary: ys) (auto simp: hm_insert_new)

lemma zset_add_last: "zset_wf (z @ [(m, x)]) \<Longrightarrow> fst (zset_add z m x) = z @ [(m, x)]"
proof -
  assume w: "zset_wf (z @ [(m, x)])"
  then have "find_index z m = None" by (simp add: zset_wf_def find_index_None)
  moreover have "takeWhile (\<lambda>e. cmp_entry e (m, x) = Less) z = z"
    using w by (simp add: zset_wf_def ascending_def sorted_wrt_append takeWhile_eq_all_conv)
  then have "insert_at (partition_point (\<lambda>e. cmp_entry e (m, x) = Less) z) (m, x) z = z @ [(m, x)]"
    unfolding insert_at_partition_point by (simp add: takeWhile_eq_all_conv)
  ultimately show ?thesis by (simp add: zset_add_def Let_def)
qed

lemma zset_wf_prefix: "zset_wf (a @ b) \<Longrightarrow> zset_wf a"
  by (auto simp: zset_wf_def ascending_def sorted_wrt_append)

lemma fold_zset_add: "zset_wf (ys @ xs) \<Longrightarrow> fold (\<lambda>(m, x) z. fst (zset_add z m x)) xs ys = ys @ xs"
proof (induction xs arbitrary: ys)
  case (Cons e xs)
  obtain m x where e: "e = (m, x)" by (cases e)
  have "zset_wf (ys @ [(m, x)])" using Cons.prems zset_wf_prefix [of "ys @ [(m, x)]" xs] by (simp add: e)
  then show ?case using Cons zset_add_last by (simp add: e)
qed simp

lemma install_value_fresh:
  assumes wf: "store_wf st" and n: "live E st k = None" and v: "val_wf v"
  shows "store_wf (install_value E k (loaded v) st)"
    and "live E (install_value E k (loaded v) st) = (live E st)(k \<mapsto> (v, None))"
proof -
  have g: "store_wf (fst (get_or_create prj dflt E k st))"
    "live E (fst (get_or_create prj dflt E k st)) = (live E st)(k \<mapsto> (dflt, None))"
    "snd (get_or_create prj dflt E k st) = prj dflt" for prj :: "val \<Rightarrow> 'c option" and dflt
    using get_or_create_spec [OF wf, where prj = prj and dflt = dflt and E = E and k = k] n by simp_all
  have "store_wf (install_value E k (loaded v) st) \<and>
      live E (install_value E k (loaded v) st) = (live E st)(k \<mapsto> (v, None))"
  proof (cases v)
    case (VStr s)
    then show ?thesis using set_string_spec [OF wf] by (simp add: install_value_def)
  next
    case (VList xs)
    then show ?thesis       by (simp add: install_value_def case_prod_beta Let_def g put_value_spec [OF g(1)])
  next
    case (VHash h)
    then have "fold (\<lambda>(f, v). hm_insert f v) h [] = h" using fold_hm_insert [of "[]" h] v by (simp add: hm_wf_def)
    then show ?thesis using VHash
      by (simp add: install_value_def case_prod_beta Let_def g put_value_spec [OF g(1)])
  next
    case (VSet s)
    then have "fold set_insert s [] = s" using set_insert_fold [of "[]" s] v by simp
    then show ?thesis using VSet
      by (simp add: install_value_def case_prod_beta Let_def g put_value_spec [OF g(1)])
  next
    case (VZset z)
    then have "fold (\<lambda>(m, x) z. fst (zset_add z m x)) z [] = z" using fold_zset_add [of "[]" z] v by simp
    then show ?thesis using VZset
      by (simp add: install_value_def case_prod_beta Let_def g put_value_spec [OF g(1)])
  next
    case (VMemory m)
    then show ?thesis using n by (simp add: install_value_def create_memory_spec [OF wf])
  qed
  then show "store_wf (install_value E k (loaded v) st)"
    "live E (install_value E k (loaded v) st) = (live E st)(k \<mapsto> (v, None))" by simp_all
qed

text \<open>What a reader at another time finds of a key.\<close>

definition kept_until :: "env \<Rightarrow> env \<Rightarrow> val \<Rightarrow> time option \<Rightarrow> datum option" where
  "kept_until E E' v t =
     (case t of
        None \<Rightarrow> Some (v, None)
      | Some _ \<Rightarrow> (let t' = written_deadline E t * 1000000 in if now E' < t' then Some (v, Some t') else None))"

definition reloaded :: "env \<Rightarrow> nat \<Rightarrow> env \<Rightarrow> datum \<Rightarrow> datum option" where
  "reloaded E mt E' d = kept_until E E' (came_back E mt (fst d)) (snd d)"

lemma install_fresh:
  assumes wf: "store_wf st" and n: "live E' st k = None" and v: "val_wf v" and c: "on_the_clock E t"
  shows "store_wf (install E' \<lparr>le_key = k, le_value = loaded v, le_expire_at = written_deadline E t\<rparr> st)"
    and "live E' (install E' \<lparr>le_key = k, le_value = loaded v, le_expire_at = written_deadline E t\<rparr> st) =
      (live E' st)(k := kept_until E E' v t)"
proof -
  let ?s = "install_value E' k (loaded v) st"
  note i = install_value_fresh [OF wf n v]
  have ne: "\<not> is_empty_collection v" using v by (cases v) simp_all
  have "store_wf (install E' \<lparr>le_key = k, le_value = loaded v, le_expire_at = written_deadline E t\<rparr> st) \<and>
      live E' (install E' \<lparr>le_key = k, le_value = loaded v, le_expire_at = written_deadline E t\<rparr> st) =
      (live E' st)(k := kept_until E E' v t)"
  proof (cases t)
    case None
    then show ?thesis
      using delete_if_empty_spec [OF i(1), of E' k] i(2) ne
      by (simp add: install_def written_deadline_def kept_until_def)
  next
    case (Some d)
    let ?d = "from_unix_millis (written_deadline E t)"
    have d: "0 \<le> written_deadline E t" "?d = written_deadline E t * 1000000"
      using written_deadline_range(4) [OF c Some] by (simp_all add: from_unix_millis_def)
    let ?u = "fst (set_expire_at E' k (Some ?d) ?s)"
    have u: "store_wf ?u" "live E' ?u = (live E' st)(k := kept_until E E' v t)"
      using set_expire_at_spec [OF i(1), of E' k "Some ?d"] i(2) d(2) Some
      by (auto simp: kept_until_def unexpired_def fun_eq_iff Let_def)
    have "live E' ?u k = None \<or> (\<exists>t. live E' ?u k = Some (v, t))"
      unfolding u(2) by (simp add: kept_until_def Some Let_def)
    then have "live E' (delete_if_empty E' k ?u) = live E' ?u"
      using delete_if_empty_spec(2) [OF u(1), of E' k] ne by auto
    then show ?thesis
      using delete_if_empty_spec(1) [OF u(1), of E' k] u(2) d(1) by (simp add: install_def)
  qed
  then show "store_wf (install E' \<lparr>le_key = k, le_value = loaded v, le_expire_at = written_deadline E t\<rparr> st)"
    "live E' (install E' \<lparr>le_key = k, le_value = loaded v, le_expire_at = written_deadline E t\<rparr> st) =
      (live E' st)(k := kept_until E E' v t)" by simp_all
qed

lemma install_tidy:
  assumes "tidy E st" and "vals_ok (live E st)" and n: "live E st k = None" and v: "val_wf v"
  shows "tidy E (install E \<lparr>le_key = k, le_value = loaded v, le_expire_at = d\<rparr> st)"
proof -
  note wf = tidy_wf [OF assms(1)]
  have g: "tidy E (fst (get_or_create prj dflt E k st))" "live E (fst (get_or_create prj dflt E k st)) k \<noteq> None"
    for prj :: "val \<Rightarrow> 'c option" and dflt
    using get_or_create_tidy [OF assms(1)] get_or_create_spec(2) [OF wf, where prj = prj and dflt = dflt and E = E and k = k] n
    by simp_all
  have "tidy E (install_value E k (loaded v) st)"
    by (cases v)
      (simp_all add: install_value_def case_prod_beta Let_def set_string_tidy assms(1) create_memory_tidy g put_value_tidy
        split: option.split)
  moreover have "vals_ok (live E (install_value E k (loaded v) st))"
    unfolding install_value_fresh(2) [OF wf n v] using assms(2) v by blast
  ultimately show ?thesis
    by (simp add: install_def set_expire_at_tidy reads_tidy Let_def)
qed

lemma install_all:
  assumes "all_storable E M" and "vals_ok M"
  shows "tidy E' s \<Longrightarrow> vals_ok (live E' s) \<Longrightarrow> distinct ks \<Longrightarrow> set ks \<subseteq> dom M \<Longrightarrow> \<forall>k \<in> set ks. live E' s k = None \<Longrightarrow>
    tidy E' (fold (install E') (map (file_entry E mt M) ks) s) \<and>
    vals_ok (live E' (fold (install E') (map (file_entry E mt M) ks) s)) \<and>
    live E' (fold (install E') (map (file_entry E mt M) ks) s) =
      (\<lambda>k. if k \<in> set ks then Option.bind (M k) (reloaded E mt E') else live E' s k)"
proof (induction ks arbitrary: s)
  case Nil
  then show ?case by simp
next
  case (Cons k ks)
  obtain v t where m: "M k = Some (v, t)" using Cons.prems(4) by auto
  then have ok: "on_the_clock E t" "val_wf v"
    using assms unfolding all_storable_def vals_ok_def by blast+
  then have w: "val_wf (came_back E mt v)" by (cases v) (simp_all add: rebuilt_spec(1))
  have e: "file_entry E mt M k = \<lparr>le_key = k, le_value = loaded (came_back E mt v), le_expire_at = written_deadline E t\<rparr>"
    by (simp add: file_entry_def m)
  note i = install_fresh [OF tidy_wf [OF Cons.prems(1)] _ w ok(1), of E' k, folded e]
  have n: "live E' s k = None" using Cons.prems(5) by simp
  let ?s = "install E' (file_entry E mt M k) s"
  have a: "\<forall>j \<in> set ks. live E' ?s j = None"
    using Cons.prems(3,5) by (auto simp: i(2) [OF n])
  have t: "tidy E' ?s"
    unfolding e by (rule install_tidy [OF Cons.prems(1,2) n w])
  have v: "vals_ok (live E' ?s)"
    unfolding i(2) [OF n] using Cons.prems(2) w
    by (auto simp: vals_ok_def kept_until_def Let_def split: option.splits if_splits)
  have ks: "distinct ks" "set ks \<subseteq> dom M" "k \<notin> set ks" using Cons.prems(3,4) by simp_all
  let ?r = "fold (install E') (map (file_entry E mt M) ks) ?s"
  have s: "live E' ?s = (live E' s)(k := Option.bind (M k) (reloaded E mt E'))"
    by (simp add: i(2) [OF n] m reloaded_def)
  note ih = Cons.IH [OF t v ks(1,2) a]
  then have l: "live E' ?r = (\<lambda>x. if x \<in> set ks then Option.bind (M x) (reloaded E mt E') else live E' ?s x)" by (elim conjE)
  have "live E' ?r x = (if x \<in> set (k # ks) then Option.bind (M x) (reloaded E mt E') else live E' s x)" for x
    unfolding l s using ks(3) by simp
  then have "live E' ?r = (\<lambda>x. if x \<in> set (k # ks) then Option.bind (M x) (reloaded E mt E') else live E' s x)"
    by (rule ext)
  with ih have "tidy E' ?r \<and> vals_ok (live E' ?r) \<and>
      live E' ?r = (\<lambda>x. if x \<in> set (k # ks) then Option.bind (M x) (reloaded E mt E') else live E' s x)"
    by blast
  then show ?case unfolding list.map fold_simps .
qed

lemma load_saved:
  assumes "store_ok st" and "all_storable E (live E st)" and "save_inner E st = (st', Some file)"
  shows "\<exists>r. persist_load E' (Some file) mt (empty_store E') = Done r \<and> store_ok r \<and>
    live E' r = (\<lambda>k. Option.bind (live E st k) (reloaded E mt E'))"
proof -
  have wf: "store_wf st" and vals: "vals_ok (live E st)"
    using assms(1) by (auto simp: store_ok_def vals_ok_def live_def split: option.splits if_splits)
  let ?ks = "map fst (foreach_entry E st)"
  let ?r = "fold (install E') (map (file_entry E mt (live E st)) ?ks) (empty_store E')"
  have "persist_load E' (Some file) mt (empty_store E') = Done ?r"
    by (simp add: persist_load_def read_saved [OF wf assms(2,3)])
  moreover have r: "tidy E' ?r \<and> vals_ok (live E' ?r) \<and> live E' ?r =
      (\<lambda>k. if k \<in> set ?ks then Option.bind (live E st k) (reloaded E mt E') else live E' (empty_store E') k)"
    using foreach_listed(2,3) [OF wf, of E] by (intro install_all [OF assms(2) vals]) (simp_all add: live_empty_store store_okD(2) [OF empty_store_ok])
  moreover have "k \<notin> set ?ks \<Longrightarrow> live E st k = None" for k
    using foreach_listed(3) [OF wf, of E] by auto
  moreover have "store_ok ?r" using r tidy_store_ok by blast
  ultimately show ?thesis by (auto simp: live_empty_store fun_eq_iff)
qed

subsection \<open>Properties\<close>


lemma sample_storable: "all_storable sample_env (live sample_env sample_store)"
  unfolding live_sample_store
  by (simp add: all_storable_def fits_def MAX_ALLOC_def on_the_clock_def sample_env_def)


end
