(* ===== verification/Startup.thy ===== *)
theory Startup
  imports Load App
begin

text \<open>
  From the command line to the first round: \<^verbatim>\<open>Config::load_file\<close> of \<^verbatim>\<open>src/config.rs\<close> and the argument
  handling and start of \<^verbatim>\<open>src/main.rs\<close>. Files are a function from paths to their text, or to the message of
  the error that reading them gives.
\<close>

subsection \<open>The configuration file\<close>

text \<open>\<open>str::lines\<close>; the carriage return of a line ending goes with it.\<close>

definition strip_cr :: "str \<Rightarrow> str" where
  "strip_cr s = (if s \<noteq> [] \<and> last s = 13 then butlast s else s)"

function lines_of :: "str \<Rightarrow> str list" where
  "lines_of s =
     (if s = [] then []
      else if 10 \<in> set s then
        strip_cr (takeWhile (\<lambda>c. c \<noteq> 10) s) # lines_of (tl (dropWhile (\<lambda>c. c \<noteq> 10) s))
      else [s])"
  by pat_completeness auto

termination
proof (relation "measure length")
  fix s :: str
  assume "s \<noteq> []" "10 \<in> set s"
  then have "dropWhile (\<lambda>c. c \<noteq> 10) s \<noteq> []" by (simp add: dropWhile_eq_Nil_conv)
  then have "length (tl (dropWhile (\<lambda>c. c \<noteq> 10) s)) < length (dropWhile (\<lambda>c. c \<noteq> 10) s)" by simp
  also have "\<dots> \<le> length s" by (rule length_dropWhile_le)
  finally show "(tl (dropWhile (\<lambda>c. c \<noteq> 10) s), s) \<in> measure length" by simp
qed simp

declare lines_of.simps [simp del]

definition no_value :: "nat \<Rightarrow> str \<Rightarrow> bytes" where
  "no_value n line = ''line '' @ nat_str n @ '': `'' @ utf8_encode line @ ''` has no value''"

definition bad_setting :: "nat \<Rightarrow> set_error \<Rightarrow> str \<Rightarrow> bytes" where
  "bad_setting n e name = ''line '' @ nat_str n @ '': '' @ set_error_text e @ '' `'' @ utf8_encode name @ ''`''"

text \<open>One line of the file: the configuration after it and the problem it has.\<close>

definition load_line :: "nat \<Rightarrow> str \<Rightarrow> config \<Rightarrow> config \<times> bytes option" where
  "load_line n raw c =
     (let line = trim (takeWhile (\<lambda>ch. ch \<noteq> ord_of (CHR ''#'')) raw)
      in if line = [] then (c, None)
         else
           (let name = takeWhile (\<lambda>ch. \<not> is_whitespace ch) line
            in if name = line then (c, Some (no_value n line))
               else
                 (let value = trim (tl (dropWhile (\<lambda>ch. \<not> is_whitespace ch) line));
                      (c, e) = config_set c (to_lower (utf8_encode name)) value True
                  in (c, map_option (\<lambda>e. bad_setting n e name) e))))"

fun load_lines :: "nat \<Rightarrow> str list \<Rightarrow> config \<Rightarrow> config \<times> bytes list" where
  "load_lines n [] c = (c, [])"
| "load_lines n (l # ls) c =
     (let (c, p) = load_line n l c; (c, ps) = load_lines (n + 1) ls c
      in (c, (case p of None \<Rightarrow> ps | Some p \<Rightarrow> p # ps)))"

type_synonym files = "str \<Rightarrow> bytes + str"

definition load_file :: "files \<Rightarrow> str \<Rightarrow> config \<Rightarrow> config \<times> bytes list" where
  "load_file fs path c =
     (case fs path of
        Inl e \<Rightarrow> (c, [''cannot read '' @ utf8_encode path @ '': '' @ e])
      | Inr text \<Rightarrow> load_lines 1 (lines_of text) c)"

subsection \<open>The command line\<close>

definition USAGE :: bytes where
  "USAGE = ''usage: klyro [port [dump-file]] | klyro <config-file>''"

definition load_into :: "files \<Rightarrow> str \<Rightarrow> config \<Rightarrow> bytes + config" where
  "load_into fs path c =
     (let (c, problems) = load_file fs path c
      in if problems = [] then Inr c
         else Inl (utf8_encode path @ '':'' @ [CHR 0x0A] @ ''  '' @ join ([CHR 0x0A] @ ''  '') problems))"

text \<open>The positional arguments that follow a configuration file, if there was one.\<close>

definition positional :: "str list \<Rightarrow> config \<Rightarrow> bytes + config" where
  "positional rest c =
     (let c = (case rest of
                 [] \<Rightarrow> Inr c
               | p # _ \<Rightarrow>
                   (case str_parse_i64 p of
                      None \<Rightarrow> Inl USAGE
                    | Some n \<Rightarrow> if 1 \<le> n \<and> n \<le> 65535 then Inr (c\<lparr>port := nat n\<rparr>) else Inl USAGE))
      in case c of
           Inl e \<Rightarrow> Inl e
         | Inr c \<Rightarrow>
             (let c = (if 1 < length rest then c\<lparr>dbfilename := rest ! 1\<rparr> else c)
              in if 2 < length rest then Inl USAGE else Inr c))"

text \<open>The arguments after the program's name.\<close>

definition config_from_args :: "files \<Rightarrow> str list \<Rightarrow> bytes + config" where
  "config_from_args fs args =
     (case args of
        [] \<Rightarrow> positional [] default_config
      | first # others \<Rightarrow>
          if first = lit ''--config'' then
            (case others of
               [] \<Rightarrow> Inl USAGE
             | path # rest \<Rightarrow>
                 (case load_into fs path default_config of Inl e \<Rightarrow> Inl e | Inr c \<Rightarrow> positional rest c))
          else if str_parse_i64 first = None then
            (case load_into fs first default_config of Inl e \<Rightarrow> Inl e | Inr c \<Rightarrow> positional others c)
          else positional args default_config)"

text \<open>\<open>App::new\<close> and the load of the dump, as \<open>main\<close> does them before the event loop runs.\<close>

definition start_app :: "env \<Rightarrow> bytes option \<Rightarrow> config \<Rightarrow> app outcome" where
  "start_app E file c =
     (let a = new_app E c
      in case persist_load E file (mem_max_terms_per_doc (config a)) (store a) of
           Panicked \<Rightarrow> Panicked
         | Done st \<Rightarrow> Done (a\<lparr>store := st\<rparr>))"

subsection \<open>A configuration that starts is valid\<close>

lemma config_set_wf: "config_wf c \<Longrightarrow> snd (config_set c n v True) = None \<Longrightarrow> config_wf (fst (config_set c n v True))"
  using param_set_wf by (auto simp: config_set_def split: option.splits)

lemma load_line_wf: "config_wf c \<Longrightarrow> snd (load_line n l c) = None \<Longrightarrow> config_wf (fst (load_line n l c))"
  unfolding load_line_def Let_def by (auto simp: case_prod_beta intro: config_set_wf split: if_split_asm)

lemma load_lines_wf: "config_wf c \<Longrightarrow> snd (load_lines n ls c) = [] \<Longrightarrow> config_wf (fst (load_lines n ls c))"
proof (induction ls arbitrary: n c)
  case (Cons l ls)
  let ?c = "fst (load_line n l c)"
  have p: "snd (load_line n l c) = None" "snd (load_lines (n + 1) ls ?c) = []"
    using Cons.prems(2) by (auto simp: case_prod_beta Let_def split: option.splits)
  have "config_wf (fst (load_lines (n + 1) ls ?c))"
    using Cons.IH [OF load_line_wf [OF Cons.prems(1) p(1)] p(2)] .
  then show ?case by (simp add: case_prod_beta Let_def)
qed simp

lemma load_into_wf: "config_wf c \<Longrightarrow> load_into fs p c = Inr c' \<Longrightarrow> config_wf c'"
  using load_lines_wf
  by (auto simp: load_into_def load_file_def Let_def case_prod_beta split: sum.splits if_splits)

lemma positional_wf:
  assumes "config_wf c" and "positional rest c = Inr c'"
  shows "config_wf c' \<or> dbfilename c' = []"
proof -
  have w: "1 \<le> n \<Longrightarrow> n \<le> 65535 \<Longrightarrow> config_wf (c\<lparr>port := nat n\<rparr>)" for n :: int
    using assms(1) by (simp add: config_wf_def)
  have d: "config_wf x \<Longrightarrow> v \<noteq> [] \<Longrightarrow> config_wf (x\<lparr>dbfilename := v\<rparr>)" for x v
    by (simp add: config_wf_def)
  show ?thesis
    using assms w d by (auto simp: positional_def Let_def split: list.splits option.splits if_splits)
qed

text \<open>
  Every configuration the server starts with is one CONFIG SET could have made, whatever the file and the
  arguments say, except that the dump file given as the second argument may be the empty name, which
  the configuration file and CONFIG SET refuse.
\<close>

lemma started_config_wf:
  assumes "config_from_args fs args = Inr c"
  shows "config_wf c \<or> dbfilename c = []"
proof (cases args)
  case Nil
  then show ?thesis using assms positional_wf [OF default_config_wf] by (simp add: config_from_args_def)
next
  case (Cons first others)
  then show ?thesis
    using assms positional_wf default_config_wf load_into_wf [OF default_config_wf]
    by (fastforce simp: config_from_args_def split: list.splits sum.splits if_splits)
qed

lemma empty_dump_name: "config_from_args fs [lit ''1'', []] = Inr (default_config\<lparr>port := 1, dbfilename := []\<rparr>)"
proof -
  have "str_parse_i64 (lit ''1'') = Some 1" "lit ''1'' \<noteq> lit ''--config''"
    by (simp_all add: str_parse_i64_def parse_nat_def is_digit_def digits_val_def lit_def in_i64_def i64_min_def i64_max_def)
  then show ?thesis by (simp add: config_from_args_def positional_def)
qed

end
